(* ===== verification/Prelude.thy ===== *)
theory Prelude
  imports Main "HOL-Library.Word" "HOL-Library.Signed_Division"
begin

text \<open>
  Shared vocabulary of the development: the C types of the sources as HOL types, byte
  buffers with bounds (a read or write outside a buffer is \<open>None\<close>), the collections the
  component theories put their facts into, and the generic lemmas on lists and words that
  several of them use.
\<close>

unbundle bit_operations_syntax

text \<open>
  \<open>kernel_simps\<close> collects the equations that evaluate an operation under its
  precondition, \<open>kernel_invs\<close> the facts that an operation keeps an invariant.
\<close>

named_theorems kernel_simps
named_theorems kernel_invs

section \<open>Machine types\<close>

type_synonym byte = "8 word"
type_synonym u16 = "16 word"
type_synonym u32 = "32 word"
type_synonym u64 = "64 word"
type_synonym addr = nat
type_synonym memory = "nat \<Rightarrow> byte"

text \<open>
  Addresses are natural numbers (the machine has no paging and far less than \<open>2^64\<close> bytes);
  arithmetic that can leave the range of \<open>uint64_t\<close> writes its \<open>mod 2^64\<close> out. \<open>NULL\<close>
  is that of \<open>include/defs.h\<close>.
\<close>

abbreviation (input) NULL :: addr where "NULL \<equiv> 0"

section \<open>Byte buffers\<close>

text \<open>
  A C array of bytes is a list. \<open>peek_at\<close> and \<open>poke_at\<close> are one checked access;
  \<open>poke_list\<close> writes a run of bytes. The C code has no check: \<open>None\<close> is the undefined
  behaviour of an access outside the array.
\<close>

definition peek_at :: "'a list \<Rightarrow> nat \<Rightarrow> 'a option" where
  "peek_at b i = (if i < length b then Some (b ! i) else None)"

definition poke_at :: "'a list \<Rightarrow> nat \<Rightarrow> 'a \<Rightarrow> 'a list option" where
  "poke_at b i x = (if i < length b then Some (b[i := x]) else None)"

definition poke_list :: "'a list \<Rightarrow> nat \<Rightarrow> 'a list \<Rightarrow> 'a list option" where
  "poke_list b i xs =
     (if i + length xs \<le> length b then Some (take i b @ xs @ drop (i + length xs) b) else None)"

lemma poke_at_length: "poke_at b i x = Some b' \<Longrightarrow> length b' = length b"
  by (auto simp: poke_at_def split: if_splits)

lemma poke_list_length: "poke_list b i xs = Some b' \<Longrightarrow> length b' = length b"
  by (auto simp: poke_list_def split: if_splits)

lemma poke_list_nth:
  assumes "poke_list b i xs = Some b'" and "j < length b"
  shows "b' ! j = (if i \<le> j \<and> j < i + length xs then xs ! (j - i) else b ! j)"
proof -
  have fits: "i + length xs \<le> length b" and b': "b' = take i b @ xs @ drop (i + length xs) b"
    using assms(1) by (auto simp: poke_list_def split: if_splits)
  consider "j < i" | "i \<le> j" "j < i + length xs" | "i + length xs \<le> j" by linarith
  then show ?thesis
    using fits b' assms(2) by cases (auto simp: nth_append min_def)
qed

text \<open>The \<open>n\<close> low bytes of a number, least significant first, as the processor stores them.\<close>

definition le_bytes :: "nat \<Rightarrow> nat \<Rightarrow> byte list" where
  "le_bytes n v = map (\<lambda>i. of_nat (v div 256 ^ i)) [0..<n]"

lemma length_le_bytes [simp]: "length (le_bytes n v) = n"
  by (simp add: le_bytes_def)

section \<open>Strings in buffers\<close>

text \<open>
  The string a buffer holds: the bytes before the first NUL. \<open>terminated\<close> says that there
  is one. \<open>bytes\<close> turns a literal into the bytes of the C literal, terminator excluded.
\<close>

definition cstr :: "byte list \<Rightarrow> byte list" where
  "cstr b = takeWhile (\<lambda>c. c \<noteq> 0) b"

definition terminated :: "byte list \<Rightarrow> bool" where
  "terminated b \<longleftrightarrow> 0 \<in> set b"

definition bytes :: "string \<Rightarrow> byte list" where
  "bytes s = map (\<lambda>c. of_nat (of_char c)) s"

definition cstring :: "string \<Rightarrow> byte list" where
  "cstring s = bytes s @ [0]"

lemma cstr_Nil [simp]: "cstr [] = []"
  by (simp add: cstr_def)

lemma cstr_Cons [simp]: "cstr (c # b) = (if c = 0 then [] else c # cstr b)"
  by (simp add: cstr_def)

lemma cstr_append_NUL [simp]: "0 \<notin> set s \<Longrightarrow> cstr (s @ 0 # b) = s"
  by (induction s) auto

lemma terminated_Nil [simp]: "\<not> terminated []"
  by (simp add: terminated_def)

lemma terminated_Cons [simp]: "terminated (c # b) \<longleftrightarrow> c = 0 \<or> terminated b"
  by (auto simp: terminated_def)

lemma terminated_append [simp]: "terminated (a @ b) \<longleftrightarrow> terminated a \<or> terminated b"
  by (auto simp: terminated_def)

lemma cstr_no_NUL [simp]: "0 \<notin> set (cstr b)"
  by (induction b) auto

lemma cstr_length_terminated: "terminated b \<Longrightarrow> length (cstr b) < length b"
  by (induction b) auto

lemma cstr_length_le: "length (cstr b) \<le> length b"
  by (induction b) auto

lemma cstr_nth: "i < length (cstr b) \<Longrightarrow> b ! i = cstr b ! i"
  by (induction b arbitrary: i) (auto simp: nth_Cons split: if_splits nat.splits)

lemma cstr_at_end: "terminated b \<Longrightarrow> b ! length (cstr b) = 0"
  by (induction b) auto

lemma cstr_split: "terminated b \<Longrightarrow> \<exists>r. b = cstr b @ 0 # r"
  by (induction b) auto

section \<open>Lists\<close>

lemma nth_upd_same [simp]: "i < length xs \<Longrightarrow> xs[i := xs ! i] = xs"
  by simp

lemma length_filter_update:
  "i < length xs \<Longrightarrow>
   length (filter P (xs[i := x])) + (if P (xs ! i) then 1 else 0) =
   length (filter P xs) + (if P x then 1 else 0)"
proof (induction xs arbitrary: i)
  case (Cons y ys)
  then show ?case
    by (cases i) (fastforce, force)
qed simp

lemma filter_length_pos: "i < length xs \<Longrightarrow> P (xs ! i) \<Longrightarrow> 0 < length (filter P xs)"
  by (metis filter_empty_conv length_greater_0_conv nth_mem)

text \<open>A counting loop that assigns every index below \<open>n\<close> once.\<close>

lemma foldl_update_upt:
  "n \<le> length xs \<Longrightarrow> foldl (\<lambda>ps i. ps[i := f i]) xs [0..<n] = map f [0..<n] @ drop n xs"
proof (induction n)
  case (Suc n)
  then have "drop n xs = xs ! n # drop (Suc n) xs" by (simp add: Cons_nth_drop_Suc)
  with Suc show ?case by (simp add: list_update_append)
qed simp

lemma drop_update_before: "i < n \<Longrightarrow> drop n (xs[i := x]) = drop n xs"
  by simp

lemma drop_update_at: "i < length xs \<Longrightarrow> drop i (xs[i := x]) = x # drop (Suc i) xs"
  by (simp add: Cons_nth_drop_Suc [symmetric])

end
