(* ===== verification/QueueADT.thy ===== *)
theory QueueADT
  imports Prelude "HOL-Library.Multiset"
begin

text \<open>
  \<open>Kernel/queueADT.c\<close>: a linked queue with \<open>first\<close> and \<open>last\<close> pointers, one page per node,
  and \<open>Kernel/intLinkedlistADT.c\<close>, a linked list of integers. The nodes live in a partial
  map from addresses; using an address that holds no node is \<open>None\<close>. Where the code calls
  \<open>get_page\<close> the operation takes the new page as an argument, where it calls \<open>store_page\<close> it
  returns the page; theory \<open>KernelMutex\<close> connects both to the allocator.
\<close>

section \<open>The linked queue\<close>

record qnode =
  elem :: addr
  qnext :: addr

record queue =
  nodes_of :: "addr \<rightharpoonup> qnode"
  first :: addr
  last :: addr

definition create_queue :: queue where
  "create_queue = \<lparr>nodes_of = Map.empty, first = NULL, last = NULL\<rparr>"

definition is_empty :: "queue \<Rightarrow> bool" where
  "is_empty q \<longleftrightarrow> first q = NULL"

definition enqueue :: "addr \<Rightarrow> addr \<Rightarrow> queue \<Rightarrow> queue option" where
  "enqueue new_node x q =
     (let h = (nodes_of q)(new_node \<mapsto> \<lparr>elem = x, qnext = NULL\<rparr>)
      in if first q = NULL then Some (q\<lparr>nodes_of := h, first := new_node, last := new_node\<rparr>)
         else case h (last q) of
           None \<Rightarrow> None
         | Some l \<Rightarrow> Some (q\<lparr>nodes_of := h(last q \<mapsto> l\<lparr>qnext := new_node\<rparr>), last := new_node\<rparr>))"

text \<open>\<open>peek\<close> and \<open>dequeue\<close> return \<open>NULL\<close> for an empty queue.\<close>

definition peek :: "queue \<Rightarrow> addr option" where
  "peek q = (if is_empty q then Some NULL else map_option elem (nodes_of q (first q)))"

text \<open>The element, the page of the removed node (\<open>NULL\<close> when there is none), the queue left.\<close>

definition dequeue :: "queue \<Rightarrow> (addr \<times> addr \<times> queue) option" where
  "dequeue q =
     (if is_empty q then Some (NULL, NULL, q)
      else case nodes_of q (first q) of
        None \<Rightarrow> None
      | Some f \<Rightarrow>
          Some (elem f, first q,
            (let q' = q\<lparr>nodes_of := (nodes_of q)(first q := None), first := qnext f\<rparr>
             in if first q' = NULL then q'\<lparr>last := NULL\<rparr> else q')))"

text \<open>\<open>destroy_queue\<close> dequeues until the queue is empty; the result is the pages it frees.\<close>

partial_function (option) destroy_queue :: "queue \<Rightarrow> addr list option" where
  "destroy_queue q =
     (if is_empty q then Some []
      else Option.bind (dequeue q) (\<lambda>(x, page, q').
             Option.bind (destroy_queue q') (\<lambda>pages. Some (page # pages))))"

section \<open>The interface: a FIFO queue\<close>

text \<open>
  Runs of one operation, over any queue: enqueue the elements of a list, each on its page;
  dequeue \<open>n\<close> times and collect what comes out.
\<close>

primrec enq_all :: "(addr \<Rightarrow> addr \<Rightarrow> 'q \<Rightarrow> 'q option) \<Rightarrow> (addr \<times> addr) list \<Rightarrow> 'q \<Rightarrow> 'q option" where
  "enq_all enq [] q = Some q"
| "enq_all enq (ax # axs) q = Option.bind (enq (fst ax) (snd ax) q) (enq_all enq axs)"

primrec deq_many ::
  "('q \<Rightarrow> (addr \<times> addr \<times> 'q) option) \<Rightarrow> nat \<Rightarrow> 'q \<Rightarrow> ((addr \<times> addr) list \<times> 'q) option" where
  "deq_many deq 0 q = Some ([], q)"
| "deq_many deq (Suc n) q =
     Option.bind (deq q) (\<lambda>(x, a, q'). map_option (\<lambda>(r, q''). ((a, x) # r, q'')) (deq_many deq n q'))"

text \<open>
  \<open>holds q xs\<close>: the queue holds the elements \<open>xs\<close> in order, each with the page of its node.
\<close>

locale fifo_queue =
  fixes empty_q :: "'q"
    and empty_test :: "'q \<Rightarrow> bool"
    and enq :: "addr \<Rightarrow> addr \<Rightarrow> 'q \<Rightarrow> 'q option"
    and peek_q :: "'q \<Rightarrow> addr option"
    and deq :: "'q \<Rightarrow> (addr \<times> addr \<times> 'q) option"
    and holds :: "'q \<Rightarrow> (addr \<times> addr) list \<Rightarrow> bool"
  assumes holds_empty: "holds empty_q []"
    and empty_test: "holds q xs \<Longrightarrow> empty_test q \<longleftrightarrow> xs = []"
    and enq: "holds q xs \<Longrightarrow> a \<noteq> NULL \<Longrightarrow> a \<notin> fst ` set xs \<Longrightarrow>
      \<exists>q'. enq a x q = Some q' \<and> holds q' (xs @ [(a, x)])"
    and peek_q: "holds q ((a, x) # xs) \<Longrightarrow> peek_q q = Some x"
    and deq: "holds q ((a, x) # xs) \<Longrightarrow> \<exists>q'. deq q = Some (x, a, q') \<and> holds q' xs"
begin

lemma enq_all_holds:
  "holds q xs \<Longrightarrow> distinct (map fst (xs @ ys)) \<Longrightarrow> NULL \<notin> fst ` set ys \<Longrightarrow>
   \<exists>q'. enq_all enq ys q = Some q' \<and> holds q' (xs @ ys)"
proof (induction ys arbitrary: q xs)
  case (Cons ax ys)
  obtain a x where ax: "ax = (a, x)" by force
  with Cons.prems have "a \<noteq> NULL" "a \<notin> fst ` set xs" by auto
  from enq [OF Cons.prems(1) this, of x] obtain q1 where
    q1: "enq a x q = Some q1" "holds q1 (xs @ [(a, x)])" by blast
  from Cons.IH [OF q1(2)] Cons.prems q1(1) ax show ?case by auto
qed simp

lemma deq_many_holds:
  "holds q (xs @ ys) \<Longrightarrow> \<exists>q'. deq_many deq (length xs) q = Some (xs, q') \<and> holds q' ys"
proof (induction xs arbitrary: q)
  case (Cons ax xs)
  obtain a x where ax: "ax = (a, x)" by force
  with Cons.prems deq obtain q1 where q1: "deq q = Some (x, a, q1)" "holds q1 (xs @ ys)"
    by (metis append_Cons)
  from Cons.IH [OF q1(2)] q1(1) ax show ?case by auto
qed simp

end

section \<open>The linked queue provides it\<close>

primrec linked :: "(addr \<rightharpoonup> qnode) \<Rightarrow> addr \<Rightarrow> (addr \<times> addr) list \<Rightarrow> bool" where
  "linked h p [] \<longleftrightarrow> p = NULL"
| "linked h p (ax # axs) \<longleftrightarrow>
     p = fst ax \<and> p \<noteq> NULL \<and> (\<exists>n. h p = Some \<lparr>elem = snd ax, qnext = n\<rparr> \<and> linked h n axs)"

definition queue_holds :: "queue \<Rightarrow> (addr \<times> addr) list \<Rightarrow> bool" where
  "queue_holds q xs \<longleftrightarrow> linked (nodes_of q) (first q) xs \<and> distinct (map fst xs) \<and>
     last q = (if xs = [] then NULL else fst (List.last xs))"

lemma linked_frame: "linked h p xs \<Longrightarrow> a \<notin> fst ` set xs \<Longrightarrow> linked (h(a := v)) p xs"
  by (induction xs arbitrary: p) auto

lemma linked_snoc:
  "linked h p (xs @ [(l, y)]) \<Longrightarrow> distinct (map fst (xs @ [(l, y)])) \<Longrightarrow>
   a \<notin> fst ` set (xs @ [(l, y)]) \<Longrightarrow> a \<noteq> NULL \<Longrightarrow>
   linked (h(a \<mapsto> \<lparr>elem = x, qnext = NULL\<rparr>, l \<mapsto> \<lparr>elem = y, qnext = a\<rparr>)) p (xs @ [(l, y), (a, x)])"
  by (induction xs arbitrary: p) auto

lemma linked_last: "linked h p (xs @ [(l, y)]) \<Longrightarrow> h l = Some \<lparr>elem = y, qnext = NULL\<rparr>"
  by (induction xs arbitrary: p) auto

lemma queue_holds_empty: "queue_holds create_queue []"
  by (simp add: queue_holds_def create_queue_def)

lemma queue_holds_enqueue:
  assumes "queue_holds q xs" "a \<noteq> NULL" "a \<notin> fst ` set xs"
  shows "\<exists>q'. enqueue a x q = Some q' \<and> queue_holds q' (xs @ [(a, x)])"
proof (cases xs rule: rev_cases)
  case Nil
  with assms show ?thesis by (auto simp: queue_holds_def enqueue_def)
next
  case (snoc ys ly)
  obtain l y where ly: "ly = (l, y)" by force
  from assms snoc ly have
    q: "linked (nodes_of q) (first q) (ys @ [(l, y)])" "distinct (map fst (ys @ [(l, y)]))" "last q = l"
    by (auto simp: queue_holds_def)
  then have "first q \<noteq> NULL" "nodes_of q l = Some \<lparr>elem = y, qnext = NULL\<rparr>" "a \<noteq> l"
    using assms(3) snoc ly linked_last by (cases ys; auto)+
  moreover note linked_snoc [OF q(1,2), of a x]
  ultimately show ?thesis
    using assms snoc ly q by (auto simp: queue_holds_def enqueue_def Let_def)
qed

lemma queue_holds_dequeue:
  assumes "queue_holds q ((a, x) # xs)"
  shows "\<exists>q'. dequeue q = Some (x, a, q') \<and> queue_holds q' xs"
proof -
  from assms obtain n where
    n: "first q = a" "a \<noteq> NULL" "nodes_of q a = Some \<lparr>elem = x, qnext = n\<rparr>" "linked (nodes_of q) n xs"
      "distinct (a # map fst xs)"
    by (auto simp: queue_holds_def)
  moreover from n have "linked ((nodes_of q)(a := None)) n xs" by (auto intro: linked_frame)
  moreover have "n = NULL \<longleftrightarrow> xs = []" using n(4) by (cases xs) auto
  ultimately show ?thesis
    using assms by (cases "xs = []") (auto simp: queue_holds_def dequeue_def is_empty_def Let_def)
qed

interpretation lq: fifo_queue create_queue is_empty enqueue peek dequeue queue_holds
proof
  show "queue_holds create_queue []" by (rule queue_holds_empty)
  show "is_empty q \<longleftrightarrow> xs = []" if "queue_holds q xs" for q xs
    using that by (cases xs) (auto simp: queue_holds_def is_empty_def)
  show "\<exists>q'. enqueue a x q = Some q' \<and> queue_holds q' (xs @ [(a, x)])"
    if "queue_holds q xs" "a \<noteq> NULL" "a \<notin> fst ` set xs" for q xs a x
    using queue_holds_enqueue that by blast
  show "peek q = Some x" if "queue_holds q ((a, x) # xs)" for q a x xs
    using that by (auto simp: queue_holds_def peek_def is_empty_def)
  show "\<exists>q'. dequeue q = Some (x, a, q') \<and> queue_holds q' xs"
    if "queue_holds q ((a, x) # xs)" for q a x xs
    using queue_holds_dequeue that by blast
qed

lemma destroy_queue_holds: "queue_holds q xs \<Longrightarrow> destroy_queue q = Some (map fst xs)"
proof (induction xs arbitrary: q)
  case Nil
  then show ?case by (subst destroy_queue.simps) (simp add: lq.empty_test)
next
  case (Cons ax xs)
  obtain a x where ax: "ax = (a, x)" by force
  with Cons.prems lq.deq obtain q1 where "dequeue q = Some (x, a, q1)" "queue_holds q1 xs" by blast
  with Cons ax lq.empty_test [OF Cons.prems] show ?case
    by (subst destroy_queue.simps) simp
qed

text \<open>
  The linked queue of the kernel is a FIFO: enqueuing any elements on fresh pages and then
  dequeuing as many returns exactly these elements and these pages, in order, and leaves an
  empty queue; \<open>destroy_queue\<close> instead returns and gives back every page.
\<close>

theorem queue_fifo:
  assumes "distinct (map fst axs)" "NULL \<notin> fst ` set axs"
  shows "\<exists>q q'. enq_all enqueue axs create_queue = Some q \<and>
    deq_many dequeue (length axs) q = Some (axs, q') \<and> is_empty q' \<and>
    destroy_queue q = Some (map fst axs)"
proof -
  obtain q where q: "enq_all enqueue axs create_queue = Some q" "queue_holds q axs"
    using lq.enq_all_holds [OF queue_holds_empty, of axs] assms by auto
  moreover obtain q' where "deq_many dequeue (length axs) q = Some (axs, q')" "queue_holds q' []"
    using lq.deq_many_holds [of q axs "[]"] q(2) by auto
  ultimately show ?thesis using destroy_queue_holds lq.empty_test by blast
qed

theorem queue_fifo_witness:
  "distinct (map fst [(7 :: addr, 1), (9, 2 :: addr)]) \<and> NULL \<notin> fst ` set [(7 :: addr, 1), (9, 2 :: addr)] \<and>
   (\<exists>q q'. enq_all enqueue [(7, 1), (9, 2)] create_queue = Some q \<and>
     deq_many dequeue (length [(7 :: addr, 1), (9, 2 :: addr)]) q = Some ([(7, 1), (9, 2)], q') \<and> is_empty q' \<and>
     destroy_queue q = Some [7, 9])"
proof -
  have d: "distinct (map fst [(7 :: addr, 1), (9, 2 :: addr)])" "NULL \<notin> fst ` set [(7 :: addr, 1), (9, 2 :: addr)]"
    by simp_all
  have "map fst [(7 :: addr, 1), (9, 2 :: addr)] = [7, 9]" by simp
  with d queue_fifo [OF d] show ?thesis by metis
qed

section \<open>The list of integers\<close>

text \<open>
  A list of nodes, each with its page. \<open>insert_int\<close> and \<open>remove_int\<close> are the code's; the
  recursion of \<open>remove_int_rec\<close> is that of the list. The pages freed come with the result.
\<close>

type_synonym int_list = "(addr \<times> int) list"

definition create_list :: int_list where "create_list = []"

definition insert_int :: "addr \<Rightarrow> int_list \<Rightarrow> int \<Rightarrow> int_list" where
  "insert_int n l num = (n, num) # l"

fun remove_int_rec :: "int \<Rightarrow> int_list \<Rightarrow> int_list \<times> addr list" where
  "remove_int_rec num [] = ([], [])"
| "remove_int_rec num ((a, x) # l) =
     (if x = num then (l, [a])
      else case remove_int_rec num l of (l', freed) \<Rightarrow> ((a, x) # l', freed))"

definition remove_int :: "int_list \<Rightarrow> int \<Rightarrow> int_list \<times> addr list" where
  "remove_int l num = remove_int_rec num l"

fun destroy_int_list :: "int_list \<Rightarrow> addr list" where
  "destroy_int_list [] = []"
| "destroy_int_list ((a, x) # l) = a # destroy_int_list l"

lemma remove_int_first: "map snd (fst (remove_int l num)) = remove1 num (map snd l)"
  by (induction l) (auto simp: remove_int_def split: prod.splits)

lemma remove_insert_int: "remove_int (insert_int n l num) num = (l, [n])"
  by (simp add: remove_int_def insert_int_def)

lemma int_list_pages:
  "mset (destroy_int_list (fst (remove_int l num))) + mset (snd (remove_int l num)) = mset (destroy_int_list l)"
  by (induction l) (auto simp: remove_int_def split: prod.splits)

end
