(* ===== verification/CType.thy ===== *)
theory CType
  imports Prelude
begin

text \<open>
  \<open>Kernel/ctype.c\<close>, which \<open>Userland/SampleCodeModule/ctype.c\<close> repeats word for word:
  the classification of a character code. The argument is a C \<open>int\<close>; the results 0 and 1
  are Booleans.
\<close>

definition isdigit :: "int \<Rightarrow> bool" where
  "isdigit c \<longleftrightarrow> c \<ge> 48 \<and> c \<le> 57"

definition islower :: "int \<Rightarrow> bool" where
  "islower c \<longleftrightarrow> c \<ge> 97 \<and> c \<le> 122"

definition isupper :: "int \<Rightarrow> bool" where
  "isupper c \<longleftrightarrow> c \<ge> 65 \<and> c \<le> 90"

definition isalpha :: "int \<Rightarrow> bool" where
  "isalpha c \<longleftrightarrow> islower c \<or> isupper c"

definition isalnum :: "int \<Rightarrow> bool" where
  "isalnum c \<longleftrightarrow> isalpha c \<or> isdigit c"

definition isblank :: "int \<Rightarrow> bool" where
  "isblank c \<longleftrightarrow> c = 9 \<or> c = 32"

definition isprint :: "int \<Rightarrow> bool" where
  "isprint c \<longleftrightarrow> c > 0x1F \<and> c \<noteq> 0x7F"

definition iscntrl :: "int \<Rightarrow> bool" where
  "iscntrl c \<longleftrightarrow> \<not> isprint c"

definition isgraph :: "int \<Rightarrow> bool" where
  "isgraph c \<longleftrightarrow> isprint c \<and> c \<noteq> 32"

definition ispunct :: "int \<Rightarrow> bool" where
  "ispunct c \<longleftrightarrow> isgraph c \<and> \<not> isalnum c"

definition isspace :: "int \<Rightarrow> bool" where
  "isspace c \<longleftrightarrow> isblank c \<or> c = 11 \<or> c = 12 \<or> c = 13 \<or> c = 10"

definition isxdigit :: "int \<Rightarrow> bool" where
  "isxdigit c \<longleftrightarrow> isdigit c \<or> (c \<ge> 97 \<and> c \<le> 102) \<or> (c \<ge> 65 \<and> c \<le> 70)"

lemmas ctype_defs = isdigit_def islower_def isupper_def isalpha_def isalnum_def isblank_def
  isprint_def iscntrl_def isgraph_def ispunct_def isspace_def isxdigit_def

lemma digit_not_space: "isdigit c \<Longrightarrow> \<not> isspace c"
  by (auto simp: ctype_defs)

text \<open>
  The classes fit together as the C standard has them for the codes up to 0x7F: letters,
  digits and punctuation partition the visible characters, and a white space is never one.
\<close>

lemma isgraph_partition:
  "isgraph c \<longleftrightarrow> (isalpha c \<or> isdigit c \<or> ispunct c) "
  by (auto simp: ctype_defs)

lemma ctype_disjoint:
  "\<not> (isalpha c \<and> isdigit c)" "\<not> (ispunct c \<and> isalnum c)" "\<not> (isspace c \<and> isgraph c)"
  by (auto simp: ctype_defs)

end
