(* ===== verification/CStrings.thy ===== *)
theory CStrings
  imports CType
begin

text \<open>
  \<open>Kernel/strings.c\<close> and \<open>Userland/SampleCodeModule/strings.c\<close>: string routines on
  NUL-terminated buffers. A buffer is the list of the bytes from the pointer to the end of
  its array. A loop that runs past the end of a source buffer, or stores past the end of a
  destination, is \<open>None\<close>. The loop index, an \<open>int\<close>, counts bytes of a buffer and is
  a \<open>nat\<close>: a buffer of \<open>2^31\<close> bytes does not fit the 1 MB stacks and 4 KB pages of this
  machine.
\<close>

section \<open>Length and comparison\<close>

fun str_len :: "byte list \<Rightarrow> nat option" where
  "str_len [] = None"
| "str_len (c # s) = (if c = 0 then Some 0 else map_option Suc (str_len s))"

text \<open>
  The kernel's \<open>strncmp\<close>: the loop stops at index \<open>n\<close>, at the end of a string or at a
  difference, and the function returns the difference of the bytes there, each promoted
  src a signed \<open>char\<close>.
\<close>

fun strncmp :: "byte list \<Rightarrow> byte list \<Rightarrow> nat \<Rightarrow> int option" where
  "strncmp (a # s) (b # t) n =
     (if 0 < n \<and> a \<noteq> 0 \<and> b \<noteq> 0 \<and> a = b then strncmp s t (n - 1)
      else Some (sint a - sint b))"
| "strncmp _ _ _ = None"

definition UINT_MAX :: nat where "UINT_MAX = 4294967295"

definition strcmp :: "byte list \<Rightarrow> byte list \<Rightarrow> int option" where
  "strcmp s t = strncmp s t UINT_MAX"

text \<open>
  Userland compares \<open>i < n-1\<close>, in unsigned arithmetic: with \<open>n = 0\<close> the bound is
  \<open>UINT_MAX\<close>.
\<close>

fun strncmp_u_loop :: "byte list \<Rightarrow> byte list \<Rightarrow> nat \<Rightarrow> nat \<Rightarrow> int option" where
  "strncmp_u_loop (a # s) (b # t) i bound =
     (if i < bound \<and> a \<noteq> 0 \<and> b \<noteq> 0 \<and> a = b then strncmp_u_loop s t (Suc i) bound
      else Some (sint a - sint b))"
| "strncmp_u_loop _ _ _ _ = None"

definition strncmp_u :: "byte list \<Rightarrow> byte list \<Rightarrow> u32 \<Rightarrow> int option" where
  "strncmp_u s t n = strncmp_u_loop s t 0 (unat (n - 1))"

definition strcmp_u :: "byte list \<Rightarrow> byte list \<Rightarrow> int option" where
  "strcmp_u s t = strncmp_u s t (of_nat UINT_MAX)"

section \<open>Copying\<close>

text \<open>\<open>strcpy\<close> stores byte \<open>i\<close> of the source at index \<open>i\<close> of the destination, then the
  terminator; it returns the length copied.\<close>

fun strcpy_loop :: "byte list \<Rightarrow> byte list \<Rightarrow> nat \<Rightarrow> (byte list \<times> nat) option" where
  "strcpy_loop dst [] i = None"
| "strcpy_loop dst (c # src) i =
     (if c \<noteq> 0 then Option.bind (poke_at dst i c) (\<lambda>dst'. strcpy_loop dst' src (Suc i))
      else map_option (\<lambda>dst'. (dst', i)) (poke_at dst i 0))"

definition strcpy :: "byte list \<Rightarrow> byte list \<Rightarrow> (byte list \<times> nat) option" where
  "strcpy dst src = strcpy_loop dst src 0"

text \<open>
  \<open>strcpynto\<close> stops at \<open>limit\<close> or after \<open>n\<close> bytes. In the kernel \<open>n\<close> is an \<open>int\<close>, so
  \<open>strcpyto\<close>, which passes \<open>UINT_MAX\<close>, passes \<open>-1\<close>; in userland it is unsigned.
\<close>

fun strcpynto_loop ::
  "byte list \<Rightarrow> byte list \<Rightarrow> byte \<Rightarrow> int \<Rightarrow> nat \<Rightarrow> (byte list \<times> nat) option" where
  "strcpynto_loop dst src limit n i =
     (if int i < n then
        (case src of
           [] \<Rightarrow> None
         | c # rest \<Rightarrow>
             if c \<noteq> 0 \<and> c \<noteq> limit
             then Option.bind (poke_at dst i c) (\<lambda>dst'. strcpynto_loop dst' rest limit n (Suc i))
             else map_option (\<lambda>dst'. (dst', i)) (poke_at dst i 0))
      else map_option (\<lambda>dst'. (dst', i)) (poke_at dst i 0))"

declare strcpynto_loop.simps [simp del]

definition strcpynto :: "byte list \<Rightarrow> byte list \<Rightarrow> byte \<Rightarrow> u32 \<Rightarrow> (byte list \<times> nat) option" where
  "strcpynto dst src limit n = strcpynto_loop dst src limit (sint n) 0"

definition strcpyto :: "byte list \<Rightarrow> byte list \<Rightarrow> byte \<Rightarrow> (byte list \<times> nat) option" where
  "strcpyto dst src limit = strcpynto dst src limit (of_nat UINT_MAX)"

definition strcpynto_u :: "byte list \<Rightarrow> byte list \<Rightarrow> byte \<Rightarrow> u32 \<Rightarrow> (byte list \<times> nat) option" where
  "strcpynto_u dst src limit n = strcpynto_loop dst src limit (uint n) 0"

definition strcpyto_u :: "byte list \<Rightarrow> byte list \<Rightarrow> byte \<Rightarrow> (byte list \<times> nat) option" where
  "strcpyto_u dst src limit = strcpynto_u dst src limit (of_nat UINT_MAX)"

section \<open>Facts\<close>

lemma str_len_terminated [simp]: "terminated b \<Longrightarrow> str_len b = Some (length (cstr b))"
  by (induction b) auto

lemma str_len_None: "\<not> terminated b \<Longrightarrow> str_len b = None"
  by (induction b) auto

text \<open>The exact result of \<open>strcpy\<close>, and that it fails exactly when the string does not fit.\<close>

lemma strcpy_loop_result:
  "terminated src \<Longrightarrow> i + length (cstr src) < length dst \<Longrightarrow>
   strcpy_loop dst src i =
     Some (take i dst @ cstr src @ 0 # drop (Suc (i + length (cstr src))) dst, i + length (cstr src))"
proof (induction src arbitrary: dst i)
  case (Cons c src)
  show ?case
  proof (cases "c = 0")
    case True
    with Cons.prems show ?thesis by (simp add: poke_at_def upd_conv_take_nth_drop)
  next
    case False
    with Cons.prems have "terminated src" "Suc i + length (cstr src) < length (dst[i := c])" by auto
    from Cons.IH [OF this] False Cons.prems show ?thesis
      by (simp add: poke_at_def take_Suc_conv_app_nth)
  qed
qed simp

lemma strcpy_loop_overflow:
  "length dst \<le> i + length (cstr src) \<Longrightarrow> strcpy_loop dst src i = None"
proof (induction src arbitrary: dst i)
  case (Cons c src)
  then show ?case by (auto simp: poke_at_def split: if_splits)
qed simp

lemma strcpy_loop_unterminated: "\<not> terminated src \<Longrightarrow> strcpy_loop dst src i = None"
proof (induction src arbitrary: dst i)
  case (Cons c src)
  then show ?case by (auto simp: poke_at_def)
qed simp

lemma strcpy_result:
  "terminated src \<Longrightarrow> length (cstr src) < length dst \<Longrightarrow>
   strcpy dst src = Some (cstr src @ 0 # drop (Suc (length (cstr src))) dst, length (cstr src))"
  by (simp add: strcpy_def strcpy_loop_result)

lemma strcpy_Some_iff:
  "(\<exists>r. strcpy dst src = Some r) \<longleftrightarrow> terminated src \<and> length (cstr src) < length dst"
  by (metis linorder_not_less option.distinct(1) strcpy_def strcpy_loop_overflow
      strcpy_loop_unterminated strcpy_result add_0)

lemma strcpy_cstr:
  assumes "strcpy dst src = Some (dst', n)"
  shows "cstr dst' = cstr src" "n = length (cstr src)" "length dst' = length dst" "terminated dst'"
proof -
  have *: "terminated src" "length (cstr src) < length dst"
    using assms strcpy_Some_iff by blast+
  from assms strcpy_result [OF this]
  have "dst' = cstr src @ 0 # drop (Suc (length (cstr src))) dst" "n = length (cstr src)" by auto
  with * show "cstr dst' = cstr src" "n = length (cstr src)" "length dst' = length dst" "terminated dst'"
    by auto
qed

text \<open>Comparison of whole strings: zero exactly for equal ones.\<close>

lemma sint_byte_eq_iff [simp]: "sint (a :: byte) - sint b = 0 \<longleftrightarrow> a = b"
  by (metis eq_iff_diff_eq_0 signed_word_eqI)

lemma sint_eq_simps [simp]:
  "sint (a :: byte) = sint b \<longleftrightarrow> a = b" "sint (a :: byte) = 0 \<longleftrightarrow> a = 0" "0 = sint (a :: byte) \<longleftrightarrow> a = 0"
  by (metis signed_word_eqI signed_0)+

lemma strncmp_zero_iff:
  "terminated s \<Longrightarrow> terminated t \<Longrightarrow> length (cstr s) < n \<Longrightarrow>
   \<exists>d. strncmp s t n = Some d \<and> (d = 0 \<longleftrightarrow> cstr s = cstr t)"
proof (induction s t n rule: strncmp.induct)
  case (1 a s b t n)
  then show ?case
    by (cases "0 < n \<and> a \<noteq> 0 \<and> b \<noteq> 0 \<and> a = b") auto
qed auto

lemma strcmp_zero_iff:
  assumes "terminated s" "terminated t" "length (cstr s) < UINT_MAX"
  shows "strcmp s t = Some 0 \<longleftrightarrow> cstr s = cstr t" and "\<exists>d. strcmp s t = Some d"
  using strncmp_zero_iff [OF assms] by (auto simp: strcmp_def)

text \<open>The two versions of \<open>strncmp\<close> differ by one in the number of bytes they look at.\<close>

lemma strncmp_u_loop_shift: "strncmp_u_loop s t i (i + n) = strncmp s t n"
proof (induction s t n arbitrary: i rule: strncmp.induct)
  case (1 a s b t n)
  show ?case
  proof (cases "0 < n \<and> a \<noteq> 0 \<and> b \<noteq> 0 \<and> a = b")
    case True
    then have "Suc i + (n - 1) = i + n" by simp
    with True "1.IH" [OF True, of "Suc i"] show ?thesis by simp
  next
    case False
    then show ?thesis by auto
  qed
qed auto

lemma strncmp_u_eq: "strncmp_u s t n = strncmp s t (unat (n - 1))"
  using strncmp_u_loop_shift [of s t 0 "unat (n - 1)"] by (simp add: strncmp_u_def)

text \<open>
  The two implementations of \<open>strncmp\<close> in the repository disagree by one: the kernel's
  \<open>strncmp(s, t, n)\<close> looks at \<open>n + 1\<close> bytes, so it is userland's \<open>strncmp(s, t, n + 1)\<close>
  on all buffers, for every bound that does not wrap.
\<close>

theorem strncmp_kernel_userland:
  assumes "n < UINT_MAX"
  shows "strncmp s t n = strncmp_u s t (of_nat n + 1)"
  using assms by (simp add: strncmp_u_eq UINT_MAX_def unat_of_nat)

theorem strncmp_kernel_userland_witness:
  "(2::nat) < UINT_MAX \<and> strncmp [97, 98, 99, 0] [97, 98, 100, 0] 2 = Some (-1) \<and>
   strncmp_u [97, 98, 99, 0] [97, 98, 100, 0] 3 = Some (-1) \<and>
   strncmp_u [97, 98, 99, 0] [97, 98, 100, 0] 2 = Some 0"
proof -
  have bound: "(2::nat) < UINT_MAX" by (simp add: UINT_MAX_def)
  have "strncmp [97, 98, 99, 0] [97, 98, 100, 0] 2 = Some (-1)" by simp
  moreover have "strncmp_u [97, 98, 99, 0] [97, 98, 100, 0] 2 = Some 0"
    by (simp add: strncmp_u_eq)
  ultimately show ?thesis
    using bound strncmp_kernel_userland [OF bound, of "[97, 98, 99, 0]" "[97, 98, 100, 0]"] by simp
qed

end
