(* ===== verification/CLib.thy ===== *)
theory CLib
  imports CStrings
begin

text \<open>
  \<open>Kernel/lib.c\<close> (\<open>memset\<close>, \<open>memcpy\<close>, \<open>itoa\<close>, \<open>atoi\<close>), repeated in
  \<open>Userland/SampleCodeModule/stdlib.c\<close>, and the number printer of \<open>Kernel/naiveConsole.c\<close>.
\<close>

section \<open>Memory blocks\<close>

text \<open>\<open>while (length--) dst[length] = chr\<close>: from the last byte down to the first.\<close>

primrec memset_loop :: "memory \<Rightarrow> addr \<Rightarrow> byte \<Rightarrow> nat \<Rightarrow> memory" where
  "memset_loop m dst chr 0 = m"
| "memset_loop m dst chr (Suc n) = memset_loop (m(dst + n := chr)) dst chr n"

definition memset :: "memory \<Rightarrow> addr \<Rightarrow> int \<Rightarrow> nat \<Rightarrow> memory" where
  "memset m dst c len = memset_loop m dst (word_of_int c) len"

text \<open>
  The two loops of \<open>memcpy\<close>, forwards. A 32-bit load and store moves four bytes at once.
\<close>

definition store32 :: "memory \<Rightarrow> addr \<Rightarrow> byte \<times> byte \<times> byte \<times> byte \<Rightarrow> memory" where
  "store32 m d v = (case v of (b0, b1, b2, b3) \<Rightarrow> m(d := b0, d + 1 := b1, d + 2 := b2, d + 3 := b3))"

definition load32 :: "memory \<Rightarrow> addr \<Rightarrow> byte \<times> byte \<times> byte \<times> byte" where
  "load32 m s = (m s, m (s + 1), m (s + 2), m (s + 3))"

primrec copy_words :: "nat \<Rightarrow> addr \<Rightarrow> addr \<Rightarrow> memory \<Rightarrow> memory" where
  "copy_words 0 d s m = m"
| "copy_words (Suc k) d s m = copy_words k (d + 4) (s + 4) (store32 m d (load32 m s))"

primrec copy_bytes :: "nat \<Rightarrow> addr \<Rightarrow> addr \<Rightarrow> memory \<Rightarrow> memory" where
  "copy_bytes 0 d s m = m"
| "copy_bytes (Suc k) d s m = copy_bytes k (d + 1) (s + 1) (m(d := m s))"

definition memcpy :: "memory \<Rightarrow> addr \<Rightarrow> addr \<Rightarrow> nat \<Rightarrow> memory" where
  "memcpy m dst src len =
     (if dst mod 4 = 0 \<and> src mod 4 = 0 \<and> len mod 4 = 0
      then copy_words (len div 4) dst src m
      else copy_bytes len dst src m)"

text \<open>The intended result: the block \<open>src\<close> as it was before the call, at \<open>dst\<close>.\<close>

definition block_copied :: "memory \<Rightarrow> addr \<Rightarrow> addr \<Rightarrow> nat \<Rightarrow> memory" where
  "block_copied m dst src len =
     (\<lambda>a. if dst \<le> a \<and> a < dst + len then m (src + (a - dst)) else m a)"

lemma memset_loop_eq:
  "memset_loop m dst chr n = (\<lambda>a. if dst \<le> a \<and> a < dst + n then chr else m a)"
  by (induction n arbitrary: m) (auto simp: fun_eq_iff)

lemma copy_bytes_eq:
  "d \<le> s \<or> s + n \<le> d \<Longrightarrow> copy_bytes n d s m = block_copied m d s n"
proof (induction n arbitrary: m d s)
  case (Suc n)
  have "copy_bytes n (d + 1) (s + 1) (m(d := m s)) = block_copied (m(d := m s)) (d + 1) (s + 1) n"
    by (rule Suc.IH) (use Suc.prems in auto)
  also have "\<dots> = block_copied m d s (Suc n)"
    using Suc.prems by (auto simp: block_copied_def fun_eq_iff Suc_diff_le [symmetric])
  finally show ?case by simp
qed (auto simp: block_copied_def fun_eq_iff)

lemma copy_words_eq:
  "d \<le> s \<or> s + 4 * n \<le> d \<Longrightarrow> copy_words n d s m = block_copied m d s (4 * n)"
proof (induction n arbitrary: m d s)
  case (Suc n)
  let ?m = "store32 m d (load32 m s)"
  have "copy_words n (d + 4) (s + 4) ?m = block_copied ?m (d + 4) (s + 4) (4 * n)"
    by (rule Suc.IH) (use Suc.prems in auto)
  also have "\<dots> = block_copied m d s (4 * Suc n)"
  proof
    fix a
    consider "a < d" | "a = d" | "a = d + 1" | "a = d + 2" | "a = d + 3" | "d + 4 \<le> a" by linarith
    then show "block_copied ?m (d + 4) (s + 4) (4 * n) a = block_copied m d s (4 * Suc n) a"
      using Suc.prems by cases (auto simp: block_copied_def store32_def load32_def)
  qed
  finally show ?case by simp
qed (auto simp: block_copied_def fun_eq_iff)

lemma memcpy_block: "dst \<le> src \<or> src + len \<le> dst \<Longrightarrow> memcpy m dst src len = block_copied m dst src len"
  using copy_words_eq [of dst src "len div 4" m] copy_bytes_eq [of dst src len m]
  by (auto simp: memcpy_def dvd_eq_mod_eq_0 [symmetric])

text \<open>
  C16. \<open>memcpy\<close> copies the block whichever loop it takes, for disjoint blocks and also for
  overlapping ones when the destination is the lower one (the case \<open>scroll\<close> in the video
  driver relies on): word-at-a-time and byte-at-a-time are the same function there.
\<close>

theorem memcpy_correct:
  assumes "dst \<le> src \<or> src + len \<le> dst"
  shows "memcpy m dst src len = block_copied m dst src len"
  by (rule memcpy_block [OF assms])

theorem memcpy_correct_witness:
  "((8::nat) \<le> 12 \<or> (12::nat) + 8 \<le> 8) \<and>
   memcpy of_nat 8 12 8 9 = 13 \<and> memcpy of_nat 8 12 8 15 = 19 \<and> memcpy of_nat 8 12 8 16 = 16"
proof -
  have overlap: "(8::nat) \<le> 12 \<or> (12::nat) + 8 \<le> 8" by simp
  show ?thesis
    unfolding memcpy_correct [OF overlap, of of_nat] by (simp add: block_copied_def)
qed

section \<open>Numbers to text\<close>

definition digit_char :: "int \<Rightarrow> byte" where
  "digit_char r = word_of_int (if r < 10 then r + 48 else r + 65 - 10)"

text \<open>
  The \<open>do\<close> loop of \<open>itoa\<close>, least significant digit first, with C's truncating division.
  Base 0 traps, base 1 does not return.
\<close>

partial_function (option) itoa_digits :: "int \<Rightarrow> int \<Rightarrow> byte list option" where
  "itoa_digits base v =
     (if base = 0 then None
      else if v sdiv base = 0 then Some [digit_char (v smod base)]
      else Option.bind (itoa_digits base (v sdiv base)) (\<lambda>ds. Some (digit_char (v smod base) # ds)))"

text \<open>The exchange loop that reverses the digits in place.\<close>

function swap_loop :: "'a list \<Rightarrow> nat \<Rightarrow> nat \<Rightarrow> 'a list" where
  "swap_loop xs p1 p2 =
     (if p1 < p2 then swap_loop (xs[p1 := xs ! p2, p2 := xs ! p1]) (Suc p1) (p2 - 1) else xs)"
  by pat_completeness auto
termination
  by (relation "measure (\<lambda>(xs, p1, p2). p2 - p1)") auto

declare swap_loop.simps [simp del]

text \<open>
  \<open>itoa\<close>: the bytes it stores from \<open>str\<close> on, terminator included, and the length it
  returns. The negation is the wrapping one of 32 bits.
\<close>

definition itoa :: "u32 \<Rightarrow> int \<Rightarrow> (byte list \<times> nat) option" where
  "itoa v base =
     (let neg = (sint v < 0 \<and> base = 10); v1 = (if neg then - v else v)
      in map_option
           (\<lambda>ds. ((if neg then [45] else []) @ swap_loop ds 0 (length ds - 1) @ [0],
                  (if neg then 1 else 0) + length ds))
           (itoa_digits base (sint v1)))"

declare itoa_digits.simps [code]

text \<open>\<open>uintToBase\<close> of the boot console, on unsigned values.\<close>

partial_function (option) uint_digits :: "nat \<Rightarrow> nat \<Rightarrow> byte list option" where
  "uint_digits base v =
     (if base = 0 then None
      else if v div base = 0 then Some [digit_char (int (v mod base))]
      else Option.bind (uint_digits base (v div base)) (\<lambda>ds. Some (digit_char (int (v mod base)) # ds)))"

declare uint_digits.simps [code]

definition uintToBase :: "u64 \<Rightarrow> u32 \<Rightarrow> (byte list \<times> nat) option" where
  "uintToBase value base =
     map_option (\<lambda>ds. (swap_loop ds 0 (length ds - 1) @ [0], length ds))
       (uint_digits (unat base) (unat value))"

section \<open>Text to numbers\<close>

fun skip_spaces :: "byte list \<Rightarrow> byte list option" where
  "skip_spaces [] = None"
| "skip_spaces (c # s) = (if isspace (sint c) then skip_spaces s else Some (c # s))"

fun atoi_digits :: "byte list \<Rightarrow> u32 \<Rightarrow> u32 option" where
  "atoi_digits [] num = None"
| "atoi_digits (c # s) num =
     (if c \<noteq> 0 \<and> isdigit (sint c) then atoi_digits s (num * 10 + scast c - 48)
      else Some num)"

definition atoi :: "byte list \<Rightarrow> u32 option" where
  "atoi str = Option.bind (skip_spaces str) (\<lambda>s.
     case s of
       [] \<Rightarrow> None
     | c # t \<Rightarrow>
         if c = 45 then map_option (\<lambda>num. num * (-1)) (atoi_digits t 0)
         else if c = 43 then map_option (\<lambda>num. num * 1) (atoi_digits t 0)
         else map_option (\<lambda>num. num * 1) (atoi_digits s 0))"

section \<open>The reversal loop\<close>

lemma swap_loop_middle:
  "xs \<noteq> [] \<Longrightarrow> swap_loop (a @ xs @ b) (length a) (length a + length xs - 1) = a @ rev xs @ b"
proof (induction "length xs" arbitrary: xs a b rule: less_induct)
  case less
  show ?case
  proof (cases "length xs = 1")
    case True
    then obtain x where "xs = [x]" by (auto simp: length_Suc_conv)
    then show ?thesis by (simp add: swap_loop.simps)
  next
    case False
    with less.prems obtain x ys where "xs = x # ys" "ys \<noteq> []" by (cases xs) auto
    moreover from this obtain zs z where "ys = zs @ [z]" by (cases ys rule: rev_cases) auto
    ultimately have xs: "xs = x # zs @ [z]" by simp
    have step: "swap_loop (a @ xs @ b) (length a) (length a + length xs - 1)
      = swap_loop ((a @ [z]) @ zs @ (x # b)) (length (a @ [z])) (length a + length zs)"
      by (subst swap_loop.simps) (simp add: xs nth_append list_update_append)
    show ?thesis
    proof (cases "zs = []")
      case True
      with step xs show ?thesis by (simp add: swap_loop.simps)
    next
      case False
      have "length zs < length xs" by (simp add: xs)
      from less.hyps [OF this False, of "a @ [z]" "x # b"] step False xs show ?thesis by simp
    qed
  qed
qed

lemma swap_loop_rev [simp]: "swap_loop xs 0 (length xs - Suc 0) = rev xs"
  using swap_loop_middle [of xs "[]" "[]"] by (cases "xs = []") (auto simp: swap_loop.simps)

section \<open>The round trip of itoa and atoi\<close>

text \<open>The number a list of digits stands for, least significant first.\<close>

definition digits_value :: "byte list \<Rightarrow> int" where
  "digits_value ds = foldr (\<lambda>c v. v * 10 + (sint c - 48)) ds 0"

definition all_digits :: "byte list \<Rightarrow> bool" where
  "all_digits ds \<longleftrightarrow> (\<forall>c \<in> set ds. isdigit (sint c))"

lemma sint_digit_char: "0 \<le> r \<Longrightarrow> r < 10 \<Longrightarrow> sint (digit_char r) = r + 48"
proof -
  assume r: "0 \<le> r" "r < 10"
  then have "digit_char r = word_of_int (r + 48)" by (simp add: digit_char_def)
  with r show ?thesis by (simp only: sint_sbintrunc') (simp add: signed_take_bit_int_eq_self)
qed

lemma sdiv_ten: "0 \<le> v \<Longrightarrow> v sdiv 10 = v div 10" "0 \<le> v \<Longrightarrow> v smod 10 = v mod (10::int)"
  by (cases "v = 0"; simp add: signed_divide_int_def signed_modulo_int_def minus_div_mult_eq_mod)+

lemma itoa_digits_decimal:
  "0 \<le> v \<Longrightarrow> \<exists>ds. itoa_digits 10 v = Some ds \<and> all_digits ds \<and> ds \<noteq> [] \<and> digits_value ds = v"
proof (induction "nat v" arbitrary: v rule: less_induct)
  case less
  have digit: "sint (digit_char (v mod 10)) = v mod 10 + 48" by (rule sint_digit_char) auto
  show ?case
  proof (cases "v div 10 = 0")
    case True
    then have "v mod 10 = v" using less.prems by (metis add.left_neutral mult_zero_right mult_div_mod_eq)
    with True digit less.prems show ?thesis
      by (subst itoa_digits.simps) (auto simp: sdiv_ten all_digits_def digits_value_def ctype_defs)
  next
    case False
    with less.prems have "nat (v div 10) < nat v" "0 \<le> v div 10" by auto
    from less.hyps [OF this] obtain ds where ds:
      "itoa_digits 10 (v div 10) = Some ds" "all_digits ds" "digits_value ds = v div 10" by blast
    with False digit less.prems show ?thesis
      by (subst itoa_digits.simps) (auto simp: sdiv_ten all_digits_def digits_value_def ctype_defs)
  qed
qed

text \<open>\<open>atoi\<close>'s accumulator over a run of digits, forwards.\<close>

lemma atoi_digits_run:
  "all_digits ds \<Longrightarrow> atoi_digits (ds @ 0 # r) num =
     Some (foldl (\<lambda>n c. n * 10 + scast c - 48) num ds)"
proof (induction ds arbitrary: num)
  case (Cons c ds)
  then have "isdigit (sint c)" "c \<noteq> 0" by (auto simp: all_digits_def ctype_defs)
  with Cons show ?case by (simp add: all_digits_def)
qed simp

lemma foldl_digits_value:
  "foldl (\<lambda>n c. n * 10 + scast c - 48) 0 (rev ds) = (word_of_int (digits_value ds) :: u32)"
  by (induction ds) (simp_all add: digits_value_def word_of_int_minus [symmetric])

lemma atoi_digits_itoa:
  assumes "itoa_digits 10 v = Some ds" "0 \<le> v"
  shows "atoi_digits (rev ds @ 0 # r) 0 = Some (word_of_int v)"
    and "\<exists>c t. rev ds @ 0 # r = c # t \<and> isdigit (sint c)"
proof -
  from itoa_digits_decimal [OF assms(2)] assms(1)
  have ds: "all_digits ds" "ds \<noteq> []" "digits_value ds = v" by auto
  then have "all_digits (rev ds)" by (simp add: all_digits_def)
  with ds show "atoi_digits (rev ds @ 0 # r) 0 = Some (word_of_int v)"
    by (simp add: atoi_digits_run foldl_digits_value)
  show "\<exists>c t. rev ds @ 0 # r = c # t \<and> isdigit (sint c)"
    using ds by (cases ds rule: rev_cases) (auto simp: all_digits_def)
qed

lemma sint_negate_nonneg:
  assumes "v \<noteq> (0x80000000 :: u32)" "sint v < 0"
  shows "0 \<le> sint (- v)"
proof -
  have "- (2 ^ 31) \<le> sint v" using sint_ge [of v] by simp
  moreover have "sint v \<noteq> - (2 ^ 31)"
  proof
    assume "sint v = - (2 ^ 31)"
    then have "sint v = sint (0x80000000 :: u32)" by simp
    with assms(1) show False by (metis signed_word_eqI)
  qed
  ultimately have "signed_take_bit 31 (- sint v) = - sint v"
    using assms(2) by (intro signed_take_bit_int_eq_self) auto
  then have "sint (- v) = - sint v" by (simp add: sint_word_ariths)
  with assms(2) show ?thesis by simp
qed

lemma itoa_nonneg:
  assumes "0 \<le> sint v"
  obtains ds where "itoa v 10 = Some (rev ds @ [0], length ds)" "all_digits ds" "ds \<noteq> []" "digits_value ds = sint v"
proof -
  obtain ds where "itoa_digits 10 (sint v) = Some ds" "all_digits ds" "ds \<noteq> []" "digits_value ds = sint v"
    using itoa_digits_decimal [OF assms] by blast
  then show ?thesis using that assms by (simp add: itoa_def)
qed

text \<open>How many digits a number takes in a base.\<close>

lemma sdiv_pos: "0 \<le> v \<Longrightarrow> 0 < b \<Longrightarrow> v sdiv b = v div (b :: int)" "0 \<le> v \<Longrightarrow> 0 < b \<Longrightarrow> v smod b = v mod (b :: int)"
  by (cases "v = 0"; simp add: signed_divide_int_def signed_modulo_int_def minus_div_mult_eq_mod)+

lemma digit_char_not_NUL: "0 \<le> r \<Longrightarrow> r < 16 \<Longrightarrow> digit_char r \<noteq> 0"
  by (auto simp: digit_char_def word_of_int_eq_0_iff dest!: zdvd_imp_le)

lemma itoa_digits_width:
  assumes "2 \<le> b" "b \<le> 16"
  shows "0 \<le> v \<Longrightarrow> \<exists>ds. itoa_digits b v = Some ds \<and> 0 \<notin> set ds \<and> ds \<noteq> [] \<and>
    (\<forall>k. 0 < k \<longrightarrow> v < b ^ k \<longrightarrow> length ds \<le> k) \<and> (\<forall>k. b ^ k \<le> v \<longrightarrow> k < length ds)"
proof (induction "nat v" arbitrary: v rule: less_induct)
  case less
  have digit: "digit_char (v mod b) \<noteq> 0" using assms by (intro digit_char_not_NUL) (auto intro: less_le_trans [of _ b])
  show ?case
  proof (cases "v div b = 0")
    case True
    then have small: "v < b" using less.prems assms by (metis zdiv_eq_0_iff not_less order.trans zero_le_numeral not_numeral_le_zero)
    have "k = 0" if "b ^ k \<le> v" for k
    proof (rule ccontr)
      assume "k \<noteq> 0"
      then have "b \<le> b ^ k" using assms by (simp add: self_le_power)
      then show False using that small by simp
    qed
    then show ?thesis
      using True digit less.prems assms by (subst itoa_digits.simps) (auto simp: sdiv_pos Suc_le_eq)
  next
    case False
    then have "0 < v" using less.prems by (cases "v = 0") auto
    then have "nat (v div b) < nat v" "0 \<le> v div b"
      using int_div_less_self [of v b] assms by (auto simp: pos_imp_zdiv_nonneg_iff)
    from less.hyps [OF this] obtain ds where ds: "itoa_digits b (v div b) = Some ds" "0 \<notin> set ds" "ds \<noteq> []"
        "\<And>k. 0 < k \<Longrightarrow> v div b < b ^ k \<Longrightarrow> length ds \<le> k" "\<And>k. b ^ k \<le> v div b \<Longrightarrow> k < length ds" by blast
    have div: "b * (v div b) \<le> v" "v < b * (v div b + 1)"
    proof -
      have m: "b * (v div b) + v mod b = v" "0 \<le> v mod b" "v mod b < b" using assms by simp_all
      show "b * (v div b) \<le> v" using m by linarith
      show "v < b * (v div b + 1)" unfolding distrib_left using m by linarith
    qed
    have up: "Suc (length ds) \<le> k" if "0 < k" "v < b ^ k" for k
    proof (cases k)
      case (Suc j)
      have "b * b ^ j \<le> b * (v div b)" if "b ^ j \<le> v div b" using that assms by (simp add: mult_left_mono)
      then have "v div b < b ^ j" using that(2) Suc div(1) by (force simp: not_less)
      then show ?thesis using ds(4) [of j] False less.prems \<open>0 \<le> v div b\<close> Suc by (cases "j = 0") auto
    qed (use that in simp)
    have low: "k < Suc (length ds)" if "b ^ k \<le> v" for k
    proof (cases k)
      case (Suc j)
      have "b * (v div b + 1) \<le> b * b ^ j" if "v div b < b ^ j" using that assms by (intro mult_left_mono) auto
      then have "b ^ j \<le> v div b" using that Suc div(2) by (force simp: not_less)
      then show ?thesis using ds(5) [of j] Suc by simp
    qed simp
    show ?thesis
      using False ds(1-3) digit less.prems assms up low by (subst itoa_digits.simps) (auto simp: sdiv_pos)
  qed
qed

lemma itoa_width:
  assumes "2 \<le> b" "b \<le> 16" "0 \<le> sint v"
  obtains t where "itoa v b = Some (t @ [0], length t)" "0 \<notin> set t" "t \<noteq> []"
    "\<And>k. 0 < k \<Longrightarrow> sint v < b ^ k \<Longrightarrow> length t \<le> k" "\<And>k. b ^ k \<le> sint v \<Longrightarrow> k < length t"
proof -
  obtain ds where ds: "itoa_digits b (sint v) = Some ds" "0 \<notin> set ds" "ds \<noteq> []"
      "\<forall>k. 0 < k \<longrightarrow> sint v < b ^ k \<longrightarrow> length ds \<le> k" "\<forall>k. b ^ k \<le> sint v \<longrightarrow> k < length ds"
    using itoa_digits_width [OF assms] by blast
  have "itoa v b = Some (rev ds @ [0], length (rev ds))" using ds(1) assms(3) by (simp add: itoa_def)
  then show ?thesis using ds by (intro that [of "rev ds"]) auto
qed

lemma cstr_digits: "all_digits ds \<Longrightarrow> cstr (rev ds @ 0 # r) = rev ds"
  by (auto simp: cstr_def all_digits_def ctype_defs takeWhile_tail)

lemma itoa_text:
  assumes "v \<noteq> 0x80000000"
  obtains sgn ds where "itoa v 10 = Some ((sgn @ rev ds) @ [0], length (sgn @ rev ds))" "sgn = (if sint v < 0 then [45] else [])"
    "all_digits ds" "ds \<noteq> []" "\<And>rest. atoi ((sgn @ rev ds) @ 0 # rest) = Some v"
proof -
  define sgn :: "byte list" where "sgn = (if sint v < 0 then [45] else [])"
  let ?v1 = "if sint v < 0 then - v else v"
  have nonneg: "0 \<le> sint ?v1" using sint_negate_nonneg [OF assms] by simp
  obtain ds where ds: "itoa_digits 10 (sint ?v1) = Some ds" "all_digits ds" "ds \<noteq> []"
    using itoa_digits_decimal [OF nonneg] by blast
  have "atoi ((sgn @ rev ds) @ 0 # rest) = Some v" for rest
    using atoi_digits_itoa [OF ds(1) nonneg, of rest] by (cases "sint v < 0") (auto simp: sgn_def atoi_def ctype_defs)
  moreover have "itoa v 10 = Some ((sgn @ rev ds) @ [0], length (sgn @ rev ds))"
    using ds(1) by (cases "sint v < 0") (simp_all add: itoa_def sgn_def)
  ultimately show ?thesis using that [OF _ sgn_def ds(2,3)] by blast
qed

text \<open>
  C17. \<open>atoi\<close> undoes \<open>itoa\<close>: printing any 32-bit number but \<open>INT_MIN\<close> in base 10 returns,
  stores a terminated string of the length it reports, and reading that string gives the
  number back.
\<close>

theorem atoi_itoa:
  assumes "v \<noteq> 0x80000000"
  shows "\<exists>b n. itoa v 10 = Some (b, n) \<and> length b = Suc n \<and> b ! n = 0 \<and> atoi (b @ rest) = Some v"
proof -
  obtain t where t: "itoa v 10 = Some (t @ [0], length t)" "atoi (t @ 0 # rest) = Some v"
    using itoa_text [OF assms] by metis
  then show ?thesis by (intro exI [of _ "t @ [0]"] exI [of _ "length t"]) (simp add: nth_append)
qed

theorem atoi_itoa_witness:
  "(- 305 :: u32) \<noteq> 0x80000000 \<and> itoa (- 305) 10 = Some ([45, 51, 48, 53, 0], 4) \<and>
   atoi [45, 51, 48, 53, 0, 7] = Some (- 305)"
proof -
  have v: "(- 305 :: u32) \<noteq> 0x80000000" by simp
  have digits: "itoa_digits 10 305 = Some [53, 48, 51]"
    by (simp add: itoa_digits.simps digit_char_def sdiv_ten)
  then have "itoa (- 305) 10 = Some ([45, 51, 48, 53, 0], 4)"
    using swap_loop_rev [of "[53, 48, 51 :: byte]"] by (simp add: itoa_def)
  with v atoi_itoa [OF v, of "[7]"] show ?thesis by auto
qed

lemma uint_digits_value:
  "2 \<le> base \<Longrightarrow> \<exists>ds. uint_digits base v = Some (map (digit_char \<circ> int) ds) \<and> ds \<noteq> [] \<and>
     (\<forall>d \<in> set ds. d < base) \<and> foldr (\<lambda>d n. n * base + d) ds 0 = v"
proof (induction v rule: less_induct)
  case (less v)
  show ?case
  proof (cases "v div base = 0")
    case True
    then have "v < base" using less.prems by (auto simp: div_eq_0_iff)
    with True less.prems show ?thesis
      by (subst uint_digits.simps) (auto intro!: exI [of _ "[v]"])
  next
    case False
    with less.prems have "v div base < v" by (cases "v = 0") auto
    from less.IH [OF this less.prems] obtain ds where
      "uint_digits base (v div base) = Some (map (digit_char \<circ> int) ds)" "ds \<noteq> []"
      "\<forall>d \<in> set ds. d < base" "foldr (\<lambda>d n. n * base + d) ds 0 = v div base" by blast
    with False less.prems show ?thesis
      by (subst uint_digits.simps) (auto intro!: exI [of _ "v mod base # ds"] simp: zmod_int)
  qed
qed

text \<open>
  The boot console prints every unsigned value in every base from 2 on: \<open>uintToBase\<close>
  returns, stores a terminator after the digits it counts, and those digits, most
  significant first, are the base's digits of the value.
\<close>

theorem uintToBase_digits:
  assumes "2 \<le> base"
  shows "\<exists>ds. uintToBase v base = Some (map (digit_char \<circ> int) ds @ [0], length ds) \<and> ds \<noteq> [] \<and>
     (\<forall>d \<in> set ds. d < unat base) \<and> foldl (\<lambda>n d. n * unat base + d) 0 ds = unat v"
proof -
  have "2 \<le> unat base" using assms by (simp add: word_le_nat_alt)
  from uint_digits_value [OF this, of "unat v"] obtain ds where
    ds: "uint_digits (unat base) (unat v) = Some (map (digit_char \<circ> int) ds)" "ds \<noteq> []"
      "\<forall>d \<in> set ds. d < unat base" "foldr (\<lambda>d n. n * unat base + d) ds 0 = unat v" by blast
  from ds(1) have "uintToBase v base = Some (map (digit_char \<circ> int) (rev ds) @ [0], length (rev ds))"
    using swap_loop_rev [of "map (digit_char \<circ> int) ds"] by (simp add: uintToBase_def rev_map)
  moreover from ds(4) have "foldl (\<lambda>n d. n * unat base + d) 0 (rev ds) = unat v"
    by (simp add: foldl_conv_foldr)
  ultimately show ?thesis using ds(2,3) by (intro exI [of _ "rev ds"]) auto
qed

theorem uintToBase_digits_witness:
  "(2::u32) \<le> 16 \<and> (\<exists>ds. uintToBase 0x5F 16 = Some (map (digit_char \<circ> int) ds @ [0], length ds) \<and>
     foldl (\<lambda>n d. n * 16 + d) 0 ds = 95)"
  using uintToBase_digits [of 16 "0x5F"] by auto

end
