(* ===== verification/MemoryAllocator.thy ===== *)
theory MemoryAllocator
  imports Prelude
begin

text \<open>
  \<open>Kernel/memoryAllocator.c\<close>: two stacks of free pages, one of 4 KB data pages (by page
  number) and one of 1 MB process stacks (by address). This theory holds the state and the
  code between \<open>mutex_lock\<close> and \<open>mutex_unlock\<close> of \<open>get_page\<close>, \<open>store_page\<close>,
  \<open>get_stack_page\<close> and \<open>store_stack_page\<close>; theory \<open>KernelMutex\<close> adds the locking.
  The indices have 8 and 16 bits in C; the guards keep them far from the wrap-around, so
  they are \<open>nat\<close>.
\<close>

section \<open>The address map\<close>

definition PAGE_SIZE :: nat where "PAGE_SIZE = 0x1000"
definition STACK_PAGE_SIZE :: nat where "STACK_PAGE_SIZE = 0x100000"
definition STACK_SIZE :: nat where "STACK_SIZE = 255"
definition CODE_ADDRESS :: addr where "CODE_ADDRESS = 0x400000"
definition DATA_ADDRESS :: addr where "DATA_ADDRESS = 0x500000"
definition MEMORY_PAGES_END :: addr where
  "MEMORY_PAGES_END = (STACK_SIZE + 1) * PAGE_SIZE + DATA_ADDRESS"
definition STACK_ADDRESS :: addr where "STACK_ADDRESS = MEMORY_PAGES_END + PAGE_SIZE"
definition MAX_PROCESSES :: nat where "MAX_PROCESSES = 128"

lemmas layout_defs = PAGE_SIZE_def STACK_PAGE_SIZE_def STACK_SIZE_def CODE_ADDRESS_def
  DATA_ADDRESS_def MEMORY_PAGES_END_def STACK_ADDRESS_def MAX_PROCESSES_def

section \<open>State and operations\<close>

record page_stack =
  pages_stack :: "nat list"
  current_index :: nat

record stack_stack =
  stack_pages_stack :: "addr list"
  current_stack_index :: nat

text \<open>The static arrays before initialisation: zeroed.\<close>

definition zero_pages :: page_stack where
  "zero_pages = \<lparr>pages_stack = replicate STACK_SIZE 0, current_index = 0\<rparr>"

definition zero_stacks :: stack_stack where
  "zero_stacks = \<lparr>stack_pages_stack = replicate MAX_PROCESSES 0, current_stack_index = 0\<rparr>"

definition initialize_memory_allocator :: "page_stack \<Rightarrow> page_stack" where
  "initialize_memory_allocator s =
     s\<lparr>pages_stack := foldl (\<lambda>ps i. ps[i := i + 1]) (pages_stack s) [0..<STACK_SIZE - 1]\<rparr>"

definition initialize_stack_memory_allocator :: "stack_stack \<Rightarrow> stack_stack" where
  "initialize_stack_memory_allocator s =
     s\<lparr>stack_pages_stack := foldl (\<lambda>ps i. ps[i := (i + 1) * STACK_PAGE_SIZE + STACK_ADDRESS])
         (stack_pages_stack s) [0..<MAX_PROCESSES]\<rparr>"

definition page_address :: "nat \<Rightarrow> addr" where
  "page_address i = i * PAGE_SIZE + DATA_ADDRESS"

definition pop_page :: "page_stack \<Rightarrow> (addr \<times> page_stack) option" where
  "pop_page s =
     (if current_index s < STACK_SIZE
      then Some (page_address (pages_stack s ! current_index s), s\<lparr>current_index := current_index s + 1\<rparr>)
      else None)"

text \<open>
  \<open>(address - DATA_ADDRESS) / PAGE_SIZE\<close> is computed in 64 bits and stored in 8: nothing
  checks that \<open>address\<close> is a page.
\<close>

definition page_number :: "addr \<Rightarrow> nat" where
  "page_number a = (((a + 2 ^ 64 - DATA_ADDRESS) mod 2 ^ 64) div PAGE_SIZE) mod 256"

definition push_page :: "addr \<Rightarrow> page_stack \<Rightarrow> page_stack option" where
  "push_page address s =
     (if current_index s > 0
      then Some (s\<lparr>current_index := current_index s - 1,
                   pages_stack := (pages_stack s)[current_index s - 1 := page_number address]\<rparr>)
      else None)"

definition pop_stack_page :: "stack_stack \<Rightarrow> (addr \<times> stack_stack) option" where
  "pop_stack_page s =
     (if current_stack_index s < MAX_PROCESSES
      then Some (stack_pages_stack s ! current_stack_index s,
                 s\<lparr>current_stack_index := current_stack_index s + 1\<rparr>)
      else None)"

definition push_stack_page :: "addr \<Rightarrow> stack_stack \<Rightarrow> stack_stack option" where
  "push_stack_page address s =
     (if current_stack_index s > 0
      then Some (s\<lparr>current_stack_index := current_stack_index s - 1,
                   stack_pages_stack := (stack_pages_stack s)[current_stack_index s - 1 := address]\<rparr>)
      else None)"

section \<open>The interface: a pool of pages\<close>

text \<open>
  What the kernel relies on, for both kinds of page: \<open>free\<close> is the list of free pages,
  \<open>pop\<close> takes its head and fails exactly when it is empty, \<open>push\<close> puts a page of the pool
  back on top and fails exactly when nothing is out.
\<close>

locale page_pool =
  fixes pop :: "'s \<Rightarrow> (addr \<times> 's) option"
    and push :: "addr \<Rightarrow> 's \<Rightarrow> 's option"
    and free :: "'s \<Rightarrow> addr list"
    and in_pool :: "addr \<Rightarrow> bool"
    and invar :: "'s \<Rightarrow> bool"
    and capacity :: nat
  assumes pop_empty: "invar s \<Longrightarrow> free s = [] \<Longrightarrow> pop s = None"
    and pop_Cons: "invar s \<Longrightarrow> free s = a # r \<Longrightarrow> \<exists>s'. pop s = Some (a, s') \<and> free s' = r \<and> invar s'"
    and push_full: "invar s \<Longrightarrow> length (free s) = capacity \<Longrightarrow> push a s = None"
    and push_Cons: "invar s \<Longrightarrow> length (free s) < capacity \<Longrightarrow> in_pool a \<Longrightarrow>
      \<exists>s'. push a s = Some s' \<and> free s' = a # free s \<and> invar s'"
begin

text \<open>The ownership invariant of a well-behaved client that holds the pages \<open>held\<close>.\<close>

definition owned :: "'s \<Rightarrow> addr list \<Rightarrow> bool" where
  "owned s held \<longleftrightarrow> invar s \<and> distinct (held @ free s) \<and> (\<forall>a \<in> set (held @ free s). in_pool a) \<and>
     length held + length (free s) = capacity"

lemma pop_SomeD:
  assumes "invar s" "pop s = Some (a, s')"
  shows "free s = a # free s'" "invar s'"
proof -
  from assms have "free s \<noteq> []" using pop_empty by auto
  then obtain b r where free: "free s = b # r" by (cases "free s") auto
  with pop_Cons [OF assms(1) free] assms(2) show "free s = a # free s'" "invar s'" by auto
qed

lemma pop_owned:
  assumes "owned s held" "pop s = Some (a, s')"
  shows "owned s' (a # held)" "a \<notin> set held" "set (a # held @ free s') = set (held @ free s)"
proof -
  have f: "free s = a # free s'" "invar s'"
    using pop_SomeD [OF _ assms(2)] assms(1) by (simp_all add: owned_def)
  have d: "distinct (held @ a # free s')" "\<forall>b \<in> set (held @ a # free s'). in_pool b"
    "length held + length (a # free s') = capacity"
    using assms(1) unfolding owned_def f(1) by blast+
  from d(1) show "a \<notin> set held" by auto
  from d(1) have "distinct ((a # held) @ free s')" by auto
  moreover from d(2) have "\<forall>b \<in> set ((a # held) @ free s'). in_pool b" by auto
  moreover from d(3) have "length (a # held) + length (free s') = capacity" by simp
  ultimately show "owned s' (a # held)" using f(2) unfolding owned_def by blast
  show "set (a # held @ free s') = set (held @ free s)" unfolding f(1) by simp
qed

lemma push_owned:
  assumes "owned s held" "a \<in> set held"
  shows "\<exists>s'. push a s = Some s' \<and> owned s' (remove1 a held) \<and> free s' = a # free s"
proof -
  have "held \<noteq> []" using assms(2) by auto
  with assms have "invar s" "length (free s) < capacity" "in_pool a" by (auto simp: owned_def)
  then obtain s' where s': "push a s = Some s'" "free s' = a # free s" "invar s'"
    using push_Cons by blast
  have "length (remove1 a held) + length (free s') = capacity"
  proof -
    have "length (remove1 a held) = length held - 1" "0 < length held" "length (free s') = Suc (length (free s))"
      using assms(2) s'(2) by (auto simp: length_remove1 length_pos_if_in_set)
    then show ?thesis using assms(1) unfolding owned_def by linarith
  qed
  moreover have "distinct (remove1 a held @ free s')"
    using assms s'(2) by (auto simp: owned_def dest: set_remove1_subset [THEN subsetD])
  moreover have "\<forall>b \<in> set (remove1 a held @ free s'). in_pool b"
    using assms s'(2) \<open>in_pool a\<close> by (auto simp: owned_def dest: set_remove1_subset [THEN subsetD])
  ultimately have "owned s' (remove1 a held)" using s'(3) unfolding owned_def by blast
  with s' show ?thesis by blast
qed

lemma pop_push:
  assumes "owned s held" "pop s = Some (a, s')"
  shows "\<exists>s''. push a s' = Some s'' \<and> owned s'' held \<and> free s'' = free s"
proof -
  have "free s = a # free s'" using assms pop_SomeD(1) by (auto simp: owned_def)
  with push_owned [OF pop_owned(1) [OF assms], of a] show ?thesis by auto
qed

end

section \<open>The two allocators provide it\<close>

definition free_pages :: "page_stack \<Rightarrow> addr list" where
  "free_pages s = map page_address (drop (current_index s) (pages_stack s))"

definition page_stack_ok :: "page_stack \<Rightarrow> bool" where
  "page_stack_ok s \<longleftrightarrow> length (pages_stack s) = STACK_SIZE \<and> current_index s \<le> STACK_SIZE"

definition data_page_addr :: "addr \<Rightarrow> bool" where
  "data_page_addr a \<longleftrightarrow> (\<exists>i < 256. a = page_address i)"

definition free_stack_pages :: "stack_stack \<Rightarrow> addr list" where
  "free_stack_pages s = drop (current_stack_index s) (stack_pages_stack s)"

definition stack_stack_ok :: "stack_stack \<Rightarrow> bool" where
  "stack_stack_ok s \<longleftrightarrow>
     length (stack_pages_stack s) = MAX_PROCESSES \<and> current_stack_index s \<le> MAX_PROCESSES"

definition stack_page_addr :: "addr \<Rightarrow> bool" where
  "stack_page_addr a \<longleftrightarrow> (\<exists>i < MAX_PROCESSES. a = (i + 1) * STACK_PAGE_SIZE + STACK_ADDRESS)"

lemma page_number_address [simp]: "i < 256 \<Longrightarrow> page_number (page_address i) = i"
  by (simp add: page_number_def page_address_def layout_defs)

lemma page_address_inj [simp]: "page_address i = page_address j \<longleftrightarrow> i = j"
  by (simp add: page_address_def layout_defs)

interpretation pages: page_pool pop_page push_page free_pages data_page_addr page_stack_ok STACK_SIZE
proof
  show "pop_page s = None" if "page_stack_ok s" "free_pages s = []" for s
    using that by (auto simp: pop_page_def free_pages_def page_stack_ok_def)
  show "\<exists>s'. pop_page s = Some (a, s') \<and> free_pages s' = r \<and> page_stack_ok s'"
    if "page_stack_ok s" "free_pages s = a # r" for s a r
  proof -
    have i: "current_index s < length (pages_stack s)"
      using that by (metis drop_all free_pages_def linorder_not_less list.distinct(1) list.map_disc_iff)
    with that show ?thesis
      by (auto simp: pop_page_def free_pages_def page_stack_ok_def Cons_nth_drop_Suc [symmetric])
  qed
  show "push_page a s = None" if "page_stack_ok s" "length (free_pages s) = STACK_SIZE" for s a
    using that by (auto simp: push_page_def free_pages_def page_stack_ok_def STACK_SIZE_def)
  show "\<exists>s'. push_page a s = Some s' \<and> free_pages s' = a # free_pages s \<and> page_stack_ok s'"
    if "page_stack_ok s" "length (free_pages s) < STACK_SIZE" "data_page_addr a" for s a
  proof -
    note in_range = that(3)
    have "0 < current_index s" using that by (auto simp: free_pages_def page_stack_ok_def)
    moreover from this that have "current_index s - 1 < length (pages_stack s)"
      by (auto simp: page_stack_ok_def)
    moreover obtain i where "i < 256" "a = page_address i" using in_range unfolding data_page_addr_def by blast
    ultimately show ?thesis
      using that by (auto simp: push_page_def free_pages_def page_stack_ok_def drop_update_at)
  qed
qed

interpretation stacks: page_pool pop_stack_page push_stack_page free_stack_pages stack_page_addr
  stack_stack_ok MAX_PROCESSES
proof
  show "pop_stack_page s = None" if "stack_stack_ok s" "free_stack_pages s = []" for s
    using that by (auto simp: pop_stack_page_def free_stack_pages_def stack_stack_ok_def)
  show "\<exists>s'. pop_stack_page s = Some (a, s') \<and> free_stack_pages s' = r \<and> stack_stack_ok s'"
    if "stack_stack_ok s" "free_stack_pages s = a # r" for s a r
  proof -
    have i: "current_stack_index s < length (stack_pages_stack s)"
      using that by (metis drop_all free_stack_pages_def linorder_not_less list.distinct(1))
    with that show ?thesis
      by (auto simp: pop_stack_page_def free_stack_pages_def stack_stack_ok_def Cons_nth_drop_Suc [symmetric])
  qed
  show "push_stack_page a s = None"
    if "stack_stack_ok s" "length (free_stack_pages s) = MAX_PROCESSES" for s a
    using that by (auto simp: push_stack_page_def free_stack_pages_def stack_stack_ok_def MAX_PROCESSES_def)
  show "\<exists>s'. push_stack_page a s = Some s' \<and> free_stack_pages s' = a # free_stack_pages s \<and> stack_stack_ok s'"
    if "stack_stack_ok s" "length (free_stack_pages s) < MAX_PROCESSES" "stack_page_addr a" for s a
  proof -
    have "0 < current_stack_index s" using that by (auto simp: free_stack_pages_def stack_stack_ok_def)
    moreover from this that have "current_stack_index s - 1 < length (stack_pages_stack s)"
      by (auto simp: stack_stack_ok_def)
    ultimately show ?thesis
      using that by (auto simp: push_stack_page_def free_stack_pages_def stack_stack_ok_def drop_update_at)
  qed
qed

section \<open>The initial pools\<close>

definition boot_pages :: page_stack where
  "boot_pages = initialize_memory_allocator zero_pages"

definition boot_stacks :: stack_stack where
  "boot_stacks = initialize_stack_memory_allocator zero_stacks"

lemma boot_pages_stack: "pages_stack boot_pages = [1..<255] @ [0]" "current_index boot_pages = 0"
proof -
  have "pages_stack boot_pages = map (\<lambda>i. i + 1) [0..<254] @ drop 254 (replicate 255 0)"
    using foldl_update_upt [of 254 "replicate 255 0" "\<lambda>i. i + 1"]
    by (simp add: boot_pages_def initialize_memory_allocator_def zero_pages_def STACK_SIZE_def)
  then show "pages_stack boot_pages = [1..<255] @ [0]"
    by (simp add: map_Suc_upt del: upt_rec_numeral) 
qed (simp add: boot_pages_def initialize_memory_allocator_def zero_pages_def)

lemma boot_stacks_stack:
  "stack_pages_stack boot_stacks = map (\<lambda>i. (i + 1) * STACK_PAGE_SIZE + STACK_ADDRESS) [0..<MAX_PROCESSES]"
  "current_stack_index boot_stacks = 0"
  using foldl_update_upt [of MAX_PROCESSES "replicate MAX_PROCESSES 0"
      "\<lambda>i. (i + 1) * STACK_PAGE_SIZE + STACK_ADDRESS"]
  by (simp_all add: boot_stacks_def initialize_stack_memory_allocator_def zero_stacks_def)

lemma boot_owned: "pages.owned boot_pages []" "stacks.owned boot_stacks []"
proof -
  have free: "free_pages boot_pages = map page_address ([1..<255] @ [0])"
    by (simp only: free_pages_def boot_pages_stack drop0)
  have "page_stack_ok boot_pages" by (simp add: page_stack_ok_def boot_pages_stack STACK_SIZE_def)
  moreover have "distinct (free_pages boot_pages)" unfolding free
    by (auto simp: distinct_map inj_on_def simp del: upt_rec_numeral map_append)
  moreover have "\<forall>a \<in> set (free_pages boot_pages). data_page_addr a"
    unfolding free data_page_addr_def by auto
  moreover have "length (free_pages boot_pages) = STACK_SIZE"
    unfolding free by (simp add: STACK_SIZE_def)
  ultimately show "pages.owned boot_pages []" by (simp add: pages.owned_def)
  show "stacks.owned boot_stacks []"
    by (auto simp: stacks.owned_def stack_stack_ok_def boot_stacks_stack free_stack_pages_def
        stack_page_addr_def distinct_map inj_on_def STACK_PAGE_SIZE_def simp del: upt_rec_numeral)
qed

section \<open>Histories of requests\<close>

text \<open>
  A client that takes pages and gives back pages it holds. \<open>held\<close> is the client's side: the
  pages it was given and has not returned, which no variable of the program records.
\<close>

datatype page_request = Take | Give addr

fun page_step :: "page_request \<Rightarrow> page_stack \<times> addr list \<Rightarrow> page_stack \<times> addr list" where
  "page_step Take (s, held) =
     (case pop_page s of None \<Rightarrow> (s, held) | Some (a, s') \<Rightarrow> (s', a # held))"
| "page_step (Give a) (s, held) =
     (if a \<in> set held
      then (case push_page a s of None \<Rightarrow> (s, held) | Some s' \<Rightarrow> (s', remove1 a held))
      else (s, held))"

definition page_history :: "page_request list \<Rightarrow> page_stack \<times> addr list" where
  "page_history rs = fold page_step rs (boot_pages, [])"

lemma page_step_owned: "pages.owned s held \<Longrightarrow> case page_step r (s, held) of (s', held') \<Rightarrow> pages.owned s' held'"
proof (cases r)
  case Take
  then show "pages.owned s held \<Longrightarrow> ?thesis" by (auto split: option.splits dest: pages.pop_owned(1))
next
  case (Give a)
  then show "pages.owned s held \<Longrightarrow> ?thesis" using pages.push_owned [of s held a] by auto
qed

lemma page_fold_owned:
  "pages.owned s held \<Longrightarrow> case fold page_step rs (s, held) of (s', held') \<Rightarrow> pages.owned s' held'"
proof (induction rs arbitrary: s held)
  case (Cons r rs)
  obtain s1 held1 where step: "page_step r (s, held) = (s1, held1)" by force
  with page_step_owned [OF Cons.prems, of r] have "pages.owned s1 held1" by simp
  from Cons.IH [OF this] step show ?case by simp
qed simp

text \<open>
  C11. Whatever the order of requests, the page allocator never hands out a page that is
  already out: the pages a client holds are distinct, none of them is on the free stack, all
  are pages of the data region, and held and free pages together are always 255.
\<close>

theorem page_history_safe:
  "case page_history rs of (s, held) \<Rightarrow>
     distinct held \<and> distinct (free_pages s) \<and> set held \<inter> set (free_pages s) = {} \<and>
     set held \<subseteq> (\<lambda>i. DATA_ADDRESS + i * PAGE_SIZE) ` {..<256} \<and>
     length held + length (free_pages s) = 255"
proof -
  obtain s held where run: "page_history rs = (s, held)" by force
  with page_fold_owned [OF boot_owned(1), of rs] have "pages.owned s held" by (simp add: page_history_def)
  then have "distinct held \<and> distinct (free_pages s) \<and> set held \<inter> set (free_pages s) = {} \<and>
      (\<forall>a \<in> set held. data_page_addr a) \<and> length held + length (free_pages s) = STACK_SIZE"
    unfolding pages.owned_def by auto
  with run show ?thesis
    by (fastforce simp: data_page_addr_def page_address_def STACK_SIZE_def add.commute)
qed

text \<open>Repeated allocation takes the free stack from the top.\<close>

fun pop_many :: "nat \<Rightarrow> page_stack \<Rightarrow> (addr list \<times> page_stack) option" where
  "pop_many 0 s = Some ([], s)"
| "pop_many (Suc n) s =
     (case pop_page s of
        None \<Rightarrow> None
      | Some (a, s') \<Rightarrow> map_option (\<lambda>(as, s''). (a # as, s'')) (pop_many n s'))"

lemma pop_many_free:
  "page_stack_ok s \<Longrightarrow> n \<le> length (free_pages s) \<Longrightarrow>
   \<exists>s'. pop_many n s = Some (take n (free_pages s), s') \<and> page_stack_ok s' \<and> free_pages s' = drop n (free_pages s)"
proof (induction n arbitrary: s)
  case (Suc n)
  then obtain a r where free: "free_pages s = a # r" by (cases "free_pages s") auto
  with Suc.prems pages.pop_Cons obtain s1 where
    s1: "pop_page s = Some (a, s1)" "free_pages s1 = r" "page_stack_ok s1" by blast
  with Suc.IH [OF s1(3)] Suc.prems free show ?case by auto
qed simp

text \<open>
  The allocator is meant to keep the first page of the data region, where the fractal
  parameters lie, out of the pool, but the last slot of the stack is never initialised: the
  first 254 allocations after boot give the pages 1 to 254 in order, and the 255th hands out
  the data module itself.
\<close>

theorem last_page_is_data_module:
  "\<exists>s. pop_many 255 boot_pages =
         Some (map (\<lambda>i. DATA_ADDRESS + i * PAGE_SIZE) [1..<255] @ [DATA_ADDRESS], s) \<and>
       pop_page s = None"
proof -
  have free: "free_pages boot_pages = map page_address ([1..<255] @ [0])"
    by (simp only: free_pages_def boot_pages_stack drop0)
  then have len: "length (free_pages boot_pages) = 255" by simp
  have ok: "page_stack_ok boot_pages" using boot_owned(1) by (simp add: pages.owned_def)
  with pop_many_free [OF ok, of 255] len obtain s where
    s: "pop_many 255 boot_pages = Some (free_pages boot_pages, s)" "page_stack_ok s" "free_pages s = []"
    by auto
  moreover have "free_pages boot_pages = map (\<lambda>i. DATA_ADDRESS + i * PAGE_SIZE) [1..<255] @ [DATA_ADDRESS]"
  proof -
    have "page_address = (\<lambda>i. DATA_ADDRESS + i * PAGE_SIZE)" by (simp add: fun_eq_iff page_address_def)
    moreover have "page_address 0 = DATA_ADDRESS" by (simp add: page_address_def)
    ultimately show ?thesis unfolding free map_append by simp
  qed
  ultimately show ?thesis using pages.pop_empty by auto
qed

text \<open>
  Process stacks never overlap: each stack page of the pool is the top of its own megabyte
  (stacks grow down), the megabytes of distinct pages are disjoint, and all of them lie above
  every data page.
\<close>

theorem stacks_disjoint:
  assumes "stack_page_addr a" "stack_page_addr b" "a \<noteq> b"
  shows "{a - STACK_PAGE_SIZE..<a} \<inter> {b - STACK_PAGE_SIZE..<b} = {} \<and>
    {i. data_page_addr i} \<subseteq> {i. i + PAGE_SIZE \<le> a - STACK_PAGE_SIZE}"
proof -
  obtain i where i: "a = (i + 1) * STACK_PAGE_SIZE + STACK_ADDRESS"
    using assms(1) unfolding stack_page_addr_def by blast
  obtain j where j: "b = (j + 1) * STACK_PAGE_SIZE + STACK_ADDRESS"
    using assms(2) unfolding stack_page_addr_def by blast
  have "a \<le> b - STACK_PAGE_SIZE \<or> b \<le> a - STACK_PAGE_SIZE"
    using assms(3) by (cases i j rule: linorder_cases) (simp_all add: i j STACK_PAGE_SIZE_def)
  then have "{a - STACK_PAGE_SIZE..<a} \<inter> {b - STACK_PAGE_SIZE..<b} = {}" by auto
  moreover have "{i. data_page_addr i} \<subseteq> {i. i + PAGE_SIZE \<le> a - STACK_PAGE_SIZE}"
    by (auto simp: data_page_addr_def i page_address_def layout_defs)
  ultimately show ?thesis by blast
qed

theorem stacks_disjoint_witness:
  "stack_page_addr 0x701000 \<and> stack_page_addr 0x801000 \<and> {0x601000..<0x701000} \<inter> {0x701000..<0x801000::nat} = {}"
proof -
  have a: "stack_page_addr 0x701000" unfolding stack_page_addr_def by (rule exI [of _ 0]) (simp add: layout_defs)
  have b: "stack_page_addr 0x801000" unfolding stack_page_addr_def by (rule exI [of _ 1]) (simp add: layout_defs)
  from stacks_disjoint [OF a b] a b show ?thesis by (simp add: STACK_PAGE_SIZE_def)
qed

end
