(* ===== verification/Process.thy ===== *)
theory Process
  imports CLib MemoryAllocator
begin

text \<open>
  \<open>Kernel/process.c\<close> and \<open>include/process.h\<close>: the process descriptor and the operations on
  one descriptor, as functions on the record, and the frame a new process starts from.
  Operations that also touch the process table, a lock or the allocator are kernel
  operations of theory \<open>ProcessTable\<close>.
\<close>

section \<open>The descriptor\<close>

datatype status = RUNNING | READY | BLOCKED | BLOCKED_READ | DELETE | BLOCKED_FOREGROUND

definition MAX_FDS :: int where "MAX_FDS = 64"
definition MAX_DATA_PAGES :: nat where "MAX_DATA_PAGES = 64"
definition MAX_PROCESS_NAME :: nat where "MAX_PROCESS_NAME = 64"

text \<open>\<open>(uint64_t) -1\<close>, the answer of the getters for a NULL process.\<close>

definition UINT64_MAX :: nat where "UINT64_MAX = 2 ^ 64 - 1"

record process =
  st :: status
  name :: "byte list"
  entry_point :: addr
  rsp :: addr
  stack_page :: addr
  n_data_page :: nat
  data_page :: "addr list"
  pid :: nat
  ppid :: nat
  open_fds :: u64

section \<open>Status\<close>

text \<open>The process with pid 0 is init, the one with pid 1 the first shell: neither is killed.\<close>

definition kill_process :: "process \<Rightarrow> process" where
  "kill_process p = (if pid p \<noteq> 1 \<and> pid p \<noteq> 0 then p\<lparr>st := DELETE\<rparr> else p)"

definition is_delete_process :: "process \<Rightarrow> bool" where
  "is_delete_process p \<longleftrightarrow> st p = DELETE"

definition block_process :: "process \<Rightarrow> process" where
  "block_process p = (if st p \<noteq> DELETE then p\<lparr>st := BLOCKED\<rparr> else p)"

definition unblock_process :: "process \<Rightarrow> process" where
  "unblock_process p = (if st p \<noteq> DELETE then p\<lparr>st := READY\<rparr> else p)"

definition is_blocked_process :: "process \<Rightarrow> bool" where
  "is_blocked_process p \<longleftrightarrow> st p = BLOCKED \<or> st p = BLOCKED_READ \<or> st p = BLOCKED_FOREGROUND"

definition unblock_read_process :: "process \<Rightarrow> process" where
  "unblock_read_process p = (if st p = BLOCKED_READ then unblock_process p else p)"

definition block_read_process :: "process \<Rightarrow> process" where
  "block_read_process p = p\<lparr>st := BLOCKED_READ\<rparr>"

definition unblock_foreground_process :: "process \<Rightarrow> process" where
  "unblock_foreground_process p = (if st p = BLOCKED_FOREGROUND then p\<lparr>st := READY\<rparr> else p)"

definition block_foreground_process :: "process \<Rightarrow> process" where
  "block_foreground_process p = p\<lparr>st := BLOCKED_FOREGROUND\<rparr>"

definition runnable :: "process \<Rightarrow> bool" where
  "runnable p \<longleftrightarrow> \<not> (is_blocked_process p \<or> is_delete_process p)"

lemmas status_defs = kill_process_def is_delete_process_def block_process_def unblock_process_def
  is_blocked_process_def unblock_read_process_def block_read_process_def
  unblock_foreground_process_def block_foreground_process_def runnable_def

lemma runnable_iff: "runnable p \<longleftrightarrow> st p = READY \<or> st p = RUNNING"
  by (cases "st p") (auto simp: status_defs)

section \<open>File descriptors\<close>

text \<open>
  \<open>1 << fd\<close> is a shift of the 32-bit \<open>int\<close> 1. The x86 shift takes its count modulo 32, and
  the result is sign-extended when it meets the 64-bit map; C leaves both \<open>fd = 31\<close> and
  \<open>fd \<ge> 32\<close> undefined, this is what the machine does.
\<close>

definition shl_int :: "int \<Rightarrow> u64" where
  "shl_int fd = scast (push_bit (nat (fd mod 32)) (1 :: u32))"

definition set_file_open :: "process \<Rightarrow> int \<Rightarrow> process \<times> bool" where
  "set_file_open p fd =
     (if fd \<ge> MAX_FDS then (p, False) else (p\<lparr>open_fds := open_fds p OR shl_int fd\<rparr>, True))"

definition set_file_closed :: "process \<Rightarrow> int \<Rightarrow> process \<times> bool" where
  "set_file_closed p fd =
     (if fd \<ge> MAX_FDS then (p, False) else (p\<lparr>open_fds := open_fds p AND NOT (shl_int fd)\<rparr>, True))"

definition file_is_open :: "process \<Rightarrow> int \<Rightarrow> bool" where
  "file_is_open p fd \<longleftrightarrow> fd < MAX_FDS \<and> open_fds p AND shl_int fd \<noteq> 0"

section \<open>Data pages\<close>

definition clean_data_page :: "process \<Rightarrow> process" where
  "clean_data_page p = p\<lparr>data_page := replicate MAX_DATA_PAGES NULL, n_data_page := 0\<rparr>"

text \<open>\<open>while (i < MAX_DATA_PAGES && data_page[i] != page) i++\<close>: the index where it stops.\<close>

primrec find_slot :: "addr list \<Rightarrow> addr \<Rightarrow> nat" where
  "find_slot [] page = 0"
| "find_slot (d # ds) page = (if d \<noteq> page then Suc (find_slot ds page) else 0)"

definition add_data_page :: "process \<Rightarrow> addr \<Rightarrow> process" where
  "add_data_page p page =
     (let i = find_slot (data_page p) NULL
      in if i < MAX_DATA_PAGES
         then p\<lparr>n_data_page := (n_data_page p + 1) mod 2 ^ 64, data_page := (data_page p)[i := page]\<rparr>
         else p)"

definition remove_data_page :: "process \<Rightarrow> addr \<Rightarrow> process" where
  "remove_data_page p page =
     (let i = find_slot (data_page p) page
      in if i < MAX_DATA_PAGES
         then p\<lparr>n_data_page := (n_data_page p + 2 ^ 64 - 1) mod 2 ^ 64, data_page := (data_page p)[i := NULL]\<rparr>
         else p)"

text \<open>\<open>pages_left\<close> is an \<open>int\<close>; the result is the array up to its closing \<open>NULL\<close>.\<close>

fun copy_pages :: "addr list \<Rightarrow> int \<Rightarrow> addr list" where
  "copy_pages [] left = []"
| "copy_pages (d # ds) left =
     (if left > 0 then (if d \<noteq> NULL then d # copy_pages ds (left - 1) else copy_pages ds left) else [])"

definition data_pages_process :: "process \<Rightarrow> addr list" where
  "data_pages_process p = copy_pages (data_page p) (sint (of_nat (n_data_page p) :: u32)) @ [NULL]"

text \<open>\<open>free_data_pages\<close>: the pages stored, in order, and the count left.\<close>

fun pages_to_free :: "addr list \<Rightarrow> nat \<Rightarrow> addr list \<times> nat" where
  "pages_to_free [] n = ([], n)"
| "pages_to_free (d # ds) n =
     (if n > 0
      then (if d \<noteq> NULL then (case pages_to_free ds (n - 1) of (r, m) \<Rightarrow> (d # r, m)) else pages_to_free ds n)
      else ([], n))"

text \<open>The table of data pages is sound: 64 slots, and the counter counts the used ones.\<close>

definition data_pages_ok :: "process \<Rightarrow> bool" where
  "data_pages_ok p \<longleftrightarrow> length (data_page p) = MAX_DATA_PAGES \<and>
     n_data_page p = length (filter (\<lambda>d. d \<noteq> NULL) (data_page p))"

lemma find_slot_le: "find_slot ds page \<le> length ds"
  by (induction ds) auto

lemma find_slot_less: "page \<in> set ds \<longleftrightarrow> find_slot ds page < length ds"
  by (induction ds) auto

lemma find_slot_nth: "find_slot ds page < length ds \<Longrightarrow> ds ! find_slot ds page = page"
  by (induction ds) auto

lemma clean_data_pages_ok: "data_pages_ok (clean_data_page p)"
  by (simp add: data_pages_ok_def clean_data_page_def)

lemma used_slots_le: "data_pages_ok p \<Longrightarrow> n_data_page p \<le> 64"
  using length_filter_le [of "\<lambda>d. d \<noteq> NULL" "data_page p"]
  by (simp add: data_pages_ok_def MAX_DATA_PAGES_def)

lemma add_data_page_ok:
  assumes "data_pages_ok p" "page \<noteq> NULL"
  shows "data_pages_ok (add_data_page p page)"
proof (cases "find_slot (data_page p) NULL < MAX_DATA_PAGES")
  case True
  with assms find_slot_nth [of "data_page p" NULL]
    length_filter_update [of "find_slot (data_page p) NULL" "data_page p" "\<lambda>d. d \<noteq> NULL" page]
  show ?thesis using used_slots_le [OF assms(1)]
    by (auto simp: data_pages_ok_def add_data_page_def)
next
  case False
  with assms show ?thesis by (simp add: add_data_page_def)
qed

lemma dec64: "0 < n \<Longrightarrow> n < 2 ^ 64 \<Longrightarrow> (n + 2 ^ 64 - 1) mod 2 ^ 64 = n - (1::nat)"
  by (metis Nat.add_diff_assoc2 Suc_pred diff_Suc_1 less_imp_diff_less mod_add_self2 mod_less
      Suc_leI One_nat_def)

lemma remove_data_page_ok:
  assumes "data_pages_ok p" "page \<noteq> NULL"
  shows "data_pages_ok (remove_data_page p page)"
proof (cases "find_slot (data_page p) page < MAX_DATA_PAGES")
  case True
  let ?i = "find_slot (data_page p) page"
  have i: "?i < length (data_page p)" "data_page p ! ?i = page"
    using True assms(1) find_slot_nth by (auto simp: data_pages_ok_def)
  have "0 < length (filter (\<lambda>d. d \<noteq> NULL) (data_page p))"
    using i assms(2) by (intro filter_length_pos) auto
  with assms(1) have n: "0 < n_data_page p" "n_data_page p < 2 ^ 64"
    using used_slots_le [OF assms(1)] by (auto simp: data_pages_ok_def)
  have "Suc (length (filter (\<lambda>d. d \<noteq> NULL) ((data_page p)[?i := NULL]))) =
      length (filter (\<lambda>d. d \<noteq> NULL) (data_page p))"
    using length_filter_update [of ?i "data_page p" "\<lambda>d. d \<noteq> NULL" NULL] i assms(2) by simp
  with True assms(1) dec64 [OF n] show ?thesis
    by (simp add: data_pages_ok_def remove_data_page_def)
next
  case False
  with assms show ?thesis by (simp add: remove_data_page_def)
qed

lemma copy_pages_all:
  "int (length (filter (\<lambda>d. d \<noteq> NULL) ds)) \<le> n \<Longrightarrow> copy_pages ds n = filter (\<lambda>d. d \<noteq> NULL) ds"
proof (induction ds arbitrary: n)
  case (Cons d ds)
  show ?case
  proof (cases "0 < n")
    case True
    with Cons show ?thesis by auto
  next
    case False
    then have "length (filter (\<lambda>d. d \<noteq> NULL) (d # ds)) = 0" using Cons.prems by linarith
    with False show ?thesis by (simp only: length_0_conv) simp
  qed
qed simp

lemma pages_to_free_all:
  "length (filter (\<lambda>d. d \<noteq> NULL) ds) \<le> n \<Longrightarrow>
   pages_to_free ds n = (filter (\<lambda>d. d \<noteq> NULL) ds, n - length (filter (\<lambda>d. d \<noteq> NULL) ds))"
  by (induction ds arbitrary: n) (auto split: if_splits)

section \<open>The initial frame\<close>

text \<open>
  \<open>fill_stack\<close> lays out a \<open>StackFrame\<close> (23 quadwords) just below the stack page, in the
  order of the struct: the registers \<open>popState\<close> of \<open>asm/interrupts.asm\<close> restores, then what
  \<open>iretq\<close> takes, then a zero word.
\<close>

definition frame_words :: "addr \<Rightarrow> addr \<Rightarrow> u64 \<Rightarrow> u64 list" where
  "frame_words rip sp params =
     [0x001, 0x002, 0x003, 0x004, 0x005, 0x006, 0x007, 0x008, 0x009, 0x00A,
      0x00B, params, 0x00D, 0x00E, 0x00F, 0x010, 0x011,
      of_nat rip, 0x008, 0x202, of_nat (sp - 8), 0x000, 0x000]"

definition frame_size :: nat where "frame_size = 184"

text \<open>Little-endian quadwords in memory.\<close>

definition store64 :: "memory \<Rightarrow> addr \<Rightarrow> u64 \<Rightarrow> memory" where
  "store64 m a v = (\<lambda>b. if a \<le> b \<and> b < a + 8 then ucast (drop_bit (8 * (b - a)) v) else m b)"

definition load64 :: "memory \<Rightarrow> addr \<Rightarrow> u64" where
  "load64 m a = foldr (\<lambda>i v. push_bit 8 v OR ucast (m (a + i))) [0..<8] 0"

primrec store_words :: "memory \<Rightarrow> addr \<Rightarrow> u64 list \<Rightarrow> memory" where
  "store_words m a [] = m"
| "store_words m a (w # ws) = store_words (store64 m a w) (a + 8) ws"

definition fill_stack :: "memory \<Rightarrow> addr \<Rightarrow> addr \<Rightarrow> u64 \<Rightarrow> memory \<times> addr" where
  "fill_stack m rip sp params =
     (store_words m (sp - frame_size) (frame_words rip sp params), sp - frame_size)"

definition byte_of :: "nat \<Rightarrow> u64 \<Rightarrow> byte" where
  "byte_of i v = ucast (drop_bit (8 * i) v)"

lemma bytes_of_word:
  "j \<le> k \<Longrightarrow> foldr (\<lambda>i v'. push_bit 8 v' OR ucast (byte_of i v)) [j..<k] 0
     = drop_bit (8 * j) (take_bit (8 * k) v)"
proof (induction "k - j" arbitrary: j)
  case 0
  then show ?case by (auto intro!: bit_word_eqI simp: bit_simps)
next
  case (Suc d)
  then have "[j..<k] = j # [Suc j..<k]" by (simp add: upt_conv_Cons)
  with Suc have "foldr (\<lambda>i v'. push_bit 8 v' OR ucast (byte_of i v)) [j..<k] 0
      = push_bit 8 (drop_bit (8 * Suc j) (take_bit (8 * k) v)) OR ucast (byte_of j v)" by simp
  also have "\<dots> = drop_bit (8 * j) (take_bit (8 * k) v)"
    by (rule bit_word_eqI) (use Suc.hyps(2) in \<open>auto simp: bit_simps byte_of_def ac_simps\<close>)
  finally show ?case .
qed

lemma load_store64 [simp]: "load64 (store64 m a v) a = v"
proof -
  have "load64 (store64 m a v) a = foldr (\<lambda>i v'. push_bit 8 v' OR ucast (byte_of i v)) [0..<8] 0"
    by (simp add: load64_def store64_def byte_of_def upt_rec)
  also have "\<dots> = v"
    using bytes_of_word [of 0 8 v] by (simp add: take_bit_word_eq_self)
  finally show ?thesis .
qed

lemma load64_cong: "(\<And>i. i < 8 \<Longrightarrow> m (a + i) = m' (a + i)) \<Longrightarrow> load64 m a = load64 m' a"
  unfolding load64_def by (rule foldr_cong) auto

lemma load64_store64_other: "a + 8 \<le> b \<or> b + 8 \<le> a \<Longrightarrow> load64 (store64 m a v) b = load64 m b"
  by (intro load64_cong) (auto simp: store64_def)

lemma store_words_other: "b < a \<or> a + 8 * length ws \<le> b \<Longrightarrow> store_words m a ws b = m b"
  by (induction ws arbitrary: m a) (auto simp: store64_def)

lemma load_store_words: "i < length ws \<Longrightarrow> load64 (store_words m a ws) (a + 8 * i) = ws ! i"
proof (induction ws arbitrary: m a i)
  case (Cons w ws)
  show ?case
  proof (cases i)
    case 0
    have "load64 (store_words (store64 m a w) (a + 8) ws) a = load64 (store64 m a w) a"
      by (intro load64_cong) (auto intro: store_words_other)
    with 0 show ?thesis by simp
  next
    case (Suc j)
    with Cons.IH [of j "store64 m a w" "a + 8"] Cons.prems show ?thesis
      by (simp add: add.assoc)
  qed
qed simp

text \<open>
  What \<open>popState\<close> and \<open>iretq\<close> of \<open>asm/interrupts.asm\<close> take from the stack: the words in
  the order \<open>gs fs r15 .. rdi rbp rdx rcx rbx rax\<close>, then \<open>rip cs rflags rsp ss\<close>.
\<close>

record cpu_context =
  cpu_rip :: u64
  cpu_cs :: u64
  cpu_rflags :: u64
  cpu_rsp :: u64
  cpu_rdi :: u64

definition resume_context :: "memory \<Rightarrow> addr \<Rightarrow> cpu_context" where
  "resume_context m sp =
     \<lparr>cpu_rip = load64 m (sp + 8 * 17), cpu_cs = load64 m (sp + 8 * 18),
      cpu_rflags = load64 m (sp + 8 * 19), cpu_rsp = load64 m (sp + 8 * 20),
      cpu_rdi = load64 m (sp + 8 * 11)\<rparr>"

lemma fill_stack_frame:
  assumes "frame_size \<le> sp" "fill_stack m rip sp params = (m', sp')"
  shows "resume_context m' sp' =
      \<lparr>cpu_rip = of_nat rip, cpu_cs = 8, cpu_rflags = 0x202, cpu_rsp = of_nat (sp - 8), cpu_rdi = params\<rparr>
    \<and> sp' + frame_size = sp \<and> {b. m' b \<noteq> m b} \<subseteq> {sp'..<sp}"
proof -
  let ?ws = "frame_words rip sp params"
  have len: "length ?ws = 23" by (simp add: frame_words_def)
  have m': "m' = store_words m sp' ?ws" "sp' = sp - frame_size"
    using assms(2) by (auto simp: fill_stack_def)
  have word: "load64 m' (sp' + 8 * i) = ?ws ! i" if "i < 23" for i
    using load_store_words [of i ?ws m sp'] that len m'(1) by simp
  have "resume_context m' sp' =
      \<lparr>cpu_rip = ?ws ! 17, cpu_cs = ?ws ! 18, cpu_rflags = ?ws ! 19, cpu_rsp = ?ws ! 20, cpu_rdi = ?ws ! 11\<rparr>"
    unfolding resume_context_def
    using word [of 17] word [of 18] word [of 19] word [of 20] word [of 11] by simp
  moreover have "{b. m' b \<noteq> m b} \<subseteq> {sp'..<sp}"
  proof
    fix b assume b: "b \<in> {b. m' b \<noteq> m b}"
    have "\<not> (b < sp' \<or> sp' + 8 * length ?ws \<le> b)"
    proof
      assume "b < sp' \<or> sp' + 8 * length ?ws \<le> b"
      from store_words_other [OF this] b m'(1) show False by simp
    qed
    with len m'(2) assms(1) show "b \<in> {sp'..<sp}" by (auto simp: frame_size_def)
  qed
  ultimately show ?thesis using m'(2) assms(1) by (simp add: frame_words_def frame_size_def)
qed

lemma fill_stack_context:
  "frame_size \<le> sp \<Longrightarrow> resume_context (fst (fill_stack m rip sp params)) (sp - frame_size) =
     \<lparr>cpu_rip = of_nat rip, cpu_cs = 8, cpu_rflags = 0x202, cpu_rsp = of_nat (sp - 8), cpu_rdi = params\<rparr>"
  using fill_stack_frame [of sp m rip params] by (auto simp: fill_stack_def)

text \<open>
  A process that has never run starts right: resuming from the stack pointer that
  \<open>fill_stack\<close> returns jumps to the entry point with the parameter as first argument, in the
  kernel's code segment, with interrupts enabled, and with the stack pointer on the last
  word of its own stack page; nothing outside the 184 bytes of the frame was written.
\<close>

theorem fill_stack_resumes:
  assumes "frame_size \<le> sp" "fill_stack m rip sp params = (m', sp')"
  shows "resume_context m' sp' =
      \<lparr>cpu_rip = of_nat rip, cpu_cs = 8, cpu_rflags = 0x202, cpu_rsp = of_nat (sp - 8), cpu_rdi = params\<rparr>
    \<and> sp' + frame_size = sp \<and> {b. m' b \<noteq> m b} \<subseteq> {sp'..<sp}"
  using fill_stack_frame [OF assms] .

theorem fill_stack_resumes_witness:
  "frame_size \<le> 0x701000 \<and>
   (case fill_stack (\<lambda>_. 0) 0x400000 0x701000 42 of (m', sp') \<Rightarrow>
      sp' = 0x700F48 \<and> cpu_rip (resume_context m' sp') = 0x400000 \<and>
      cpu_rdi (resume_context m' sp') = 42 \<and> cpu_rsp (resume_context m' sp') = 0x700FF8)"
proof -
  have fits: "frame_size \<le> 0x701000" by (simp add: frame_size_def)
  obtain m' sp' where f: "fill_stack (\<lambda>_. 0) 0x400000 0x701000 42 = (m', sp')" by force
  from fill_stack_resumes [OF fits f] have "sp' = 0x700F48" by (simp add: frame_size_def)
  with fill_stack_resumes [OF fits f] f fits show ?thesis by simp
qed

datatype data_op = AddPage addr | RemovePage addr

fun data_step :: "data_op \<Rightarrow> process \<Rightarrow> process" where
  "data_step (AddPage a) p = add_data_page p a"
| "data_step (RemovePage a) p = remove_data_page p a"

fun data_op_page :: "data_op \<Rightarrow> addr" where
  "data_op_page (AddPage a) = a"
| "data_op_page (RemovePage a) = a"

lemma data_steps_ok:
  "data_pages_ok p \<Longrightarrow> NULL \<notin> data_op_page ` set ops \<Longrightarrow> data_pages_ok (fold data_step ops p)"
proof (induction ops arbitrary: p)
  case (Cons x ops)
  then have "data_pages_ok (data_step x p)"
    by (cases x) (auto intro: add_data_page_ok remove_data_page_ok)
  with Cons show ?case by simp
qed simp

lemma data_pages_listed:
  assumes "data_pages_ok p"
  shows "data_pages_process p = filter (\<lambda>d. d \<noteq> NULL) (data_page p) @ [NULL]"
proof -
  have n: "n_data_page p = length (filter (\<lambda>d. d \<noteq> NULL) (data_page p))" using assms by (simp only: data_pages_ok_def)
  have "n_data_page p \<le> 64" using used_slots_le [OF assms] .
  then have "sint (of_nat (n_data_page p) :: u32) = int (n_data_page p)"
    by (simp add: signed_of_nat signed_take_bit_int_eq_self)
  then show ?thesis using copy_pages_all [of "data_page p"] n by (simp add: data_pages_process_def)
qed



section \<open>The descriptor bit map\<close>

lemma shl_int_bit:
  assumes "0 \<le> fd" "fd < 31"
  shows "bit (shl_int fd) n \<longleftrightarrow> n = nat fd"
proof -
  have "fd mod 32 = fd" using assms by simp
  with assms show ?thesis
    by (auto simp: shl_int_def bit_simps min_def)
qed

lemma and_shl_int: "0 \<le> fd \<Longrightarrow> fd < 31 \<Longrightarrow> m AND shl_int fd \<noteq> 0 \<longleftrightarrow> bit m (nat fd)"
proof -
  assume fd: "0 \<le> fd" "fd < 31"
  have "m AND shl_int fd = 0 \<longleftrightarrow> (\<forall>n. \<not> bit (m AND shl_int fd) n)"
    by (metis bit_0_eq bit_eq_iff bot_apply bot_bool_def)
  with fd show ?thesis by (auto simp: bit_simps shl_int_bit)
qed

text \<open>
  The bit map of open descriptors works for descriptors 0 to 30: opening or closing one
  changes the answer for that one only. Beyond, the 32-bit shift \<open>1 << fd\<close> breaks it:
  although 64 descriptors are meant to fit, every descriptor from 32 on is the same as the
  one 32 below it.
\<close>

theorem file_bits:
  assumes "0 \<le> fd" "fd < 31" "0 \<le> g" "g < 31"
  shows "file_is_open (fst (set_file_open p fd)) g = (g = fd \<or> file_is_open p g) \<and>
    file_is_open (fst (set_file_closed p fd)) g = (g \<noteq> fd \<and> file_is_open p g)"
proof -
  have "nat fd = nat g \<longleftrightarrow> fd = g" using assms by auto
  moreover have "nat fd < 64" "nat g < 64" using assms by auto
  ultimately show ?thesis using assms
    by (auto simp: file_is_open_def set_file_open_def set_file_closed_def MAX_FDS_def and_shl_int
        bit_simps shl_int_bit)
qed

theorem file_bits_witness:
  "(0::int) \<le> 3 \<and> (3::int) < 31 \<and> (0::int) \<le> 4 \<and> (4::int) < 31 \<and>
   (\<forall>p. file_is_open (fst (set_file_open p 3)) 4 = file_is_open p 4)"
  using file_bits [of 3 4] by auto

text \<open>
  Descriptors 32 apart cannot be told from each other, whatever is open: a process that
  opens FIFO 32 may read FIFO 0, and closing one closes the other.
\<close>

theorem file_alias:
  "file_is_open p 32 = file_is_open p 0 \<and> file_is_open (fst (set_file_open p 32)) 0 \<and>
   \<not> file_is_open (fst (set_file_closed p 0)) 32"
proof -
  have "shl_int 32 = shl_int 0" "shl_int 0 \<noteq> 0" by (simp_all add: shl_int_def)
  then show ?thesis
    by (simp add: file_is_open_def set_file_open_def set_file_closed_def MAX_FDS_def and_shl_int
        bit_simps shl_int_bit)
qed

end
