(* ===== verification/CircularBuffer.thy ===== *)
theory CircularBuffer
  imports Prelude
begin

text \<open>
  The ring buffer of \<open>Kernel/fifo.c\<close>: \<open>create_circular_buffer\<close>, \<open>write_circular_buffer\<close>,
  \<open>read_circular_buffer\<close>. The counters are C \<open>int\<close>s, kept as \<open>int\<close> with the 32-bit
  wrap-around written out where a sum can leave the range. A \<open>memcpy\<close> that leaves the
  1024 bytes of the buffer is \<open>None\<close>; its length argument is unsigned, so a negative length
  is a huge one.
\<close>

definition BUF_SIZE :: int where "BUF_SIZE = 1024"

record circular_buffer =
  buffer :: "byte list"
  free_slot :: int
  current_slot :: int
  buf_fill :: int

text \<open>The bytes of a fresh buffer are whatever the stack held; the model takes zeros.\<close>

definition create_circular_buffer :: circular_buffer where
  "create_circular_buffer =
     \<lparr>buffer = replicate (nat BUF_SIZE) 0, free_slot = 0, current_slot = 0, buf_fill = 0\<rparr>"

definition swrap32 :: "int \<Rightarrow> int" where
  "swrap32 x = signed_take_bit 31 x"

definition copy_length :: "int \<Rightarrow> nat" where
  "copy_length n = nat (n mod 2 ^ 64)"

definition memory_bytes :: "memory \<Rightarrow> addr \<Rightarrow> nat \<Rightarrow> byte list" where
  "memory_bytes m src n = map (\<lambda>i. m (src + i)) [0..<n]"

definition store_bytes :: "memory \<Rightarrow> addr \<Rightarrow> byte list \<Rightarrow> memory" where
  "store_bytes m dst bs = (\<lambda>a. if dst \<le> a \<and> a < dst + length bs then bs ! (a - dst) else m a)"

text \<open>\<open>memcpy\<close> from memory into the buffer, and from the buffer to memory.\<close>

definition copy_in :: "memory \<Rightarrow> addr \<Rightarrow> byte list \<Rightarrow> int \<Rightarrow> int \<Rightarrow> byte list option" where
  "copy_in m src b i n =
     (if nat i + copy_length n \<le> length b
      then poke_list b (nat i) (memory_bytes m src (copy_length n)) else None)"

definition copy_out :: "memory \<Rightarrow> addr \<Rightarrow> byte list \<Rightarrow> int \<Rightarrow> int \<Rightarrow> memory option" where
  "copy_out m dst b i n =
     (if nat i + copy_length n \<le> length b
      then Some (store_bytes m dst (take (copy_length n) (drop (nat i) b))) else None)"

text \<open>
  The one or two copies of a transfer, chosen by whether the advanced index wrapped.
\<close>

definition write_copies ::
  "memory \<Rightarrow> addr \<Rightarrow> byte list \<Rightarrow> int \<Rightarrow> int \<Rightarrow> byte list option" where
  "write_copies m src b f n =
     (if f < swrap32 (f + n) smod BUF_SIZE then copy_in m src b f n
      else (let first_bytes = BUF_SIZE - f; second_bytes = n - first_bytes
            in Option.bind (copy_in m src b f first_bytes)
                 (\<lambda>b1. copy_in m (src + nat first_bytes) b1 0 second_bytes)))"

definition read_copies ::
  "memory \<Rightarrow> addr \<Rightarrow> byte list \<Rightarrow> int \<Rightarrow> int \<Rightarrow> memory option" where
  "read_copies m dst b c n =
     (if c < swrap32 (c + n) smod BUF_SIZE then copy_out m dst b c n
      else (let first_bytes = BUF_SIZE - c; second_bytes = n - first_bytes
            in Option.bind (copy_out m dst b c first_bytes)
                 (\<lambda>m1. copy_out m1 (dst + nat first_bytes) b 0 second_bytes)))"

definition write_circular_buffer ::
  "memory \<Rightarrow> circular_buffer \<Rightarrow> addr \<Rightarrow> int \<Rightarrow> (circular_buffer \<times> int) option" where
  "write_circular_buffer m c source nbytes =
     (let write_bytes = (if swrap32 (buf_fill c + nbytes) > BUF_SIZE then BUF_SIZE - buf_fill c else nbytes);
          aux = free_slot c
      in map_option
           (\<lambda>b. (c\<lparr>buffer := b, free_slot := swrap32 (aux + write_bytes) smod BUF_SIZE,
                  buf_fill := buf_fill c + write_bytes\<rparr>, write_bytes))
           (write_copies m source (buffer c) aux write_bytes))"

definition read_circular_buffer ::
  "memory \<Rightarrow> circular_buffer \<Rightarrow> addr \<Rightarrow> int \<Rightarrow> (memory \<times> circular_buffer \<times> int) option" where
  "read_circular_buffer m c dest nbytes =
     (let read_bytes = (if buf_fill c < nbytes then buf_fill c else nbytes);
          aux = current_slot c
      in map_option
           (\<lambda>m'. (m', c\<lparr>current_slot := swrap32 (aux + read_bytes) smod BUF_SIZE,
                       buf_fill := buf_fill c - read_bytes\<rparr>, read_bytes))
           (read_copies m dest (buffer c) aux read_bytes))"

section \<open>The interface: a bounded byte stream\<close>

text \<open>
  What readers and writers of a FIFO rely on, with the bytes in transit as the abstract
  state: a write appends a prefix of its data and reports how much, a read removes a prefix
  of the contents and delivers it.
\<close>

text \<open>
  A schedule of writes and reads; a write to a full stream and a read from an empty one wait
  (the step does nothing). The run collects the bytes accepted and the bytes delivered.
\<close>

datatype stream_op = Put "byte list" | Get nat

fun stream_run :: "(byte list \<Rightarrow> 'c \<Rightarrow> ('c \<times> nat) option) \<Rightarrow> (nat \<Rightarrow> 'c \<Rightarrow> ('c \<times> byte list) option) \<Rightarrow>
    ('c \<Rightarrow> byte list) \<Rightarrow> nat \<Rightarrow> stream_op list \<Rightarrow> 'c \<Rightarrow> ('c \<times> byte list \<times> byte list) option" where
  "stream_run put get contents room [] c = Some (c, [], [])"
| "stream_run put get contents room (Put d # ops) c =
     (if length (contents c) < room \<and> 0 < length d \<and> length d \<le> room
      then Option.bind (put d c) (\<lambda>(c', n). map_option (\<lambda>(c'', a, r). (c'', take n d @ a, r))
             (stream_run put get contents room ops c'))
      else stream_run put get contents room ops c)"
| "stream_run put get contents room (Get n # ops) c =
     (if contents c \<noteq> [] \<and> 0 < n
      then Option.bind (get n c) (\<lambda>(c', d). map_option (\<lambda>(c'', a, r). (c'', a, d @ r))
             (stream_run put get contents room ops c'))
      else stream_run put get contents room ops c)"

locale byte_stream =
  fixes put :: "byte list \<Rightarrow> 'c \<Rightarrow> ('c \<times> nat) option"
    and get :: "nat \<Rightarrow> 'c \<Rightarrow> ('c \<times> byte list) option"
    and contents :: "'c \<Rightarrow> byte list"
    and invar :: "'c \<Rightarrow> bool"
    and room :: nat
  assumes bounded: "invar c \<Longrightarrow> length (contents c) \<le> room"
    and put: "invar c \<Longrightarrow> length (contents c) < room \<Longrightarrow> 0 < length d \<Longrightarrow> length d \<le> room \<Longrightarrow>
      \<exists>c' n. put d c = Some (c', n) \<and> n = min (length d) (room - length (contents c)) \<and>
        invar c' \<and> contents c' = contents c @ take n d"
    and get: "invar c \<Longrightarrow> contents c \<noteq> [] \<Longrightarrow> 0 < n \<Longrightarrow>
      \<exists>c'. get n c = Some (c', take n (contents c)) \<and> invar c' \<and> contents c' = drop n (contents c)"
begin

lemma run_in_order:
  "invar c \<Longrightarrow> \<exists>c' a r. stream_run put get contents room ops c = Some (c', a, r) \<and> invar c' \<and>
     r @ contents c' = contents c @ a \<and> length (contents c') \<le> room"
proof (induction ops arbitrary: c)
  case Nil
  then show ?case using bounded by auto
next
  case (Cons x ops)
  show ?case
  proof (cases x)
    case (Put d)
    show ?thesis
    proof (cases "length (contents c) < room \<and> 0 < length d \<and> length d \<le> room")
      case True
      then obtain c1 n where put1: "put d c = Some (c1, n)" "invar c1" "contents c1 = contents c @ take n d"
        using put [OF Cons.prems, of d] by blast
      then show ?thesis using Cons.IH [OF put1(2)] True Put by auto
    qed (use Cons Put in auto)
  next
    case (Get n)
    show ?thesis
    proof (cases "contents c \<noteq> [] \<and> 0 < n")
      case True
      then obtain c1 where get1: "get n c = Some (c1, take n (contents c))" "invar c1"
          "contents c1 = drop n (contents c)"
        using get [OF Cons.prems, of n] by blast
      obtain c' a r where "stream_run put get contents room ops c1 = Some (c', a, r)" "invar c'"
          "r @ contents c' = contents c1 @ a" "length (contents c') \<le> room"
        using Cons.IH [OF get1(2)] by blast
      moreover from this have "(take n (contents c) @ r) @ contents c' = contents c @ a"
        unfolding get1(3) by (metis append.assoc append_take_drop_id)
      ultimately show ?thesis using get1(1) True Get by simp
    qed (use Cons Get in auto)
  qed
qed

end

section \<open>The ring buffer provides it\<close>

definition ring_ok :: "circular_buffer \<Rightarrow> bool" where
  "ring_ok c \<longleftrightarrow> length (buffer c) = 1024 \<and> 0 \<le> current_slot c \<and> current_slot c < 1024 \<and>
     0 \<le> buf_fill c \<and> buf_fill c \<le> 1024 \<and> free_slot c = (current_slot c + buf_fill c) mod 1024"

definition ring_contents :: "circular_buffer \<Rightarrow> byte list" where
  "ring_contents c =
     map (\<lambda>i. buffer c ! ((nat (current_slot c) + i) mod 1024)) [0..<nat (buf_fill c)]"

lemma ring_create: "ring_ok create_circular_buffer" "ring_contents create_circular_buffer = []"
  by (simp_all add: ring_ok_def ring_contents_def create_circular_buffer_def BUF_SIZE_def)

lemma swrap32_small: "0 \<le> x \<Longrightarrow> x < 2 ^ 31 \<Longrightarrow> swrap32 x = x"
  unfolding swrap32_def by (rule signed_take_bit_int_eq_self) auto

lemma smod_nonneg: "0 \<le> x \<Longrightarrow> x smod BUF_SIZE = x mod 1024"
  by (cases "x = 0"; simp add: signed_modulo_int_def signed_divide_int_def BUF_SIZE_def minus_div_mult_eq_mod)

lemma copy_length_pos: "0 \<le> n \<Longrightarrow> n < 2 ^ 31 \<Longrightarrow> copy_length n = nat n"
  by (simp add: copy_length_def)

lemma length_memory_bytes [simp]: "length (memory_bytes m src n) = n"
  by (simp add: memory_bytes_def)

lemma nth_memory_bytes [simp]: "i < n \<Longrightarrow> memory_bytes m src n ! i = m (src + i)"
  by (simp add: memory_bytes_def)

lemma copy_in_slots:
  assumes "length b = 1024" "i + n \<le> 1024"
  shows "\<exists>b'. copy_in m src b (int i) (int n) = Some b' \<and> length b' = 1024 \<and>
    (\<forall>j < 1024. b' ! j = (if i \<le> j \<and> j < i + n then m (src + (j - i)) else b ! j))"
proof -
  let ?d = "memory_bytes m src n"
  have copy: "copy_in m src b (int i) (int n) = poke_list b i ?d"
    using assms by (simp add: copy_in_def copy_length_pos)
  obtain b' where b': "poke_list b i ?d = Some b'"
    using assms by (auto simp: poke_list_def)
  have "b' ! j = (if i \<le> j \<and> j < i + n then m (src + (j - i)) else b ! j)" if "j < 1024" for j
    using poke_list_nth [OF b', of j] that assms by auto
  then show ?thesis using copy b' poke_list_length [OF b'] assms by auto
qed

lemma copy_out_slots:
  assumes "length b = 1024" "i + n \<le> 1024"
  shows "copy_out m dst b (int i) (int n) =
    Some (\<lambda>a. if dst \<le> a \<and> a < dst + n then b ! (i + (a - dst)) else m a)"
  using assms by (auto simp: copy_out_def copy_length_pos store_bytes_def fun_eq_iff)

lemma mod_1024_wrap: "(a::nat) < 2048 \<Longrightarrow> a mod 1024 = (if a < 1024 then a else a - 1024)"
  by (simp add: mod_if)

lemma slot_wraps:
  assumes "f < 1024" "0 < n" "n \<le> 1024"
  shows "int f < (int f + int n) mod 1024 \<longleftrightarrow> f + n < (1024::nat)"
proof -
  have "(int f + int n) mod 1024 = int ((f + n) mod 1024)" by (simp add: zmod_int)
  then show ?thesis using assms mod_1024_wrap [of "f + n"] by auto
qed

lemma next_slot:
  assumes "f < 1024" "0 < n" "n \<le> 1024"
  shows "swrap32 (int f + int n) smod BUF_SIZE = (int f + int n) mod 1024"
  using assms by (simp add: swrap32_small smod_nonneg)

text \<open>
  A write of \<open>n\<close> bytes that fits puts byte \<open>i\<close> of the source at slot \<open>free_slot + i\<close> modulo
  the size and touches no other slot, in both branches of the code.
\<close>

lemma write_slots:
  assumes b: "length b = 1024" and f: "f < 1024" and n: "0 < n" "n \<le> 1024"
  shows "\<exists>b'. write_copies m src b (int f) (int n) = Some b' \<and> length b' = 1024 \<and>
    (\<forall>i < n. b' ! ((f + i) mod 1024) = m (src + i)) \<and>
    (\<forall>i < 1024 - n. b' ! ((f + n + i) mod 1024) = b ! ((f + n + i) mod 1024))"
proof (cases "f + n < 1024")
  case True
  obtain b' where b': "copy_in m src b (int f) (int n) = Some b'" "length b' = 1024"
      "\<And>j. j < 1024 \<Longrightarrow> b' ! j = (if f \<le> j \<and> j < f + n then m (src + (j - f)) else b ! j)"
    using copy_in_slots [OF b, of f n m src] True by auto
  have "write_copies m src b (int f) (int n) = Some b'"
    using b' True slot_wraps [OF f n] by (simp add: write_copies_def next_slot f n)
  moreover have "\<forall>i < n. b' ! ((f + i) mod 1024) = m (src + i)"
    using b'(3) True by auto
  moreover have "\<forall>i < 1024 - n. b' ! ((f + n + i) mod 1024) = b ! ((f + n + i) mod 1024)"
    using b'(3) True by (auto simp: mod_1024_wrap)
  ultimately show ?thesis using b'(2) by blast
next
  case False
  define k where "k = 1024 - f"
  have kf: "f + k = 1024" "0 < k" "k \<le> n" using f n False by (auto simp: k_def)
  have k: "BUF_SIZE - int f = int k" "int n - int k = int (n - k)" using kf by (auto simp: BUF_SIZE_def)
  have fits: "f + k \<le> 1024" "0 + (n - k) \<le> 1024" using kf n by auto
  obtain b1 where b1: "copy_in m src b (int f) (int k) = Some b1" "length b1 = 1024"
      "\<And>j. j < 1024 \<Longrightarrow> b1 ! j = (if f \<le> j then m (src + (j - f)) else b ! j)"
    using copy_in_slots [OF b fits(1), of m src] kf by auto
  obtain b' where b': "copy_in m (src + k) b1 0 (int (n - k)) = Some b'" "length b' = 1024"
      "\<And>j. j < 1024 \<Longrightarrow> b' ! j = (if j < n - k then m (src + k + j) else b1 ! j)"
    using copy_in_slots [OF b1(2) fits(2), of m "src + k"] by auto
  have "write_copies m src b (int f) (int n) = Some b'"
    using b1(1) b'(1) False slot_wraps [OF f n]
    by (simp add: write_copies_def next_slot f n Let_def k del: of_nat_diff)
  moreover have "b' ! ((f + i) mod 1024) = m (src + i)" if "i < n" for i
  proof (cases "f + i < 1024")
    case True
    then show ?thesis using b'(3) [of "f + i"] b1(3) [of "f + i"] n kf by auto
  next
    case wrap: False
    have "k + (f + i - 1024) = i" using kf wrap by linarith
    moreover have "(f + i) mod 1024 = f + i - 1024" "f + i - 1024 < n - k" "f + i - 1024 < 1024"
      using wrap that n kf by (auto simp: mod_1024_wrap)
    ultimately show ?thesis using b'(3) [of "f + i - 1024"] by (simp add: add.assoc)
  qed
  moreover have "b' ! ((f + n + i) mod 1024) = b ! ((f + n + i) mod 1024)" if "i < 1024 - n" for i
  proof -
    have "(f + n + i) mod 1024 = f + n + i - 1024" "f + n + i - 1024 < 1024"
        "\<not> f + n + i - 1024 < n - k" "\<not> f \<le> f + n + i - 1024"
      using that False n kf by (auto simp: mod_1024_wrap)
    then show ?thesis using b'(3) [of "f + n + i - 1024"] b1(3) [of "f + n + i - 1024"] by simp
  qed
  ultimately show ?thesis using b'(2) by blast
qed

text \<open>A read of \<open>n\<close> bytes delivers slots \<open>current + i\<close> modulo the size, in both branches.\<close>

lemma read_slots:
  assumes b: "length b = 1024" and c: "c < 1024" and n: "0 < n" "n \<le> 1024"
  shows "read_copies m dst b (int c) (int n) =
    Some (\<lambda>a. if dst \<le> a \<and> a < dst + n then b ! ((c + (a - dst)) mod 1024) else m a)"
proof (cases "c + n < 1024")
  case True
  then have "read_copies m dst b (int c) (int n) = copy_out m dst b (int c) (int n)"
    using slot_wraps [OF c n] by (simp add: read_copies_def next_slot c n)
  then show ?thesis using copy_out_slots [OF b, of c n m dst] True by (auto simp: fun_eq_iff)
next
  case False
  define k where "k = 1024 - c"
  have kc: "c + k = 1024" "0 < k" "k \<le> n" using c n False by (auto simp: k_def)
  have k: "BUF_SIZE - int c = int k" "int n - int k = int (n - k)" using kc by (auto simp: BUF_SIZE_def)
  have fits: "c + k \<le> 1024" "0 + (n - k) \<le> 1024" using kc n by auto
  let ?m1 = "\<lambda>a. if dst \<le> a \<and> a < dst + k then b ! (c + (a - dst)) else m a"
  let ?m2 = "\<lambda>a. if dst + k \<le> a \<and> a < dst + k + (n - k) then b ! (a - (dst + k)) else ?m1 a"
  have "read_copies m dst b (int c) (int n) = Some ?m2"
    using False slot_wraps [OF c n] copy_out_slots [OF b fits(1), of m dst]
      copy_out_slots [OF b fits(2), of ?m1 "dst + k", unfolded add_0]
    by (simp add: read_copies_def next_slot c n Let_def k del: of_nat_diff)
  moreover have "?m2 a = (if dst \<le> a \<and> a < dst + n then b ! ((c + (a - dst)) mod 1024) else m a)" for a
  proof -
    consider "a < dst" | "dst \<le> a" "a < dst + k" | "dst + k \<le> a" "a < dst + n" | "dst + n \<le> a"
      by linarith
    then show ?thesis
    proof cases
      case 2
      then have "c + (a - dst) < 1024" "\<not> dst + k \<le> a" "a < dst + n" using kc by linarith+
      then show ?thesis using 2 by simp
    next
      case 3
      then obtain d where d: "a = dst + k + d" using le_Suc_ex by blast
      have "c + (k + d) = 1024 + d" "d < 1024" using kc 3 n d by linarith+
      then have "(c + (k + d)) mod 1024 = d" by (metis mod_add_self1 mod_less)
      then show ?thesis using 3 d kc by simp
    qed (use kc in auto)
  qed
  ultimately show ?thesis by presburger
qed

lemma ring_contents_length [simp]: "length (ring_contents c) = nat (buf_fill c)"
  by (simp add: ring_contents_def)

lemma write_ring:
  assumes ok: "ring_ok c" and room: "buf_fill c < 1024" and n: "0 < n" "int n + buf_fill c < 2 ^ 31"
  defines "k \<equiv> min n (1024 - nat (buf_fill c))"
  shows "\<exists>c'. write_circular_buffer m c src (int n) = Some (c', int k) \<and> ring_ok c' \<and>
    ring_contents c' = ring_contents c @ memory_bytes m src k"
proof -
  define cs where "cs = nat (current_slot c)"
  define bf where "bf = nat (buf_fill c)"
  define f where "f = (cs + bf) mod 1024"
  have c: "current_slot c = int cs" "buf_fill c = int bf" "free_slot c = int f"
      "length (buffer c) = 1024" "cs < 1024" "bf < 1024" "f < 1024"
    using ok room by (auto simp: ring_ok_def cs_def bf_def f_def zmod_int)
  have k: "k = min n (1024 - bf)" "0 < k" "k \<le> 1024" "bf + k \<le> 1024"
    using n c by (auto simp: k_def)
  have len: "(if swrap32 (buf_fill c + int n) > BUF_SIZE then BUF_SIZE - buf_fill c else int n) = int k"
    using n c k(1) by (auto simp: swrap32_small BUF_SIZE_def)
  obtain b' where b': "write_copies m src (buffer c) (int f) (int k) = Some b'" "length b' = 1024"
      "\<And>i. i < k \<Longrightarrow> b' ! ((f + i) mod 1024) = m (src + i)"
      "\<And>i. i < 1024 - k \<Longrightarrow> b' ! ((f + k + i) mod 1024) = buffer c ! ((f + k + i) mod 1024)"
    using write_slots [OF c(4,7) k(2,3), of m src] by blast
  let ?c' = "c\<lparr>buffer := b', free_slot := swrap32 (int f + int k) smod BUF_SIZE, buf_fill := int (bf + k)\<rparr>"
  have "write_circular_buffer m c src (int n) = Some (?c', int k)"
    unfolding write_circular_buffer_def len Let_def using b'(1) c by simp
  moreover have "swrap32 (int f + int k) smod BUF_SIZE = int ((cs + (bf + k)) mod 1024)"
    using next_slot [OF c(7) k(2,3)] unfolding f_def by (simp add: zmod_int mod_simps add.assoc)
  then have "ring_ok ?c'"
    using c(1,5) k(4) b'(2) by (simp add: ring_ok_def zmod_int)
  moreover have "ring_contents ?c' = ring_contents c @ memory_bytes m src k"
  proof (rule nth_equalityI)
    fix i assume "i < length (ring_contents ?c')"
    then have i: "i < bf + k" by simp
    have lhs: "ring_contents ?c' ! i = b' ! ((cs + i) mod 1024)"
      using i c by (simp add: ring_contents_def nat_int_add)
    show "ring_contents ?c' ! i = (ring_contents c @ memory_bytes m src k) ! i"
    proof (cases "i < bf")
      case True
      define j where "j = 1024 - k - bf + i"
      have j: "cs + bf + k + j = cs + i + 1024" "j < 1024 - k" using True k(4) by (auto simp: j_def)
      have "(f + k + j) mod 1024 = (cs + bf + k + j) mod 1024"
        unfolding f_def by (simp add: mod_simps add.assoc)
      then have "(f + k + j) mod 1024 = (cs + i) mod 1024" unfolding j by simp
      then have "b' ! ((cs + i) mod 1024) = buffer c ! ((cs + i) mod 1024)" using b'(4) [OF j(2)] by simp
      with lhs True c show ?thesis by (simp add: nth_append ring_contents_def)
    next
      case False
      then obtain j where j: "i = bf + j" using le_Suc_ex not_less by blast
      have "(cs + i) mod 1024 = (f + j) mod 1024"
        unfolding f_def j by (simp add: mod_simps add.assoc)
      with lhs False j i b'(3) [of j] c show ?thesis by (simp add: nth_append)
    qed
  qed (use c in auto)
  ultimately show ?thesis by blast
qed

lemma read_ring:
  assumes ok: "ring_ok c" and avail: "0 < buf_fill c" and n: "0 < n"
  defines "k \<equiv> min n (nat (buf_fill c))"
  shows "\<exists>c'. read_circular_buffer m c dst (int n) =
      Some (store_bytes m dst (take k (ring_contents c)), c', int k) \<and>
    ring_ok c' \<and> ring_contents c' = drop k (ring_contents c)"
proof -
  define cs where "cs = nat (current_slot c)"
  define bf where "bf = nat (buf_fill c)"
  have c: "current_slot c = int cs" "buf_fill c = int bf"
      "length (buffer c) = 1024" "cs < 1024" "0 < bf" "bf \<le> 1024"
      "free_slot c = int ((cs + bf) mod 1024)"
    using ok avail by (auto simp: ring_ok_def cs_def bf_def zmod_int)
  have k: "k = min n bf" "0 < k" "k \<le> 1024" "k \<le> bf" using n c by (auto simp: k_def)
  have len: "(if buf_fill c < int n then buf_fill c else int n) = int k"
    using c k(1) by auto
  let ?c' = "c\<lparr>current_slot := swrap32 (int cs + int k) smod BUF_SIZE, buf_fill := int bf - int k\<rparr>"
  have slot: "swrap32 (int cs + int k) smod BUF_SIZE = int ((cs + k) mod 1024)"
    using next_slot [OF c(4) k(2,3)] by (simp add: zmod_int)
  have "take k (ring_contents c) ! j = buffer c ! ((cs + j) mod 1024)" if "j < k" for j
    using that c(1,2) k(4) by (simp add: ring_contents_def)
  moreover have "length (take k (ring_contents c)) = k" using c(2) k(4) by simp
  ultimately have "store_bytes m dst (take k (ring_contents c)) =
      (\<lambda>a. if dst \<le> a \<and> a < dst + k then buffer c ! ((cs + (a - dst)) mod 1024) else m a)"
    by (auto simp: store_bytes_def fun_eq_iff)
  then have "read_circular_buffer m c dst (int n) =
      Some (store_bytes m dst (take k (ring_contents c)), ?c', int k)"
    unfolding read_circular_buffer_def len Let_def using read_slots [OF c(3,4) k(2,3), of m dst] c by simp
  moreover have "ring_ok ?c'"
  proof -
    have "(cs + bf) mod 1024 = (cs + k + (bf - k)) mod 1024" using k by simp
    also have "\<dots> = ((cs + k) mod 1024 + (bf - k)) mod 1024" by (simp add: mod_simps)
    finally have "free_slot c = int (((cs + k) mod 1024 + (bf - k)) mod 1024)" using c(7) by simp
    moreover have "int bf - int k = int (bf - k)" using k(4) by simp
    ultimately show ?thesis using c(3,6) k(4) unfolding ring_ok_def slot by (simp add: zmod_int add_diff_eq)
  qed
  moreover have "ring_contents ?c' = drop k (ring_contents c)"
  proof (rule nth_equalityI)
    fix i assume "i < length (ring_contents ?c')"
    then have "k + i < bf" by simp
    then show "ring_contents ?c' ! i = drop k (ring_contents c) ! i"
      using c(2) k(4) unfolding ring_contents_def
      by (simp add: slot mod_simps add.assoc c(1) flip: of_nat_diff)
  qed (use c k in auto)
  ultimately show ?thesis by blast
qed

lemma memory_bytes_store [simp]: "memory_bytes (store_bytes m dst d) dst (length d) = d"
  by (rule nth_equalityI) (auto simp: store_bytes_def)

lemma memory_bytes_store_prefix: "n \<le> length d \<Longrightarrow> memory_bytes (store_bytes m dst d) dst n = take n d"
  by (rule nth_equalityI) (auto simp: store_bytes_def)

text \<open>A write from, and a read into, a buffer of the caller at address 0.\<close>

definition ring_put :: "byte list \<Rightarrow> circular_buffer \<Rightarrow> (circular_buffer \<times> nat) option" where
  "ring_put d c = map_option (\<lambda>(c', n). (c', nat n))
     (write_circular_buffer (store_bytes (\<lambda>_. 0) 0 d) c 0 (int (length d)))"

definition ring_get :: "nat \<Rightarrow> circular_buffer \<Rightarrow> (circular_buffer \<times> byte list) option" where
  "ring_get n c = map_option (\<lambda>(m, c', k). (c', memory_bytes m 0 (nat k)))
     (read_circular_buffer (\<lambda>_. 0) c 0 (int n))"

interpretation ring: byte_stream ring_put ring_get ring_contents ring_ok 1024
proof unfold_locales
  fix c d
  assume ok: "ring_ok c" and d: "length (ring_contents c) < 1024" "0 < length (d :: byte list)" "length d \<le> 1024"
  have fill: "buf_fill c < 1024" "0 \<le> buf_fill c" using d ok by (auto simp: ring_ok_def)
  let ?n = "min (length d) (1024 - nat (buf_fill c))"
  obtain c' where "write_circular_buffer (store_bytes (\<lambda>_. 0) 0 d) c 0 (int (length d)) = Some (c', int ?n)"
      "ring_ok c'" "ring_contents c' = ring_contents c @ memory_bytes (store_bytes (\<lambda>_. 0) 0 d) 0 ?n"
    using write_ring [OF ok fill(1), of "length d"] d fill by auto
  then show "\<exists>c' n. ring_put d c = Some (c', n) \<and> n = min (length d) (1024 - length (ring_contents c)) \<and>
      ring_ok c' \<and> ring_contents c' = ring_contents c @ take n d"
    by (simp add: ring_put_def memory_bytes_store_prefix)
next
  fix c n
  assume ok: "ring_ok c" and c: "ring_contents c \<noteq> []" and n: "0 < (n::nat)"
  have fill: "0 < buf_fill c" using c by (auto simp: ring_contents_def)
  let ?k = "min n (nat (buf_fill c))"
  obtain c' where "read_circular_buffer (\<lambda>_. 0) c 0 (int n) =
        Some (store_bytes (\<lambda>_. 0) 0 (take ?k (ring_contents c)), c', int ?k)"
      "ring_ok c'" "ring_contents c' = drop ?k (ring_contents c)"
    using read_ring [OF ok fill n] by blast
  moreover have "take ?k (ring_contents c) = take n (ring_contents c)"
      "drop ?k (ring_contents c) = drop n (ring_contents c)"
    by (auto simp: min_def)
  moreover have "?k = length (take n (ring_contents c))" by simp
  ultimately show "\<exists>c'. ring_get n c = Some (c', take n (ring_contents c)) \<and> ring_ok c' \<and>
      ring_contents c' = drop n (ring_contents c)"
    by (simp only: ring_get_def option.map prod.case nat_int memory_bytes_store) blast
qed (auto simp: ring_ok_def)

section \<open>Properties\<close>


text \<open>
  A write to a buffer with free space takes as many bytes as fit, returns their number
  and appends exactly them to the contents, wherever the indices stand.
\<close>

theorem write_appends:
  assumes "ring_ok c" "buf_fill c < 1024" "0 < n" "int n + buf_fill c < 2 ^ 31"
  shows "\<exists>c' k. write_circular_buffer m c src (int n) = Some (c', int k) \<and>
    k = min n (1024 - length (ring_contents c)) \<and> ring_ok c' \<and>
    ring_contents c' = ring_contents c @ memory_bytes m src k"
  using write_ring [OF assms] by auto

definition example_ring :: circular_buffer where
  "example_ring = \<lparr>buffer = replicate 1024 7, free_slot = 1, current_slot = 1022, buf_fill = 3\<rparr>"

theorem write_appends_witness:
  "ring_ok example_ring \<and>
   (\<exists>c'. write_circular_buffer of_nat example_ring 40 5 = Some (c', 5) \<and>
     ring_contents c' = [7, 7, 7, 40, 41, 42, 43, 44])"
proof -
  have ok: "ring_ok example_ring" by (simp add: ring_ok_def example_ring_def)
  have pre: "buf_fill example_ring < 1024" "0 < (5::nat)" "int 5 + buf_fill example_ring < 2 ^ 31"
    by (simp_all add: example_ring_def)
  have "ring_contents example_ring = [7, 7, 7]"
    by (simp add: ring_contents_def example_ring_def upt_rec)
  moreover have "memory_bytes of_nat 40 5 = [40, 41, 42, 43, 44]"
    by (simp add: memory_bytes_def upt_rec)
  ultimately show ?thesis
    using write_appends [OF ok pre, of of_nat 40] ok by auto
qed

text \<open>
  A read from a non-empty buffer delivers the oldest bytes, at most as many as asked
  for, writes nothing outside the destination and removes exactly them.
\<close>

theorem read_removes:
  assumes "ring_ok c" "0 < buf_fill c" "0 < n"
  shows "\<exists>c' k. read_circular_buffer m c dst (int n) =
      Some (store_bytes m dst (take k (ring_contents c)), c', int k) \<and>
    k = min n (length (ring_contents c)) \<and> ring_ok c' \<and> ring_contents c' = drop k (ring_contents c)"
  using read_ring [OF assms] by auto

theorem read_removes_witness:
  "\<exists>c' m'. read_circular_buffer (\<lambda>_. 0) example_ring 100 2 = Some (m', c', 2) \<and>
     m' 99 = 0 \<and> m' 100 = 7 \<and> m' 101 = 7 \<and> m' 102 = 0 \<and> ring_contents c' = [7]"
proof -
  have pre: "ring_ok example_ring" "0 < buf_fill example_ring" "0 < (2::nat)"
    by (simp_all add: ring_ok_def example_ring_def)
  have "ring_contents example_ring = [7, 7, 7]"
    by (simp add: ring_contents_def example_ring_def upt_rec)
  then show ?thesis
    using read_removes [OF pre, of "\<lambda>_. 0" 100] by (auto simp: store_bytes_def)
qed

text \<open>
  A write to a full buffer leaves it: the free-slot index does not move, the code takes
  the wrapped branch, the second length is zero or negative, and a negative one is a copy of
  almost \<open>2^64\<close> bytes. (The code has no test for a full buffer.)
\<close>

theorem write_full_overruns:
  assumes "ring_ok c" "buf_fill c = 1024" "0 < n" "n + 1024 < 2 ^ 31"
  shows "write_circular_buffer m c src n = None"
proof -
  define f where "f = nat (free_slot c)"
  have f: "free_slot c = int f" "f < 1024" "length (buffer c) = 1024"
    using assms(1) by (auto simp: ring_ok_def f_def)
  have "swrap32 (1024 + n) = 1024 + n" using assms by (intro swrap32_small) auto
  then have len: "(if swrap32 (buf_fill c + n) > BUF_SIZE then BUF_SIZE - buf_fill c else n) = 0"
    using assms by (simp add: BUF_SIZE_def)
  have "\<not> int f < swrap32 (int f + 0) smod BUF_SIZE"
    using f by (simp add: swrap32_small smod_nonneg)
  moreover have "copy_in m a b 0 (0 - (BUF_SIZE - int f)) = None" if "length b = 1024" for a b
  proof -
    have "(0 - (BUF_SIZE - int f)) mod 2 ^ 64 = 2 ^ 64 - (BUF_SIZE - int f)"
    proof -
      have "(0 - (BUF_SIZE - int f)) mod 2 ^ 64 = (2 ^ 64 - (BUF_SIZE - int f)) mod 2 ^ 64"
        by (metis (no_types) add_diff_eq mod_add_self1 add_0_right)
      also have "\<dots> = 2 ^ 64 - (BUF_SIZE - int f)"
        using f by (intro mod_pos_pos_trivial) (auto simp: BUF_SIZE_def)
      finally show ?thesis .
    qed
    then show ?thesis using that f by (simp add: copy_in_def copy_length_def BUF_SIZE_def nat_le_iff)
  qed
  moreover have "\<exists>b1. copy_in m src (buffer c) (int f) (BUF_SIZE - int f) = Some b1 \<and> length b1 = 1024"
    using copy_in_slots [OF f(3), of f "1024 - f" m src] f by (auto simp: BUF_SIZE_def)
  ultimately have "write_copies m src (buffer c) (int f) 0 = None"
    by (auto simp: write_copies_def Let_def simp del: diff_0)
  then show ?thesis unfolding write_circular_buffer_def len Let_def using f by simp
qed

theorem write_full_overruns_witness:
  "write_circular_buffer (\<lambda>_. 0)
     \<lparr>buffer = replicate 1024 0, free_slot = 3, current_slot = 3, buf_fill = 1024\<rparr> 0 1 = None"
  by (rule write_full_overruns) (simp_all add: ring_ok_def)

end
