(* ===== verification/Font.thy ===== *)
theory Font
  imports Prelude
begin

text \<open>
  \<open>Kernel/font.c\<close>: the bitmaps of the characters, sixteen rows of eight pixels each, most
  significant bit leftmost (\<open>font.h\<close> names the 256 rows). A glyph is listed with the code its
  comment gives it; \<open>font_bitmap\<close> is the array of the rows, \<open>pixel_map\<close> the pointer into it.
\<close>

section \<open>The rows\<close>

text \<open>The macros of \<open>font.h\<close>: the name of a row is its picture, the value its byte.\<close>

definition font_rows_low :: "(string \<times> byte) list" where
  "font_rows_low =
    [(''________'', 0x00), (''_______X'', 0x01), (''______X_'', 0x02), (''______XX'', 0x03), (''_____X__'', 0x04),
     (''_____X_X'', 0x05), (''_____XX_'', 0x06), (''_____XXX'', 0x07), (''____X___'', 0x08), (''____X__X'', 0x09),
     (''____X_X_'', 0x0A), (''____X_XX'', 0x0B), (''____XX__'', 0x0C), (''____XX_X'', 0x0D), (''____XXX_'', 0x0E),
     (''____XXXX'', 0x0F), (''___X____'', 0x10), (''___X___X'', 0x11), (''___X__X_'', 0x12), (''___X__XX'', 0x13),
     (''___X_X__'', 0x14), (''___X_X_X'', 0x15), (''___X_XX_'', 0x16), (''___X_XXX'', 0x17), (''___XX___'', 0x18),
     (''___XX__X'', 0x19), (''___XX_X_'', 0x1A), (''___XX_XX'', 0x1B), (''___XXX__'', 0x1C), (''___XXX_X'', 0x1D),
     (''___XXXX_'', 0x1E), (''___XXXXX'', 0x1F), (''__X_____'', 0x20), (''__X____X'', 0x21), (''__X___X_'', 0x22),
     (''__X___XX'', 0x23), (''__X__X__'', 0x24), (''__X__X_X'', 0x25), (''__X__XX_'', 0x26), (''__X__XXX'', 0x27),
     (''__X_X___'', 0x28), (''__X_X__X'', 0x29), (''__X_X_X_'', 0x2A), (''__X_X_XX'', 0x2B), (''__X_XX__'', 0x2C),
     (''__X_XX_X'', 0x2D), (''__X_XXX_'', 0x2E), (''__X_XXXX'', 0x2F), (''__XX____'', 0x30), (''__XX___X'', 0x31),
     (''__XX__X_'', 0x32), (''__XX__XX'', 0x33), (''__XX_X__'', 0x34), (''__XX_X_X'', 0x35), (''__XX_XX_'', 0x36),
     (''__XX_XXX'', 0x37), (''__XXX___'', 0x38), (''__XXX__X'', 0x39), (''__XXX_X_'', 0x3A), (''__XXX_XX'', 0x3B),
     (''__XXXX__'', 0x3C), (''__XXXX_X'', 0x3D), (''__XXXXX_'', 0x3E), (''__XXXXXX'', 0x3F), (''_X______'', 0x40),
     (''_X_____X'', 0x41), (''_X____X_'', 0x42), (''_X____XX'', 0x43), (''_X___X__'', 0x44), (''_X___X_X'', 0x45),
     (''_X___XX_'', 0x46), (''_X___XXX'', 0x47), (''_X__X___'', 0x48), (''_X__X__X'', 0x49), (''_X__X_X_'', 0x4A),
     (''_X__X_XX'', 0x4B), (''_X__XX__'', 0x4C), (''_X__XX_X'', 0x4D), (''_X__XXX_'', 0x4E), (''_X__XXXX'', 0x4F),
     (''_X_X____'', 0x50), (''_X_X___X'', 0x51), (''_X_X__X_'', 0x52), (''_X_X__XX'', 0x53), (''_X_X_X__'', 0x54),
     (''_X_X_X_X'', 0x55), (''_X_X_XX_'', 0x56), (''_X_X_XXX'', 0x57), (''_X_XX___'', 0x58), (''_X_XX__X'', 0x59),
     (''_X_XX_X_'', 0x5A), (''_X_XX_XX'', 0x5B), (''_X_XXX__'', 0x5C), (''_X_XXX_X'', 0x5D), (''_X_XXXX_'', 0x5E),
     (''_X_XXXXX'', 0x5F), (''_XX_____'', 0x60), (''_XX____X'', 0x61), (''_XX___X_'', 0x62), (''_XX___XX'', 0x63),
     (''_XX__X__'', 0x64), (''_XX__X_X'', 0x65), (''_XX__XX_'', 0x66), (''_XX__XXX'', 0x67), (''_XX_X___'', 0x68),
     (''_XX_X__X'', 0x69), (''_XX_X_X_'', 0x6A), (''_XX_X_XX'', 0x6B), (''_XX_XX__'', 0x6C), (''_XX_XX_X'', 0x6D),
     (''_XX_XXX_'', 0x6E), (''_XX_XXXX'', 0x6F), (''_XXX____'', 0x70), (''_XXX___X'', 0x71), (''_XXX__X_'', 0x72),
     (''_XXX__XX'', 0x73), (''_XXX_X__'', 0x74), (''_XXX_X_X'', 0x75), (''_XXX_XX_'', 0x76), (''_XXX_XXX'', 0x77),
     (''_XXXX___'', 0x78), (''_XXXX__X'', 0x79), (''_XXXX_X_'', 0x7A), (''_XXXX_XX'', 0x7B), (''_XXXXX__'', 0x7C),
     (''_XXXXX_X'', 0x7D), (''_XXXXXX_'', 0x7E), (''_XXXXXXX'', 0x7F)]"

definition font_rows_high :: "(string \<times> byte) list" where
  "font_rows_high =
    [(''X_______'', 0x80), (''X______X'', 0x81), (''X_____X_'', 0x82), (''X_____XX'', 0x83), (''X____X__'', 0x84),
     (''X____X_X'', 0x85), (''X____XX_'', 0x86), (''X____XXX'', 0x87), (''X___X___'', 0x88), (''X___X__X'', 0x89),
     (''X___X_X_'', 0x8A), (''X___X_XX'', 0x8B), (''X___XX__'', 0x8C), (''X___XX_X'', 0x8D), (''X___XXX_'', 0x8E),
     (''X___XXXX'', 0x8F), (''X__X____'', 0x90), (''X__X___X'', 0x91), (''X__X__X_'', 0x92), (''X__X__XX'', 0x93),
     (''X__X_X__'', 0x94), (''X__X_X_X'', 0x95), (''X__X_XX_'', 0x96), (''X__X_XXX'', 0x97), (''X__XX___'', 0x98),
     (''X__XX__X'', 0x99), (''X__XX_X_'', 0x9A), (''X__XX_XX'', 0x9B), (''X__XXX__'', 0x9C), (''X__XXX_X'', 0x9D),
     (''X__XXXX_'', 0x9E), (''X__XXXXX'', 0x9F), (''X_X_____'', 0xA0), (''X_X____X'', 0xA1), (''X_X___X_'', 0xA2),
     (''X_X___XX'', 0xA3), (''X_X__X__'', 0xA4), (''X_X__X_X'', 0xA5), (''X_X__XX_'', 0xA6), (''X_X__XXX'', 0xA7),
     (''X_X_X___'', 0xA8), (''X_X_X__X'', 0xA9), (''X_X_X_X_'', 0xAA), (''X_X_X_XX'', 0xAB), (''X_X_XX__'', 0xAC),
     (''X_X_XX_X'', 0xAD), (''X_X_XXX_'', 0xAE), (''X_X_XXXX'', 0xAF), (''X_XX____'', 0xB0), (''X_XX___X'', 0xB1),
     (''X_XX__X_'', 0xB2), (''X_XX__XX'', 0xB3), (''X_XX_X__'', 0xB4), (''X_XX_X_X'', 0xB5), (''X_XX_XX_'', 0xB6),
     (''X_XX_XXX'', 0xB7), (''X_XXX___'', 0xB8), (''X_XXX__X'', 0xB9), (''X_XXX_X_'', 0xBA), (''X_XXX_XX'', 0xBB),
     (''X_XXXX__'', 0xBC), (''X_XXXX_X'', 0xBD), (''X_XXXXX_'', 0xBE), (''X_XXXXXX'', 0xBF), (''XX______'', 0xC0),
     (''XX_____X'', 0xC1), (''XX____X_'', 0xC2), (''XX____XX'', 0xC3), (''XX___X__'', 0xC4), (''XX___X_X'', 0xC5),
     (''XX___XX_'', 0xC6), (''XX___XXX'', 0xC7), (''XX__X___'', 0xC8), (''XX__X__X'', 0xC9), (''XX__X_X_'', 0xCA),
     (''XX__X_XX'', 0xCB), (''XX__XX__'', 0xCC), (''XX__XX_X'', 0xCD), (''XX__XXX_'', 0xCE), (''XX__XXXX'', 0xCF),
     (''XX_X____'', 0xD0), (''XX_X___X'', 0xD1), (''XX_X__X_'', 0xD2), (''XX_X__XX'', 0xD3), (''XX_X_X__'', 0xD4),
     (''XX_X_X_X'', 0xD5), (''XX_X_XX_'', 0xD6), (''XX_X_XXX'', 0xD7), (''XX_XX___'', 0xD8), (''XX_XX__X'', 0xD9),
     (''XX_XX_X_'', 0xDA), (''XX_XX_XX'', 0xDB), (''XX_XXX__'', 0xDC), (''XX_XXX_X'', 0xDD), (''XX_XXXX_'', 0xDE),
     (''XX_XXXXX'', 0xDF), (''XXX_____'', 0xE0), (''XXX____X'', 0xE1), (''XXX___X_'', 0xE2), (''XXX___XX'', 0xE3),
     (''XXX__X__'', 0xE4), (''XXX__X_X'', 0xE5), (''XXX__XX_'', 0xE6), (''XXX__XXX'', 0xE7), (''XXX_X___'', 0xE8),
     (''XXX_X__X'', 0xE9), (''XXX_X_X_'', 0xEA), (''XXX_X_XX'', 0xEB), (''XXX_XX__'', 0xEC), (''XXX_XX_X'', 0xED),
     (''XXX_XXX_'', 0xEE), (''XXX_XXXX'', 0xEF), (''XXXX____'', 0xF0), (''XXXX___X'', 0xF1), (''XXXX__X_'', 0xF2),
     (''XXXX__XX'', 0xF3), (''XXXX_X__'', 0xF4), (''XXXX_X_X'', 0xF5), (''XXXX_XX_'', 0xF6), (''XXXX_XXX'', 0xF7),
     (''XXXXX___'', 0xF8), (''XXXXX__X'', 0xF9), (''XXXXX_X_'', 0xFA), (''XXXXX_XX'', 0xFB), (''XXXXXX__'', 0xFC),
     (''XXXXXX_X'', 0xFD), (''XXXXXXX_'', 0xFE), (''XXXXXXXX'', 0xFF)]"

definition picture :: "string \<Rightarrow> byte" where
  "picture w = foldl (\<lambda>v c. 2 * v + (if c = CHR ''X'' then 1 else 0)) 0 w"

lemma rows_are_pictures:
  "list_all (\<lambda>(w, v). length w = 8 \<and> set w \<subseteq> {CHR ''X'', CHR ''_''} \<and> picture w = v) (font_rows_low @ font_rows_high)"
  by (simp add: font_rows_low_def font_rows_high_def picture_def)

lemma rows_complete: "map snd (font_rows_low @ font_rows_high) = map of_nat [0..<256]"
  by (simp add: font_rows_low_def font_rows_high_def upt_conv_Cons)

section \<open>The glyphs\<close>

type_synonym glyph = "int \<times> byte list"

definition glyphs_0 :: "glyph list" where
  "glyphs_0 =
    [(0, [0, 0, 0xDA, 2, 0x80, 0x82, 2, 0x80, 0x82, 2, 0x80, 0xB6, 0, 0, 0, 0]),
     (32, [0, 0, 0, 0, 0, 0, 0, 0, 0, 0, 0, 0, 0, 0, 0, 0]),
     (33, [0, 0, 0x18, 0x3C, 0x3C, 0x3C, 0x18, 0x18, 0x18, 0, 0x18, 0x18, 0, 0, 0, 0]),
     (34, [0, 0x66, 0x66, 0x66, 0x24, 0, 0, 0, 0, 0, 0, 0, 0, 0, 0, 0]),
     (35, [0, 0, 0, 0x6C, 0x6C, 0xFE, 0x6C, 0x6C, 0x6C, 0xFE, 0x6C, 0x6C, 0, 0, 0, 0]),
     (36, [0x18, 0x18, 0x7C, 0xC6, 0xC2, 0xC0, 0x7C, 6, 6, 0x86, 0xC6, 0x7C, 0x18, 0x18, 0, 0]),
     (37, [0, 0, 0, 0, 0xC2, 0xC6, 0x0C, 0x18, 0x30, 0x60, 0xC6, 0x86, 0, 0, 0, 0]),
     (38, [0, 0, 0x38, 0x6C, 0x6C, 0x38, 0x76, 0xDC, 0xCC, 0xCC, 0xCC, 0x76, 0, 0, 0, 0])]"

definition glyphs_39 :: "glyph list" where
  "glyphs_39 =
    [(39, [0, 0x30, 0x30, 0x30, 0x20, 0, 0, 0, 0, 0, 0, 0, 0, 0, 0, 0]),
     (40, [0, 0, 0x0C, 0x18, 0x30, 0x30, 0x30, 0x30, 0x30, 0x30, 0x18, 0x0C, 0, 0, 0, 0]),
     (41, [0, 0, 0x30, 0x18, 0x0C, 0x0C, 0x0C, 0x0C, 0x0C, 0x0C, 0x18, 0x30, 0, 0, 0, 0]),
     (42, [0, 0, 0, 0, 0, 0x66, 0x3C, 0xFF, 0x3C, 0x66, 0, 0, 0, 0, 0, 0]),
     (43, [0, 0, 0, 0, 0, 0x18, 0x18, 0x7E, 0x18, 0x18, 0, 0, 0, 0, 0, 0]),
     (44, [0, 0, 0, 0, 0, 0, 0, 0, 0, 0x18, 0x18, 0x18, 0x30, 0, 0, 0]),
     (45, [0, 0, 0, 0, 0, 0, 0, 0xFE, 0, 0, 0, 0, 0, 0, 0, 0]),
     (46, [0, 0, 0, 0, 0, 0, 0, 0, 0, 0, 0x18, 0x18, 0, 0, 0, 0])]"

definition glyphs_47 :: "glyph list" where
  "glyphs_47 =
    [(47, [0, 0, 0, 0, 2, 6, 0x0C, 0x18, 0x30, 0x60, 0xC0, 0x80, 0, 0, 0, 0]),
     (48, [0, 0, 0x38, 0x6C, 0xC6, 0xC6, 0xD6, 0xD6, 0xC6, 0xC6, 0x6C, 0x38, 0, 0, 0, 0]),
     (49, [0, 0, 0x18, 0x38, 0x78, 0x18, 0x18, 0x18, 0x18, 0x18, 0x18, 0x7E, 0, 0, 0, 0]),
     (50, [0, 0, 0x7C, 0xC6, 6, 0x0C, 0x18, 0x30, 0x60, 0xC0, 0xC6, 0xFE, 0, 0, 0, 0]),
     (51, [0, 0, 0x7C, 0xC6, 6, 6, 0x3C, 6, 6, 6, 0xC6, 0x7C, 0, 0, 0, 0]),
     (52, [0, 0, 0x0C, 0x1C, 0x3C, 0x6C, 0xCC, 0xFE, 0x0C, 0x0C, 0x0C, 0x1E, 0, 0, 0, 0]),
     (53, [0, 0, 0xFE, 0xC0, 0xC0, 0xC0, 0xFC, 6, 6, 6, 0xC6, 0x7C, 0, 0, 0, 0]),
     (54, [0, 0, 0x38, 0x60, 0xC0, 0xC0, 0xFC, 0xC6, 0xC6, 0xC6, 0xC6, 0x7C, 0, 0, 0, 0])]"

definition glyphs_55 :: "glyph list" where
  "glyphs_55 =
    [(55, [0, 0, 0xFE, 0xC6, 6, 6, 0x0C, 0x18, 0x30, 0x30, 0x30, 0x30, 0, 0, 0, 0]),
     (56, [0, 0, 0x7C, 0xC6, 0xC6, 0xC6, 0x7C, 0xC6, 0xC6, 0xC6, 0xC6, 0x7C, 0, 0, 0, 0]),
     (57, [0, 0, 0x7C, 0xC6, 0xC6, 0xC6, 0x7E, 6, 6, 6, 0x0C, 0x78, 0, 0, 0, 0]),
     (58, [0, 0, 0, 0, 0x18, 0x18, 0, 0, 0, 0x18, 0x18, 0, 0, 0, 0, 0]),
     (59, [0, 0, 0, 0, 0x18, 0x18, 0, 0, 0, 0x18, 0x18, 0x30, 0, 0, 0, 0]),
     (60, [0, 0, 0, 6, 0x0C, 0x18, 0x30, 0x60, 0x30, 0x18, 0x0C, 6, 0, 0, 0, 0]),
     (61, [0, 0, 0, 0, 0, 0x7E, 0, 0, 0x7E, 0, 0, 0, 0, 0, 0, 0]),
     (62, [0, 0, 0, 0x60, 0x30, 0x18, 0x0C, 6, 0x0C, 0x18, 0x30, 0x60, 0, 0, 0, 0])]"

definition glyphs_63 :: "glyph list" where
  "glyphs_63 =
    [(63, [0, 0, 0x7C, 0xC6, 0xC6, 0x0C, 0x18, 0x18, 0x18, 0, 0x18, 0x18, 0, 0, 0, 0]),
     (64, [0, 0, 0, 0x7C, 0xC6, 0xC6, 0xDE, 0xDE, 0xDE, 0xDC, 0xC0, 0x7C, 0, 0, 0, 0]),
     (65, [0, 0, 0x10, 0x38, 0x6C, 0xC6, 0xC6, 0xFE, 0xC6, 0xC6, 0xC6, 0xC6, 0, 0, 0, 0]),
     (66, [0, 0, 0xFC, 0x66, 0x66, 0x66, 0x7C, 0x66, 0x66, 0x66, 0x66, 0xFC, 0, 0, 0, 0]),
     (67, [0, 0, 0x3C, 0x66, 0xC2, 0xC0, 0xC0, 0xC0, 0xC0, 0xC2, 0x66, 0x3C, 0, 0, 0, 0]),
     (68, [0, 0, 0xF8, 0x6C, 0x66, 0x66, 0x66, 0x66, 0x66, 0x66, 0x6C, 0xF8, 0, 0, 0, 0]),
     (69, [0, 0, 0xFE, 0x66, 0x62, 0x68, 0x78, 0x68, 0x60, 0x62, 0x66, 0xFE, 0, 0, 0, 0]),
     (70, [0, 0, 0xFE, 0x66, 0x62, 0x68, 0x78, 0x68, 0x60, 0x60, 0x60, 0xF0, 0, 0, 0, 0])]"

definition glyphs_71 :: "glyph list" where
  "glyphs_71 =
    [(71, [0, 0, 0x3C, 0x66, 0xC2, 0xC0, 0xC0, 0xDE, 0xC6, 0xC6, 0x66, 0x3A, 0, 0, 0, 0]),
     (72, [0, 0, 0xC6, 0xC6, 0xC6, 0xC6, 0xFE, 0xC6, 0xC6, 0xC6, 0xC6, 0xC6, 0, 0, 0, 0]),
     (73, [0, 0, 0x3C, 0x18, 0x18, 0x18, 0x18, 0x18, 0x18, 0x18, 0x18, 0x3C, 0, 0, 0, 0]),
     (74, [0, 0, 0x1E, 0x0C, 0x0C, 0x0C, 0x0C, 0x0C, 0xCC, 0xCC, 0xCC, 0x78, 0, 0, 0, 0]),
     (75, [0, 0, 0xE6, 0x66, 0x66, 0x6C, 0x78, 0x78, 0x6C, 0x66, 0x66, 0xE6, 0, 0, 0, 0]),
     (76, [0, 0, 0xF0, 0x60, 0x60, 0x60, 0x60, 0x60, 0x60, 0x62, 0x66, 0xFE, 0, 0, 0, 0]),
     (77, [0, 0, 0xC6, 0xEE, 0xFE, 0xFE, 0xD6, 0xC6, 0xC6, 0xC6, 0xC6, 0xC6, 0, 0, 0, 0]),
     (78, [0, 0, 0xC6, 0xE6, 0xF6, 0xFE, 0xDE, 0xCE, 0xC6, 0xC6, 0xC6, 0xC6, 0, 0, 0, 0])]"

definition glyphs_79 :: "glyph list" where
  "glyphs_79 =
    [(79, [0, 0, 0x7C, 0xC6, 0xC6, 0xC6, 0xC6, 0xC6, 0xC6, 0xC6, 0xC6, 0x7C, 0, 0, 0, 0]),
     (80, [0, 0, 0xFC, 0x66, 0x66, 0x66, 0x7C, 0x60, 0x60, 0x60, 0x60, 0xF0, 0, 0, 0, 0]),
     (81, [0, 0, 0x7C, 0xC6, 0xC6, 0xC6, 0xC6, 0xC6, 0xC6, 0xD6, 0xDE, 0x7C, 0x0C, 0x0E, 0, 0]),
     (82, [0, 0, 0xFC, 0x66, 0x66, 0x66, 0x7C, 0x6C, 0x66, 0x66, 0x66, 0xE6, 0, 0, 0, 0]),
     (83, [0, 0, 0x7C, 0xC6, 0xC6, 0x60, 0x38, 0x0C, 6, 0xC6, 0xC6, 0x7C, 0, 0, 0, 0]),
     (84, [0, 0, 0x7E, 0x7E, 0x5A, 0x18, 0x18, 0x18, 0x18, 0x18, 0x18, 0x3C, 0, 0, 0, 0]),
     (85, [0, 0, 0xC6, 0xC6, 0xC6, 0xC6, 0xC6, 0xC6, 0xC6, 0xC6, 0xC6, 0x7C, 0, 0, 0, 0]),
     (86, [0, 0, 0xC6, 0xC6, 0xC6, 0xC6, 0xC6, 0xC6, 0xC6, 0x6C, 0x38, 0x10, 0, 0, 0, 0])]"

definition glyphs_87 :: "glyph list" where
  "glyphs_87 =
    [(87, [0, 0, 0xC6, 0xC6, 0xC6, 0xC6, 0xD6, 0xD6, 0xD6, 0xFE, 0xEE, 0x6C, 0, 0, 0, 0]),
     (88, [0, 0, 0xC6, 0xC6, 0x6C, 0x7C, 0x38, 0x38, 0x7C, 0x6C, 0xC6, 0xC6, 0, 0, 0, 0]),
     (89, [0, 0, 0x66, 0x66, 0x66, 0x66, 0x3C, 0x18, 0x18, 0x18, 0x18, 0x3C, 0, 0, 0, 0]),
     (90, [0, 0, 0xFE, 0xC6, 0x86, 0x0C, 0x18, 0x30, 0x60, 0xC2, 0xC6, 0xFE, 0, 0, 0, 0]),
     (91, [0, 0, 0x3C, 0x30, 0x30, 0x30, 0x30, 0x30, 0x30, 0x30, 0x30, 0x3C, 0, 0, 0, 0]),
     (92, [0, 0, 0, 0x80, 0xC0, 0xE0, 0x70, 0x38, 0x1C, 0x0E, 6, 2, 0, 0, 0, 0]),
     (93, [0, 0, 0x3C, 0x0C, 0x0C, 0x0C, 0x0C, 0x0C, 0x0C, 0x0C, 0x0C, 0x3C, 0, 0, 0, 0]),
     (94, [0x10, 0x38, 0x6C, 0xC6, 0, 0, 0, 0, 0, 0, 0, 0, 0, 0, 0, 0])]"

definition glyphs_95 :: "glyph list" where
  "glyphs_95 =
    [(95, [0, 0, 0, 0, 0, 0, 0, 0, 0, 0, 0, 0, 0, 0xFF, 0, 0]),
     (96, [0x30, 0x30, 0x18, 0, 0, 0, 0, 0, 0, 0, 0, 0, 0, 0, 0, 0]),
     (97, [0, 0, 0, 0, 0, 0x78, 0x0C, 0x7C, 0xCC, 0xCC, 0xCC, 0x76, 0, 0, 0, 0]),
     (98, [0, 0, 0xE0, 0x60, 0x60, 0x78, 0x6C, 0x66, 0x66, 0x66, 0x66, 0x7C, 0, 0, 0, 0]),
     (99, [0, 0, 0, 0, 0, 0x7C, 0xC6, 0xC0, 0xC0, 0xC0, 0xC6, 0x7C, 0, 0, 0, 0]),
     (100, [0, 0, 0x1C, 0x0C, 0x0C, 0x3C, 0x6C, 0xCC, 0xCC, 0xCC, 0xCC, 0x76, 0, 0, 0, 0]),
     (101, [0, 0, 0, 0, 0, 0x7C, 0xC6, 0xFE, 0xC0, 0xC0, 0xC6, 0x7C, 0, 0, 0, 0]),
     (102, [0, 0, 0x38, 0x6C, 0x64, 0x60, 0xF0, 0x60, 0x60, 0x60, 0x60, 0xF0, 0, 0, 0, 0])]"

definition glyphs_103 :: "glyph list" where
  "glyphs_103 =
    [(103, [0, 0, 0, 0, 0, 0x76, 0xCC, 0xCC, 0xCC, 0xCC, 0xCC, 0x7C, 0x0C, 0xCC, 0x78, 0]),
     (104, [0, 0, 0xE0, 0x60, 0x60, 0x6C, 0x76, 0x66, 0x66, 0x66, 0x66, 0xE6, 0, 0, 0, 0]),
     (105, [0, 0, 0x18, 0x18, 0, 0x38, 0x18, 0x18, 0x18, 0x18, 0x18, 0x3C, 0, 0, 0, 0]),
     (106, [0, 0, 6, 6, 0, 0x0E, 6, 6, 6, 6, 6, 6, 0x66, 0x66, 0x3C, 0]),
     (107, [0, 0, 0xE0, 0x60, 0x60, 0x66, 0x6C, 0x78, 0x78, 0x6C, 0x66, 0xE6, 0, 0, 0, 0]),
     (108, [0, 0, 0x38, 0x18, 0x18, 0x18, 0x18, 0x18, 0x18, 0x18, 0x18, 0x3C, 0, 0, 0, 0]),
     (109, [0, 0, 0, 0, 0, 0xEC, 0xFE, 0xD6, 0xD6, 0xD6, 0xD6, 0xC6, 0, 0, 0, 0]),
     (110, [0, 0, 0, 0, 0, 0xDC, 0x66, 0x66, 0x66, 0x66, 0x66, 0x66, 0, 0, 0, 0])]"

definition glyphs_111 :: "glyph list" where
  "glyphs_111 =
    [(111, [0, 0, 0, 0, 0, 0x7C, 0xC6, 0xC6, 0xC6, 0xC6, 0xC6, 0x7C, 0, 0, 0, 0]),
     (112, [0, 0, 0, 0, 0, 0xDC, 0x66, 0x66, 0x66, 0x66, 0x66, 0x7C, 0x60, 0x60, 0xF0, 0]),
     (113, [0, 0, 0, 0, 0, 0x76, 0xCC, 0xCC, 0xCC, 0xCC, 0xCC, 0x7C, 0x0C, 0x0C, 0x1E, 0]),
     (114, [0, 0, 0, 0, 0, 0xDC, 0x76, 0x66, 0x60, 0x60, 0x60, 0xF0, 0, 0, 0, 0]),
     (115, [0, 0, 0, 0, 0, 0x7C, 0xC6, 0x60, 0x38, 0x0C, 0xC6, 0x7C, 0, 0, 0, 0]),
     (116, [0, 0, 0x10, 0x30, 0x30, 0xFC, 0x30, 0x30, 0x30, 0x30, 0x36, 0x1C, 0, 0, 0, 0]),
     (117, [0, 0, 0, 0, 0, 0xCC, 0xCC, 0xCC, 0xCC, 0xCC, 0xCC, 0x76, 0, 0, 0, 0]),
     (118, [0, 0, 0, 0, 0, 0x66, 0x66, 0x66, 0x66, 0x66, 0x3C, 0x18, 0, 0, 0, 0])]"

definition glyphs_119 :: "glyph list" where
  "glyphs_119 =
    [(119, [0, 0, 0, 0, 0, 0xC6, 0xC6, 0xD6, 0xD6, 0xD6, 0xFE, 0x6C, 0, 0, 0, 0]),
     (120, [0, 0, 0, 0, 0, 0xC6, 0x6C, 0x38, 0x38, 0x38, 0x6C, 0xC6, 0, 0, 0, 0]),
     (121, [0, 0, 0, 0, 0, 0xC6, 0xC6, 0xC6, 0xC6, 0xC6, 0xC6, 0x7E, 6, 0x0C, 0xF8, 0]),
     (122, [0, 0, 0, 0, 0, 0xFE, 0xCC, 0x18, 0x30, 0x60, 0xC6, 0xFE, 0, 0, 0, 0]),
     (123, [0, 0, 0x0E, 0x18, 0x18, 0x18, 0x70, 0x18, 0x18, 0x18, 0x18, 0x0E, 0, 0, 0, 0]),
     (124, [0, 0, 0x18, 0x18, 0x18, 0x18, 0, 0x18, 0x18, 0x18, 0x18, 0x18, 0, 0, 0, 0]),
     (125, [0, 0, 0x70, 0x18, 0x18, 0x18, 0x0E, 0x18, 0x18, 0x18, 0x18, 0x70, 0, 0, 0, 0]),
     (126, [0, 0, 0x76, 0xDC, 0, 0, 0, 0, 0, 0, 0, 0, 0, 0, 0, 0])]"

definition glyphs_127 :: "glyph list" where
  "glyphs_127 =
    [(127, [0, 0, 0, 0, 0x10, 0x38, 0x6C, 0xC6, 0xC6, 0xC6, 0xFE, 0, 0, 0, 0, 0]),
     (160, [0, 0, 0, 0, 0, 0, 0, 0, 0, 0, 0, 0, 0, 0, 0, 0]),
     (161, [0, 0, 0x18, 0x18, 0, 0x18, 0x18, 0x18, 0x3C, 0x3C, 0x3C, 0x18, 0, 0, 0, 0]),
     (162, [0, 0x18, 0x18, 0x3C, 0x66, 0x60, 0x60, 0x60, 0x66, 0x3C, 0x18, 0x18, 0, 0, 0, 0]),
     (163, [0, 0x38, 0x6C, 0x64, 0x60, 0xF0, 0x60, 0x60, 0x60, 0x60, 0xE6, 0xFC, 0, 0, 0, 0]),
     (164, [0, 0, 0, 0, 0x66, 0x3C, 0x66, 0x66, 0x66, 0x3C, 0x66, 0, 0, 0, 0, 0]),
     (165, [0, 0, 0x66, 0x66, 0x3C, 0x18, 0x7E, 0x18, 0x7E, 0x18, 0x18, 0x18, 0, 0, 0, 0]),
     (166, [0, 0, 0x18, 0x18, 0x18, 0x18, 0, 0x18, 0x18, 0x18, 0x18, 0x18, 0, 0, 0, 0])]"

definition glyphs_167 :: "glyph list" where
  "glyphs_167 =
    [(167, [0, 0x7C, 0xC6, 0x60, 0x38, 0x6C, 0xC6, 0xC6, 0x6C, 0x38, 0x0C, 0xC6, 0x7C, 0, 0, 0]),
     (168, [0, 0, 0x6C, 0x6C, 0, 0, 0, 0, 0, 0, 0, 0, 0, 0, 0, 0]),
     (169, [0, 0, 0x3C, 0x42, 0x99, 0xA5, 0xA1, 0xA1, 0xA5, 0x99, 0x42, 0x3C, 0, 0, 0, 0]),
     (170, [0, 0x3C, 0x6C, 0x6C, 0x3E, 0, 0x7E, 0, 0, 0, 0, 0, 0, 0, 0, 0]),
     (171, [0, 0, 0, 0, 0, 0x36, 0x6C, 0xD8, 0x6C, 0x36, 0, 0, 0, 0, 0, 0]),
     (172, [0, 0, 0, 0, 0, 0, 0xFE, 6, 6, 6, 6, 0, 0, 0, 0, 0]),
     (173, [0, 0, 0, 0, 0, 0, 0, 0x3C, 0, 0, 0, 0, 0, 0, 0, 0]),
     (174, [0, 0, 0x38, 0x44, 0xBA, 0xB2, 0xAA, 0x44, 0x38, 0, 0, 0, 0, 0, 0, 0])]"

definition glyphs_175 :: "glyph list" where
  "glyphs_175 =
    [(175, [0, 0, 0, 0x7C, 0, 0, 0, 0, 0, 0, 0, 0, 0, 0, 0, 0]),
     (176, [0, 0x38, 0x6C, 0x6C, 0x38, 0, 0, 0, 0, 0, 0, 0, 0, 0, 0, 0]),
     (177, [0, 0, 0, 0, 0x18, 0x18, 0x7E, 0x18, 0x18, 0, 0x7E, 0, 0, 0, 0, 0]),
     (178, [0, 0x70, 0xD8, 0x30, 0x60, 0xC8, 0xF8, 0, 0, 0, 0, 0, 0, 0, 0, 0]),
     (179, [0, 0x70, 0xD8, 0x30, 0x18, 0xD8, 0x70, 0, 0, 0, 0, 0, 0, 0, 0, 0]),
     (180, [0, 0, 0x0C, 0x18, 0, 0, 0, 0, 0, 0, 0, 0, 0, 0, 0, 0]),
     (181, [0, 0, 0, 0, 0, 0xCC, 0xCC, 0xCC, 0xCC, 0xCC, 0xCC, 0xF6, 0xC0, 0xC0, 0xC0, 0]),
     (182, [0, 0, 0x7F, 0xDB, 0xDB, 0xDB, 0x7B, 0x1B, 0x1B, 0x1B, 0x1B, 0x1B, 0, 0, 0, 0])]"

definition glyphs_183 :: "glyph list" where
  "glyphs_183 =
    [(183, [0, 0, 0, 0, 0, 0, 0, 0, 0x18, 0, 0, 0, 0, 0, 0, 0]),
     (184, [0, 0, 0, 0, 0, 0, 0, 0, 0, 0, 0, 0, 0x18, 0x0C, 0x38, 0]),
     (185, [0, 0x30, 0x70, 0x30, 0x30, 0x30, 0x78, 0, 0, 0, 0, 0, 0, 0, 0, 0]),
     (186, [0, 0x38, 0x6C, 0x6C, 0x38, 0, 0x7C, 0, 0, 0, 0, 0, 0, 0, 0, 0]),
     (187, [0, 0, 0, 0, 0, 0xD8, 0x6C, 0x36, 0x6C, 0xD8, 0, 0, 0, 0, 0, 0]),
     (188, [0, 0xC0, 0xC0, 0xC2, 0xC6, 0xCC, 0x18, 0x30, 0x66, 0xCE, 0x9E, 0x3E, 6, 6, 0, 0]),
     (189, [0, 0xC0, 0xC0, 0xC2, 0xC6, 0xCC, 0x18, 0x30, 0x60, 0xDC, 0x86, 0x0C, 0x18, 0x3E, 0, 0]),
     (190, [0, 0xE0, 0x30, 0x62, 0x36, 0xEC, 0x18, 0x30, 0x66, 0xCE, 0x9E, 0x3E, 6, 6, 0, 0])]"

definition glyphs_191 :: "glyph list" where
  "glyphs_191 =
    [(191, [0, 0, 0x30, 0x30, 0, 0x30, 0x30, 0x60, 0xC0, 0xC6, 0xC6, 0x7C, 0, 0, 0, 0]),
     (192, [0x60, 0x30, 0, 0x10, 0x38, 0x6C, 0xC6, 0xC6, 0xFE, 0xC6, 0xC6, 0xC6, 0, 0, 0, 0]),
     (193, [0x0C, 0x18, 0, 0x10, 0x38, 0x6C, 0xC6, 0xC6, 0xFE, 0xC6, 0xC6, 0xC6, 0, 0, 0, 0]),
     (194, [0x10, 0x38, 0x6C, 0x10, 0x38, 0x6C, 0xC6, 0xC6, 0xFE, 0xC6, 0xC6, 0xC6, 0, 0, 0, 0]),
     (195, [0x76, 0xDC, 0, 0x10, 0x38, 0x6C, 0xC6, 0xC6, 0xFE, 0xC6, 0xC6, 0xC6, 0, 0, 0, 0]),
     (196, [0x6C, 0x6C, 0, 0x10, 0x38, 0x6C, 0xC6, 0xC6, 0xFE, 0xC6, 0xC6, 0xC6, 0, 0, 0, 0]),
     (197, [0x38, 0x6C, 0x38, 0x10, 0x38, 0x6C, 0xC6, 0xC6, 0xFE, 0xC6, 0xC6, 0xC6, 0, 0, 0, 0]),
     (198, [0, 0, 0x3E, 0x6C, 0xCC, 0xCC, 0xFE, 0xCC, 0xCC, 0xCC, 0xCC, 0xCE, 0, 0, 0, 0])]"

definition glyphs_199 :: "glyph list" where
  "glyphs_199 =
    [(199, [0, 0, 0x3C, 0x66, 0xC2, 0xC0, 0xC0, 0xC0, 0xC0, 0xC2, 0x66, 0x3C, 0x18, 0x0C, 0x38, 0]),
     (200, [0x30, 0x18, 0, 0xFE, 0x66, 0x62, 0x68, 0x78, 0x68, 0x62, 0x66, 0xFE, 0, 0, 0, 0]),
     (201, [0x0C, 0x18, 0, 0xFE, 0x66, 0x62, 0x68, 0x78, 0x68, 0x62, 0x66, 0xFE, 0, 0, 0, 0]),
     (202, [0x10, 0x38, 0x44, 0xFE, 0x66, 0x62, 0x68, 0x78, 0x68, 0x62, 0x66, 0xFE, 0, 0, 0, 0]),
     (203, [0x6C, 0x6C, 0, 0xFE, 0x66, 0x62, 0x68, 0x78, 0x68, 0x62, 0x66, 0xFE, 0, 0, 0, 0]),
     (204, [0x30, 0x18, 0, 0x3C, 0x18, 0x18, 0x18, 0x18, 0x18, 0x18, 0x18, 0x3C, 0, 0, 0, 0]),
     (205, [0x0C, 0x18, 0, 0x3C, 0x18, 0x18, 0x18, 0x18, 0x18, 0x18, 0x18, 0x3C, 0, 0, 0, 0]),
     (206, [0x18, 0x3C, 0x42, 0x3C, 0x18, 0x18, 0x18, 0x18, 0x18, 0x18, 0x18, 0x3C, 0, 0, 0, 0])]"

definition glyphs_207 :: "glyph list" where
  "glyphs_207 =
    [(207, [0x66, 0x66, 0, 0x3C, 0x18, 0x18, 0x18, 0x18, 0x18, 0x18, 0x18, 0x3C, 0, 0, 0, 0]),
     (208, [0, 0, 0xF8, 0x6C, 0x66, 0x66, 0xF6, 0x66, 0x66, 0x66, 0x6C, 0xF8, 0, 0, 0, 0]),
     (209, [0x76, 0xDC, 0, 0xC6, 0xE6, 0xF6, 0xFE, 0xDE, 0xCE, 0xC6, 0xC6, 0xC6, 0, 0, 0, 0]),
     (210, [0x60, 0x30, 0, 0x7C, 0xC6, 0xC6, 0xC6, 0xC6, 0xC6, 0xC6, 0xC6, 0x7C, 0, 0, 0, 0]),
     (211, [0x0C, 0x18, 0, 0x7C, 0xC6, 0xC6, 0xC6, 0xC6, 0xC6, 0xC6, 0xC6, 0x7C, 0, 0, 0, 0]),
     (212, [0x10, 0x38, 0x44, 0x7C, 0xC6, 0xC6, 0xC6, 0xC6, 0xC6, 0xC6, 0xC6, 0x7C, 0, 0, 0, 0]),
     (213, [0x76, 0xDC, 0, 0x7C, 0xC6, 0xC6, 0xC6, 0xC6, 0xC6, 0xC6, 0xC6, 0x7C, 0, 0, 0, 0]),
     (214, [0x6C, 0x6C, 0, 0x7C, 0xC6, 0xC6, 0xC6, 0xC6, 0xC6, 0xC6, 0xC6, 0x7C, 0, 0, 0, 0])]"

definition glyphs_215 :: "glyph list" where
  "glyphs_215 =
    [(215, [0, 0, 0, 0, 0, 0x66, 0x3C, 0x18, 0x3C, 0x66, 0, 0, 0, 0, 0, 0]),
     (216, [0, 0, 0x7A, 0xC4, 0xCE, 0xCE, 0xD6, 0xD6, 0xE6, 0xE6, 0x46, 0xBC, 0, 0, 0, 0]),
     (217, [0x60, 0x30, 0, 0xC6, 0xC6, 0xC6, 0xC6, 0xC6, 0xC6, 0xC6, 0xC6, 0x7C, 0, 0, 0, 0]),
     (218, [0x0C, 0x18, 0, 0xC6, 0xC6, 0xC6, 0xC6, 0xC6, 0xC6, 0xC6, 0xC6, 0x7C, 0, 0, 0, 0]),
     (219, [0x10, 0x38, 0x44, 0xC6, 0xC6, 0xC6, 0xC6, 0xC6, 0xC6, 0xC6, 0xC6, 0x7C, 0, 0, 0, 0]),
     (220, [0x6C, 0x6C, 0, 0xC6, 0xC6, 0xC6, 0xC6, 0xC6, 0xC6, 0xC6, 0xC6, 0x7C, 0, 0, 0, 0]),
     (221, [0x0C, 0x18, 0, 0x66, 0x66, 0x66, 0x3C, 0x18, 0x18, 0x18, 0x18, 0x3C, 0, 0, 0, 0]),
     (222, [0, 0, 0xF0, 0x60, 0x7C, 0x66, 0x66, 0x66, 0x66, 0x7C, 0x60, 0xF0, 0, 0, 0, 0])]"

definition glyphs_223 :: "glyph list" where
  "glyphs_223 =
    [(223, [0, 0, 0x3C, 0x66, 0x66, 0x66, 0x6C, 0x66, 0x66, 0x66, 0x66, 0xEC, 0, 0, 0, 0]),
     (224, [0, 0, 0x60, 0x30, 0, 0x78, 0x0C, 0x7C, 0xCC, 0xCC, 0xCC, 0x76, 0, 0, 0, 0]),
     (225, [0, 0, 0x18, 0x30, 0, 0x78, 0x0C, 0x7C, 0xCC, 0xCC, 0xCC, 0x76, 0, 0, 0, 0]),
     (226, [0, 0x10, 0x38, 0x6C, 0, 0x78, 0x0C, 0x7C, 0xCC, 0xCC, 0xCC, 0x76, 0, 0, 0, 0]),
     (227, [0, 0, 0x76, 0xDC, 0, 0x78, 0x0C, 0x7C, 0xCC, 0xCC, 0xCC, 0x76, 0, 0, 0, 0]),
     (228, [0, 0, 0x6C, 0x6C, 0, 0x78, 0x0C, 0x7C, 0xCC, 0xCC, 0xCC, 0x76, 0, 0, 0, 0]),
     (229, [0, 0x38, 0x6C, 0x38, 0, 0x78, 0x0C, 0x7C, 0xCC, 0xCC, 0xCC, 0x76, 0, 0, 0, 0]),
     (230, [0, 0, 0, 0, 0, 0xCC, 0x76, 0x36, 0x7E, 0xD8, 0xD8, 0x6E, 0, 0, 0, 0])]"

definition glyphs_231 :: "glyph list" where
  "glyphs_231 =
    [(231, [0, 0, 0, 0, 0, 0x7C, 0xC6, 0xC0, 0xC0, 0xC0, 0xC6, 0x7C, 0x18, 0x0C, 0x38, 0]),
     (232, [0, 0, 0x60, 0x30, 0, 0x7C, 0xC6, 0xFE, 0xC0, 0xC0, 0xC6, 0x7C, 0, 0, 0, 0]),
     (233, [0, 0, 0x0C, 0x18, 0, 0x7C, 0xC6, 0xFE, 0xC0, 0xC0, 0xC6, 0x7C, 0, 0, 0, 0]),
     (234, [0, 0x10, 0x38, 0x6C, 0, 0x7C, 0xC6, 0xFE, 0xC0, 0xC0, 0xC6, 0x7C, 0, 0, 0, 0]),
     (235, [0, 0, 0x6C, 0x6C, 0, 0x7C, 0xC6, 0xFE, 0xC0, 0xC0, 0xC6, 0x7C, 0, 0, 0, 0]),
     (236, [0, 0, 0x30, 0x18, 0, 0x38, 0x18, 0x18, 0x18, 0x18, 0x18, 0x3C, 0, 0, 0, 0]),
     (237, [0, 0, 0x0C, 0x18, 0, 0x38, 0x18, 0x18, 0x18, 0x18, 0x18, 0x3C, 0, 0, 0, 0]),
     (238, [0, 0x10, 0x38, 0x6C, 0, 0x38, 0x18, 0x18, 0x18, 0x18, 0x18, 0x3C, 0, 0, 0, 0])]"

definition glyphs_239 :: "glyph list" where
  "glyphs_239 =
    [(239, [0, 0, 0x66, 0x66, 0, 0x38, 0x18, 0x18, 0x18, 0x18, 0x18, 0x3C, 0, 0, 0, 0]),
     (240, [0, 0, 0x76, 0x1C, 0x3C, 6, 0x7E, 0xC6, 0xC6, 0xC6, 0xC6, 0x7C, 0, 0, 0, 0]),
     (241, [0, 0, 0x76, 0xDC, 0, 0xDC, 0x66, 0x66, 0x66, 0x66, 0x66, 0x66, 0, 0, 0, 0]),
     (242, [0, 0, 0x60, 0x30, 0, 0x7C, 0xC6, 0xC6, 0xC6, 0xC6, 0xC6, 0x7C, 0, 0, 0, 0]),
     (243, [0, 0, 0x0C, 0x18, 0, 0x7C, 0xC6, 0xC6, 0xC6, 0xC6, 0xC6, 0x7C, 0, 0, 0, 0]),
     (244, [0, 0x10, 0x38, 0x6C, 0, 0x7C, 0xC6, 0xC6, 0xC6, 0xC6, 0xC6, 0x7C, 0, 0, 0, 0]),
     (245, [0, 0, 0x76, 0xDC, 0, 0x7C, 0xC6, 0xC6, 0xC6, 0xC6, 0xC6, 0x7C, 0, 0, 0, 0]),
     (246, [0, 0, 0x6C, 0x6C, 0, 0x7C, 0xC6, 0xC6, 0xC6, 0xC6, 0xC6, 0x7C, 0, 0, 0, 0])]"

definition glyphs_247 :: "glyph list" where
  "glyphs_247 =
    [(247, [0, 0, 0, 0, 0x18, 0x18, 0, 0x7E, 0, 0x18, 0x18, 0, 0, 0, 0, 0]),
     (248, [0, 0, 0, 0, 0, 0x7A, 0xC4, 0xCE, 0xD6, 0xE6, 0x46, 0xBC, 0, 0, 0, 0]),
     (249, [0, 0, 0x60, 0x30, 0, 0xCC, 0xCC, 0xCC, 0xCC, 0xCC, 0xCC, 0x76, 0, 0, 0, 0]),
     (250, [0, 0, 0x18, 0x30, 0, 0xCC, 0xCC, 0xCC, 0xCC, 0xCC, 0xCC, 0x76, 0, 0, 0, 0]),
     (251, [0, 0x10, 0x38, 0x6C, 0, 0xCC, 0xCC, 0xCC, 0xCC, 0xCC, 0xCC, 0x76, 0, 0, 0, 0]),
     (252, [0, 0, 0xCC, 0xCC, 0, 0xCC, 0xCC, 0xCC, 0xCC, 0xCC, 0xCC, 0x76, 0, 0, 0, 0]),
     (253, [0, 0, 0x0C, 0x18, 0, 0xC6, 0xC6, 0xC6, 0xC6, 0xC6, 0xC6, 0x7E, 6, 0x0C, 0xF8, 0]),
     (254, [0, 0, 0xE0, 0x60, 0x60, 0x7C, 0x66, 0x66, 0x66, 0x66, 0x66, 0x7C, 0x60, 0x60, 0xF0, 0])]"

definition glyphs_255 :: "glyph list" where
  "glyphs_255 =
    [(255, [0, 0, 0x6C, 0x6C, 0, 0xC6, 0xC6, 0xC6, 0xC6, 0xC6, 0xC6, 0x7E, 6, 0x0C, 0xF8, 0])]"

definition glyphs :: "glyph list" where
  "glyphs =
     glyphs_0 @ glyphs_39 @ glyphs_47 @ glyphs_55 @ glyphs_63 @
     glyphs_71 @ glyphs_79 @ glyphs_87 @ glyphs_95 @ glyphs_103 @
     glyphs_111 @ glyphs_119 @ glyphs_127 @ glyphs_167 @ glyphs_175 @
     glyphs_183 @ glyphs_191 @ glyphs_199 @ glyphs_207 @ glyphs_215 @
     glyphs_223 @ glyphs_231 @ glyphs_239 @ glyphs_247 @ glyphs_255"

definition font_bitmap :: "byte list" where
  "font_bitmap = concat (map snd glyphs)"

definition CHAR_HEIGHT :: int where "CHAR_HEIGHT = 16"

text \<open>Row \<open>i\<close> behind the pointer; \<open>None\<close> when it lies outside the array.\<close>

definition pixel_map :: "int \<Rightarrow> nat \<Rightarrow> byte option" where
  "pixel_map c i =
     (let k = CHAR_HEIGHT * (c - 31) + int i
      in if k < 0 then None else peek_at font_bitmap (nat k))"

section \<open>Facts\<close>

lemmas glyph_defs = glyphs_0_def glyphs_39_def glyphs_47_def glyphs_55_def glyphs_63_def glyphs_71_def
  glyphs_79_def glyphs_87_def glyphs_95_def glyphs_103_def glyphs_111_def glyphs_119_def
  glyphs_127_def glyphs_167_def glyphs_175_def glyphs_183_def glyphs_191_def glyphs_199_def
  glyphs_207_def glyphs_215_def glyphs_223_def glyphs_231_def glyphs_239_def glyphs_247_def
  glyphs_255_def

lemma glyph_codes: "map fst glyphs = 0 # map int [32..<128] @ map int [160..<256]"
  by (simp add: glyphs_def glyph_defs upt_conv_Cons)

lemma glyph_rows: "list_all (\<lambda>g. length (snd g) = 16) glyphs"
  by (simp add: glyphs_def glyph_defs)

lemma length_glyphs: "length glyphs = 193"
  using arg_cong [OF glyph_codes, of length] by simp

lemma length_concat_even:
  "list_all (\<lambda>g. length (snd g) = n) gs \<Longrightarrow> length (concat (map snd gs)) = n * length gs"
  by (induction gs) auto

lemma nth_concat_even:
  "list_all (\<lambda>g. length (snd g) = n) gs \<Longrightarrow> q < length gs \<Longrightarrow> i < n \<Longrightarrow>
     concat (map snd gs) ! (n * q + i) = snd (gs ! q) ! i"
proof (induction gs arbitrary: q)
  case (Cons g gs)
  show ?case
  proof (cases q)
    case (Suc r)
    have "concat (map snd (g # gs)) ! (n * q + i) = concat (map snd gs) ! (n * r + i)"
      using Cons.prems Suc by (simp add: nth_append)
    then show ?thesis using Cons Suc by simp
  qed (use Cons.prems in \<open>simp add: nth_append\<close>)
qed simp

lemma length_font_bitmap: "length font_bitmap = 16 * 193"
  unfolding font_bitmap_def using length_concat_even [OF glyph_rows] by (simp add: length_glyphs)

lemma pixel_map_row:
  assumes "31 \<le> c" "c < 224" "i < 16"
  shows "pixel_map c i = Some (snd (glyphs ! nat (c - 31)) ! i)"
proof -
  define q where "q = nat (c - 31)"
  have q: "c - 31 = int q" "q < 193" using assms by (auto simp: q_def)
  have "nat (16 * int q + int i) = 16 * q + i" by (simp add: nat_add_distrib nat_mult_distrib)
  moreover have "16 * q + i < length font_bitmap" using q assms(3) by (simp add: length_font_bitmap)
  moreover have "font_bitmap ! (16 * q + i) = snd (glyphs ! q) ! i"
    unfolding font_bitmap_def using q assms(3) by (intro nth_concat_even [OF glyph_rows]) (simp_all add: length_glyphs)
  ultimately show ?thesis
    unfolding pixel_map_def CHAR_HEIGHT_def q(1) q_def [symmetric] Let_def peek_at_def by (simp del: nat_mult_distrib)
qed

text \<open>The glyph drawn for an ASCII character is the one listed under its code.\<close>

lemma ascii_glyph:
  assumes "32 \<le> c" "c < 128"
  shows "fst (glyphs ! nat (c - 31)) = c"
proof -
  define q where "q = nat (c - 32)"
  have q: "nat (c - 31) = Suc q" "q < 96" "c = int (32 + q)" using assms by (auto simp: q_def)
  have "map fst glyphs ! Suc q = int (32 + q)" unfolding glyph_codes using q(2) by (simp add: nth_append del: upt_rec_numeral)
  moreover have "Suc q < length glyphs" using q(2) by (simp add: length_glyphs)
  ultimately show ?thesis using q by simp
qed

text \<open>A \<open>char\<close> beyond 127 is negative: the glyphs of the Latin letters are never reached.\<close>

lemma negative_char_outside:
  assumes "c < 0" "i < 16"
  shows "pixel_map c i = None"
  using assms by (simp add: pixel_map_def CHAR_HEIGHT_def Let_def)

lemma printable_row_inside:
  assumes "31 \<le> sint (c :: byte)" "i < 16"
  shows "\<exists>pixel. pixel_map (sint c) i = Some pixel"
  using assms sint_lt [of c] by (auto simp: pixel_map_row)

end
