(* ===== verification/Video.thy ===== *)
theory Video
  imports CLib Font
begin

text \<open>
  \<open>Kernel/videoDriver.c\<close>: text and pixels on the linear frame buffer that the VESA mode set by
  the boot loader provides. The driver's state is its static variables; \<open>lfb\<close> is the base
  address it reads at \<open>0x5C28\<close> and \<open>vram\<close> the memory the frame buffer lies in. A glyph outside
  the font array is \<open>None\<close>.
\<close>

section \<open>State\<close>

record color =
  red :: byte
  green :: byte
  blue :: byte

record video =
  cursor :: int
  x_res :: int
  y_res :: int
  char_color :: color
  bg_color :: color
  lfb :: addr
  vram :: memory

definition CHAR_WIDTH :: int where "CHAR_WIDTH = 8"

definition DEFAULT_CHAR_COLOR :: color where "DEFAULT_CHAR_COLOR = \<lparr>red = 255, green = 255, blue = 255\<rparr>"
definition DEFAULT_BG_COLOR :: color where "DEFAULT_BG_COLOR = \<lparr>red = 0, green = 0, blue = 0\<rparr>"

definition HEIGHT :: "video \<Rightarrow> int" where "HEIGHT v = y_res v sdiv CHAR_HEIGHT"
definition WIDTH :: "video \<Rightarrow> int" where "WIDTH v = x_res v sdiv CHAR_WIDTH"
definition ROW :: "video \<Rightarrow> int \<Rightarrow> int" where "ROW v p = p sdiv WIDTH v"
definition COL :: "video \<Rightarrow> int \<Rightarrow> int" where "COL v p = p smod WIDTH v"
definition CURSOR_LIMIT :: "video \<Rightarrow> int" where "CURSOR_LIMIT v = HEIGHT v * WIDTH v"

definition static_video :: "addr \<Rightarrow> memory \<Rightarrow> video" where
  "static_video base m =
     \<lparr>cursor = 0, x_res = 0, y_res = 0, char_color = DEFAULT_CHAR_COLOR, bg_color = DEFAULT_BG_COLOR,
      lfb = base, vram = m\<rparr>"

section \<open>Resolution and colours\<close>

text \<open>The resolution is two bytes, least significant first, at a fixed address.\<close>

definition get_res :: "memory \<Rightarrow> addr \<Rightarrow> int" where
  "get_res m p = uint (m (p + 1)) * 2 ^ 8 + uint (m p)"

definition load_vDriver :: "memory \<Rightarrow> video \<Rightarrow> video" where
  "load_vDriver m v = v\<lparr>x_res := get_res m 0x5C12, y_res := get_res m 0x5C14\<rparr>"

definition scr_x_res :: "video \<Rightarrow> int" where "scr_x_res v = x_res v"
definition scr_y_res :: "video \<Rightarrow> int" where "scr_y_res v = y_res v"
definition text_rows :: "video \<Rightarrow> int" where "text_rows v = HEIGHT v"
definition text_cols :: "video \<Rightarrow> int" where "text_cols v = WIDTH v"

definition current_char_color :: "video \<Rightarrow> byte \<times> byte \<times> byte" where
  "current_char_color v = (red (char_color v), green (char_color v), blue (char_color v))"

definition current_bg_color :: "video \<Rightarrow> byte \<times> byte \<times> byte" where
  "current_bg_color v = (red (bg_color v), green (bg_color v), blue (bg_color v))"

definition valid_colors :: "nat \<Rightarrow> nat \<Rightarrow> nat \<Rightarrow> bool" where
  "valid_colors r g b \<longleftrightarrow> r \<ge> 0 \<and> r \<le> 255 \<and> g \<ge> 0 \<and> g \<le> 255 \<and> b \<ge> 0 \<and> b \<le> 255"

definition set_color :: "color \<Rightarrow> nat \<Rightarrow> nat \<Rightarrow> nat \<Rightarrow> color \<times> int" where
  "set_color c r g b =
     (if \<not> valid_colors r g b then (c, 0)
      else (\<lparr>red = of_nat r, green = of_nat g, blue = of_nat b\<rparr>, 1))"

definition set_bg_color :: "nat \<Rightarrow> nat \<Rightarrow> nat \<Rightarrow> video \<Rightarrow> video \<times> int" where
  "set_bg_color r g b v = (let (c, n) = set_color (bg_color v) r g b in (v\<lparr>bg_color := c\<rparr>, n))"

definition set_char_color :: "nat \<Rightarrow> nat \<Rightarrow> nat \<Rightarrow> video \<Rightarrow> video \<times> int" where
  "set_char_color r g b v = (let (c, n) = set_color (char_color v) r g b in (v\<lparr>char_color := c\<rparr>, n))"

section \<open>Pixels\<close>

definition valid_pixel :: "int \<Rightarrow> int \<Rightarrow> video \<Rightarrow> bool" where
  "valid_pixel x y v \<longleftrightarrow> x \<ge> 0 \<and> x \<le> x_res v \<and> y \<ge> 0 \<and> y \<le> y_res v"

definition pixel_address :: "int \<Rightarrow> int \<Rightarrow> video \<Rightarrow> addr" where
  "pixel_address x y v = lfb v + nat (3 * (x + y * x_res v))"

definition fill :: "byte \<Rightarrow> byte \<Rightarrow> byte \<Rightarrow> int \<Rightarrow> int \<Rightarrow> video \<Rightarrow> video \<times> int" where
  "fill r g b x y v =
     (if \<not> valid_pixel x y v then (v, 0)
      else (let a = pixel_address x y v
            in (v\<lparr>vram := (vram v)(a := b, a + 1 := g, a + 2 := r)\<rparr>, 1)))"

definition fillChar :: "int \<Rightarrow> int \<Rightarrow> video \<Rightarrow> video" where
  "fillChar x y v = fst (fill (red (char_color v)) (green (char_color v)) (blue (char_color v)) x y v)"

definition fillBackground :: "int \<Rightarrow> int \<Rightarrow> video \<Rightarrow> video" where
  "fillBackground x y v = fst (fill (red (bg_color v)) (green (bg_color v)) (blue (bg_color v)) x y v)"

section \<open>Characters\<close>

text \<open>Bit \<open>7 - j\<close> of the line is its pixel \<open>j\<close>: \<open>mask[j]\<close> is \<open>128 >> j\<close>.\<close>

definition print_char_line :: "byte \<Rightarrow> int \<Rightarrow> int \<Rightarrow> video \<Rightarrow> video" where
  "print_char_line line x y v =
     foldl (\<lambda>v j. if bit line (7 - j) then fillChar (x + int j) y v else fillBackground (x + int j) y v)
       v [0..<8]"

definition valid_pos :: "int \<Rightarrow> int \<Rightarrow> video \<Rightarrow> bool" where
  "valid_pos row col v \<longleftrightarrow> row < HEIGHT v \<and> col < WIDTH v \<and> row \<ge> 0 \<and> col \<ge> 0"

text \<open>The character is a signed \<open>char\<close>, which \<open>pixel_map\<close> takes as an \<open>int\<close>.\<close>

primrec print_rows :: "nat list \<Rightarrow> byte \<Rightarrow> int \<Rightarrow> int \<Rightarrow> video \<Rightarrow> video option" where
  "print_rows [] c x y v = Some v"
| "print_rows (i # is) c x y v =
     Option.bind (pixel_map (sint c) i) (\<lambda>pixel. print_rows is c x y (print_char_line pixel x (y + int i) v))"

definition print_char :: "byte \<Rightarrow> int \<Rightarrow> int \<Rightarrow> video \<Rightarrow> video option" where
  "print_char c row col v =
     (if valid_pos row col v
      then print_rows [0..<16] c (col * CHAR_WIDTH) (row * CHAR_HEIGHT) v
      else Some v)"

definition clear_line :: "int \<Rightarrow> video \<Rightarrow> video option" where
  "clear_line line v =
     (if line \<ge> 0 \<and> line < HEIGHT v
      then fold (\<lambda>i r. Option.bind r (print_char 32 line (int i))) [0..<nat (WIDTH v)] (Some v)
      else Some v)"

text \<open>The length handed to \<open>memcpy\<close> is unsigned.\<close>

definition scroll :: "video \<Rightarrow> video option" where
  "scroll v =
     (let second_line = lfb v + nat (3 * x_res v * CHAR_HEIGHT);
          len = nat ((y_res v * x_res v * 3 - CHAR_HEIGHT * x_res v * 3) mod 2 ^ 64)
      in clear_line (HEIGHT v - 1) (v\<lparr>vram := memcpy (vram v) (lfb v) second_line len\<rparr>))"

text \<open>\<open>put_char\<close>: first the effect of the character, then the cursor is brought back on the screen.\<close>

definition put_glyph :: "byte \<Rightarrow> video \<Rightarrow> video option" where
  "put_glyph c v =
     (if c = 8 then
        (let v1 = v\<lparr>cursor := cursor v - 1\<rparr> in print_char 32 (ROW v1 (cursor v1)) (COL v1 (cursor v1)) v1)
      else if c = 10 then Some (v\<lparr>cursor := cursor v + (WIDTH v - COL v (cursor v))\<rparr>)
      else if c = 13 then Some (v\<lparr>cursor := 0\<rparr>)
      else if c \<noteq> 9 then
        map_option (\<lambda>v1. v1\<lparr>cursor := cursor v1 + 1\<rparr>) (print_char c (ROW v (cursor v)) (COL v (cursor v)) v)
      else Some v)"

definition clamp_cursor :: "video \<Rightarrow> video option" where
  "clamp_cursor v =
     (let v1 = (if cursor v < 0 then v\<lparr>cursor := 0\<rparr> else v)
      in if cursor v1 \<ge> CURSOR_LIMIT v1
         then map_option (\<lambda>v2. v2\<lparr>cursor := CURSOR_LIMIT v2 - WIDTH v2\<rparr>) (scroll v1)
         else Some v1)"

definition put_char :: "byte \<Rightarrow> video \<Rightarrow> video option" where
  "put_char c v = Option.bind (put_glyph c v) clamp_cursor"

section \<open>Strings and numbers\<close>

text \<open>\<open>put\<close> prints the bytes it is given, \<open>put_str\<close> those of a C string.\<close>

primrec put :: "byte list \<Rightarrow> video \<Rightarrow> video option" where
  "put [] v = Some v"
| "put (c # cs) v = Option.bind (put_char c v) (put cs)"

definition put_str :: "byte list \<Rightarrow> video \<Rightarrow> video option" where
  "put_str s v = (if terminated s then put (cstr s) v else None)"

definition print_str :: "byte list \<Rightarrow> int \<Rightarrow> int \<Rightarrow> video \<Rightarrow> video option" where
  "print_str s row col v =
     map_option (\<lambda>v1. v1\<lparr>cursor := cursor v\<rparr>) (put_str s (v\<lparr>cursor := row * WIDTH v + col\<rparr>))"

primrec print_from :: "byte list \<Rightarrow> int \<Rightarrow> video \<Rightarrow> video option" where
  "print_from [] pos v = Some v"
| "print_from (c # cs) pos v =
     (if valid_pos (ROW v pos) (COL v pos) v
      then Option.bind (print_char c (ROW v pos) (COL v pos) v) (print_from cs (pos + 1))
      else Some v)"

definition print :: "byte list \<Rightarrow> int \<Rightarrow> int \<Rightarrow> video \<Rightarrow> video option" where
  "print s row col v = (if valid_pos row col v then print_from s (row * WIDTH v + col) v else Some v)"

definition clear :: "video \<Rightarrow> video option" where
  "clear v = map_option (\<lambda>v1. v1\<lparr>cursor := 0\<rparr>)
     (fold (\<lambda>i r. Option.bind r (\<lambda>v1. print_char 32 (ROW v1 (int i)) (COL v1 (int i)) v1))
        [0..<nat (WIDTH v * HEIGHT v)] (Some v))"

function count_loop :: "int \<Rightarrow> nat" where
  "count_loop num = (let n = num sdiv 10 in if n > 0 then Suc (count_loop n) else 1)"
  by pat_completeness auto
termination
proof (relation "measure nat")
  fix num x :: int
  assume "x = num sdiv 10" "0 < x"
  then show "(x, num) \<in> measure nat" by (cases "0 \<le> num") (auto simp: signed_divide_int_def sgn_if split: if_splits)
qed simp

declare count_loop.simps [simp del]

text \<open>\<open>num *= -1\<close> on a 32-bit \<open>int\<close>: the least one stays negative.\<close>

definition count_digits :: "u32 \<Rightarrow> nat" where
  "count_digits num = count_loop (sint (if sint num < 0 then num * (-1) else num))"

text \<open>The digits from the last one back, written into \<open>str\<close> from index \<open>digits - 1\<close> down to \<open>k\<close>.\<close>

primrec number_digits :: "nat \<Rightarrow> int \<Rightarrow> byte list" where
  "number_digits 0 num = []"
| "number_digits (Suc n) num = number_digits n (num sdiv 10) @ [word_of_int (num smod 10 + 48)]"

definition print_num :: "u32 \<Rightarrow> int \<Rightarrow> int \<Rightarrow> video \<Rightarrow> video option" where
  "print_num num row col v =
     (let digits = count_digits num
      in if sint num < 0
         then print (45 # number_digits digits (sint (num * (-1)))) row col v
         else print (number_digits digits (sint num)) row col v)"

section \<open>Drawing stays on the screen\<close>

text \<open>
  \<open>draws v v'\<close>: \<open>v'\<close> differs from \<open>v\<close> in the frame buffer only, and there inside the
  \<open>3 * x_res * y_res\<close> bytes of the screen.
\<close>

definition on_screen :: "video \<Rightarrow> addr \<Rightarrow> bool" where
  "on_screen v a \<longleftrightarrow> lfb v \<le> a \<and> a < lfb v + nat (3 * (x_res v * y_res v))"

definition draws :: "video \<Rightarrow> video \<Rightarrow> bool" where
  "draws v v' \<longleftrightarrow> v' = v\<lparr>vram := vram v'\<rparr> \<and> (\<forall>a. \<not> on_screen v a \<longrightarrow> vram v' a = vram v a)"

definition screen_ok :: "video \<Rightarrow> bool" where
  "screen_ok v \<longleftrightarrow> 8 \<le> x_res v \<and> x_res v < 2 ^ 16 \<and> 16 \<le> y_res v \<and> y_res v < 2 ^ 16"

definition printable :: "byte \<Rightarrow> bool" where
  "printable c \<longleftrightarrow> c \<in> {8, 9, 10, 13} \<or> 31 \<le> sint c"

lemma draws_refl [simp]: "draws v v"
  by (simp add: draws_def)

lemma draws_fields:
  assumes "draws v v'"
  shows "x_res v' = x_res v" "y_res v' = y_res v" "lfb v' = lfb v"
    "cursor v' = cursor v" "char_color v' = char_color v" "bg_color v' = bg_color v"
proof -
  have "v' = v\<lparr>vram := vram v'\<rparr>" using assms by (simp add: draws_def)
  then show "x_res v' = x_res v" "y_res v' = y_res v" "lfb v' = lfb v"
    "cursor v' = cursor v" "char_color v' = char_color v" "bg_color v' = bg_color v"
    by (metis video.select_convs video.surjective video.update_convs(7))+
qed

lemma draws_dims:
  assumes "draws v v'"
  shows "WIDTH v' = WIDTH v" "HEIGHT v' = HEIGHT v" "ROW v' = ROW v" "COL v' = COL v"
    "screen_ok v' = screen_ok v" "CURSOR_LIMIT v' = CURSOR_LIMIT v" "on_screen v' = on_screen v"
  using draws_fields [OF assms]
  by (simp_all add: WIDTH_def HEIGHT_def ROW_def COL_def CURSOR_LIMIT_def screen_ok_def on_screen_def fun_eq_iff)

lemma draws_trans:
  assumes "draws v v1" "draws v1 v2"
  shows "draws v v2"
proof -
  have "v1 = v\<lparr>vram := vram v1\<rparr>" "v2 = v1\<lparr>vram := vram v2\<rparr>" using assms by (simp_all add: draws_def)
  then have "v2 = v\<lparr>vram := vram v2\<rparr>" by (metis video.update_convs(7) video.surjective)
  moreover have "vram v2 a = vram v a" if "\<not> on_screen v a" for a
    using that assms draws_dims(7) [OF assms(1)] by (auto simp: draws_def)
  ultimately show ?thesis by (simp add: draws_def)
qed

lemma pixel_inside:
  fixes x y :: int
  assumes "0 \<le> x" "x < w" "0 \<le> y" "y < h"
  shows "0 \<le> x + y * w" "x + y * w < w * h"
proof -
  have "y * w \<le> (h - 1) * w" using assms by (intro mult_right_mono) auto
  then show "x + y * w < w * h" using assms by (simp add: algebra_simps)
  show "0 \<le> x + y * w" using assms by simp
qed

lemma fill_draws:
  assumes "0 \<le> x" "x < x_res v" "0 \<le> y" "y < y_res v"
  shows "draws v (fst (fill r g b x y v))" "snd (fill r g b x y v) = 1"
proof -
  have "valid_pixel x y v" using assms by (simp add: valid_pixel_def)
  moreover have triple: "0 \<le> p \<Longrightarrow> p < q \<Longrightarrow> 0 \<le> 3 * p \<and> 3 * p + 2 < 3 * q" for p q :: int by simp
  have "0 \<le> 3 * (x + y * x_res v) \<and> 3 * (x + y * x_res v) + 2 < 3 * (x_res v * y_res v)"
    by (rule triple [OF pixel_inside [OF assms]])
  ultimately show "draws v (fst (fill r g b x y v))" "snd (fill r g b x y v) = 1"
    by (auto simp: fill_def draws_def on_screen_def pixel_address_def Let_def)
qed

text \<open>The colour a pixel of the screen shows; filling one pixel leaves the others as they are.\<close>

definition pixel_color :: "int \<Rightarrow> int \<Rightarrow> video \<Rightarrow> byte \<times> byte \<times> byte" where
  "pixel_color x y v = (let a = pixel_address x y v in (vram v (a + 2), vram v (a + 1), vram v a))"

definition in_screen :: "video \<Rightarrow> int \<times> int \<Rightarrow> bool" where
  "in_screen v = (\<lambda>(x, y). 0 \<le> x \<and> x < x_res v \<and> 0 \<le> y \<and> y < y_res v)"

lemma pixel_fill_same: "in_screen v (x, y) \<Longrightarrow> pixel_color x y (fst (fill r g b x y v)) = (r, g, b)"
  by (simp add: pixel_color_def in_screen_def fill_def valid_pixel_def pixel_address_def Let_def)

lemma pixel_fill_other:
  assumes "in_screen v (x, y)" "in_screen v (x', y')" "(x, y) \<noteq> (x', y')"
  shows "pixel_color x y (fst (fill r g b x' y' v)) = pixel_color x y v"
proof -
  let ?p = "x + y * x_res v" and ?q = "x' + y' * x_res v"
  have p: "0 \<le> ?p" "0 \<le> ?q"
    using assms pixel_inside(1) [of x "x_res v" y "y_res v"] pixel_inside(1) [of x' "x_res v" y' "y_res v"]
    by (simp_all add: in_screen_def)
  have "?p \<noteq> ?q"
  proof
    assume e: "?p = ?q"
    have "x = ?p mod x_res v" "x' = ?q mod x_res v" "y = ?p div x_res v" "y' = ?q div x_res v"
      using assms by (simp_all add: in_screen_def)
    with e assms(3) show False by simp
  qed
  moreover have "a \<noteq> b \<Longrightarrow> 0 \<le> a \<Longrightarrow> 0 \<le> b \<Longrightarrow> nat (3 * a) + 2 < nat (3 * b) \<or> nat (3 * b) + 2 < nat (3 * a)"
    for a b :: int by linarith
  ultimately have "nat (3 * ?p) + 2 < nat (3 * ?q) \<or> nat (3 * ?q) + 2 < nat (3 * ?p)" using p by blast
  then show ?thesis
    using assms(2) by (auto simp: pixel_color_def in_screen_def fill_def valid_pixel_def pixel_address_def Let_def)
qed

lemma foldl_draws:
  assumes "\<And>v j. j \<in> set js \<Longrightarrow> x_res v = w \<Longrightarrow> y_res v = h \<Longrightarrow> draws v (f v j)"
  shows "x_res v = w \<Longrightarrow> y_res v = h \<Longrightarrow> draws v (foldl f v js)"
  using assms
proof (induction js arbitrary: v)
  case (Cons j js)
  have d: "draws v (f v j)" using Cons.prems by simp
  with Cons.prems have "draws (f v j) (foldl f (f v j) js)"
    using draws_fields [OF d] by (intro Cons.IH) auto
  then show ?case using draws_trans [OF d] by simp
qed simp

lemma print_char_line_draws:
  assumes "0 \<le> x" "x + 8 \<le> x_res v" "0 \<le> y" "y < y_res v"
  shows "draws v (print_char_line line x y v)"
  unfolding print_char_line_def
  using assms by (intro foldl_draws [OF _ refl refl]) (auto simp: fillChar_def fillBackground_def intro!: fill_draws)

lemma print_rows_draws:
  "\<forall>i \<in> set is. i < 16 \<Longrightarrow> 31 \<le> sint c \<Longrightarrow> 0 \<le> x \<Longrightarrow> x + 8 \<le> x_res v \<Longrightarrow>
   0 \<le> y \<Longrightarrow> y + 16 \<le> y_res v \<Longrightarrow> \<exists>v'. print_rows is c x y v = Some v' \<and> draws v v'"
proof (induction "is" arbitrary: v)
  case (Cons i "is")
  obtain pixel where pixel: "pixel_map (sint c) i = Some pixel"
    using printable_row_inside [of c i] Cons.prems(1,2) by auto
  have d: "draws v (print_char_line pixel x (y + int i) v)"
    using Cons.prems by (intro print_char_line_draws) auto
  obtain v' where "print_rows is c x y (print_char_line pixel x (y + int i) v) = Some v'"
      "draws (print_char_line pixel x (y + int i) v) v'"
    using Cons.IH [of "print_char_line pixel x (y + int i) v"] Cons.prems draws_fields [OF d] by auto
  then show ?case using pixel draws_trans [OF d] by auto
qed simp

lemma dims:
  assumes "screen_ok v"
  shows "0 < WIDTH v" "0 < HEIGHT v" "8 * WIDTH v \<le> x_res v" "16 * HEIGHT v \<le> y_res v"
  using assms by (auto simp: WIDTH_def HEIGHT_def screen_ok_def CHAR_WIDTH_def CHAR_HEIGHT_def signed_divide_int_def)

lemma print_char_draws:
  assumes "screen_ok v" "31 \<le> sint c"
  shows "\<exists>v'. print_char c row col v = Some v' \<and> draws v v'"
proof (cases "valid_pos row col v")
  case True
  then have "0 \<le> row" "row + 1 \<le> HEIGHT v" "0 \<le> col" "col + 1 \<le> WIDTH v" by (auto simp: valid_pos_def)
  then have "0 \<le> col * CHAR_WIDTH" "col * CHAR_WIDTH + 8 \<le> x_res v" "0 \<le> row * CHAR_HEIGHT" "row * CHAR_HEIGHT + 16 \<le> y_res v"
    using dims [OF assms(1)] by (auto simp: CHAR_WIDTH_def CHAR_HEIGHT_def)
  then show ?thesis
    using print_rows_draws [of "[0..<16]" c _ v] assms True by (auto simp: print_char_def screen_ok_def)
qed (simp add: print_char_def)

lemma space_glyph: "31 \<le> sint (32 :: byte)"
  by simp

lemma clear_line_draws:
  assumes "screen_ok v"
  shows "\<exists>v'. clear_line line v = Some v' \<and> draws v v'"
proof -
  have "\<exists>v'. fold (\<lambda>i r. Option.bind r (print_char 32 line (int i))) is (Some v) = Some v' \<and> draws v v'"
    if "screen_ok v" for "is" v
    using that
  proof (induction "is" arbitrary: v)
    case (Cons i "is")
    obtain v1 where v1: "print_char 32 line (int i) v = Some v1" "draws v v1"
      using print_char_draws [OF Cons.prems space_glyph] by blast
    have "screen_ok v1" using draws_dims(5) [OF v1(2)] Cons.prems by simp
    from Cons.IH [OF this] v1 draws_trans [OF v1(2)] show ?case by auto
  qed simp
  with assms show ?thesis by (auto simp: clear_line_def)
qed

lemma scroll_draws:
  assumes "screen_ok v"
  shows "\<exists>v'. scroll v = Some v' \<and> draws v v'"
proof -
  define len where "len = nat ((y_res v * x_res v * 3 - CHAR_HEIGHT * x_res v * 3) mod 2 ^ 64)"
  define src where "src = lfb v + nat (3 * x_res v * CHAR_HEIGHT)"
  let ?v1 = "v\<lparr>vram := memcpy (vram v) (lfb v) src len\<rparr>"
  have ok: "8 \<le> x_res v" "16 \<le> y_res v" "x_res v < 2 ^ 16" "y_res v < 2 ^ 16" using assms by (auto simp: screen_ok_def)
  have "y_res v * x_res v * 3 - CHAR_HEIGHT * x_res v * 3 = 3 * (x_res v * (y_res v - 16))"
    by (simp add: CHAR_HEIGHT_def algebra_simps)
  moreover have "0 \<le> x_res v * (y_res v - 16)" using ok by simp
  moreover have "x_res v * (y_res v - 16) \<le> 2 ^ 16 * 2 ^ 16" using ok by (intro mult_mono) auto
  ultimately have "len = nat (3 * (x_res v * (y_res v - 16)))" by (simp add: len_def)
  moreover have "x_res v * (y_res v - 16) \<le> x_res v * y_res v" using ok by (intro mult_left_mono) auto
  ultimately have len: "len \<le> nat (3 * (x_res v * y_res v))" by simp
  have "memcpy (vram v) (lfb v) src len = block_copied (vram v) (lfb v) src len"
    by (rule memcpy_block) (simp add: src_def)
  then have d: "draws v ?v1" using len by (auto simp: draws_def on_screen_def block_copied_def)
  have "screen_ok ?v1" using assms by (simp add: screen_ok_def)
  from clear_line_draws [OF this, of "HEIGHT v - 1"] obtain v' where
    "clear_line (HEIGHT v - 1) ?v1 = Some v'" "draws ?v1 v'" by blast
  with draws_trans [OF d] show ?thesis by (auto simp: scroll_def len_def src_def Let_def)
qed

section \<open>The cursor\<close>

text \<open>\<open>moves v v'\<close>: drawing, and the cursor may have moved.\<close>

definition moves :: "video \<Rightarrow> video \<Rightarrow> bool" where
  "moves v v' \<longleftrightarrow> draws (v\<lparr>cursor := cursor v'\<rparr>) v'"

definition cursor_ok :: "video \<Rightarrow> bool" where
  "cursor_ok v \<longleftrightarrow> screen_ok v \<and> 0 \<le> cursor v \<and> cursor v < CURSOR_LIMIT v"

lemma dims_cursor [simp]:
  "WIDTH (v\<lparr>cursor := k\<rparr>) = WIDTH v" "HEIGHT (v\<lparr>cursor := k\<rparr>) = HEIGHT v" "ROW (v\<lparr>cursor := k\<rparr>) = ROW v"
  "COL (v\<lparr>cursor := k\<rparr>) = COL v" "screen_ok (v\<lparr>cursor := k\<rparr>) = screen_ok v"
  "CURSOR_LIMIT (v\<lparr>cursor := k\<rparr>) = CURSOR_LIMIT v" "on_screen (v\<lparr>cursor := k\<rparr>) = on_screen v"
  by (simp_all add: WIDTH_def HEIGHT_def ROW_def COL_def CURSOR_LIMIT_def screen_ok_def on_screen_def fun_eq_iff)

lemma draws_cursor: "draws v v' \<Longrightarrow> draws (v\<lparr>cursor := k\<rparr>) (v'\<lparr>cursor := k\<rparr>)"
  unfolding draws_def dims_cursor by (metis video.surjective video.update_convs(1,7) video.select_convs(7))

lemma draws_moves: "draws v v' \<Longrightarrow> moves v v'"
  using draws_cursor [of v v' "cursor v"] draws_fields(4) [of v v'] by (simp add: moves_def)

lemma moves_cursor [simp]: "moves v (v\<lparr>cursor := k\<rparr>)"
  by (simp add: moves_def)

lemma moves_refl [simp]: "moves v v"
  by (simp add: moves_def)

lemma moves_trans:
  assumes "moves v v1" "moves v1 v2"
  shows "moves v v2"
proof -
  have "draws (v\<lparr>cursor := cursor v2\<rparr>) (v1\<lparr>cursor := cursor v2\<rparr>)"
    using draws_cursor [of "v\<lparr>cursor := cursor v1\<rparr>" v1 "cursor v2"] assms(1) by (simp add: moves_def)
  with assms(2) show ?thesis unfolding moves_def by (rule draws_trans [rotated])
qed

lemma moves_dims:
  assumes "moves v v'"
  shows "WIDTH v' = WIDTH v" "HEIGHT v' = HEIGHT v" "screen_ok v' = screen_ok v" "CURSOR_LIMIT v' = CURSOR_LIMIT v"
    "on_screen v' = on_screen v"
  using draws_dims [OF assms [unfolded moves_def]] by simp_all

lemma col_bound:
  assumes "0 < WIDTH v" "0 \<le> p"
  shows "0 \<le> COL v p" "COL v p < WIDTH v"
  using assms by (auto simp: COL_def signed_modulo_int_def signed_divide_int_def sgn_if)

lemma limit_width:
  assumes "screen_ok v"
  shows "WIDTH v \<le> CURSOR_LIMIT v" "0 < WIDTH v"
  using dims [OF assms] by (simp_all add: CURSOR_LIMIT_def)

lemma put_glyph_moves:
  assumes "cursor_ok v" "printable c"
  shows "\<exists>v'. put_glyph c v = Some v' \<and> moves v v' \<and> -1 \<le> cursor v'"
proof -
  have ok: "screen_ok v" "0 \<le> cursor v" using assms(1) by (auto simp: cursor_ok_def)
  note w = limit_width [OF ok(1)] and col = col_bound [OF limit_width(2) [OF ok(1)] ok(2)]
  consider "c = 8" | "c = 9" | "c = 10" | "c = 13" | "31 \<le> sint c" "c \<noteq> 8" "c \<noteq> 9" "c \<noteq> 10" "c \<noteq> 13"
    using assms(2) by (auto simp: printable_def)
  then show ?thesis
  proof cases
    case 1
    let ?v1 = "v\<lparr>cursor := cursor v - 1\<rparr>"
    have "screen_ok ?v1" using ok by simp
    from print_char_draws [OF this space_glyph] obtain v' where
      v': "print_char 32 (ROW v (cursor v - 1)) (COL v (cursor v - 1)) ?v1 = Some v'" "draws ?v1 v'" by blast
    have "moves v v'" by (rule moves_trans [OF moves_cursor draws_moves [OF v'(2)]])
    then show ?thesis using v' 1 ok draws_fields(4) [OF v'(2)] by (simp add: put_glyph_def Let_def)
  next
    case 5
    from print_char_draws [OF ok(1) 5(1)] obtain v' where
      v': "print_char c (ROW v (cursor v)) (COL v (cursor v)) v = Some v'" "draws v v'" by blast
    have "moves v (v'\<lparr>cursor := cursor v' + 1\<rparr>)" by (rule moves_trans [OF draws_moves [OF v'(2)] moves_cursor])
    then show ?thesis using v' 5 ok draws_fields(4) [OF v'(2)] by (simp add: put_glyph_def)
  qed (use ok w col in \<open>simp_all add: put_glyph_def\<close>)
qed

lemma clamp_cursor_moves:
  assumes "screen_ok v" "-1 \<le> cursor v"
  shows "\<exists>v'. clamp_cursor v = Some v' \<and> moves v v' \<and> cursor_ok v'"
proof -
  define v1 where "v1 = (if cursor v < 0 then v\<lparr>cursor := 0\<rparr> else v)"
  have v1: "moves v v1" "screen_ok v1" "0 \<le> cursor v1" using assms by (auto simp: v1_def)
  note w = limit_width [OF v1(2)]
  show ?thesis
  proof (cases "cursor v1 \<ge> CURSOR_LIMIT v1")
    case True
    from scroll_draws [OF v1(2)] obtain v2 where v2: "scroll v1 = Some v2" "draws v1 v2" by blast
    let ?v3 = "v2\<lparr>cursor := CURSOR_LIMIT v2 - WIDTH v2\<rparr>"
    have "moves v ?v3" by (rule moves_trans [OF v1(1) moves_trans [OF draws_moves [OF v2(2)] moves_cursor]])
    moreover have "cursor_ok ?v3" using w v1(2) draws_dims [OF v2(2)] by (simp add: cursor_ok_def)
    ultimately show ?thesis using v2 True by (auto simp: clamp_cursor_def v1_def [symmetric] Let_def)
  next
    case False
    then show ?thesis using v1 by (auto simp: clamp_cursor_def v1_def [symmetric] Let_def cursor_ok_def)
  qed
qed

lemma put_char_moves:
  assumes "cursor_ok v" "printable c"
  shows "\<exists>v'. put_char c v = Some v' \<and> moves v v' \<and> cursor_ok v'"
proof -
  obtain v1 where v1: "put_glyph c v = Some v1" "moves v v1" "-1 \<le> cursor v1"
    using put_glyph_moves [OF assms] by blast
  have "screen_ok v1" using assms(1) moves_dims(3) [OF v1(2)] by (simp add: cursor_ok_def)
  from clamp_cursor_moves [OF this v1(3)] v1(1) moves_trans [OF v1(2)] show ?thesis
    by (auto simp: put_char_def)
qed

lemma put_moves:
  "cursor_ok v \<Longrightarrow> \<forall>c \<in> set s. printable c \<Longrightarrow> \<exists>v'. put s v = Some v' \<and> moves v v' \<and> cursor_ok v'"
proof (induction s arbitrary: v)
  case (Cons c s)
  obtain v1 where v1: "put_char c v = Some v1" "moves v v1" "cursor_ok v1"
    using put_char_moves [of v c] Cons.prems by auto
  from Cons.IH [OF v1(3)] Cons.prems v1 moves_trans [OF v1(2)] show ?case by auto
qed auto

lemma put_append: "put (s @ t) v = Option.bind (put s v) (put t)"
  by (induction s arbitrary: v) (auto simp: Option.bind_assoc intro!: arg_cong [of _ _ "Option.bind _"])

section \<open>Properties\<close>

text \<open>
  C21. Printing never leaves the screen: whatever text is printed, with line feeds, backspaces,
  carriage returns and as many scrolls as it takes, the cursor ends on a character cell and no
  byte outside the frame buffer is written; resolution and colours stay as they were.
\<close>

theorem put_stays_on_screen:
  assumes "cursor_ok v" "\<forall>c \<in> set s. printable c"
  shows "\<exists>v'. put s v = Some v' \<and> 0 \<le> cursor v' \<and> cursor v' < HEIGHT v * WIDTH v \<and>
    v' = v\<lparr>cursor := cursor v', vram := vram v'\<rparr> \<and>
    (\<forall>a. a < lfb v \<or> lfb v + nat (3 * (x_res v * y_res v)) \<le> a \<longrightarrow> vram v' a = vram v a)"
proof -
  obtain v' where v': "put s v = Some v'" "moves v v'" "cursor_ok v'" using put_moves [OF assms] by blast
  have "v' = v\<lparr>cursor := cursor v', vram := vram v'\<rparr>"
    using v'(2) unfolding moves_def draws_def by simp
  moreover have "vram v' a = vram v a" if "\<not> on_screen v a" for a
    using v'(2) that by (simp add: moves_def draws_def)
  ultimately show ?thesis
    using v' moves_dims [OF v'(2)]
    by (intro exI [of _ v'] conjI) (auto simp: cursor_ok_def CURSOR_LIMIT_def on_screen_def)
qed

definition video_demo :: video where
  "video_demo = (static_video 4096 (\<lambda>_. 7))\<lparr>x_res := 16, y_res := 32, cursor := 3\<rparr>"

theorem put_stays_on_screen_witness:
  "\<exists>v'. put [65, 10, 66, 8] video_demo = Some v' \<and> 0 \<le> cursor v' \<and> cursor v' < 4 \<and>
     vram v' 4095 = 7 \<and> vram v' 5632 = 7"
proof -
  have dims: "HEIGHT video_demo = 2" "WIDTH video_demo = 2"
    by (simp_all add: video_demo_def HEIGHT_def WIDTH_def CHAR_WIDTH_def CHAR_HEIGHT_def signed_divide_int_def)
  have ok: "cursor_ok video_demo" "\<forall>c \<in> set [65, 10, 66, 8 :: byte]. printable c"
    by (simp_all add: cursor_ok_def CURSOR_LIMIT_def dims screen_ok_def printable_def)
       (simp_all add: video_demo_def static_video_def)
  show ?thesis
    using put_stays_on_screen [OF ok] unfolding dims
    by (auto simp: video_demo_def static_video_def)
qed

text \<open>
  \<open>valid_pixel\<close> lets the column \<open>x_res\<close> and the row \<open>y_res\<close> pass: a pixel there is
  reported as painted, and in the row \<open>y_res\<close> its bytes lie behind the frame buffer.
\<close>

theorem fill_accepts_edge:
  assumes "0 \<le> x" "x \<le> x_res v" "0 \<le> y_res v"
  shows "snd (fill r g b x (y_res v) v) = 1 \<and>
    pixel_address x (y_res v) v \<ge> lfb v + nat (3 * (x_res v * y_res v))"
proof -
  have "0 \<le> x_res v * y_res v" using assms by simp
  then have "nat (3 * (x_res v * y_res v)) \<le> nat (3 * (x + y_res v * x_res v))"
    using assms by (intro nat_mono) (simp add: algebra_simps)
  then show ?thesis
    using assms by (simp add: fill_def valid_pixel_def pixel_address_def Let_def)
qed

theorem fill_accepts_edge_witness:
  "snd (fill 1 2 3 16 32 video_demo) = 1 \<and> pixel_address 16 32 video_demo \<ge> 5632"
  using fill_accepts_edge [of 16 video_demo 1 2 3] by (simp add: video_demo_def static_video_def)

end
