(* ===== verification/Keyboard.thy ===== *)
theory Keyboard
  imports CLib
begin

text \<open>
  \<open>Kernel/keyboardDriver.c\<close> and the layouts of \<open>include/keyboardmap.h\<close>: a ring buffer of
  scan codes between the keyboard interrupt and the readers, and the state of the shift and
  caps lock keys. The scan code that \<open>get_key\<close> (assembler) reads is an argument; what the
  interrupt does to processes is in theory \<open>Devices\<close>.
\<close>

section \<open>Layouts\<close>

definition kbdus :: "byte list" where
  "kbdus =
     [0, 27, 49, 50, 51, 52, 53, 54, 55, 56, 57, 48, 45, 61, 8, 9,
     113, 119, 101, 114, 116, 121, 117, 105, 111, 112, 91, 93, 10, 0, 97, 115,
     100, 102, 103, 104, 106, 107, 108, 59, 39, 96, 0, 92, 122, 120, 99, 118,
     98, 110, 109, 44, 46, 47, 0, 42, 0, 32, 0, 0, 0, 0, 0, 0,
     0, 0, 0, 0, 0, 0, 0, 0, 0, 0, 45, 0, 0, 0, 43] @ replicate 49 0"

definition shiftkbdus :: "byte list" where
  "shiftkbdus =
     [0, 27, 33, 64, 35, 36, 37, 94, 38, 42, 40, 41, 95, 43, 8, 9,
     81, 87, 69, 82, 84, 89, 85, 73, 79, 80, 123, 125, 10, 0, 65, 83,
     68, 70, 71, 72, 74, 75, 76, 58, 34, 124, 0, 62, 90, 88, 67, 86,
     66, 78, 77, 60, 62, 63, 0, 42, 0, 32, 0, 0, 0, 0, 0, 0,
     0, 0, 0, 0, 0, 0, 0, 0, 0, 0, 45, 0, 0, 0, 43] @ replicate 49 0"

definition capskbdus :: "byte list" where
  "capskbdus =
     [0, 27, 49, 50, 51, 52, 53, 54, 55, 56, 57, 48, 45, 61, 8, 9,
     81, 87, 69, 82, 84, 89, 85, 73, 79, 80, 91, 93, 10, 0, 65, 83,
     68, 70, 71, 72, 74, 75, 76, 59, 39, 92, 0, 60, 90, 88, 67, 86,
     66, 78, 77, 44, 46, 47, 0, 42, 0, 32, 0, 0, 0, 0, 0, 0,
     0, 0, 0, 0, 0, 0, 0, 0, 0, 0, 45, 0, 0, 0, 43] @ replicate 49 0"

definition RSHIFTCODE :: int where "RSHIFTCODE = 42"
definition LSHIFTCODE :: int where "LSHIFTCODE = 54"
definition TOPCHARCODE :: int where "TOPCHARCODE = 128"
definition CAPSLOCK :: int where "CAPSLOCK = 58"
definition QPOSITION :: int where "QPOSITION = 16"
definition PPOSITION :: int where "PPOSITION = 25"
definition APOSITION :: int where "APOSITION = 30"
definition LPOSITION :: int where "LPOSITION = 38"
definition ZPOSITION :: int where "ZPOSITION = 44"
definition MPOSITION :: int where "MPOSITION = 50"

lemmas key_defs = RSHIFTCODE_def LSHIFTCODE_def TOPCHARCODE_def CAPSLOCK_def QPOSITION_def
  PPOSITION_def APOSITION_def LPOSITION_def ZPOSITION_def MPOSITION_def

section \<open>State\<close>

definition BUFFSIZE :: nat where "BUFFSIZE = 128"

record keyboard =
  kb_buffer :: "byte list"
  ret_index :: nat
  store_index :: nat
  buff_size :: nat
  shiftPressed :: bool
  capsLockPressed :: bool
  capsLockPressedCount :: int
  capsLockActivated :: bool

definition static_keyboard :: keyboard where
  "static_keyboard =
     \<lparr>kb_buffer = replicate BUFFSIZE 0, ret_index = 0, store_index = 0, buff_size = 0, shiftPressed = False,
      capsLockPressed = False, capsLockPressedCount = 0, capsLockActivated = False\<rparr>"

section \<open>Keys\<close>

definition isShiftKey :: "int \<Rightarrow> bool" where
  "isShiftKey k \<longleftrightarrow> k = LSHIFTCODE \<or> k = RSHIFTCODE"

definition isAlpha :: "int \<Rightarrow> bool" where
  "isAlpha k \<longleftrightarrow> k \<ge> QPOSITION \<and> k \<le> PPOSITION \<or> k \<ge> APOSITION \<and> k \<le> LPOSITION \<or>
     k \<ge> ZPOSITION \<and> k \<le> MPOSITION"

text \<open>Shift toggles on press and on release; caps lock on every second event.\<close>

definition processKeyScanCode :: "int \<Rightarrow> keyboard \<Rightarrow> keyboard \<times> bool" where
  "processKeyScanCode k kb =
     (if k = RSHIFTCODE then (kb\<lparr>shiftPressed := \<not> shiftPressed kb\<rparr>, True)
      else if k = LSHIFTCODE then (kb\<lparr>shiftPressed := \<not> shiftPressed kb\<rparr>, True)
      else if k = CAPSLOCK then
        (let kb1 = kb\<lparr>capsLockPressed := \<not> capsLockPressed kb, capsLockPressedCount := capsLockPressedCount kb + 1\<rparr>
         in (if capsLockPressedCount kb1 smod 2 = 0
             then kb1\<lparr>capsLockActivated := \<not> capsLockActivated kb1, capsLockPressedCount := 0\<rparr> else kb1, True))
      else (kb, False))"

text \<open>The character of a scan code, \<open>-1\<close> when it has none.\<close>

definition chooseKeyboard :: "nat \<Rightarrow> keyboard \<Rightarrow> int" where
  "chooseKeyboard k kb =
     (if kbdus ! k = 0 then -1
      else if capsLockActivated kb \<and> \<not> shiftPressed kb then uint (capskbdus ! k)
      else if \<not> capsLockActivated kb \<and> shiftPressed kb then uint (shiftkbdus ! k)
      else if capsLockActivated kb \<and> shiftPressed kb
        then (if isAlpha (int k) then uint (kbdus ! k) else uint (shiftkbdus ! k))
      else uint (kbdus ! k))"

section \<open>The buffer\<close>

text \<open>
  \<open>store_key\<close> is \<open>store_scancode\<close> without the escape key: the new state, and whether a
  character was stored (then a process waiting for input is woken). \<open>k\<close> is the signed scan
  code: negative when the key is released.
\<close>

definition store_key :: "int \<Rightarrow> keyboard \<Rightarrow> keyboard \<times> bool" where
  "store_key k kb =
     (if buff_size kb = BUFFSIZE then (kb, False)
      else
        let (kb1, stored) =
              (if k > 0 \<and> k < TOPCHARCODE then
                 (let (kb0, special) = processKeyScanCode k kb
                  in if \<not> special
                     then (kb0\<lparr>buff_size := buff_size kb0 + 1, kb_buffer := (kb_buffer kb0)[store_index kb0 := word_of_int k],
                               store_index := store_index kb0 + 1\<rparr>, True)
                     else (kb0, False))
               else if k < 0 then (fst (processKeyScanCode (k + TOPCHARCODE) kb), False)
               else (kb, False))
        in (if store_index kb1 = BUFFSIZE then kb1\<lparr>store_index := 0\<rparr> else kb1, stored))"

definition get_char :: "keyboard \<Rightarrow> keyboard \<times> int" where
  "get_char kb =
     (if buff_size kb = 0 then (kb, -1)
      else let k = kb_buffer kb ! ret_index kb;
               kb1 = kb\<lparr>ret_index := ret_index kb + 1, buff_size := buff_size kb - 1\<rparr>;
               kb2 = (if ret_index kb1 = BUFFSIZE then kb1\<lparr>ret_index := 0\<rparr> else kb1)
           in (kb2, chooseKeyboard (unat k) kb2))"

section \<open>Facts\<close>

definition kb_ok :: "keyboard \<Rightarrow> bool" where
  "kb_ok kb \<longleftrightarrow> length (kb_buffer kb) = 128 \<and> ret_index kb < 128 \<and> buff_size kb \<le> 128 \<and>
     store_index kb = (ret_index kb + buff_size kb) mod 128 \<and> capsLockPressedCount kb \<in> {0, 1}"

text \<open>The scan codes in the buffer, oldest first.\<close>

definition pending :: "keyboard \<Rightarrow> byte list" where
  "pending kb = map (\<lambda>i. kb_buffer kb ! ((ret_index kb + i) mod 128)) [0..<buff_size kb]"

text \<open>A scan code that is stored: a key that is pressed and is neither shift nor caps lock.\<close>

definition character_key :: "int \<Rightarrow> bool" where
  "character_key k \<longleftrightarrow> 0 < k \<and> k < 128 \<and> k \<noteq> 42 \<and> k \<noteq> 54 \<and> k \<noteq> 58"

lemma process_frame:
  "processKeyScanCode k kb = (kb', b) \<Longrightarrow> kb_buffer kb' = kb_buffer kb \<and> ret_index kb' = ret_index kb \<and>
     store_index kb' = store_index kb \<and> buff_size kb' = buff_size kb"
  by (auto simp: processKeyScanCode_def Let_def split: if_splits)

lemma process_count:
  "processKeyScanCode k kb = (kb', b) \<Longrightarrow> capsLockPressedCount kb \<in> {0, 1} \<Longrightarrow> capsLockPressedCount kb' \<in> {0, 1}"
  by (auto simp: processKeyScanCode_def Let_def split: if_splits)

lemma process_special: "snd (processKeyScanCode k kb) \<longleftrightarrow> k \<in> {42, 54, 58}"
  by (simp add: processKeyScanCode_def Let_def key_defs)

lemma kb_same:
  assumes "kb_ok kb" "kb_buffer kb' = kb_buffer kb \<and> ret_index kb' = ret_index kb \<and>
     store_index kb' = store_index kb \<and> buff_size kb' = buff_size kb" "capsLockPressedCount kb' \<in> {0, 1}"
  shows "kb_ok kb'" "pending kb' = pending kb"
  using assms by (auto simp: kb_ok_def pending_def)

lemma slots_distinct:
  fixes r i b :: nat
  assumes "i < b" "b < 128"
  shows "(r + b) mod 128 \<noteq> (r + i) mod 128"
proof
  assume "(r + b) mod 128 = (r + i) mod 128"
  then have "128 dvd (r + b) - (r + i)" using assms(1) by (simp add: mod_eq_dvd_iff_nat)
  then have "128 dvd b - i" by simp
  then show False using assms by (auto dest: dvd_imp_le)
qed

lemma store_key_step:
  assumes "kb_ok kb"
  shows "kb_ok (fst (store_key k kb)) \<and>
    pending (fst (store_key k kb)) = pending kb @ (if character_key k \<and> length (pending kb) < 128 then [word_of_int k] else []) \<and>
    snd (store_key k kb) = (character_key k \<and> length (pending kb) < 128)"
proof -
  have len: "length (pending kb) = buff_size kb" by (simp add: pending_def)
  consider "buff_size kb = 128" | "buff_size kb < 128" "character_key k" | "buff_size kb < 128" "\<not> character_key k"
    using assms by (force simp: kb_ok_def)
  then show ?thesis
  proof cases
    case 1
    then show ?thesis using assms len by (simp add: store_key_def BUFFSIZE_def)
  next
    case 2
    let ?j = "store_index kb"
    let ?kb' = "kb\<lparr>buff_size := buff_size kb + 1, kb_buffer := (kb_buffer kb)[?j := word_of_int k],
        store_index := if ?j + 1 = 128 then 0 else ?j + 1\<rparr>"
    have p: "processKeyScanCode k kb = (kb, False)"
      using 2(2) by (simp add: processKeyScanCode_def character_key_def key_defs)
    have j: "?j = (ret_index kb + buff_size kb) mod 128" "?j < 128" using assms by (simp_all add: kb_ok_def)
    have step: "store_key k kb = (?kb', True)"
      using 2 p by (simp add: store_key_def BUFFSIZE_def TOPCHARCODE_def character_key_def)
    have nxt: "(if ?j + 1 = 128 then 0 else ?j + 1) = (ret_index kb + (buff_size kb + 1)) mod 128"
      unfolding j(1) using mod_Suc [of "ret_index kb + buff_size kb" 128] by simp
    have "kb_ok ?kb'" using assms 2(1) nxt by (simp add: kb_ok_def)
    moreover have "pending ?kb' = pending kb @ [word_of_int k]"
    proof -
      have "?j \<noteq> (ret_index kb + i) mod 128" if "i < buff_size kb" for i
        unfolding j(1) using slots_distinct [OF that] 2(1) by simp
      then show ?thesis using j assms by (simp add: pending_def kb_ok_def)
    qed
    ultimately show ?thesis using step 2 len by simp
  next
    case 3
    obtain kb1 b where p: "processKeyScanCode (if 0 < k then k else k + 128) kb = (kb1, b)" by force
    have same: "kb_ok kb1" "pending kb1 = pending kb"
      using kb_same [OF assms process_frame [OF p] process_count [OF p]] assms by (auto simp: kb_ok_def)
    have "store_index kb1 \<noteq> 128" using same(1) by (simp add: kb_ok_def)
    moreover have "store_index kb \<noteq> 128" using assms by (simp add: kb_ok_def)
    moreover have "b" if "0 < k" "k < 128"
      using 3(2) that p process_special [of k kb] by (auto simp: character_key_def)
    ultimately have "fst (store_key k kb) \<in> {kb, kb1}" "\<not> snd (store_key k kb)"
      using 3(1) p by (auto simp: store_key_def BUFFSIZE_def TOPCHARCODE_def Let_def split: if_splits)
    then show ?thesis using same assms 3 by auto
  qed
qed

lemma chooseKeyboard_simps [simp]:
  "chooseKeyboard k (kb\<lparr>ret_index := i\<rparr>) = chooseKeyboard k kb"
  "chooseKeyboard k (kb\<lparr>buff_size := n\<rparr>) = chooseKeyboard k kb"
  by (simp_all add: chooseKeyboard_def)

lemma get_char_step:
  assumes "kb_ok kb"
  shows "kb_ok (fst (get_char kb)) \<and> pending (fst (get_char kb)) = tl (pending kb) \<and>
    snd (get_char kb) = (if pending kb = [] then -1 else chooseKeyboard (unat (hd (pending kb))) kb)"
proof (cases "buff_size kb")
  case 0
  then show ?thesis using assms by (simp add: get_char_def pending_def)
next
  case (Suc n)
  let ?kb' = "kb\<lparr>ret_index := if ret_index kb + 1 = 128 then 0 else ret_index kb + 1, buff_size := n\<rparr>"
  have ok: "ret_index kb < 128" "store_index kb = (ret_index kb + Suc n) mod 128" "Suc n \<le> 128"
    using assms Suc by (simp_all add: kb_ok_def)
  have nxt: "ret_index ?kb' = (ret_index kb + 1) mod 128" using ok(1) by (simp add: mod_Suc)
  have run: "get_char kb = (?kb', chooseKeyboard (unat (kb_buffer kb ! ret_index kb)) kb)"
    using Suc by (simp add: get_char_def BUFFSIZE_def Let_def)
  have slots: "(ret_index ?kb' + i) mod 128 = (ret_index kb + Suc i) mod 128" for i
    unfolding nxt by (simp add: mod_add_left_eq)
  have pend: "pending kb = kb_buffer kb ! ret_index kb # pending ?kb'"
    unfolding pending_def Suc slots using ok(1) by (simp add: upt_conv_Cons map_Suc_upt [symmetric] comp_def del: upt_Suc)
  have "store_index ?kb' = (ret_index ?kb' + buff_size ?kb') mod 128" using slots [of n] ok(2) by simp
  moreover have "ret_index ?kb' < 128" unfolding nxt by simp
  ultimately have "kb_ok ?kb'" using assms ok(3) by (simp add: kb_ok_def)
  then show ?thesis using run pend by simp
qed

section \<open>Properties\<close>

text \<open>A history of the keyboard: scan codes that arrive and reads.\<close>

datatype key_event = Scan int | Read

text \<open>The state, the scan codes of character keys the buffer had room for, and those read.\<close>

fun key_step :: "key_event \<Rightarrow> keyboard \<times> byte list \<times> byte list \<Rightarrow> keyboard \<times> byte list \<times> byte list" where
  "key_step (Scan k) (kb, accepted, taken) =
     (fst (store_key k kb), accepted @ (if snd (store_key k kb) then [word_of_int k] else []), taken)"
| "key_step Read (kb, accepted, taken) = (fst (get_char kb), accepted, taken @ take 1 (pending kb))"

lemma key_step_order:
  assumes "kb_ok kb" "taken @ pending kb = accepted" "key_step e (kb, accepted, taken) = (kb', accepted', taken')"
  shows "kb_ok kb' \<and> taken' @ pending kb' = accepted'"
proof (cases e)
  case (Scan k)
  then show ?thesis using store_key_step [OF assms(1), of k] assms(2,3) by (auto split: if_splits)
next
  case Read
  then show ?thesis using get_char_step [OF assms(1)] assms(2,3) by (cases "pending kb") auto
qed

lemma key_run_order:
  "kb_ok kb \<Longrightarrow> taken @ pending kb = accepted \<Longrightarrow> fold key_step es (kb, accepted, taken) = (kb', accepted', taken') \<Longrightarrow>
   kb_ok kb' \<and> taken' @ pending kb' = accepted'"
proof (induction es arbitrary: kb accepted taken)
  case (Cons e es)
  obtain kb1 a1 t1 where s: "key_step e (kb, accepted, taken) = (kb1, a1, t1)" by (metis prod_cases3)
  from key_step_order [OF Cons.prems(1,2) s] Cons.IH [of kb1 t1 a1] Cons.prems(3) s show ?case by simp
qed simp

lemma static_keyboard_ok: "kb_ok static_keyboard" "pending static_keyboard = []"
  by (simp_all add: kb_ok_def pending_def static_keyboard_def BUFFSIZE_def)


text \<open>
  A full buffer swallows the release of a shift key: \<open>store_scancode\<close> returns before it
  looks at the code, so shift stays on although no key is pressed.
\<close>

theorem full_buffer_keeps_shift:
  assumes "kb_ok kb" "length (pending kb) = 128"
  shows "store_key (54 - 128) kb = (kb, False) \<and> store_key (42 - 128) kb = (kb, False)"
  using assms by (simp add: store_key_def pending_def BUFFSIZE_def)

theorem full_buffer_keeps_shift_witness:
  "store_key (54 - 128) (static_keyboard\<lparr>buff_size := 128, shiftPressed := True\<rparr>) =
     (static_keyboard\<lparr>buff_size := 128, shiftPressed := True\<rparr>, False)"
proof -
  have "kb_ok (static_keyboard\<lparr>buff_size := 128, shiftPressed := True\<rparr>)"
    "length (pending (static_keyboard\<lparr>buff_size := 128, shiftPressed := True\<rparr>)) = 128"
    by (simp_all add: kb_ok_def pending_def static_keyboard_def BUFFSIZE_def)
  from full_buffer_keeps_shift [OF this] show ?thesis by simp
qed

end
