(* ===== verification/Idt.thy ===== *)
theory Idt
  imports Prelude
begin

text \<open>
  The interrupt descriptor table of \<open>Kernel/idtLoader.c\<close>: its entries hold the address of a
  handler in three pieces.
\<close>

definition ACS_PRESENT :: byte where "ACS_PRESENT = 0x80"
definition ACS_INT_386 :: byte where "ACS_INT_386 = 0x0E"
definition ACS_INT :: byte where "ACS_INT = ACS_PRESENT OR ACS_INT_386"

record descr_int =
  offset_l :: u16
  selector :: u16
  cero :: byte
  acs :: byte
  offset_m :: u16
  offset_h :: u32
  other_cero :: u32

definition setup_IDT_entry :: "nat \<Rightarrow> byte \<Rightarrow> u64 \<Rightarrow> byte \<Rightarrow> descr_int list \<Rightarrow> descr_int list option" where
  "setup_IDT_entry index sel offset access table =
     poke_at table index
       \<lparr>offset_l = ucast (offset AND 0xFFFF), selector = ucast sel, cero = 0, acs = access,
        offset_m = ucast (drop_bit 16 offset AND 0xFFFF), offset_h = ucast (drop_bit 32 offset AND 0xFFFFFFFF),
        other_cero = 0\<rparr>"

text \<open>The table is a static array of 255 zero entries.\<close>

definition idt :: "descr_int list" where
  "idt = replicate 255 \<lparr>offset_l = 0, selector = 0, cero = 0, acs = 0, offset_m = 0, offset_h = 0, other_cero = 0\<rparr>"

text \<open>What the processor reads back from an entry.\<close>

definition gate_offset :: "descr_int \<Rightarrow> u64" where
  "gate_offset d = ucast (offset_l d) OR push_bit 16 (ucast (offset_m d)) OR push_bit 32 (ucast (offset_h d))"

section \<open>Facts\<close>

lemma setup_gate:
  fixes offset :: u64
  assumes "index < length table"
  shows "\<exists>d. setup_IDT_entry index sel offset access table = Some (table[index := d]) \<and> gate_offset d = offset \<and>
    acs d = access \<and> selector d = ucast sel"
proof -
  have m: "(0xFFFF :: u64) = mask 16" "(0xFFFFFFFF :: u64) = mask 32" by (simp_all add: mask_eq_exp_minus_1)
  have "ucast (ucast (offset AND 0xFFFF) :: u16) OR push_bit 16 (ucast (ucast (drop_bit 16 offset AND 0xFFFF) :: u16)) OR
      push_bit 32 (ucast (ucast (drop_bit 32 offset AND 0xFFFFFFFF) :: u32)) = offset"
  proof (rule bit_word_eqI)
    fix n :: nat assume "n < LENGTH(64)"
    then consider "n < 16" | "16 \<le> n" "n < 32" | "32 \<le> n" "n < 64" by force
    then show "bit (ucast (ucast (offset AND 0xFFFF) :: u16) OR push_bit 16 (ucast (ucast (drop_bit 16 offset AND 0xFFFF) :: u16)) OR
        push_bit 32 (ucast (ucast (drop_bit 32 offset AND 0xFFFFFFFF) :: u32)) :: u64) n = bit offset n"
      by cases (auto simp: m bit_simps)
  qed
  then show ?thesis using assms
    by (simp add: setup_IDT_entry_def poke_at_def gate_offset_def) (intro exI conjI, rule refl, simp_all)
qed

end
