(* ===== verification/KState.thy ===== *)
theory KState
  imports QueueADT Process CircularBuffer CStrings Video Keyboard Idt
begin

text \<open>
  The state of the kernel (the static variables of its files and the objects they point to)
  and the monad its operations are written in. Interrupt gates clear the interrupt flag
  (\<open>ACS_INT\<close> in \<open>include/defs.h\<close>, \<open>idtLoader.c\<close>), so kernel code runs alone until it yields,
  returns or leaves for another process: an operation is a function of the state that may
  suspend (\<open>Yld\<close>) and be resumed in whatever state it then finds.
\<close>

section \<open>Runs of kernel code\<close>

text \<open>
  \<open>Leave\<close> is \<open>_change_process\<close>: the stack is switched and the caller never returns. A
  \<open>Fault\<close> is undefined behaviour of the C code, kept as a value.
\<close>

datatype fault = Bad_pointer | Stack_overflow | Out_of_bounds | Uninitialised | Endless_loop | Bad_copy

datatype (dead 's, 'a) run =
  Ret 'a 's
| Yld 's "'s \<Rightarrow> ('s, 'a) run"
| Leave 's
| Fault fault

primrec bind_run :: "('s, 'a) run \<Rightarrow> ('a \<Rightarrow> 's \<Rightarrow> ('s, 'b) run) \<Rightarrow> ('s, 'b) run" where
  "bind_run (Ret a s) f = f a s"
| "bind_run (Yld s k) f = Yld s (\<lambda>s'. bind_run (k s') f)"
| "bind_run (Leave s) f = Leave s"
| "bind_run (Fault e) f = Fault e"

lemma bind_run_assoc: "bind_run (bind_run m f) g = bind_run m (\<lambda>a s. bind_run (f a s) g)"
  by (induction m) auto

lemma bind_run_Ret [simp]: "bind_run m (\<lambda>a s. Ret a s) = m"
  by (induction m) auto

section \<open>Components\<close>

definition LOCKED :: int where "LOCKED = 0"
definition UNLOCKED :: int where "UNLOCKED = 1"
definition OPEN :: int where "OPEN = 1"
definition CLOSED :: int where "CLOSED = 0"
definition NOT_OPEN_ERROR :: int where "NOT_OPEN_ERROR = -1"
definition MAX_MUTEX_OPEN_ERROR :: int where "MAX_MUTEX_OPEN_ERROR = -2"
definition MAX_COND_OPEN_ERROR :: int where "MAX_COND_OPEN_ERROR = -2"
definition FIFO_NOT_OPEN_ERROR :: int where "FIFO_NOT_OPEN_ERROR = -1"
definition MAX_FIFOS_OPEN_ERROR :: int where "MAX_FIFOS_OPEN_ERROR = -2"
definition MAX_MUTEXES :: nat where "MAX_MUTEXES = 128"
definition MAX_COND_VAR :: nat where "MAX_COND_VAR = 128"
definition MAX_FIFOS :: nat where "MAX_FIFOS = 128"
definition IPC_NAME_LEN :: nat where "IPC_NAME_LEN = 64"

lemmas ipc_defs = LOCKED_def UNLOCKED_def OPEN_def CLOSED_def NOT_OPEN_ERROR_def
  MAX_MUTEX_OPEN_ERROR_def MAX_COND_OPEN_ERROR_def FIFO_NOT_OPEN_ERROR_def MAX_FIFOS_OPEN_ERROR_def
  MAX_MUTEXES_def MAX_COND_VAR_def MAX_FIFOS_def

text \<open>A \<open>queueADT\<close>: the page of its header (\<open>NULL\<close> when there is none) and the links.\<close>

record kqueue =
  q_page :: addr
  q_links :: queue

definition null_queue :: kqueue where
  "null_queue = \<lparr>q_page = NULL, q_links = create_queue\<rparr>"

record mutex =
  m_name :: "byte list"
  locked :: int
  m_state :: int
  m_queue :: kqueue

record cond_variable =
  c_name :: "byte list"
  c_state :: int
  lock_queue :: int
  c_queue :: kqueue

record fifo =
  f_name :: "byte list"
  c_buffer :: circular_buffer
  f_state :: int
  fifo_mutex_key :: int
  read_queue :: kqueue

text \<open>\<open>bytes_read\<close> is not initialised; \<open>r_fifo\<close> is the index of the fifo pointed to.\<close>

record read_request =
  r_bytes :: int
  bytes_read :: "int option"
  r_buffer :: addr
  r_fifo :: nat
  reader_p :: addr

text \<open>A node of the scheduler's ring and one of the timer's list.\<close>

record list_node =
  quantum :: int
  node_p :: addr
  node_next :: addr

record sleep_process =
  sl_page :: addr
  sl_p :: addr
  sl_ticks :: nat

section \<open>The kernel state\<close>

text \<open>
  Objects in pages are typed: a map from the address of the page to the object there. A page
  keeps its object after \<open>store_page\<close> (nothing clears it), and loses it when \<open>get_page\<close>
  hands the page out again: using the old pointer then is a \<open>Bad_pointer\<close>.
\<close>

record kstate =
  kpages :: page_stack
  kstacks :: stack_stack
  memory_mutex_key :: int
  stack_memory_mutex_key :: int
  procs :: "addr \<rightharpoonup> process"
  process_table :: "addr list"
  foreground :: addr
  n_processes :: nat
  table_mutex_key :: int
  sched_nodes :: "addr \<rightharpoonup> list_node"
  current :: addr
  prev :: addr
  superlock :: int
  open_mutexes :: "mutex list"
  array_mutex :: int
  open_conds :: "cond_variable list"
  cond_array_lock :: int
  open_fifos :: "fifo list"
  fifo_array_lock :: int
  requests :: "addr \<rightharpoonup> read_request"
  sleeping_processes :: "sleep_process list"
  umem :: memory
  screen :: video
  keys :: keyboard
  gates :: "descr_int list"

definition zero_mutex :: mutex where
  "zero_mutex = \<lparr>m_name = replicate IPC_NAME_LEN 0, locked = 0, m_state = CLOSED, m_queue = null_queue\<rparr>"

definition zero_cond :: cond_variable where
  "zero_cond = \<lparr>c_name = replicate IPC_NAME_LEN 0, c_state = CLOSED, lock_queue = 0, c_queue = null_queue\<rparr>"

definition zero_fifo :: fifo where
  "zero_fifo = \<lparr>f_name = replicate IPC_NAME_LEN 0, c_buffer = create_circular_buffer,
     f_state = CLOSED, fifo_mutex_key = 0, read_queue = null_queue\<rparr>"

text \<open>The static initialisers; \<open>clearBSS\<close> zeroes the rest.\<close>

definition static_kstate :: "memory \<Rightarrow> video \<Rightarrow> kstate" where
  "static_kstate m v =
     \<lparr>kpages = zero_pages, kstacks = zero_stacks, memory_mutex_key = -1, stack_memory_mutex_key = -1,
      procs = Map.empty, process_table = replicate MAX_PROCESSES NULL, foreground = NULL,
      n_processes = 0, table_mutex_key = -1, sched_nodes = Map.empty, current = NULL, prev = NULL,
      superlock = UNLOCKED, open_mutexes = replicate MAX_MUTEXES zero_mutex, array_mutex = UNLOCKED,
      open_conds = replicate MAX_COND_VAR zero_cond, cond_array_lock = 0,
      open_fifos = replicate MAX_FIFOS zero_fifo, fifo_array_lock = 0, requests = Map.empty,
      sleeping_processes = [], umem = m, screen = v, keys = static_keyboard,
      gates = idt\<rparr>"

section \<open>The monad\<close>

type_synonym 'a kop = "kstate \<Rightarrow> (kstate, 'a) run"

definition kreturn :: "'a \<Rightarrow> 'a kop" where "kreturn a = (\<lambda>s. Ret a s)"

definition kbind :: "'a kop \<Rightarrow> ('a \<Rightarrow> 'b kop) \<Rightarrow> 'b kop" where
  "kbind m f = (\<lambda>s. bind_run (m s) f)"

definition kthen :: "unit kop \<Rightarrow> 'b kop \<Rightarrow> 'b kop" where
  "kthen m n = kbind m (\<lambda>_. n)"

definition kignore :: "'a kop \<Rightarrow> unit kop" where
  "kignore m = kbind m (\<lambda>_. kreturn ())"

definition kgets :: "(kstate \<Rightarrow> 'a) \<Rightarrow> 'a kop" where "kgets f = (\<lambda>s. Ret (f s) s)"

definition kmodify :: "(kstate \<Rightarrow> kstate) \<Rightarrow> unit kop" where "kmodify f = (\<lambda>s. Ret () (f s))"

definition kfault :: "fault \<Rightarrow> 'a kop" where "kfault e = (\<lambda>s. Fault e)"

definition kleave :: "'a kop" where "kleave = (\<lambda>s. Leave s)"

definition kyield :: "unit kop" where "kyield = (\<lambda>s. Yld s (kreturn ()))"

definition kwhen :: "bool \<Rightarrow> unit kop \<Rightarrow> unit kop" where
  "kwhen b m = (if b then m else kreturn ())"

text \<open>\<open>kseq ms m\<close> runs the statements \<open>ms\<close> and then \<open>m\<close>.\<close>

primrec kseq :: "unit kop list \<Rightarrow> 'a kop \<Rightarrow> 'a kop" where
  "kseq [] m = m"
| "kseq (x # xs) m = kthen x (kseq xs m)"

primrec kfor :: "'b list \<Rightarrow> ('b \<Rightarrow> unit kop) \<Rightarrow> unit kop" where
  "kfor [] f = kreturn ()"
| "kfor (x # xs) f = kthen (f x) (kfor xs f)"

definition koption :: "fault \<Rightarrow> 'a option \<Rightarrow> 'a kop" where
  "koption e r = (case r of None \<Rightarrow> kfault e | Some a \<Rightarrow> kreturn a)"

lemma kreturn_run [simp]: "kreturn a s = Ret a s" by (simp add: kreturn_def)
lemma kgets_run [simp]: "kgets f s = Ret (f s) s" by (simp add: kgets_def)
lemma kmodify_run [simp]: "kmodify f s = Ret () (f s)" by (simp add: kmodify_def)
lemma kfault_run [simp]: "kfault e s = Fault e" by (simp add: kfault_def)
lemma kleave_run [simp]: "kleave s = Leave s" by (simp add: kleave_def)
lemma kyield_run [simp]: "kyield s = Yld s (kreturn ())" by (simp add: kyield_def)
lemma kbind_run [simp]: "kbind m f s = bind_run (m s) f" by (simp add: kbind_def)
lemma kthen_run [simp]: "kthen m n s = bind_run (m s) (\<lambda>_. n)" by (simp add: kthen_def)
lemma kignore_run [simp]: "kignore m s = bind_run (m s) (\<lambda>_. kreturn ())"
  by (simp add: kignore_def)
lemma kwhen_run [simp]: "kwhen b m s = (if b then m s else Ret () s)" by (simp add: kwhen_def)
lemma koption_run [simp]: "koption e r s = (case r of None \<Rightarrow> Fault e | Some a \<Rightarrow> Ret a s)"
  by (simp add: koption_def split: option.split)

section \<open>Pointers\<close>

text \<open>Reading and updating the process a pointer points to; a NULL or stale pointer faults.\<close>

definition proc_at :: "addr \<Rightarrow> process kop" where
  "proc_at p = kbind (kgets (\<lambda>s. procs s p)) (koption Bad_pointer)"

definition put_proc :: "addr \<Rightarrow> process \<Rightarrow> kstate \<Rightarrow> kstate" where
  "put_proc p d s = s\<lparr>procs := (procs s)(p \<mapsto> d)\<rparr>"

definition update_proc :: "addr \<Rightarrow> (process \<Rightarrow> process) \<Rightarrow> unit kop" where
  "update_proc p f = kbind (proc_at p) (\<lambda>d. kmodify (put_proc p (f d)))"

text \<open>The operations of \<open>process.c\<close> that accept NULL: they do nothing then.\<close>

definition update_proc_or_null :: "addr \<Rightarrow> (process \<Rightarrow> process) \<Rightarrow> unit kop" where
  "update_proc_or_null p f = kwhen (p \<noteq> NULL) (update_proc p f)"

definition test_proc :: "addr \<Rightarrow> (process \<Rightarrow> 'a) \<Rightarrow> 'a \<Rightarrow> 'a kop" where
  "test_proc p f null_value = (if p = NULL then kreturn null_value else kbind (proc_at p) (\<lambda>d. kreturn (f d)))"

definition node_at :: "addr \<Rightarrow> list_node kop" where
  "node_at n = kbind (kgets (\<lambda>s. sched_nodes s n)) (koption Bad_pointer)"

definition update_node :: "addr \<Rightarrow> (list_node \<Rightarrow> list_node) \<Rightarrow> unit kop" where
  "update_node n f = kbind (node_at n) (\<lambda>d. kmodify (\<lambda>s. s\<lparr>sched_nodes := (sched_nodes s)(n \<mapsto> f d)\<rparr>))"

definition request_at :: "addr \<Rightarrow> read_request kop" where
  "request_at r = kbind (kgets (\<lambda>s. requests s r)) (koption Bad_pointer)"

lemma proc_at_run [simp]:
  "proc_at p s = (case procs s p of None \<Rightarrow> Fault Bad_pointer | Some d \<Rightarrow> Ret d s)"
  by (simp add: proc_at_def split: option.split)

lemma update_proc_run [simp]:
  "update_proc p f s = (case procs s p of None \<Rightarrow> Fault Bad_pointer | Some d \<Rightarrow> Ret () (put_proc p (f d) s))"
  by (simp add: update_proc_def split: option.split)

lemma update_proc_or_null_run [simp]:
  "update_proc_or_null p f s = (if p = NULL then Ret () s else update_proc p f s)"
  by (simp add: update_proc_or_null_def)

lemma test_proc_run [simp]:
  "test_proc p f v s = (if p = NULL then Ret v s
     else case procs s p of None \<Rightarrow> Fault Bad_pointer | Some d \<Rightarrow> Ret (f d) s)"
  by (simp add: test_proc_def split: option.split)

lemma node_at_run [simp]:
  "node_at n s = (case sched_nodes s n of None \<Rightarrow> Fault Bad_pointer | Some d \<Rightarrow> Ret d s)"
  by (simp add: node_at_def split: option.split)

lemma update_node_run [simp]:
  "update_node n f s = (case sched_nodes s n of None \<Rightarrow> Fault Bad_pointer
     | Some d \<Rightarrow> Ret () (s\<lparr>sched_nodes := (sched_nodes s)(n \<mapsto> f d)\<rparr>))"
  by (simp add: update_node_def split: option.split)

lemma request_at_run [simp]:
  "request_at r s = (case requests s r of None \<Rightarrow> Fault Bad_pointer | Some d \<Rightarrow> Ret d s)"
  by (simp add: request_at_def split: option.split)

lemma put_proc_simps [simp]:
  "procs (put_proc p d s) = (procs s)(p \<mapsto> d)"
  "sched_nodes (put_proc p d s) = sched_nodes s" "current (put_proc p d s) = current s"
  "prev (put_proc p d s) = prev s" "superlock (put_proc p d s) = superlock s"
  "open_mutexes (put_proc p d s) = open_mutexes s" "kpages (put_proc p d s) = kpages s"
  "memory_mutex_key (put_proc p d s) = memory_mutex_key s"
  "requests (put_proc p d s) = requests s" "open_conds (put_proc p d s) = open_conds s"
  "open_fifos (put_proc p d s) = open_fifos s" "array_mutex (put_proc p d s) = array_mutex s"
  "n_processes (put_proc p d s) = n_processes s" "foreground (put_proc p d s) = foreground s"
  "process_table (put_proc p d s) = process_table s" "table_mutex_key (put_proc p d s) = table_mutex_key s"
  by (simp_all add: put_proc_def)

text \<open>\<open>get_current_process\<close> of \<open>processManager.c\<close>: \<open>current->p\<close>.\<close>

definition get_current_process :: "addr kop" where
  "get_current_process = kbind (kgets current) (\<lambda>c. kbind (node_at c) (\<lambda>n. kreturn (node_p n)))"

lemma get_current_process_run [simp]:
  "get_current_process s = (case sched_nodes s (current s) of None \<Rightarrow> Fault Bad_pointer
     | Some n \<Rightarrow> Ret (node_p n) s)"
  by (simp add: get_current_process_def split: option.split)

end
