(* ===== verification/KernelMutex.thy ===== *)
theory KernelMutex
  imports KState
begin

text \<open>
  \<open>Kernel/kernelMutex.c\<close> with what it is mutually recursive with: the queue operations of
  \<open>queueADT.c\<close> on the queues of the kernel state, \<open>yield_process\<close> of \<open>processManager.c\<close>, and
  \<open>get_page\<close>, \<open>store_page\<close> of \<open>memoryAllocator.c\<close> with their locking. A mutex queues a
  waiting process on a fresh page, and the allocator protects itself with a mutex: each body
  takes its callee as an argument and the allocator ties the knot with a bound on the depth of
  the recursion, \<open>Stack_overflow\<close> when it is exceeded.
\<close>

section \<open>Queues of the kernel state\<close>

text \<open>How to read and to replace one queue of the state.\<close>

type_synonym queue_ref = "(kstate \<Rightarrow> kqueue) \<times> (kqueue \<Rightarrow> kstate \<Rightarrow> kstate)"

definition kq_is_empty :: "kqueue \<Rightarrow> bool" where
  "kq_is_empty q \<longleftrightarrow> q_page q = NULL \<or> is_empty (q_links q)"

definition NODE_SIZE :: nat where "NODE_SIZE = 16"

definition enqueue_with :: "(nat \<Rightarrow> addr kop) \<Rightarrow> queue_ref \<Rightarrow> addr \<Rightarrow> unit kop" where
  "enqueue_with gp r x =
     kbind (kgets (fst r)) (\<lambda>q.
       if q_page q = NULL then kreturn ()
       else kbind (gp NODE_SIZE) (\<lambda>new_node.
         kbind (kgets (fst r)) (\<lambda>q.
           kbind (koption Bad_pointer (enqueue new_node x (q_links q))) (\<lambda>l.
             kmodify (snd r (q\<lparr>q_links := l\<rparr>))))))"

definition dequeue_with :: "(addr \<Rightarrow> int kop) \<Rightarrow> queue_ref \<Rightarrow> addr kop" where
  "dequeue_with sp r =
     kbind (kgets (fst r)) (\<lambda>q.
       if kq_is_empty q then kreturn NULL
       else kbind (koption Bad_pointer (dequeue (q_links q))) (\<lambda>(x, f, l).
         kseq [kmodify (snd r (q\<lparr>q_links := l\<rparr>)), kignore (sp f)] (kreturn x)))"

text \<open>
  \<open>while (!is_empty(q)) f(dequeue(q))\<close>. Every node has its own page, so no queue is longer
  than the allocator has pages: the bound 256 is never reached.
\<close>

definition QUEUE_BOUND :: nat where "QUEUE_BOUND = STACK_SIZE + 1"

primrec drain_with :: "(addr \<Rightarrow> int kop) \<Rightarrow> queue_ref \<Rightarrow> (addr \<Rightarrow> unit kop) \<Rightarrow> nat \<Rightarrow> unit kop" where
  "drain_with sp r f 0 = kfault Endless_loop"
| "drain_with sp r f (Suc n) =
     kbind (kgets (fst r)) (\<lambda>q.
       if kq_is_empty q then kreturn ()
       else kbind (dequeue_with sp r) (\<lambda>x. kthen (f x) (drain_with sp r f n)))"

section \<open>Mutex bodies\<close>

definition mutex_is_open :: "int \<Rightarrow> kstate \<Rightarrow> bool" where
  "mutex_is_open key s \<longleftrightarrow>
     key \<ge> 0 \<and> key < int MAX_MUTEXES \<and> m_state (open_mutexes s ! nat key) = OPEN"

definition mutex_queue :: "nat \<Rightarrow> queue_ref" where
  "mutex_queue i =
     (\<lambda>s. m_queue (open_mutexes s ! i),
      \<lambda>q s. s\<lparr>open_mutexes := (open_mutexes s)[i := (open_mutexes s ! i)\<lparr>m_queue := q\<rparr>]\<rparr>)"

definition set_locked :: "nat \<Rightarrow> int \<Rightarrow> kstate \<Rightarrow> kstate" where
  "set_locked i v s = s\<lparr>open_mutexes := (open_mutexes s)[i := (open_mutexes s ! i)\<lparr>locked := v\<rparr>]\<rparr>"

definition set_superlock :: "unit kop" where
  "set_superlock = kmodify (\<lambda>s. s\<lparr>superlock := LOCKED\<rparr>)"

definition unset_superlock :: "unit kop" where
  "unset_superlock = kmodify (\<lambda>s. s\<lparr>superlock := UNLOCKED\<rparr>)"

text \<open>\<open>_unlocked\<close> of \<open>asm/test_lock.asm\<close>: exchange with 0 and return the old value.\<close>

definition unlocked_mutex :: "nat \<Rightarrow> bool kop" where
  "unlocked_mutex i =
     kbind (kgets (\<lambda>s. locked (open_mutexes s ! i))) (\<lambda>old.
       kthen (kmodify (set_locked i 0)) (kreturn (old \<noteq> 0)))"

definition yield_process :: "unit kop" where
  "yield_process =
     kbind (kgets current) (\<lambda>c. kbind (node_at c) (\<lambda>n.
       kseq [update_node (node_next n) (\<lambda>d. d\<lparr>quantum := quantum d + 1\<rparr>),
             update_node c (\<lambda>d. d\<lparr>quantum := 0\<rparr>)] kyield))"

definition mutex_lock_with :: "(nat \<Rightarrow> addr kop) \<Rightarrow> int \<Rightarrow> int kop" where
  "mutex_lock_with gp key =
     kbind (kgets (mutex_is_open key)) (\<lambda>opened.
       if opened then
         kthen set_superlock (
         kbind get_current_process (\<lambda>p.
         kbind (unlocked_mutex (nat key)) (\<lambda>free.
           if \<not> free then
             kseq [enqueue_with gp (mutex_queue (nat key)) p,
                   update_proc_or_null p block_process,
                   unset_superlock,
                   yield_process] (kreturn 1)
           else kthen unset_superlock (kreturn 1))))
       else kreturn NOT_OPEN_ERROR)"

text \<open>\<open>p = dequeue(m); while (is_delete_process(p)) p = dequeue(m)\<close>\<close>

primrec dequeue_live_with :: "(addr \<Rightarrow> int kop) \<Rightarrow> queue_ref \<Rightarrow> nat \<Rightarrow> addr kop" where
  "dequeue_live_with sp r 0 = kfault Endless_loop"
| "dequeue_live_with sp r (Suc n) =
     kbind (dequeue_with sp r) (\<lambda>p.
       kbind (test_proc p is_delete_process False) (\<lambda>deleted.
         if deleted then dequeue_live_with sp r n else kreturn p))"

definition mutex_unlock_with :: "(addr \<Rightarrow> int kop) \<Rightarrow> int \<Rightarrow> int kop" where
  "mutex_unlock_with sp key =
     kbind (kgets (mutex_is_open key)) (\<lambda>opened.
       if opened then
         kthen set_superlock (
         kbind (dequeue_live_with sp (mutex_queue (nat key)) QUEUE_BOUND) (\<lambda>p.
         kseq [kmodify (set_locked (nat key) UNLOCKED),
               kwhen (p \<noteq> NULL)
                 (kseq [update_proc_or_null p unblock_process]
                    (kmodify (set_locked (nat key) LOCKED))),
               unset_superlock] (kreturn 1)))
       else kreturn NOT_OPEN_ERROR)"

section \<open>The allocator\<close>

text \<open>A page that is handed out loses the object it held.\<close>

definition take_page :: "addr \<Rightarrow> page_stack \<Rightarrow> kstate \<Rightarrow> kstate" where
  "take_page a pg s =
     s\<lparr>kpages := pg, procs := (procs s)(a := None), sched_nodes := (sched_nodes s)(a := None),
       requests := (requests s)(a := None)\<rparr>"

text \<open>
  When no page is left \<open>get_page\<close> calls \<open>mutex_lock\<close> once more, where the other branches call
  \<open>mutex_unlock\<close>.
\<close>

fun get_page_n :: "nat \<Rightarrow> nat \<Rightarrow> addr kop"
  and store_page_n :: "nat \<Rightarrow> addr \<Rightarrow> int kop" where
  "get_page_n 0 sz = kfault Stack_overflow"
| "get_page_n (Suc d) sz =
     kbind (kgets memory_mutex_key) (\<lambda>key.
     kthen (kignore (mutex_lock_with (get_page_n d) key)) (
     kbind (kgets (\<lambda>s. pop_page (kpages s))) (\<lambda>r.
       case r of
         Some (page, pg) \<Rightarrow>
           kseq [kmodify (take_page page pg), kignore (mutex_unlock_with (store_page_n d) key)] (kreturn page)
       | None \<Rightarrow> kthen (kignore (mutex_lock_with (get_page_n d) key)) (kreturn 0))))"
| "store_page_n 0 address = kfault Stack_overflow"
| "store_page_n (Suc d) address =
     kbind (kgets memory_mutex_key) (\<lambda>key.
     kthen (kignore (mutex_lock_with (get_page_n d) key)) (
     kbind (kgets (\<lambda>s. push_page address (kpages s))) (\<lambda>r.
       case r of
         Some pg \<Rightarrow>
           kseq [kmodify (kpages_update (\<lambda>_. pg)), kignore (mutex_unlock_with (store_page_n d) key)] (kreturn 1)
       | None \<Rightarrow> kthen (kignore (mutex_unlock_with (store_page_n d) key)) (kreturn 0))))"

text \<open>
  A call of depth 1 is enough when the allocator's mutex is free, and no depth is when it is
  not (both proved below): the bound 64 stands for the 32 KB kernel stack.
\<close>

definition CALL_DEPTH :: nat where "CALL_DEPTH = 64"

definition get_page :: "nat \<Rightarrow> addr kop" where "get_page sz = get_page_n CALL_DEPTH sz"

definition store_page :: "addr \<Rightarrow> int kop" where "store_page address = store_page_n CALL_DEPTH address"

definition kenqueue :: "queue_ref \<Rightarrow> addr \<Rightarrow> unit kop" where "kenqueue = enqueue_with get_page"

definition kdequeue :: "queue_ref \<Rightarrow> addr kop" where "kdequeue = dequeue_with store_page"

definition kdrain :: "queue_ref \<Rightarrow> (addr \<Rightarrow> unit kop) \<Rightarrow> unit kop" where
  "kdrain r f = drain_with store_page r f QUEUE_BOUND"

definition kcreate_queue :: "kqueue kop" where
  "kcreate_queue = kbind (get_page NODE_SIZE) (\<lambda>q. kreturn \<lparr>q_page = q, q_links = create_queue\<rparr>)"

definition kdestroy_queue :: "queue_ref \<Rightarrow> unit kop" where
  "kdestroy_queue r =
     kthen (kdrain r (\<lambda>_. kreturn ())) (kbind (kgets (fst r)) (\<lambda>q. kignore (store_page (q_page q))))"

section \<open>Mutex operations\<close>

definition mutex_lock :: "int \<Rightarrow> int kop" where "mutex_lock = mutex_lock_with get_page"

definition mutex_unlock :: "int \<Rightarrow> int kop" where "mutex_unlock = mutex_unlock_with store_page"

text \<open>
  \<open>while (!_unlocked(&array_mutex)) yield_process()\<close>. A waiter needs another process to
  unlock between two tries; the model gives it 256 tries.
\<close>

definition LOCK_TRIES :: nat where "LOCK_TRIES = 256"

primrec lock_array_n :: "nat \<Rightarrow> unit kop" where
  "lock_array_n 0 = kfault Endless_loop"
| "lock_array_n (Suc n) =
     kbind (kgets array_mutex) (\<lambda>old.
       kthen (kmodify (\<lambda>s. s\<lparr>array_mutex := 0\<rparr>))
         (if old \<noteq> 0 then kreturn () else kthen yield_process (lock_array_n n)))"

definition lock_array :: "unit kop" where "lock_array = lock_array_n LOCK_TRIES"

definition unlock_array :: "unit kop" where
  "unlock_array = kmodify (\<lambda>s. s\<lparr>array_mutex := UNLOCKED\<rparr>)"

text \<open>
  The search of \<open>mutex_open\<close>, \<open>cond_open\<close> and \<open>fifo_open\<close>: the first index that is not open,
  or where the name is found before. A comparison that leaves its buffers is \<open>None\<close>.
\<close>

datatype search = Found nat | Vacant nat

fun search_name :: "byte list \<Rightarrow> (byte list \<times> bool) list \<Rightarrow> nat \<Rightarrow> search option" where
  "search_name nm [] k = Some (Vacant k)"
| "search_name nm ((n, opened) # es) k =
     (if opened
      then Option.bind (strcmp nm n) (\<lambda>c. if c = 0 then Some (Found k) else search_name nm es (Suc k))
      else Some (Vacant k))"

text \<open>
  \<open>create_new_mutex\<close> builds the mutex on the stack: \<open>strcpy\<close> into its 64 bytes is not
  bounded. The bytes behind the terminator are the stack's; the model takes zeros.
\<close>

definition ipc_name :: "byte list \<Rightarrow> byte list kop" where
  "ipc_name nm = koption Out_of_bounds (map_option fst (strcpy (replicate IPC_NAME_LEN 0) nm))"

definition create_new_mutex :: "byte list \<Rightarrow> mutex kop" where
  "create_new_mutex nm =
     kbind (ipc_name nm) (\<lambda>n. kbind kcreate_queue (\<lambda>q.
       kreturn \<lparr>m_name = n, locked = UNLOCKED, m_state = OPEN, m_queue = q\<rparr>))"

definition mutex_open :: "byte list \<Rightarrow> int kop" where
  "mutex_open nm =
     kthen lock_array (
     kbind (kgets (\<lambda>s. search_name nm (map (\<lambda>m. (m_name m, m_state m = OPEN)) (open_mutexes s)) 0)) (\<lambda>r.
       case r of
         None \<Rightarrow> kfault Out_of_bounds
       | Some (Found k) \<Rightarrow> kthen unlock_array (kreturn (int k))
       | Some (Vacant k) \<Rightarrow>
           if k = MAX_MUTEXES then kthen unlock_array (kreturn MAX_MUTEX_OPEN_ERROR)
           else kbind (create_new_mutex nm) (\<lambda>m.
             kseq [kmodify (\<lambda>s. s\<lparr>open_mutexes := (open_mutexes s)[k := m]\<rparr>), unlock_array]
               (kreturn (int k)))))"

definition mutex_close :: "int \<Rightarrow> int kop" where
  "mutex_close key =
     kthen lock_array (
     kbind (kgets (mutex_is_open key)) (\<lambda>opened.
       if opened then
         kseq [kdrain (mutex_queue (nat key)) (\<lambda>p. update_proc_or_null p unblock_process),
               kmodify (\<lambda>s. s\<lparr>open_mutexes := (open_mutexes s)[nat key :=
                 (open_mutexes s ! nat key)\<lparr>m_state := CLOSED\<rparr>]\<rparr>),
               kdestroy_queue (mutex_queue (nat key)),
               unlock_array] (kreturn 1)
       else kthen unlock_array (kreturn NOT_OPEN_ERROR)))"

record mutex_info =
  mi_name :: "byte list"
  mi_key :: int
  mi_locked :: int

text \<open>The entries \<open>get_mutexes_info\<close> fills and their number.\<close>

definition get_mutexes_info :: "mutex_info list kop" where
  "get_mutexes_info =
     kthen lock_array (
     kbind (kgets (\<lambda>s. map (\<lambda>i. \<lparr>mi_name = cstr (m_name (open_mutexes s ! i)), mi_key = int i,
                                 mi_locked = locked (open_mutexes s ! i)\<rparr>)
                        (filter (\<lambda>i. mutex_is_open (int i) s) [0..<MAX_MUTEXES]))) (\<lambda>info.
     kthen unlock_array (kreturn info)))"

section \<open>Uncontended operations\<close>

text \<open>
  What the rest of the kernel uses: the equations of each operation when nobody holds the
  lock. \<open>settle\<close> is the effect of a lock and unlock of the allocator's mutex, once it exists:
  the superlock is left open.
\<close>

definition settle :: "kstate \<Rightarrow> kstate" where
  "settle s = (if mutex_is_open (memory_mutex_key s) s then s\<lparr>superlock := UNLOCKED\<rparr> else s)"

definition allocator_ready :: "kstate \<Rightarrow> bool" where
  "allocator_ready s \<longleftrightarrow> length (open_mutexes s) = MAX_MUTEXES \<and>
     (mutex_is_open (memory_mutex_key s) s \<longrightarrow>
        sched_nodes s (current s) \<noteq> None \<and>
        locked (open_mutexes s ! nat (memory_mutex_key s)) = UNLOCKED \<and>
        q_page (m_queue (open_mutexes s ! nat (memory_mutex_key s))) \<noteq> NULL \<and>
        kq_is_empty (m_queue (open_mutexes s ! nat (memory_mutex_key s))))"

lemma mutex_is_open_less: "mutex_is_open key s \<Longrightarrow> nat key < MAX_MUTEXES"
  by (auto simp: mutex_is_open_def)

lemma lock_closed [simp]:
  "\<not> mutex_is_open key s \<Longrightarrow> mutex_lock_with gp key s = Ret NOT_OPEN_ERROR s"
  by (simp add: mutex_lock_with_def)

lemma unlock_closed [simp]:
  "\<not> mutex_is_open key s \<Longrightarrow> mutex_unlock_with sp key s = Ret NOT_OPEN_ERROR s"
  by (simp add: mutex_unlock_with_def)

lemma lock_free:
  assumes "mutex_is_open key s" "sched_nodes s (current s) \<noteq> None"
    "locked (open_mutexes s ! nat key) = UNLOCKED"
  shows "mutex_lock_with gp key s = Ret 1 (set_locked (nat key) LOCKED (s\<lparr>superlock := UNLOCKED\<rparr>))"
  using assms
  by (auto simp: mutex_lock_with_def set_superlock_def unset_superlock_def unlocked_mutex_def
      set_locked_def UNLOCKED_def LOCKED_def)

text \<open>The quanta after a yield: one more for the next node, none for the current one.\<close>

definition yield_nodes :: "addr \<Rightarrow> addr \<Rightarrow> (addr \<rightharpoonup> list_node) \<Rightarrow> addr \<rightharpoonup> list_node" where
  "yield_nodes c nx m =
     (let m1 = m(nx \<mapsto> (the (m nx))\<lparr>quantum := quantum (the (m nx)) + 1\<rparr>)
      in m1(c \<mapsto> (the (m1 c))\<lparr>quantum := 0\<rparr>))"

lemma yield_process_run:
  assumes "sched_nodes s (current s) = Some n" "sched_nodes s (node_next n) \<noteq> None"
  shows "yield_process s =
    Yld (s\<lparr>sched_nodes := yield_nodes (current s) (node_next n) (sched_nodes s)\<rparr>) (kreturn ())"
proof -
  obtain n' where "sched_nodes s (node_next n) = Some n'" using assms(2) by blast
  with assms(1) show ?thesis
    by (cases "node_next n = current s") (simp_all add: yield_process_def yield_nodes_def)
qed

lemma dequeue_with_empty [simp]:
  "kq_is_empty (fst r s) \<Longrightarrow> dequeue_with sp r s = Ret NULL s"
  by (simp add: dequeue_with_def)

lemma dequeue_live_empty [simp]:
  "kq_is_empty (fst r s) \<Longrightarrow> 0 < n \<Longrightarrow> dequeue_live_with sp r n s = Ret NULL s"
  by (cases n) simp_all

lemma QUEUE_BOUND_pos [simp]: "0 < QUEUE_BOUND"
  by (simp add: QUEUE_BOUND_def)

lemma unlock_no_waiters:
  assumes "mutex_is_open key s" "kq_is_empty (m_queue (open_mutexes s ! nat key))"
  shows "mutex_unlock_with sp key s = Ret 1 (set_locked (nat key) UNLOCKED (s\<lparr>superlock := UNLOCKED\<rparr>))"
  using assms
  by (simp add: mutex_unlock_with_def set_superlock_def unset_superlock_def set_locked_def
      mutex_queue_def)

lemma mutex_is_open_set_locked [simp]:
  "mutex_is_open key (set_locked i v s) = mutex_is_open key s"
  by (cases "i < length (open_mutexes s)"; cases "nat key = i")
     (auto simp: mutex_is_open_def set_locked_def list_update_beyond not_less)

lemma set_locked_back:
  "i < length (open_mutexes s) \<Longrightarrow> locked (open_mutexes s ! i) = v \<Longrightarrow>
   (open_mutexes s)[i := (open_mutexes s ! i)\<lparr>locked := v\<rparr>] = open_mutexes s"
  by (metis list_update_id mutex.surjective mutex.update_convs(2) mutex.select_convs(2))

lemma get_page_ready:
  assumes "allocator_ready s" "pop_page (kpages s) = Some (a, pg)"
  shows "get_page_n (Suc d) sz s = Ret a (take_page a pg (settle s))"
proof (cases "mutex_is_open (memory_mutex_key s) s")
  case True
  let ?i = "nat (memory_mutex_key s)"
  have r: "sched_nodes s (current s) \<noteq> None" "locked (open_mutexes s ! ?i) = UNLOCKED"
      "kq_is_empty (m_queue (open_mutexes s ! ?i))" "?i < length (open_mutexes s)"
    using assms(1) True mutex_is_open_less by (auto simp: allocator_ready_def)
  let ?s1 = "set_locked ?i LOCKED (s\<lparr>superlock := UNLOCKED\<rparr>)"
  have lock: "mutex_lock_with (get_page_n d) (memory_mutex_key s) s = Ret 1 ?s1"
    using lock_free True r by blast
  have s1: "kpages ?s1 = kpages s" by (simp add: set_locked_def)
  let ?s2 = "take_page a pg ?s1"
  have "mutex_is_open (memory_mutex_key s) ?s2 = mutex_is_open (memory_mutex_key s) ?s1"
    by (simp add: mutex_is_open_def take_page_def)
  moreover have "mutex_is_open (memory_mutex_key s) (s\<lparr>superlock := UNLOCKED\<rparr>)"
    using True by (simp add: mutex_is_open_def)
  moreover have "kq_is_empty (m_queue (open_mutexes ?s2 ! ?i))"
    using r by (simp add: take_page_def set_locked_def)
  ultimately have "mutex_unlock_with (store_page_n d) (memory_mutex_key s) ?s2 =
      Ret 1 (set_locked ?i UNLOCKED (?s2\<lparr>superlock := UNLOCKED\<rparr>))"
    by (intro unlock_no_waiters) auto
  moreover have "set_locked ?i UNLOCKED (?s2\<lparr>superlock := UNLOCKED\<rparr>) = take_page a pg (settle s)"
    using True r set_locked_back [OF r(4,2)] by (simp add: settle_def take_page_def set_locked_def)
  ultimately show ?thesis using lock assms(2) s1 by simp
next
  case False
  then have "\<not> mutex_is_open (memory_mutex_key s) (take_page a pg s)"
    by (simp add: mutex_is_open_def take_page_def)
  with False assms(2) show ?thesis by (simp add: settle_def)
qed

lemma store_page_ready:
  assumes "allocator_ready s"
  shows "store_page_n (Suc d) a s =
    (case push_page a (kpages s) of Some pg \<Rightarrow> Ret 1 ((settle s)\<lparr>kpages := pg\<rparr>) | None \<Rightarrow> Ret 0 (settle s))"
proof (cases "mutex_is_open (memory_mutex_key s) s")
  case True
  let ?i = "nat (memory_mutex_key s)"
  have r: "sched_nodes s (current s) \<noteq> None" "locked (open_mutexes s ! ?i) = UNLOCKED"
      "kq_is_empty (m_queue (open_mutexes s ! ?i))" "?i < length (open_mutexes s)"
    using assms(1) True mutex_is_open_less by (auto simp: allocator_ready_def)
  let ?s1 = "set_locked ?i LOCKED (s\<lparr>superlock := UNLOCKED\<rparr>)"
  have lock: "mutex_lock_with (get_page_n d) (memory_mutex_key s) s = Ret 1 ?s1"
    using lock_free True r by blast
  have s1: "kpages ?s1 = kpages s" by (simp add: set_locked_def)
  have unlock: "mutex_unlock_with (store_page_n d) (memory_mutex_key s) (?s1\<lparr>kpages := pg\<rparr>) =
      Ret 1 ((settle s)\<lparr>kpages := pg\<rparr>)" for pg
  proof -
    let ?s2 = "?s1\<lparr>kpages := pg\<rparr>"
    have "mutex_is_open (memory_mutex_key s) ?s2"
      using True by (simp add: mutex_is_open_def set_locked_def r(4) nth_list_update)
    moreover have "kq_is_empty (m_queue (open_mutexes ?s2 ! ?i))"
      using r by (simp add: set_locked_def)
    ultimately have "mutex_unlock_with (store_page_n d) (memory_mutex_key s) ?s2 =
        Ret 1 (set_locked ?i UNLOCKED (?s2\<lparr>superlock := UNLOCKED\<rparr>))"
      by (intro unlock_no_waiters) auto
    moreover have "set_locked ?i UNLOCKED (?s2\<lparr>superlock := UNLOCKED\<rparr>) = (settle s)\<lparr>kpages := pg\<rparr>"
      using True r set_locked_back [OF r(4,2)] by (simp add: settle_def set_locked_def)
    ultimately show ?thesis by simp
  qed
  have "?s1\<lparr>kpages := kpages s\<rparr> = ?s1" "(settle s)\<lparr>kpages := kpages s\<rparr> = settle s"
    using s1 by (simp_all add: settle_def set_locked_def)
  then have "mutex_unlock_with (store_page_n d) (memory_mutex_key s) ?s1 = Ret 1 (settle s)"
    using unlock [of "kpages s"] by metis
  then show ?thesis using lock s1 unlock by (simp split: option.split)
next
  case False
  then have "\<not> mutex_is_open (memory_mutex_key s) (s\<lparr>kpages := pg\<rparr>)" for pg
    by (simp add: mutex_is_open_def)
  with False show ?thesis by (simp add: settle_def split: option.split)
qed

lemma get_page_eq [kernel_simps]:
  "allocator_ready s \<Longrightarrow> pop_page (kpages s) = Some (a, pg) \<Longrightarrow> get_page sz s = Ret a (take_page a pg (settle s))"
  using get_page_ready [of s a pg 63] by (simp add: get_page_def CALL_DEPTH_def numeral_eq_Suc)

lemma store_page_eq [kernel_simps]:
  "allocator_ready s \<Longrightarrow> store_page a s =
     (case push_page a (kpages s) of Some pg \<Rightarrow> Ret 1 ((settle s)\<lparr>kpages := pg\<rparr>) | None \<Rightarrow> Ret 0 (settle s))"
  using store_page_ready [of s 63 a] by (simp add: store_page_def CALL_DEPTH_def numeral_eq_Suc)

text \<open>
  The knot does not tighten when the allocator's mutex is held: queueing the caller needs a
  page, and that call finds the mutex held.
\<close>

lemma get_page_held:
  "mutex_is_open (memory_mutex_key s) s \<Longrightarrow> sched_nodes s (current s) \<noteq> None \<Longrightarrow>
   q_page (m_queue (open_mutexes s ! nat (memory_mutex_key s))) \<noteq> NULL \<Longrightarrow>
   length (open_mutexes s) = MAX_MUTEXES \<Longrightarrow>
   locked (open_mutexes s ! nat (memory_mutex_key s)) = LOCKED \<Longrightarrow> get_page_n d sz s = Fault Stack_overflow"
proof (induction d arbitrary: s sz)
  case (Suc d)
  let ?k = "memory_mutex_key s"
  let ?s1 = "set_locked (nat ?k) 0 (s\<lparr>superlock := LOCKED\<rparr>)"
  have i: "nat ?k < length (open_mutexes s)"
    using Suc.prems(1,4) mutex_is_open_less by simp
  have "mutex_is_open ?k (s\<lparr>superlock := LOCKED\<rparr>)" using Suc.prems(1) by (simp add: mutex_is_open_def)
  then have "get_page_n d NODE_SIZE ?s1 = Fault Stack_overflow"
    using Suc.prems i by (intro Suc.IH) (auto simp: set_locked_def mutex_is_open_def LOCKED_def)
  moreover have "q_page (fst (mutex_queue (nat ?k)) ?s1) \<noteq> NULL"
    using Suc.prems i by (simp add: mutex_queue_def set_locked_def)
  ultimately have "enqueue_with (get_page_n d) (mutex_queue (nat ?k)) p ?s1 = Fault Stack_overflow" for p
    by (simp add: enqueue_with_def)
  then have "mutex_lock_with (get_page_n d) ?k s = Fault Stack_overflow"
    using Suc.prems
    by (auto simp: mutex_lock_with_def set_superlock_def unlocked_mutex_def LOCKED_def set_locked_def)
  then show ?case by simp
qed simp

lemma get_page_exhausted:
  assumes "allocator_ready s" "mutex_is_open (memory_mutex_key s) s"
    and "pop_page (kpages s) = None"
  shows "get_page_n d sz s = Fault Stack_overflow"
proof (cases d)
  case (Suc d')
  let ?k = "memory_mutex_key s"
  let ?s1 = "set_locked (nat ?k) LOCKED (s\<lparr>superlock := UNLOCKED\<rparr>)"
  let ?s2 = "set_locked (nat ?k) 0 (?s1\<lparr>superlock := LOCKED\<rparr>)"
  have r: "sched_nodes s (current s) \<noteq> None" "locked (open_mutexes s ! nat ?k) = UNLOCKED"
      "length (open_mutexes s) = MAX_MUTEXES" "nat ?k < length (open_mutexes s)"
      "q_page (m_queue (open_mutexes s ! nat ?k)) \<noteq> NULL"
    using assms(1,2) mutex_is_open_less by (auto simp: allocator_ready_def)
  have "mutex_lock_with (get_page_n d') ?k s = Ret 1 ?s1" using lock_free assms(2) r by blast
  moreover have "get_page_n d' NODE_SIZE ?s2 = Fault Stack_overflow"
    using assms(2) r by (intro get_page_held) (auto simp: set_locked_def mutex_is_open_def LOCKED_def)
  then have "mutex_lock_with (get_page_n d') ?k ?s1 = Fault Stack_overflow"
    using assms(2) r
    by (auto simp: mutex_lock_with_def set_superlock_def unlocked_mutex_def LOCKED_def set_locked_def
        enqueue_with_def mutex_queue_def mutex_is_open_def)
  moreover have "pop_page (kpages ?s1) = None" "memory_mutex_key ?s1 = ?k"
    using assms(3) by (simp_all add: set_locked_def)
  ultimately show ?thesis using Suc by simp
qed simp

text \<open>All outcomes of \<open>get_page\<close> from a ready state.\<close>

lemma get_page_cases:
  assumes "allocator_ready s"
  shows "get_page sz s =
    (case pop_page (kpages s) of
       Some (a, pg) \<Rightarrow> Ret a (take_page a pg (settle s))
     | None \<Rightarrow> if mutex_is_open (memory_mutex_key s) s then Fault Stack_overflow else Ret 0 s)"
proof (cases "pop_page (kpages s)")
  case None
  show ?thesis
  proof (cases "mutex_is_open (memory_mutex_key s) s")
    case True
    with get_page_exhausted [OF assms True None] None show ?thesis by (simp add: get_page_def)
  next
    case False
    with None show ?thesis by (simp add: get_page_def CALL_DEPTH_def numeral_eq_Suc)
  qed
qed (use get_page_eq [OF assms] in auto)

end
