(* ===== verification/KernelQueue.thy ===== *)
theory KernelQueue
  imports KernelMutex
begin

text \<open>
  The two interfaces the kernel's blocking objects stand on. \<open>page_allocator\<close>: what
  \<open>get_page\<close> and \<open>store_page\<close> promise their callers while their mutex is free.
  \<open>state_queue\<close>: a queue of the state that the allocator does not touch. The lemmas on
  \<open>enqueue\<close>, \<open>dequeue\<close> and the loops over a queue are proved once from these laws, and both
  are interpreted on the kernel's own operations: on the queue of every mutex but the
  allocator's, of every condition variable and of every fifo.
\<close>

section \<open>Frames\<close>

lemma bind_run_RetE:
  assumes "bind_run m f = Ret x s'"
  obtains a s1 where "m = Ret a s1" "f a s1 = Ret x s'"
  using assms by (cases m) auto

lemma allocator_ready_simps [simp]:
  "allocator_ready (s\<lparr>superlock := v\<rparr>) = allocator_ready s"
  "allocator_ready (s\<lparr>kpages := pg\<rparr>) = allocator_ready s"
  "allocator_ready (s\<lparr>array_mutex := w\<rparr>) = allocator_ready s"
  "allocator_ready (put_proc p d s) = allocator_ready s"
  by (simp_all add: allocator_ready_def mutex_is_open_def put_proc_def)

lemma allocator_ready_settle [simp]: "allocator_ready (settle s) = allocator_ready s"
  by (simp add: settle_def)

lemma settle_simps [simp]:
  "procs (settle s) = procs s" "sched_nodes (settle s) = sched_nodes s" "current (settle s) = current s"
  "prev (settle s) = prev s" "open_mutexes (settle s) = open_mutexes s" "kpages (settle s) = kpages s"
  "open_conds (settle s) = open_conds s" "open_fifos (settle s) = open_fifos s"
  "memory_mutex_key (settle s) = memory_mutex_key s" "requests (settle s) = requests s"
  "process_table (settle s) = process_table s" "table_mutex_key (settle s) = table_mutex_key s"
  "array_mutex (settle s) = array_mutex s" "n_processes (settle s) = n_processes s"
  "foreground (settle s) = foreground s" "umem (settle s) = umem s"
  by (simp_all add: settle_def)

lemma take_page_simps [simp]:
  "procs (take_page a pg s) = (procs s)(a := None)"
  "sched_nodes (take_page a pg s) = (sched_nodes s)(a := None)"
  "requests (take_page a pg s) = (requests s)(a := None)"
  "current (take_page a pg s) = current s" "prev (take_page a pg s) = prev s"
  "open_mutexes (take_page a pg s) = open_mutexes s" "kpages (take_page a pg s) = pg"
  "open_conds (take_page a pg s) = open_conds s" "open_fifos (take_page a pg s) = open_fifos s"
  "memory_mutex_key (take_page a pg s) = memory_mutex_key s"
  "process_table (take_page a pg s) = process_table s" "table_mutex_key (take_page a pg s) = table_mutex_key s"
  "superlock (take_page a pg s) = superlock s" "array_mutex (take_page a pg s) = array_mutex s"
  "n_processes (take_page a pg s) = n_processes s" "foreground (take_page a pg s) = foreground s"
  "umem (take_page a pg s) = umem s"
  by (simp_all add: take_page_def)

lemma set_locked_simps [simp]:
  "procs (set_locked i v s) = procs s" "sched_nodes (set_locked i v s) = sched_nodes s"
  "current (set_locked i v s) = current s" "prev (set_locked i v s) = prev s"
  "kpages (set_locked i v s) = kpages s" "memory_mutex_key (set_locked i v s) = memory_mutex_key s"
  "open_conds (set_locked i v s) = open_conds s" "open_fifos (set_locked i v s) = open_fifos s"
  "length (open_mutexes (set_locked i v s)) = length (open_mutexes s)"
  "process_table (set_locked i v s) = process_table s" "table_mutex_key (set_locked i v s) = table_mutex_key s"
  "superlock (set_locked i v s) = superlock s" "requests (set_locked i v s) = requests s"
  by (simp_all add: set_locked_def)

lemma mutex_is_open_simps [simp]:
  "mutex_is_open key (take_page a pg s) = mutex_is_open key s"
  "mutex_is_open key (settle s) = mutex_is_open key s"
  "mutex_is_open key (put_proc p d s) = mutex_is_open key s"
  "mutex_is_open key (s\<lparr>superlock := v\<rparr>) = mutex_is_open key s"
  "mutex_is_open key (s\<lparr>kpages := pg\<rparr>) = mutex_is_open key s"
  "mutex_is_open key (s\<lparr>array_mutex := w\<rparr>) = mutex_is_open key s"
  by (simp_all add: mutex_is_open_def)

lemma allocator_ready_take_page:
  "allocator_ready s \<Longrightarrow> a \<noteq> current s \<Longrightarrow> allocator_ready (take_page a pg s)"
  by (simp add: allocator_ready_def)

lemma allocator_ready_set_locked:
  "int i \<noteq> memory_mutex_key s \<Longrightarrow> allocator_ready (set_locked i v s) = allocator_ready s"
  unfolding allocator_ready_def mutex_is_open_set_locked set_locked_simps
  by (auto simp: set_locked_def mutex_is_open_def)

section \<open>The allocator's contract\<close>

locale page_allocator =
  fixes gp :: "nat \<Rightarrow> addr kop" and sp :: "addr \<Rightarrow> int kop"
  assumes gp: "allocator_ready s \<Longrightarrow> pop_page (kpages s) = Some (a, pg) \<Longrightarrow>
      gp sz s = Ret a (take_page a pg (settle s))"
    and sp: "allocator_ready s \<Longrightarrow> sp a s =
      (case push_page a (kpages s) of Some pg \<Rightarrow> Ret 1 ((settle s)\<lparr>kpages := pg\<rparr>) | None \<Rightarrow> Ret 0 (settle s))"

interpretation allocator: page_allocator get_page store_page
  by unfold_locales (rule get_page_eq store_page_eq; assumption)+

interpretation allocator_n: page_allocator "get_page_n (Suc d)" "store_page_n (Suc d)" for d
  by unfold_locales (rule get_page_ready store_page_ready; assumption)+

section \<open>Queues the allocator does not touch\<close>

text \<open>
  \<open>same_sched s s'\<close>: the structures of the scheduler, the process table and the read requests
  are as before; \<open>same_tables\<close> adds the process descriptors.
\<close>

definition same_sched :: "kstate \<Rightarrow> kstate \<Rightarrow> bool" where
  "same_sched s s' \<longleftrightarrow> sched_nodes s' = sched_nodes s \<and> current s' = current s \<and> prev s' = prev s \<and>
     memory_mutex_key s' = memory_mutex_key s \<and> process_table s' = process_table s \<and>
     requests s' = requests s"

definition same_tables :: "kstate \<Rightarrow> kstate \<Rightarrow> bool" where
  "same_tables s s' \<longleftrightarrow> same_sched s s' \<and> procs s' = procs s"

lemmas same_defs = same_tables_def same_sched_def

lemma same_refl [simp]: "same_sched s s" "same_tables s s"
  by (simp_all add: same_defs)

lemma same_sched_trans: "same_sched s s' \<Longrightarrow> same_sched s' s'' \<Longrightarrow> same_sched s s''"
  by (simp add: same_defs)

lemma same_tables_trans: "same_tables s s' \<Longrightarrow> same_tables s' s'' \<Longrightarrow> same_tables s s''"
  by (simp add: same_defs)

lemma settle_same [simp]: "prev (settle s) = prev s" "requests (settle s) = requests s"
  by (simp_all add: settle_def)

lemma same_simps [simp]:
  "same_tables s (settle s') = same_tables s s'" "same_tables s (s'\<lparr>kpages := pg\<rparr>) = same_tables s s'"
  "same_tables s (s'\<lparr>superlock := v\<rparr>) = same_tables s s'" "same_tables s (set_locked i w s') = same_tables s s'"
  "same_sched s (settle s') = same_sched s s'" "same_sched s (s'\<lparr>kpages := pg\<rparr>) = same_sched s s'"
  "same_sched s (s'\<lparr>superlock := v\<rparr>) = same_sched s s'" "same_sched s (set_locked i w s') = same_sched s s'"
  "same_sched s (put_proc p d s') = same_sched s s'"
  by (simp_all add: same_defs put_proc_def)

lemma push_page_Some:
  "push_page a pgs = Some pg \<Longrightarrow> current_index pgs = Suc (current_index pg)"
  by (auto simp: push_page_def split: if_splits)

lemma push_page_enough: "0 < current_index pgs \<Longrightarrow> \<exists>pg. push_page a pgs = Some pg"
  by (simp add: push_page_def)

text \<open>Waking the processes of a list, in order.\<close>

primrec wake :: "(process \<Rightarrow> process) \<Rightarrow> addr list \<Rightarrow> (addr \<rightharpoonup> process) \<Rightarrow> addr \<rightharpoonup> process" where
  "wake h [] m = m"
| "wake h (p # ps) m = wake h ps (m(p \<mapsto> h (the (m p))))"

lemma wake_other: "p \<notin> set ps \<Longrightarrow> wake h ps m p = m p"
  by (induction ps arbitrary: m) auto

lemma wake_once: "p \<in> set ps \<Longrightarrow> (\<And>d. h (h d) = h d) \<Longrightarrow> m p = Some d \<Longrightarrow> wake h ps m p = Some (h d)"
proof (induction ps arbitrary: m d)
  case (Cons q ps)
  show ?case
  proof (cases "p \<in> set ps")
    case True
    note ih = Cons.IH [OF True Cons.prems(2), of "m(q \<mapsto> h (the (m q)))"]
    show ?thesis
    proof (cases "p = q")
      case True
      then show ?thesis using ih [of "h d"] Cons.prems(2,3) by (simp add: fun_upd_def)
    qed (use ih [of d] Cons.prems(3) in \<open>simp add: fun_upd_def\<close>)
  next
    case False
    with Cons.prems have "q = p" by auto
    with False Cons.prems(3) show ?thesis by (simp add: wake_other)
  qed
qed simp

locale state_queue = page_allocator gp sp for gp sp +
  fixes r :: queue_ref and ok :: "kstate \<Rightarrow> bool"
  assumes get_put: "ok s \<Longrightarrow> fst r (snd r q s) = q"
    and put_ok: "ok s \<Longrightarrow> ok (snd r q s)"
    and put_pages: "kpages (snd r q s) = kpages s"
    and put_ready: "ok s \<Longrightarrow> allocator_ready (snd r q s) = allocator_ready s"
    and put_tables: "same_tables s (snd r q s)"
    and take_get: "fst r (take_page a pg (settle s)) = fst r s"
    and take_ok: "ok (take_page a pg (settle s)) = ok s"
    and store_get: "fst r ((settle s)\<lparr>kpages := pg\<rparr>) = fst r s"
    and store_ok: "ok ((settle s)\<lparr>kpages := pg\<rparr>) = ok s"
    and proc_get: "fst r (put_proc p d s) = fst r s"
    and proc_ok: "ok (put_proc p d s) = ok s"
begin

lemma enqueue_run:
  assumes "ok s" "allocator_ready s" "pop_page (kpages s) = Some (a, pg)"
    and "q_page (fst r s) \<noteq> NULL" "queue_holds (q_links (fst r s)) xs" "a \<noteq> NULL" "a \<notin> fst ` set xs"
  shows "\<exists>l. enqueue_with gp r x s = Ret () (snd r ((fst r s)\<lparr>q_links := l\<rparr>) (take_page a pg (settle s))) \<and>
    queue_holds l (xs @ [(a, x)])"
proof -
  obtain l where "enqueue a x (q_links (fst r s)) = Some l" "queue_holds l (xs @ [(a, x)])"
    using lq.enq [OF assms(5-7)] by blast
  then show ?thesis using assms(4) gp [OF assms(2,3)]
    by (intro exI [of _ l]) (simp add: enqueue_with_def take_get)
qed

text \<open>One \<open>dequeue\<close>, with the state it leaves described by what later steps need.\<close>

lemma dequeue_run:
  assumes "ok s" "allocator_ready s" "0 < current_index (kpages s)"
    and "q_page (fst r s) \<noteq> NULL" "queue_holds (q_links (fst r s)) ((a, x) # xs)"
  shows "\<exists>s'. dequeue_with sp r s = Ret x s' \<and> ok s' \<and> allocator_ready s' \<and> same_tables s s' \<and>
    current_index (kpages s) = Suc (current_index (kpages s')) \<and>
    q_page (fst r s') = q_page (fst r s) \<and> queue_holds (q_links (fst r s')) xs"
proof -
  obtain l where l: "dequeue (q_links (fst r s)) = Some (x, a, l)" "queue_holds l xs"
    using lq.deq [OF assms(5)] by blast
  obtain pg where pg: "push_page a (kpages s) = Some pg" using push_page_enough [OF assms(3)] by blast
  let ?s1 = "snd r ((fst r s)\<lparr>q_links := l\<rparr>) s"
  have s1: "ok ?s1" "allocator_ready ?s1" "kpages ?s1 = kpages s" "same_tables s ?s1"
      "fst r ?s1 = (fst r s)\<lparr>q_links := l\<rparr>"
    using assms(1,2) put_ok put_ready put_pages put_tables get_put by auto
  have "sp a ?s1 = Ret 1 ((settle ?s1)\<lparr>kpages := pg\<rparr>)" using sp [OF s1(2)] pg s1(3) by simp
  moreover have "\<not> kq_is_empty (fst r s)"
    using assms(4) lq.empty_test [OF assms(5)] by (simp add: kq_is_empty_def)
  ultimately have "dequeue_with sp r s = Ret x ((settle ?s1)\<lparr>kpages := pg\<rparr>)"
    using l(1) by (simp add: dequeue_with_def)
  then show ?thesis using s1 l(2) push_page_Some [OF pg] by (simp add: store_get store_ok)
qed

text \<open>
  \<open>p = dequeue(q); while (is_delete_process(p)) p = dequeue(q)\<close>: the killed processes at the
  front are skipped, the first other one is the result, NULL if there is none.
\<close>

lemma dequeue_live_dead:
  assumes "ok s" "allocator_ready s" "length dead \<le> current_index (kpages s)" "length dead < n"
    and "q_page (fst r s) \<noteq> NULL" "queue_holds (q_links (fst r s)) (dead @ xs)"
    and "\<forall>x \<in> snd ` set dead. x \<noteq> NULL \<and> (\<exists>d. procs s x = Some d \<and> is_delete_process d)"
  shows "\<exists>s' n'. dequeue_live_with sp r n s = dequeue_live_with sp r n' s' \<and> n = length dead + n' \<and>
    ok s' \<and> allocator_ready s' \<and> same_tables s s' \<and>
    current_index (kpages s) = length dead + current_index (kpages s') \<and>
    q_page (fst r s') = q_page (fst r s) \<and> queue_holds (q_links (fst r s')) xs"
  using assms
proof (induction dead arbitrary: s n)
  case (Cons ax dead)
  obtain a x where ax: "ax = (a, x)" by force
  obtain m where m: "n = Suc m" using Cons.prems(4) by (cases n) auto
  obtain s1 where s1: "dequeue_with sp r s = Ret x s1" "ok s1" "allocator_ready s1" "same_tables s s1"
      "current_index (kpages s) = Suc (current_index (kpages s1))"
      "q_page (fst r s1) = q_page (fst r s)" "queue_holds (q_links (fst r s1)) (dead @ xs)"
    using dequeue_run [of s a x "dead @ xs"] Cons.prems ax by auto
  obtain d where d: "x \<noteq> NULL" "procs s1 x = Some d" "is_delete_process d"
    using Cons.prems(7) ax s1(4) by (auto simp: same_defs)
  have step: "dequeue_live_with sp r n s = dequeue_live_with sp r m s1"
    using s1(1) d by (simp add: m)
  have pages: "length dead \<le> current_index (kpages s1)" "length dead < m"
    using Cons.prems(3,4) s1(5) m by auto
  have dead: "\<forall>y \<in> snd ` set dead. y \<noteq> NULL \<and> (\<exists>d. procs s1 y = Some d \<and> is_delete_process d)"
    using Cons.prems(7) s1(4) by (auto simp: same_defs)
  have "q_page (fst r s1) \<noteq> NULL" using s1(6) Cons.prems(5) by simp
  then obtain s' n' where "dequeue_live_with sp r m s1 = dequeue_live_with sp r n' s'" "m = length dead + n'"
      "ok s'" "allocator_ready s'" "same_tables s1 s'"
      "current_index (kpages s1) = length dead + current_index (kpages s')"
      "q_page (fst r s') = q_page (fst r s1)" "queue_holds (q_links (fst r s')) xs"
    using Cons.IH [OF s1(2,3) pages _ s1(7) dead] by blast
  with step s1 m same_tables_trans [OF s1(4)] show ?case by auto
qed auto

lemma dequeue_live_run:
  assumes "ok s" "allocator_ready s" "length xs \<le> current_index (kpages s)" "length xs < n"
    and "q_page (fst r s) \<noteq> NULL" "queue_holds (q_links (fst r s)) xs"
    and "\<forall>x \<in> snd ` set xs. x \<noteq> NULL \<and> (\<exists>d. procs s x = Some d)"
  defines "rest \<equiv> dropWhile (\<lambda>(a, x). is_delete_process (the (procs s x))) xs"
  shows "\<exists>s'. dequeue_live_with sp r n s = Ret (if rest = [] then NULL else snd (hd rest)) s' \<and>
    ok s' \<and> allocator_ready s' \<and> same_tables s s' \<and>
    q_page (fst r s') = q_page (fst r s) \<and> queue_holds (q_links (fst r s')) (tl rest)"
proof -
  let ?dead = "takeWhile (\<lambda>(a, x). is_delete_process (the (procs s x))) xs"
  have xs: "xs = ?dead @ rest" by (simp add: rest_def)
  have len: "length ?dead + length rest = length xs" by (metis length_append xs)
  have dead: "\<forall>x \<in> snd ` set ?dead. x \<noteq> NULL \<and> (\<exists>d. procs s x = Some d \<and> is_delete_process d)"
    using assms(7) by (fastforce dest: set_takeWhileD)
  have pages: "length ?dead \<le> current_index (kpages s)" "length ?dead < n"
    using assms(3,4) len by auto
  have holds: "queue_holds (q_links (fst r s)) (?dead @ rest)" using assms(6) xs by simp
  obtain s1 m where s1: "dequeue_live_with sp r n s = dequeue_live_with sp r m s1" "n = length ?dead + m"
      "ok s1" "allocator_ready s1" "same_tables s s1"
      "current_index (kpages s) = length ?dead + current_index (kpages s1)"
      "q_page (fst r s1) = q_page (fst r s)" "queue_holds (q_links (fst r s1)) rest"
    using dequeue_live_dead [OF assms(1,2) pages assms(5) holds dead] by blast
  have m: "0 < m" using s1(2) assms(4) len by simp
  show ?thesis
  proof (cases rest)
    case Nil
    then have "kq_is_empty (fst r s1)" using s1(8) lq.empty_test by (auto simp: kq_is_empty_def)
    then show ?thesis using s1 m Nil by auto
  next
    case (Cons ax ys)
    obtain a x where ax: "ax = (a, x)" by force
    have alive: "\<not> is_delete_process (the (procs s x))"
      using Cons ax unfolding rest_def by (metis (mono_tags, lifting) case_prod_conv dropWhile_eq_Cons_conv)
    have "(a, x) \<in> set xs" using Cons ax by (metis in_set_conv_decomp xs)
    then obtain d where d: "x \<noteq> NULL" "procs s x = Some d" using assms(7) by force
    obtain s2 where s2: "dequeue_with sp r s1 = Ret x s2" "ok s2" "allocator_ready s2" "same_tables s1 s2"
        "q_page (fst r s2) = q_page (fst r s1)" "queue_holds (q_links (fst r s2)) ys"
      using dequeue_run [OF s1(3,4), of a x ys] s1 assms(3,5) len Cons ax by auto
    obtain m' where m': "m = Suc m'" using m by (cases m) auto
    have "procs s2 x = Some d" using d s1(5) s2(4) by (simp add: same_defs)
    then have "dequeue_live_with sp r m s1 = Ret x s2" using s2(1) d alive m' by simp
    then show ?thesis using s1 s2 same_tables_trans [OF s1(5) s2(4)] Cons ax by auto
  qed
qed

lemma settle_ok: "ok (settle s) = ok s"
proof -
  have "(settle s)\<lparr>kpages := kpages s\<rparr> = settle s" by (simp add: settle_def)
  with store_ok [of "kpages s" s] show ?thesis by simp
qed

text \<open>Whatever the queue holds, a dequeue that returns leaves the kernel ready.\<close>

lemma dequeue_outcome:
  assumes "ok s" "allocator_ready s" "dequeue_with sp r s = Ret x s'"
  shows "ok s' \<and> allocator_ready s' \<and> same_tables s s'"
proof (cases "kq_is_empty (fst r s)")
  case False
  then obtain a l where d: "dequeue (q_links (fst r s)) = Some (x, a, l)"
      and s': "bind_run (sp a (snd r ((fst r s)\<lparr>q_links := l\<rparr>) s)) (\<lambda>_. kreturn x) = Ret x s'"
    using assms(3) by (auto simp: dequeue_with_def bind_run_assoc split: option.splits prod.splits
        elim!: bind_run_RetE)
  let ?s1 = "snd r ((fst r s)\<lparr>q_links := l\<rparr>) s"
  have "ok ?s1" "allocator_ready ?s1" "same_tables s ?s1"
    using assms(1,2) put_ok put_ready put_tables by auto
  then show ?thesis
    using s' sp [of ?s1 a] store_ok settle_ok by (auto split: option.splits)
qed (use assms in auto)

lemma dequeue_live_outcome:
  "ok s \<Longrightarrow> allocator_ready s \<Longrightarrow> dequeue_live_with sp r n s = Ret x s' \<Longrightarrow>
   ok s' \<and> allocator_ready s' \<and> same_tables s s'"
proof (induction n arbitrary: s)
  case (Suc n)
  obtain y s1 where s1: "dequeue_with sp r s = Ret y s1"
    using Suc.prems(3) by (cases "dequeue_with sp r s") auto
  note o1 = dequeue_outcome [OF Suc.prems(1,2) s1]
  show ?case
  proof (cases "y \<noteq> NULL \<and> (\<exists>d. procs s1 y = Some d \<and> is_delete_process d)")
    case True
    then show ?thesis using Suc.IH [of s1] Suc.prems(3) s1 o1 same_tables_trans by fastforce
  next
    case False
    then show ?thesis using Suc.prems(3) s1 o1 by (auto split: if_splits option.splits)
  qed
qed simp

text \<open>
  The loops that empty a queue and wake who is in it. \<open>w\<close> says which process an element
  stands for, \<open>h\<close> what is done to it.
\<close>

lemma drain_run:
  assumes "ok s" "allocator_ready s" "length xs \<le> current_index (kpages s)" "length xs < n"
    and "q_page (fst r s) \<noteq> NULL" "queue_holds (q_links (fst r s)) xs"
    and "\<forall>x \<in> snd ` set xs. w x \<noteq> NULL \<and> procs s (w x) \<noteq> None"
    and "\<And>x s'. x \<in> snd ` set xs \<Longrightarrow> requests s' = requests s \<Longrightarrow> f x s' = update_proc_or_null (w x) h s'"
  shows "\<exists>s'. drain_with sp r f n s = Ret () s' \<and> ok s' \<and> allocator_ready s' \<and> same_sched s s' \<and>
    procs s' = wake h (map (w \<circ> snd) xs) (procs s) \<and> q_page (fst r s') = q_page (fst r s) \<and>
    queue_holds (q_links (fst r s')) []"
  using assms
proof (induction xs arbitrary: s n)
  case Nil
  obtain m where "n = Suc m" using Nil.prems(4) by (cases n) auto
  moreover have "kq_is_empty (fst r s)"
    using lq.empty_test [OF Nil.prems(6)] by (simp add: kq_is_empty_def)
  ultimately show ?case using Nil.prems by (intro exI [of _ s]) simp
next
  case (Cons ax xs)
  obtain a x where ax: "ax = (a, x)" by force
  obtain m where m: "n = Suc m" using Cons.prems(4) by (cases n) auto
  have ne: "\<not> kq_is_empty (fst r s)"
    using lq.empty_test [OF Cons.prems(6)] Cons.prems(5) by (simp add: kq_is_empty_def)
  obtain s1 where s1: "dequeue_with sp r s = Ret x s1" "ok s1" "allocator_ready s1" "same_tables s s1"
      "current_index (kpages s) = Suc (current_index (kpages s1))"
      "q_page (fst r s1) = q_page (fst r s)" "queue_holds (q_links (fst r s1)) xs"
    using dequeue_run [of s a x xs] Cons.prems ax by auto
  obtain d where d: "w x \<noteq> NULL" "procs s (w x) = Some d" using Cons.prems(7) ax by auto
  let ?s2 = "put_proc (w x) (h d) s1"
  have f: "f x s1 = Ret () ?s2"
    using Cons.prems(8) [of x s1] ax s1(4) d by (simp add: same_defs)
  have s2: "ok ?s2" "allocator_ready ?s2" "length xs \<le> current_index (kpages ?s2)" "length xs < m"
      "q_page (fst r ?s2) \<noteq> NULL" "queue_holds (q_links (fst r ?s2)) xs"
    using s1 Cons.prems(3-5) m by (auto simp: proc_get proc_ok)
  have w: "\<forall>x \<in> snd ` set xs. w x \<noteq> NULL \<and> procs ?s2 (w x) \<noteq> None"
    using Cons.prems(7) s1(4) by (auto simp: same_defs)
  have req: "requests ?s2 = requests s" using s1(4) by (simp add: same_defs put_proc_def)
  have step: "f y s' = update_proc_or_null (w y) h s'"
    if "y \<in> snd ` set xs" "requests s' = requests ?s2" for y s'
    using Cons.prems(8) [of y s'] that req by simp
  obtain s' where s': "drain_with sp r f m ?s2 = Ret () s'" "ok s'" "allocator_ready s'" "same_sched ?s2 s'"
      "procs s' = wake h (map (w \<circ> snd) xs) (procs ?s2)" "q_page (fst r s') = q_page (fst r ?s2)"
      "queue_holds (q_links (fst r s')) []"
    using Cons.IH [OF s2 w step] by blast
  have "drain_with sp r f n s = Ret () s'" using m ne s1(1) f s'(1) by simp
  moreover have "same_sched s s'"
    using same_sched_trans [OF _ s'(4), of s] s1(4) by (simp add: same_tables_def)
  moreover have "procs s' = wake h (map (w \<circ> snd) (ax # xs)) (procs s)"
    using s'(5) s1(4) d ax by (simp add: same_tables_def)
  moreover have "q_page (fst r s') = q_page (fst r s)" using s'(6) s1(6) by (simp add: proc_get)
  ultimately show ?case using s'(2,3,7) by blast
qed

end

section \<open>The queues of mutexes\<close>

text \<open>A mutex other than the allocator's.\<close>

definition client_mutex :: "nat \<Rightarrow> kstate \<Rightarrow> bool" where
  "client_mutex i s \<longleftrightarrow> i < length (open_mutexes s) \<and> int i \<noteq> memory_mutex_key s"

lemma client_mutex_simps [simp]:
  "client_mutex i (settle s) = client_mutex i s" "client_mutex i (take_page a pg s) = client_mutex i s"
  "client_mutex i (put_proc p d s) = client_mutex i s" "client_mutex i (s\<lparr>kpages := pg\<rparr>) = client_mutex i s"
  "client_mutex i (s\<lparr>superlock := v\<rparr>) = client_mutex i s" "client_mutex i (set_locked j w s) = client_mutex i s"
  by (simp_all add: client_mutex_def put_proc_def)

interpretation mutex_q: state_queue get_page store_page "mutex_queue i" "client_mutex i" for i
proof unfold_locales
  fix s q
  show "fst (mutex_queue i) (snd (mutex_queue i) q s) = q" if "client_mutex i s"
    using that by (simp add: mutex_queue_def client_mutex_def)
  show "allocator_ready (snd (mutex_queue i) q s) = allocator_ready s" if "client_mutex i s"
    using that by (auto simp: mutex_queue_def client_mutex_def allocator_ready_def mutex_is_open_def
        nth_list_update)
qed (auto simp: mutex_queue_def client_mutex_def same_defs take_page_def settle_def put_proc_def)

text \<open>An open mutex stays open while its queue is worked on.\<close>

interpretation open_q: state_queue get_page store_page "mutex_queue i"
  "\<lambda>s. client_mutex i s \<and> mutex_is_open (int i) s" for i
proof unfold_locales
  fix s q
  assume ok: "client_mutex i s \<and> mutex_is_open (int i) s"
  then show "fst (mutex_queue i) (snd (mutex_queue i) q s) = q"
    "allocator_ready (snd (mutex_queue i) q s) = allocator_ready s"
    using mutex_q.get_put mutex_q.put_ready by auto
  from ok show "client_mutex i (snd (mutex_queue i) q s) \<and> mutex_is_open (int i) (snd (mutex_queue i) q s)"
    by (auto simp: mutex_queue_def client_mutex_def mutex_is_open_def)
qed (use mutex_q.put_pages mutex_q.put_tables mutex_q.take_get mutex_q.store_get mutex_q.proc_get in auto)

end
