(* ===== verification/MutexContract.thy ===== *)
theory MutexContract
  imports KernelQueue
begin

text \<open>
  What a mutex promises, as an abstract object (held or not, and who waits, in order), and the
  proof that \<open>mutex_lock\<close> and \<open>mutex_unlock\<close> implement it; mutual exclusion for processes that
  use it.
\<close>

section \<open>The abstract mutex\<close>

record amutex =
  held :: bool
  waiting :: "addr list"

definition alock :: "addr \<Rightarrow> amutex \<Rightarrow> amutex" where
  "alock p a = (if held a then a\<lparr>waiting := waiting a @ [p]\<rparr> else a\<lparr>held := True\<rparr>)"

text \<open>An unlock passes the mutex to the first waiter that has not been killed.\<close>

definition aunlock :: "(addr \<Rightarrow> bool) \<Rightarrow> amutex \<Rightarrow> amutex" where
  "aunlock dead a =
     (let rest = dropWhile dead (waiting a) in \<lparr>held = (rest \<noteq> []), waiting = tl rest\<rparr>)"

definition mutex_abs :: "nat \<Rightarrow> kstate \<Rightarrow> amutex \<Rightarrow> bool" where
  "mutex_abs i s a \<longleftrightarrow>
     locked (open_mutexes s ! i) = (if held a then LOCKED else UNLOCKED) \<and>
     q_page (m_queue (open_mutexes s ! i)) \<noteq> NULL \<and>
     (\<exists>xs. queue_holds (q_links (m_queue (open_mutexes s ! i))) xs \<and> map snd xs = waiting a)"

text \<open>Process \<open>p\<close> is running and the scheduler's ring is intact around it.\<close>

definition runs_process :: "kstate \<Rightarrow> addr \<Rightarrow> bool" where
  "runs_process s p \<longleftrightarrow> p \<noteq> NULL \<and> procs s p \<noteq> None \<and>
     (\<exists>n. sched_nodes s (current s) = Some n \<and> node_p n = p \<and> sched_nodes s (node_next n) \<noteq> None)"

text \<open>The page \<open>a\<close> the allocator hands out next is not in use around a call on mutex \<open>i\<close>.\<close>

definition fresh_for :: "addr \<Rightarrow> addr \<Rightarrow> nat \<Rightarrow> kstate \<Rightarrow> bool" where
  "fresh_for a p i s \<longleftrightarrow> a \<noteq> NULL \<and> a \<noteq> p \<and> a \<noteq> current s \<and>
     (\<forall>n. sched_nodes s (current s) = Some n \<longrightarrow> a \<noteq> node_next n) \<and>
     a \<notin> dom (nodes_of (q_links (m_queue (open_mutexes s ! i))))"

definition is_dead :: "kstate \<Rightarrow> addr \<Rightarrow> bool" where
  "is_dead s p \<longleftrightarrow> is_delete_process (the (procs s p))"

lemma linked_dom: "linked h p xs \<Longrightarrow> fst ` set xs \<subseteq> dom h"
  by (induction xs arbitrary: p) auto

lemma queue_holds_dom: "queue_holds q xs \<Longrightarrow> fst ` set xs \<subseteq> dom (nodes_of q)"
  unfolding queue_holds_def using linked_dom by blast

lemma client_mutex_not_allocator:
  "client_mutex i s \<Longrightarrow> allocator_ready (set_locked i v s) = allocator_ready s"
  by (rule allocator_ready_set_locked) (simp add: client_mutex_def)

section \<open>The code implements it\<close>

lemma mutex_lock_free_run:
  assumes "client_mutex i s" "mutex_is_open (int i) s" "runs_process s p" "mutex_abs i s a" "\<not> held a"
  shows "\<exists>s'. mutex_lock (int i) s = Ret 1 s' \<and> mutex_abs i s' (alock p a) \<and> same_tables s s' \<and>
    superlock s' = UNLOCKED"
proof -
  let ?s' = "set_locked i LOCKED (s\<lparr>superlock := UNLOCKED\<rparr>)"
  have "mutex_lock (int i) s = Ret 1 ?s'"
    using lock_free [of "int i" s] assms by (auto simp: mutex_lock_def mutex_abs_def runs_process_def)
  moreover have "mutex_abs i ?s' (alock p a)"
    using assms by (auto simp: mutex_abs_def alock_def set_locked_def client_mutex_def)
  ultimately show ?thesis by auto
qed

lemma mutex_lock_held_run:
  assumes "client_mutex i s" "mutex_is_open (int i) s" "allocator_ready s" "runs_process s p"
    and "mutex_abs i s a" "held a" "pop_page (kpages s) = Some (pa, pg)" "fresh_for pa p i s"
  shows "\<exists>s'. mutex_lock (int i) s = Yld s' (kreturn 1) \<and> mutex_abs i s' (alock p a) \<and>
    procs s' p = Some (block_process (the (procs s p))) \<and> current s' = current s \<and> superlock s' = UNLOCKED"
proof -
  let ?s1 = "set_locked i 0 (s\<lparr>superlock := LOCKED\<rparr>)"
  let ?r = "mutex_queue i"
  obtain n n' d where run: "sched_nodes s (current s) = Some n" "node_p n = p" "p \<noteq> NULL"
      "sched_nodes s (node_next n) = Some n'" "procs s p = Some d"
    using assms(4) by (auto simp: runs_process_def)
  obtain xs where xs: "queue_holds (q_links (m_queue (open_mutexes s ! i))) xs" "map snd xs = waiting a"
      "q_page (m_queue (open_mutexes s ! i)) \<noteq> NULL" "locked (open_mutexes s ! i) = LOCKED"
    using assms(5,6) by (auto simp: mutex_abs_def)
  have fresh: "pa \<noteq> NULL" "pa \<noteq> p" "pa \<noteq> current s" "pa \<noteq> node_next n" "pa \<notin> fst ` set xs"
    using assms(8) queue_holds_dom [OF xs(1)] run(1) by (auto simp: fresh_for_def)
  have i: "i < length (open_mutexes s)" using assms(1) by (simp add: client_mutex_def)
  have q: "fst ?r ?s1 = m_queue (open_mutexes s ! i)" using i by (simp add: mutex_queue_def set_locked_def)
  have "allocator_ready ?s1" using assms(1,3) by (simp add: client_mutex_not_allocator)
  then obtain l where l: "enqueue_with get_page ?r p ?s1 =
        Ret () (snd ?r ((fst ?r ?s1)\<lparr>q_links := l\<rparr>) (take_page pa pg (settle ?s1)))"
      "queue_holds l (xs @ [(pa, p)])"
    using mutex_q.enqueue_run [of i ?s1 pa pg xs p] assms(1,7) xs fresh q by auto
  define s2 where "s2 = snd ?r ((fst ?r ?s1)\<lparr>q_links := l\<rparr>) (take_page pa pg (settle ?s1))"
  have busy: "unlocked_mutex i (s\<lparr>superlock := LOCKED\<rparr>) = Ret False ?s1"
    using xs(4) by (simp add: unlocked_mutex_def LOCKED_def)
  have l2: "enqueue_with get_page ?r p ?s1 = Ret () s2" using l(1) by (simp add: s2_def)
  have s2: "procs s2 p = Some d" "sched_nodes s2 (current s2) = Some n" "current s2 = current s"
      "sched_nodes s2 (node_next n) = Some n'"
      "open_mutexes s2 ! i = (open_mutexes s ! i)\<lparr>locked := 0, m_queue := (fst ?r ?s1)\<lparr>q_links := l\<rparr>\<rparr>"
    using run fresh i by (auto simp: s2_def mutex_queue_def set_locked_def)
  define s3 where "s3 = (put_proc p (block_process d) s2)\<lparr>superlock := UNLOCKED\<rparr>"
  have s3: "procs s3 p = Some (block_process d)" "sched_nodes s3 (current s3) = Some n" "current s3 = current s"
      "sched_nodes s3 (node_next n) = Some n'" "open_mutexes s3 ! i = open_mutexes s2 ! i"
      "superlock s3 = UNLOCKED"
    using s2 by (simp_all add: s3_def)
  have "mutex_lock (int i) s = bind_run (yield_process s3) (\<lambda>_. kreturn 1)"
    using assms(2) run busy l2 s2
    by (simp add: mutex_lock_def mutex_lock_with_def set_superlock_def unset_superlock_def
        s3_def)
  note locks = this
  define s4 where
    "s4 = s3\<lparr>sched_nodes := yield_nodes (current s3) (node_next n) (sched_nodes s3)\<rparr>"
  have "sched_nodes s3 (node_next n) \<noteq> None" using s3(4) by simp
  from yield_process_run [OF s3(2) this] have y: "yield_process s3 = Yld s4 (kreturn ())"
    unfolding s4_def .
  have s4: "procs s4 = procs s3" "current s4 = current s3" "open_mutexes s4 = open_mutexes s3"
      "superlock s4 = superlock s3"
    unfolding s4_def by simp_all
  have "mutex_lock (int i) s = Yld s4 (kreturn 1)"
    unfolding locks y by (simp add: fun_eq_iff)
  moreover have "mutex_abs i s4 (alock p a)"
    using s3(5) s4(3) s2(5) l(2) xs(2,3) assms(6) q
    by (auto simp: mutex_abs_def alock_def LOCKED_def)
  moreover have "procs s4 p = Some (block_process (the (procs s p)))" "current s4 = current s" "superlock s4 = UNLOCKED"
    using s3 s4 run(5) by simp_all
  ultimately show ?thesis by blast
qed

lemma mutex_unlock_run:
  assumes "client_mutex i s" "mutex_is_open (int i) s" "allocator_ready s" "mutex_abs i s a"
    and "\<forall>p \<in> set (waiting a). p \<noteq> NULL \<and> procs s p \<noteq> None"
    and "length (waiting a) \<le> current_index (kpages s)" "length (waiting a) < QUEUE_BOUND"
  defines "rest \<equiv> dropWhile (is_dead s) (waiting a)"
  shows "\<exists>s'. mutex_unlock (int i) s = Ret 1 s' \<and> mutex_abs i s' (aunlock (is_dead s) a) \<and> same_sched s s' \<and>
    procs s' = (if rest = [] then procs s
                else (procs s)(hd rest \<mapsto> unblock_process (the (procs s (hd rest))))) \<and>
    superlock s' = UNLOCKED"
proof -
  let ?r = "mutex_queue i"
  let ?s1 = "s\<lparr>superlock := LOCKED\<rparr>"
  obtain xs where xs: "queue_holds (q_links (m_queue (open_mutexes s ! i))) xs" "map snd xs = waiting a"
      "q_page (m_queue (open_mutexes s ! i)) \<noteq> NULL"
    using assms(4) by (auto simp: mutex_abs_def)
  have len: "length xs = length (waiting a)" by (metis length_map xs(2))
  have i: "i < length (open_mutexes s)" using assms(1) by (simp add: client_mutex_def)
  have q: "fst ?r ?s1 = m_queue (open_mutexes s ! i)" by (simp add: mutex_queue_def)
  let ?rest = "dropWhile (\<lambda>(b, x). is_delete_process (the (procs ?s1 x))) xs"
  have "?rest = dropWhile (is_dead s \<circ> snd) xs"
    by (rule dropWhile_cong) (auto simp: is_dead_def)
  then have rest: "map snd ?rest = rest"
    by (simp add: rest_def xs(2) [symmetric] dropWhile_map)
  have "\<forall>x \<in> snd ` set xs. x \<noteq> NULL \<and> (\<exists>d. procs ?s1 x = Some d)"
    using assms(5) xs(2) by (metis image_set kstate.select_convs(5) kstate.surjective kstate.update_convs(13) not_None_eq)
  then obtain s2 where s2: "dequeue_live_with store_page ?r QUEUE_BOUND ?s1 =
        Ret (if ?rest = [] then NULL else snd (hd ?rest)) s2"
      "client_mutex i s2" "same_tables ?s1 s2" "q_page (fst ?r s2) = q_page (fst ?r ?s1)"
      "queue_holds (q_links (fst ?r s2)) (tl ?rest)"
    using mutex_q.dequeue_live_run [of i ?s1 xs QUEUE_BOUND] assms(1,3,6,7) xs len q by auto
  have i2: "i < length (open_mutexes s2)" using s2(2) by (simp add: client_mutex_def)
  have p: "(if ?rest = [] then NULL else snd (hd ?rest)) = (if rest = [] then NULL else hd rest)"
    using rest by (cases ?rest) auto
  show ?thesis
  proof (cases "rest = []")
    case True
    have none: "?rest = []" using rest True by (metis map_is_Nil_conv)
    let ?s' = "(set_locked i UNLOCKED s2)\<lparr>superlock := UNLOCKED\<rparr>"
    have "mutex_unlock (int i) s = Ret 1 ?s'"
      using assms(2) s2(1) True unfolding p
      by (simp add: mutex_unlock_def mutex_unlock_with_def set_superlock_def unset_superlock_def)
    moreover have "mutex_abs i ?s' (aunlock (is_dead s) a)"
      using i2 s2(4) s2(5) [unfolded none] xs(3) q True
      by (auto simp: mutex_abs_def aunlock_def rest_def [symmetric] set_locked_def mutex_queue_def)
    ultimately show ?thesis using s2(3) True by (auto simp: same_defs)
  next
    case False
    let ?w = "hd rest"
    have "?w \<in> set (waiting a)"
      using False set_dropWhileD [of "hd rest" "is_dead s" "waiting a"] by (auto simp: rest_def)
    then obtain d where d: "?w \<noteq> NULL" "procs s ?w = Some d" using assms(5) by blast
    let ?s3 = "set_locked i UNLOCKED s2"
    let ?s' = "(set_locked i LOCKED (put_proc ?w (unblock_process d) ?s3))\<lparr>superlock := UNLOCKED\<rparr>"
    have "procs s2 ?w = Some d" using s2(3) d by (simp add: same_defs)
    then have "mutex_unlock (int i) s = Ret 1 ?s'"
      using assms(2) s2(1) False d unfolding p
      by (simp add: mutex_unlock_def mutex_unlock_with_def set_superlock_def unset_superlock_def)
    moreover have "map snd (tl ?rest) = tl rest" using rest by (metis map_tl)
    then have "mutex_abs i ?s' (aunlock (is_dead s) a)"
      using i2 s2(4,5) xs(3) q False
      by (auto simp: mutex_abs_def aunlock_def rest_def [symmetric] set_locked_def mutex_queue_def put_proc_def)
    ultimately show ?thesis using s2(3) False d by (auto simp: same_defs)
  qed
qed

section \<open>Every outcome of a lock and an unlock\<close>

definition kernel_ok :: "nat \<Rightarrow> kstate \<Rightarrow> bool" where
  "kernel_ok i s \<longleftrightarrow> allocator_ready s \<and> client_mutex i s \<and> mutex_is_open (int i) s \<and>
     sched_nodes s (current s) \<noteq> None \<and>
     (locked (open_mutexes s ! i) = LOCKED \<or> locked (open_mutexes s ! i) = UNLOCKED)"

lemma kernel_okD:
  assumes "kernel_ok i s"
  shows "allocator_ready s" "client_mutex i s" "mutex_is_open (int i) s"
    "sched_nodes s (current s) \<noteq> None" "i < length (open_mutexes s)"
  using assms by (auto simp: kernel_ok_def client_mutex_def)

lemma set_locked_ok:
  assumes "client_mutex i s" "allocator_ready s" "mutex_is_open (int i) s" "sched_nodes s (current s) \<noteq> None"
    and "v = LOCKED \<or> v = UNLOCKED"
  shows "kernel_ok i (set_locked i v s)" "locked (open_mutexes (set_locked i v s) ! i) = v"
  using assms by (auto simp: kernel_ok_def client_mutex_not_allocator)
     (auto simp: set_locked_def client_mutex_def)

lemma kernel_ok_simps [simp]:
  "kernel_ok i (s\<lparr>superlock := v\<rparr>) = kernel_ok i s" "kernel_ok i (put_proc p d s) = kernel_ok i s"
  by (simp_all add: kernel_ok_def)

lemma enqueue_outcome:
  assumes "client_mutex i s" "allocator_ready s" "mutex_is_open (int i) s"
  shows "(\<exists>e. enqueue_with get_page (mutex_queue i) p s = Fault e) \<or>
    (\<exists>s'. enqueue_with get_page (mutex_queue i) p s = Ret () s' \<and> client_mutex i s' \<and>
       mutex_is_open (int i) s' \<and> locked (open_mutexes s' ! i) = locked (open_mutexes s ! i) \<and>
       (sched_nodes s' (current s') \<noteq> None \<longrightarrow> allocator_ready s'))"
proof (cases "q_page (fst (mutex_queue i) s) = NULL")
  case True
  then show ?thesis using assms by (simp add: enqueue_with_def)
next
  case False
  have i: "i < length (open_mutexes s)" using assms(1) by (simp add: client_mutex_def)
  show ?thesis
  proof (cases "get_page NODE_SIZE s")
    case (Ret a s1)
    have s1: "open_mutexes s1 = open_mutexes s" "memory_mutex_key s1 = memory_mutex_key s"
        "sched_nodes s1 (current s1) \<noteq> None \<longrightarrow> allocator_ready s1"
      using Ret assms(2) get_page_cases [OF assms(2), of NODE_SIZE]
      by (auto split: option.splits if_splits prod.splits simp: allocator_ready_def mutex_is_open_def)
    have c1: "client_mutex i s1" "mutex_is_open (int i) s1"
      using assms(1,3) s1 by (simp_all add: client_mutex_def mutex_is_open_def)
    show ?thesis
    proof (cases "enqueue a p (q_links (fst (mutex_queue i) s1))")
      case (Some l)
      let ?s2 = "snd (mutex_queue i) ((fst (mutex_queue i) s1)\<lparr>q_links := l\<rparr>) s1"
      have "enqueue_with get_page (mutex_queue i) p s = Ret () ?s2"
        using False Ret Some by (simp add: enqueue_with_def)
      moreover have "client_mutex i ?s2" "allocator_ready ?s2 = allocator_ready s1"
          "sched_nodes ?s2 (current ?s2) = sched_nodes s1 (current s1)"
        using c1 mutex_q.put_ok mutex_q.put_ready mutex_q.put_tables [of s1 i] by (auto simp: same_defs)
      moreover have "mutex_is_open (int i) ?s2" "locked (open_mutexes ?s2 ! i) = locked (open_mutexes s ! i)"
        using c1(2) i s1(1) by (auto simp: mutex_queue_def mutex_is_open_def)
      ultimately show ?thesis using s1(3) by auto
    qed (use False Ret in \<open>simp add: enqueue_with_def\<close>)
  next
    case (Fault e)
    then show ?thesis using False by (simp add: enqueue_with_def)
  qed (use get_page_cases [OF assms(2), of NODE_SIZE] in \<open>auto split: option.splits if_splits\<close>)
qed

lemma mutex_lock_outcome:
  assumes "kernel_ok i s"
  shows "locked (open_mutexes s ! i) = UNLOCKED \<Longrightarrow>
      \<exists>s'. mutex_lock (int i) s = Ret 1 s' \<and> kernel_ok i s' \<and> locked (open_mutexes s' ! i) = LOCKED"
    and "locked (open_mutexes s ! i) = LOCKED \<Longrightarrow> (\<exists>e. mutex_lock (int i) s = Fault e) \<or>
      (\<exists>s'. mutex_lock (int i) s = Yld s' (kreturn 1) \<and> kernel_ok i s' \<and> locked (open_mutexes s' ! i) = LOCKED)"
proof -
  note ok = kernel_okD [OF assms]
  {
    assume "locked (open_mutexes s ! i) = UNLOCKED"
    then have "mutex_lock (int i) s = Ret 1 (set_locked i LOCKED (s\<lparr>superlock := UNLOCKED\<rparr>))"
      using lock_free [of "int i" s] ok by (simp add: mutex_lock_def)
    moreover note set_locked_ok [of i "s\<lparr>superlock := UNLOCKED\<rparr>" LOCKED]
    ultimately show "\<exists>s'. mutex_lock (int i) s = Ret 1 s' \<and> kernel_ok i s' \<and>
        locked (open_mutexes s' ! i) = LOCKED"
      using ok by auto
  next
    assume busy: "locked (open_mutexes s ! i) = LOCKED"
    obtain n where n: "sched_nodes s (current s) = Some n" using ok(4) by blast
    let ?s1 = "set_locked i 0 (s\<lparr>superlock := LOCKED\<rparr>)"
    have test: "unlocked_mutex i (s\<lparr>superlock := LOCKED\<rparr>) = Ret False ?s1"
      using busy by (simp add: unlocked_mutex_def LOCKED_def)
    have s1: "client_mutex i ?s1" "allocator_ready ?s1" "mutex_is_open (int i) ?s1"
        "locked (open_mutexes ?s1 ! i) = LOCKED"
      using ok client_mutex_not_allocator set_locked_ok(2) [of i "s\<lparr>superlock := LOCKED\<rparr>" 0]
      by (auto simp: LOCKED_def)
    from enqueue_outcome [OF s1(1-3), of "node_p n"]
    show "(\<exists>e. mutex_lock (int i) s = Fault e) \<or>
      (\<exists>s'. mutex_lock (int i) s = Yld s' (kreturn 1) \<and> kernel_ok i s' \<and> locked (open_mutexes s' ! i) = LOCKED)"
    proof
      assume "\<exists>e. enqueue_with get_page (mutex_queue i) (node_p n) ?s1 = Fault e"
      then show ?thesis
        using ok(3) n test by (auto simp: mutex_lock_def mutex_lock_with_def set_superlock_def)
    next
      assume "\<exists>s2. enqueue_with get_page (mutex_queue i) (node_p n) ?s1 = Ret () s2 \<and> client_mutex i s2 \<and>
        mutex_is_open (int i) s2 \<and> locked (open_mutexes s2 ! i) = locked (open_mutexes ?s1 ! i) \<and>
        (sched_nodes s2 (current s2) \<noteq> None \<longrightarrow> allocator_ready s2)"
      then obtain s2 where s2: "enqueue_with get_page (mutex_queue i) (node_p n) ?s1 = Ret () s2"
          "client_mutex i s2" "mutex_is_open (int i) s2" "locked (open_mutexes s2 ! i) = LOCKED"
          "sched_nodes s2 (current s2) \<noteq> None \<longrightarrow> allocator_ready s2"
        using s1(4) by metis
      have lock: "mutex_lock (int i) s =
          bind_run (update_proc_or_null (node_p n) block_process s2)
            (\<lambda>_ s3. bind_run (yield_process (s3\<lparr>superlock := UNLOCKED\<rparr>)) (\<lambda>_. kreturn 1))"
        using ok(3) n test s2(1)
        by (simp add: mutex_lock_def mutex_lock_with_def set_superlock_def unset_superlock_def
            kthen_def kbind_def kmodify_def fun_eq_iff)
      show ?thesis
      proof (cases "update_proc_or_null (node_p n) block_process s2")
        case (Ret u s3)
        then have s3: "client_mutex i s3" "mutex_is_open (int i) s3" "locked (open_mutexes s3 ! i) = LOCKED"
            "sched_nodes s3 (current s3) \<noteq> None \<longrightarrow> allocator_ready s3"
          using s2 by (auto split: if_splits option.splits)
        let ?s3 = "s3\<lparr>superlock := UNLOCKED\<rparr>"
        show ?thesis
        proof (cases "\<exists>m. sched_nodes ?s3 (current ?s3) = Some m \<and> sched_nodes ?s3 (node_next m) \<noteq> None")
          case True
          then obtain m where m: "sched_nodes ?s3 (current ?s3) = Some m" "sched_nodes ?s3 (node_next m) \<noteq> None"
            by blast
          let ?s4 = "?s3\<lparr>sched_nodes := yield_nodes (current ?s3) (node_next m) (sched_nodes ?s3)\<rparr>"
          have "mutex_lock (int i) s = Yld ?s4 (kreturn 1)"
            unfolding lock Ret by (simp add: yield_process_run [OF m] fun_eq_iff)
          moreover have "kernel_ok i ?s4"
            using s3 m(1)
            by (auto simp: kernel_ok_def client_mutex_def allocator_ready_def mutex_is_open_def
                yield_nodes_def Let_def)
          ultimately show ?thesis using s3(3) by auto
        next
          case False
          then have "\<exists>e. yield_process ?s3 = Fault e"
            by (auto simp: yield_process_def split: option.split)
          then show ?thesis unfolding lock Ret by auto
        qed
      qed (auto simp: lock split: if_splits option.splits)
    qed
  }
qed

lemma mutex_unlock_outcome:
  assumes "kernel_ok i s" "mutex_unlock (int i) s = Ret r s'"
    and "dequeue_live_with store_page (mutex_queue i) QUEUE_BOUND (s\<lparr>superlock := LOCKED\<rparr>) = Ret w s2"
  shows "kernel_ok i s' \<and> locked (open_mutexes s' ! i) = (if w = NULL then UNLOCKED else LOCKED)"
proof -
  note ok = kernel_okD [OF assms(1)]
  have "(client_mutex i s2 \<and> mutex_is_open (int i) s2) \<and> allocator_ready s2 \<and>
      same_tables (s\<lparr>superlock := LOCKED\<rparr>) s2"
    using open_q.dequeue_live_outcome [OF _ _ assms(3)] ok by simp
  then have c2: "client_mutex i s2" "allocator_ready s2" "mutex_is_open (int i) s2"
      "sched_nodes s2 (current s2) \<noteq> None"
    using ok(4) by (auto simp: same_defs)
  note s3 = set_locked_ok [OF c2, of UNLOCKED]
  note k3 = kernel_okD [OF s3(1)]
  have unlock: "mutex_unlock (int i) s =
      bind_run (kwhen (w \<noteq> NULL) (kthen (update_proc_or_null w unblock_process) (kmodify (set_locked i LOCKED)))
        (set_locked i UNLOCKED s2)) (\<lambda>_ s4. Ret 1 (s4\<lparr>superlock := UNLOCKED\<rparr>))"
    using assms(3) ok(3)
    by (simp add: mutex_unlock_def mutex_unlock_with_def set_superlock_def unset_superlock_def
        kthen_def kbind_def kmodify_def fun_eq_iff)
  show ?thesis
  proof (cases "w = NULL")
    case True
    then show ?thesis using assms(2) unlock s3 by auto
  next
    case False
    then obtain d where "procs s2 w = Some d"
      using assms(2) unlock by (auto split: option.splits)
    then have s': "s' = (set_locked i LOCKED (put_proc w (unblock_process d) (set_locked i UNLOCKED s2)))
        \<lparr>superlock := UNLOCKED\<rparr>"
      using False assms(2) unlock by simp
    have "kernel_ok i (put_proc w (unblock_process d) (set_locked i UNLOCKED s2))" using s3(1) by simp
    note k4 = kernel_okD [OF this]
    show ?thesis using set_locked_ok [OF k4(2,1,3,4), of LOCKED] False by (simp add: s')
  qed
qed

section \<open>Mutual exclusion\<close>

text \<open>
  What can happen to mutex \<open>i\<close>: the running process calls \<open>mutex_lock\<close> and either gets the
  mutex at once or is queued; the owner calls \<open>mutex_unlock\<close> and the mutex passes to the
  process the call dequeues, if there is one; anything else the kernel does that leaves this
  mutex's flag alone, scheduling included. The second component is the owner, which the code
  does not record.
\<close>

datatype mutex_event = Granted addr | Queued addr | Released addr | Elsewhere

inductive mutex_step :: "nat \<Rightarrow> kstate \<times> addr option \<Rightarrow> mutex_event \<Rightarrow> kstate \<times> addr option \<Rightarrow> bool" where
  granted: "runs_process s p \<Longrightarrow> mutex_lock (int i) s = Ret r s' \<Longrightarrow>
    mutex_step i (s, owner) (Granted p) (s', Some p)"
| queued: "runs_process s p \<Longrightarrow> mutex_lock (int i) s = Yld s' k \<Longrightarrow>
    mutex_step i (s, owner) (Queued p) (s', owner)"
| released: "runs_process s p \<Longrightarrow>
    dequeue_live_with store_page (mutex_queue i) QUEUE_BOUND (s\<lparr>superlock := LOCKED\<rparr>) = Ret w s2 \<Longrightarrow>
    mutex_unlock (int i) s = Ret r s' \<Longrightarrow>
    mutex_step i (s, Some p) (Released p) (s', if w = NULL then None else Some w)"
| elsewhere: "kernel_ok i s' \<Longrightarrow> locked (open_mutexes s' ! i) = locked (open_mutexes s ! i) \<Longrightarrow>
    mutex_step i (s, owner) Elsewhere (s', owner)"

inductive_cases mutex_step_grantedE: "mutex_step i c (Granted p) c'"

inductive mutex_reach :: "nat \<Rightarrow> kstate \<times> addr option \<Rightarrow> kstate \<times> addr option \<Rightarrow> bool" for i c0 where
  start: "mutex_reach i c0 c0"
| step: "mutex_reach i c0 c \<Longrightarrow> mutex_step i c e c' \<Longrightarrow> mutex_reach i c0 c'"

definition owner_agrees :: "nat \<Rightarrow> kstate \<times> addr option \<Rightarrow> bool" where
  "owner_agrees i c \<longleftrightarrow> kernel_ok i (fst c) \<and>
     (locked (open_mutexes (fst c) ! i) = (if snd c = None then UNLOCKED else LOCKED))"

lemma locked_cases: "kernel_ok i s \<Longrightarrow> locked (open_mutexes s ! i) = LOCKED \<or> locked (open_mutexes s ! i) = UNLOCKED"
  by (simp add: kernel_ok_def)

lemma owner_agrees_step: "mutex_step i c e c' \<Longrightarrow> owner_agrees i c \<Longrightarrow> owner_agrees i c'"
proof (induction rule: mutex_step.induct)
  case (granted s p i r s' owner)
  then show ?case
    using mutex_lock_outcome [of i s] locked_cases [of i s] by (fastforce simp: owner_agrees_def)
next
  case (queued s p i s' k owner)
  then have ok: "kernel_ok i s" by (simp add: owner_agrees_def)
  have "locked (open_mutexes s ! i) = LOCKED"
    using locked_cases [OF ok] mutex_lock_outcome(1) [OF ok] queued.hyps(2) by auto
  then show ?case
    using mutex_lock_outcome(2) [OF ok] queued by (auto simp: owner_agrees_def)
next
  case (released s p i w s2 r s')
  then show ?case using mutex_unlock_outcome [of i s r s' w s2] by (auto simp: owner_agrees_def)
qed (auto simp: owner_agrees_def)

lemma owner_agrees_reach: "mutex_reach i c0 c \<Longrightarrow> owner_agrees i c0 \<Longrightarrow> owner_agrees i c"
  by (induction rule: mutex_reach.induct) (auto intro: owner_agrees_step)

section \<open>Properties\<close>

text \<open>
  C1. Mutual exclusion: starting from a free mutex, after any sequence of locks, unlocks by
  the owner and other kernel activity, a process that is given the mutex is given it when
  nobody owns it, and the flag in the kernel says exactly whether somebody does.
\<close>

theorem mutual_exclusion:
  assumes "kernel_ok i s0" "locked (open_mutexes s0 ! i) = UNLOCKED"
    and "mutex_reach i (s0, None) (s, owner)"
  shows "(locked (open_mutexes s ! i) = LOCKED \<longleftrightarrow> owner \<noteq> None) \<and>
    (\<forall>p c. mutex_step i (s, owner) (Granted p) c \<longrightarrow> owner = None)"
proof -
  have inv: "owner_agrees i (s, owner)"
    using owner_agrees_reach [OF assms(3)] assms(1,2) by (simp add: owner_agrees_def)
  then have ok: "kernel_ok i s" and l: "locked (open_mutexes s ! i) = (if owner = None then UNLOCKED else LOCKED)"
    by (auto simp: owner_agrees_def)
  have "owner = None" if "mutex_step i (s, owner) (Granted p) c" for p c
    using that mutex_lock_outcome(2) [OF ok] l by (auto elim!: mutex_step_grantedE split: if_splits)
  then show ?thesis using l by (auto simp: LOCKED_def UNLOCKED_def)
qed

text \<open>
  C2. \<open>mutex_lock\<close> implements the abstract lock: a free mutex is taken at once and nothing else
  changes; a held one puts the caller last in its queue, blocks it and yields, and the call
  returns 1 when the process is scheduled again.
\<close>

theorem mutex_lock_refines:
  assumes "client_mutex i s" "mutex_is_open (int i) s" "allocator_ready s" "runs_process s p"
    and "mutex_abs i s a" "pop_page (kpages s) = Some (pa, pg)" "fresh_for pa p i s"
  shows "\<exists>s'. mutex_abs i s' (alock p a) \<and> superlock s' = UNLOCKED \<and>
    (if held a
     then mutex_lock (int i) s = Yld s' (kreturn 1) \<and> procs s' p = Some (block_process (the (procs s p)))
     else mutex_lock (int i) s = Ret 1 s' \<and> same_tables s s')"
  using mutex_lock_held_run [OF assms(1-5) _ assms(6,7)] mutex_lock_free_run [OF assms(1,2,4,5)]
  by (cases "held a") auto

text \<open>
  C3. \<open>mutex_unlock\<close> implements the abstract unlock: killed waiters are dropped, the first
  other one is made ready and the mutex stays locked on its behalf (nobody can overtake it);
  with no such waiter the mutex becomes free. No other process changes.
\<close>

theorem mutex_unlock_refines:
  assumes "client_mutex i s" "mutex_is_open (int i) s" "allocator_ready s" "mutex_abs i s a"
    and "\<forall>p \<in> set (waiting a). p \<noteq> NULL \<and> procs s p \<noteq> None"
    and "length (waiting a) \<le> current_index (kpages s)" "length (waiting a) < QUEUE_BOUND"
  shows "\<exists>s'. mutex_unlock (int i) s = Ret 1 s' \<and> mutex_abs i s' (aunlock (is_dead s) a) \<and>
    (let rest = dropWhile (is_dead s) (waiting a)
     in procs s' = (if rest = [] then procs s
                    else (procs s)(hd rest \<mapsto> unblock_process (the (procs s (hd rest))))))"
  using mutex_unlock_run [OF assms] unfolding Let_def by blast

text \<open>
  When no page is left, \<open>get_page\<close> does not return 0 as it means to: it locks the
  allocator's mutex a second time, which queues the caller, which needs a page, which locks
  the mutex again, without end at any depth of the stack.
\<close>

theorem page_exhaustion_overflows:
  assumes "allocator_ready s" "mutex_is_open (memory_mutex_key s) s" "pop_page (kpages s) = None"
  shows "get_page_n depth sz s = Fault Stack_overflow"
  using get_page_exhausted [OF assms] .

section \<open>Instances\<close>

text \<open>
  A small running system: process \<open>0x501000\<close> runs, process \<open>0x502000\<close> comes next, mutex 0
  protects the allocator, mutex 1 is free or held with both processes waiting.
\<close>

definition demo_process :: "nat \<Rightarrow> status \<Rightarrow> process" where
  "demo_process k state =
     \<lparr>st = state, name = replicate 64 0, entry_point = CODE_ADDRESS, rsp = 0, stack_page = 0x701000 + k,
      n_data_page = 0, data_page = replicate 64 0, pid = k, ppid = 0, open_fds = 0\<rparr>"

definition demo_mutex :: "int \<Rightarrow> queue \<Rightarrow> mutex" where
  "demo_mutex flag q =
     \<lparr>m_name = replicate 64 0, locked = flag, m_state = OPEN, m_queue = \<lparr>q_page = 0x507000, q_links = q\<rparr>\<rparr>"

definition demo_queue :: queue where
  "demo_queue =
     \<lparr>nodes_of = [0x505000 \<mapsto> \<lparr>elem = 0x501000, qnext = 0x506000\<rparr>, 0x506000 \<mapsto> \<lparr>elem = 0x502000, qnext = NULL\<rparr>],
      first = 0x505000, last = 0x506000\<rparr>"

definition demo_state :: "nat \<Rightarrow> mutex \<Rightarrow> kstate" where
  "demo_state used m =
     (static_kstate (\<lambda>_. 0) (static_video 0 (\<lambda>_. 0)))
       \<lparr>kpages := \<lparr>pages_stack = map Suc [0..<255], current_index = used\<rparr>, memory_mutex_key := 0,
        procs := [0x501000 \<mapsto> demo_process 2 DELETE, 0x502000 \<mapsto> demo_process 3 BLOCKED],
        sched_nodes := [0x503000 \<mapsto> \<lparr>quantum = 1, node_p = 0x501000, node_next = 0x504000\<rparr>,
                        0x504000 \<mapsto> \<lparr>quantum = 1, node_p = 0x502000, node_next = 0x503000\<rparr>],
        current := 0x503000, prev := 0x504000,
        open_mutexes := (replicate 128 zero_mutex)[0 := demo_mutex UNLOCKED create_queue, 1 := m]\<rparr>"

lemmas demo_defs = demo_state_def demo_mutex_def static_kstate_def ipc_defs

lemma demo_queue_holds: "queue_holds demo_queue [(0x505000, 0x501000), (0x506000, 0x502000)]"
  by (simp add: queue_holds_def demo_queue_def)

lemma empty_queue_holds: "queue_holds create_queue []"
  by (rule queue_holds_empty)

lemma demo_ready: "allocator_ready (demo_state used m)"
  by (simp add: allocator_ready_def demo_defs mutex_is_open_def kq_is_empty_def is_empty_def create_queue_def
      QueueADT.create_queue_def)

lemma demo_client: "client_mutex 1 (demo_state used m)"
  by (simp add: client_mutex_def demo_state_def)

lemma demo_open: "m_state m = OPEN \<Longrightarrow> mutex_is_open 1 (demo_state used m)"
  by (simp add: mutex_is_open_def demo_state_def MAX_MUTEXES_def)

lemma demo_runs: "runs_process (demo_state used m) 0x501000"
  by (simp add: runs_process_def demo_state_def)

lemma demo_mutex_is [simp]:
  "open_mutexes (demo_state used m) ! 1 = m" "open_mutexes (demo_state used m) ! Suc 0 = m"
  by (simp_all add: demo_state_def)

lemma demo_kernel_ok:
  assumes "m_state m = OPEN" "locked m = LOCKED \<or> locked m = UNLOCKED"
  shows "kernel_ok 1 (demo_state used m)"
  unfolding kernel_ok_def demo_mutex_is
  using demo_ready demo_client demo_open [OF assms(1)] assms(2)
  by (simp add: demo_state_def del: One_nat_def)

theorem mutual_exclusion_witness:
  "\<exists>s owner. mutex_reach 1 (demo_state 9 (demo_mutex UNLOCKED create_queue), None) (s, owner) \<and>
     owner = Some 0x501000 \<and> locked (open_mutexes s ! 1) = LOCKED \<and>
     \<not> (\<exists>p c. mutex_step 1 (s, owner) (Granted p) c)"
proof -
  let ?s = "demo_state 9 (demo_mutex UNLOCKED create_queue)"
  have ok: "kernel_ok 1 ?s" by (rule demo_kernel_ok) (simp_all add: demo_mutex_def)
  have free: "locked (open_mutexes ?s ! 1) = UNLOCKED" by (simp add: demo_mutex_def)
  obtain s' where "mutex_lock (int 1) ?s = Ret 1 s'" using mutex_lock_outcome(1) [OF ok free] by blast
  then have "mutex_reach 1 (?s, None) (s', Some 0x501000)"
    by (meson mutex_reach.start mutex_reach.step mutex_step.granted demo_runs)
  with mutual_exclusion [OF ok free this] show ?thesis by blast
qed

theorem mutex_lock_refines_witness:
  "\<exists>s'. mutex_lock (int 1) (demo_state 9 (demo_mutex LOCKED create_queue)) = Yld s' (kreturn 1) \<and>
     mutex_abs 1 s' \<lparr>held = True, waiting = [0x501000]\<rparr>"
proof -
  let ?s = "demo_state 9 (demo_mutex LOCKED create_queue)"
  have pop: "pop_page (kpages ?s) = Some (page_address 10, \<lparr>pages_stack = map Suc [0..<255], current_index = 10\<rparr>)"
    by (simp add: pop_page_def demo_state_def STACK_SIZE_def)
  have "fresh_for (page_address 10) 0x501000 1 ?s"
    by (simp add: fresh_for_def page_address_def layout_defs demo_mutex_def create_queue_def)
       (simp add: demo_state_def)
  moreover have "mutex_abs 1 ?s \<lparr>held = True, waiting = []\<rparr>"
    using queue_holds_empty by (auto simp: mutex_abs_def demo_mutex_def)
  moreover have "mutex_is_open (int 1) ?s"
    using demo_open [of "demo_mutex LOCKED create_queue" 9] by (simp add: demo_mutex_def)
  ultimately show ?thesis
    using mutex_lock_refines [OF demo_client _ demo_ready demo_runs _ pop] by (fastforce simp: alock_def)
qed

theorem mutex_unlock_refines_witness:
  "\<exists>s'. mutex_unlock (int 1) (demo_state 9 (demo_mutex LOCKED demo_queue)) = Ret 1 s' \<and>
     mutex_abs 1 s' \<lparr>held = True, waiting = []\<rparr> \<and>
     procs s' 0x501000 = Some (demo_process 2 DELETE) \<and> procs s' 0x502000 = Some (demo_process 3 READY)"
proof -
  let ?s = "demo_state 9 (demo_mutex LOCKED demo_queue)" and ?a = "\<lparr>held = True, waiting = [0x501000, 0x502000]\<rparr>"
  have p: "procs ?s = [0x501000 \<mapsto> demo_process 2 DELETE, 0x502000 \<mapsto> demo_process 3 BLOCKED]"
    by (simp add: demo_state_def)
  have "\<exists>xs. queue_holds demo_queue xs \<and> map snd xs = [0x501000, 0x502000]"
    by (intro exI [of _ "[(0x505000, 0x501000), (0x506000, 0x502000)]"]) (simp add: demo_queue_holds)
  then have abs: "mutex_abs 1 ?s ?a" by (simp add: mutex_abs_def demo_mutex_def)
  have op: "mutex_is_open (int 1) ?s"
    using demo_open [of "demo_mutex LOCKED demo_queue" 9] by (simp add: demo_mutex_def)
  have live: "\<forall>p \<in> set (waiting ?a). p \<noteq> NULL \<and> procs ?s p \<noteq> None" by (simp add: p)
  have few: "length (waiting ?a) \<le> current_index (kpages ?s)" "length (waiting ?a) < QUEUE_BOUND"
    by (simp_all add: demo_state_def QUEUE_BOUND_def STACK_SIZE_def)
  have "dropWhile (is_dead ?s) (waiting ?a) = [0x502000]"
    by (simp add: is_dead_def p demo_process_def is_delete_process_def)
  with mutex_unlock_refines [OF demo_client op demo_ready abs live few] show ?thesis
    by (fastforce simp: aunlock_def p unblock_process_def demo_process_def)
qed

theorem page_exhaustion_overflows_witness:
  "get_page_n 1000 16 (demo_state 255 (demo_mutex UNLOCKED create_queue)) = Fault Stack_overflow"
proof (rule page_exhaustion_overflows)
  let ?s = "demo_state 255 (demo_mutex UNLOCKED create_queue)"
  show "allocator_ready ?s" by (rule demo_ready)
  show "mutex_is_open (memory_mutex_key ?s) ?s" by (simp add: mutex_is_open_def demo_defs)
  show "pop_page (kpages ?s) = None" by (simp add: pop_page_def demo_state_def STACK_SIZE_def)
qed

end
