(* ===== verification/ProcessManager.thy ===== *)
theory ProcessManager
  imports MutexContract
begin

text \<open>
  The process table of \<open>Kernel/process.c\<close>, the scheduler of \<open>Kernel/processManager.c\<close>, the
  stack allocator's entry points, and the wake-up list of \<open>Kernel/timer.c\<close>.
\<close>

section \<open>Stack pages\<close>

definition get_stack_page :: "addr kop" where
  "get_stack_page =
     kbind (kgets stack_memory_mutex_key) (\<lambda>key.
     kthen (kignore (mutex_lock key)) (
     kbind (kgets (\<lambda>s. pop_stack_page (kstacks s))) (\<lambda>r.
       case r of
         Some (page, sts) \<Rightarrow> kseq [kmodify (kstacks_update (\<lambda>_. sts)), kignore (mutex_unlock key)] (kreturn page)
       | None \<Rightarrow> kthen (kignore (mutex_unlock key)) (kreturn 0))))"

definition store_stack_page :: "addr \<Rightarrow> int kop" where
  "store_stack_page address =
     kbind (kgets stack_memory_mutex_key) (\<lambda>key.
     kthen (kignore (mutex_lock key)) (
     kbind (kgets (\<lambda>s. push_stack_page address (kstacks s))) (\<lambda>r.
       case r of
         Some sts \<Rightarrow> kseq [kmodify (kstacks_update (\<lambda>_. sts)), kignore (mutex_unlock key)] (kreturn 1)
       | None \<Rightarrow> kthen (kignore (mutex_unlock key)) (kreturn 0))))"

section \<open>The process table\<close>

definition lock_table :: "unit kop" where
  "lock_table = kbind (kgets table_mutex_key) (\<lambda>key. kignore (mutex_lock key))"

definition unlock_table :: "unit kop" where
  "unlock_table = kbind (kgets table_mutex_key) (\<lambda>key. kignore (mutex_unlock key))"

definition incr64 :: "nat \<Rightarrow> nat" where "incr64 n = (n + 1) mod 2 ^ 64"
definition decr64 :: "nat \<Rightarrow> nat" where "decr64 n = (n + 2 ^ 64 - 1) mod 2 ^ 64"

definition insert_process :: "addr \<Rightarrow> int kop" where
  "insert_process p =
     kthen lock_table (
     kbind (kgets process_table) (\<lambda>t.
       let i = find_slot t NULL
       in if i < MAX_PROCESSES then
            kseq [kmodify (n_processes_update incr64),
                  update_proc p (pid_update (\<lambda>_. i)),
                  kmodify (process_table_update (\<lambda>t. t[i := p])),
                  unlock_table] (kreturn (int i))
          else kthen unlock_table (kreturn (-1))))"

text \<open>The pids \<open>get_current_pids\<close> copies, before the closing -1.\<close>

fun copy_pids :: "(addr \<rightharpoonup> process) \<Rightarrow> addr list \<Rightarrow> int \<Rightarrow> int list option" where
  "copy_pids ps [] left = Some []"
| "copy_pids ps (p # t) left =
     (if left > 0 then
        (if p \<noteq> NULL
         then Option.bind (ps p) (\<lambda>d. map_option ((#) (sint (of_nat (pid d) :: u32))) (copy_pids ps t (left - 1)))
         else copy_pids ps t left)
      else Some [])"

definition get_current_pids :: "int list kop" where
  "get_current_pids =
     kthen lock_table (
     kbind (kgets (\<lambda>s. copy_pids (procs s) (process_table s) (sint (of_nat (n_processes s) :: u32)))) (\<lambda>r.
     kbind (koption Bad_pointer r) (\<lambda>pids.
     kthen unlock_table (kreturn (pids @ [-1])))))"

definition pid_process :: "addr \<Rightarrow> nat kop" where "pid_process p = test_proc p pid UINT64_MAX"
definition ppid_process :: "addr \<Rightarrow> nat kop" where "ppid_process p = test_proc p ppid UINT64_MAX"
definition get_rsp_process :: "addr \<Rightarrow> nat kop" where "get_rsp_process p = test_proc p rsp UINT64_MAX"
definition set_rsp_process :: "addr \<Rightarrow> addr \<Rightarrow> unit kop" where
  "set_rsp_process p r = update_proc_or_null p (rsp_update (\<lambda>_. r))"

definition get_name_process :: "addr \<Rightarrow> byte list kop" where
  "get_name_process p = kbind (proc_at p) (\<lambda>d. kreturn (cstr (name d)))"

definition number_processes :: "nat kop" where "number_processes = kgets n_processes"

definition process_name :: "byte list \<Rightarrow> byte list kop" where
  "process_name nm = koption Out_of_bounds (map_option fst (strcpy (replicate MAX_PROCESS_NAME 0) nm))"

text \<open>
  \<open>create_process\<close>. The code checks neither that there is a stack page (the frame would be
  written below address 0) nor that the table had room (the pid read back is then whatever the
  page held); the two are faults here. The fields the code leaves unset are 0.
\<close>

definition PROCESS_SIZE :: nat where "PROCESS_SIZE = 648"

definition create_process :: "addr \<Rightarrow> u64 \<Rightarrow> byte list \<Rightarrow> addr kop" where
  "create_process rip params nm =
     kbind (get_page PROCESS_SIZE) (\<lambda>p.
     kbind (process_name nm) (\<lambda>n.
     kbind get_stack_page (\<lambda>sp.
       if sp = 0 then kfault Bad_pointer
       else kbind (kgets (\<lambda>s. fill_stack (umem s) rip sp params)) (\<lambda>(m, r).
         kthen (kmodify (umem_update (\<lambda>_. m))) (
         kthen (kmodify (put_proc p (clean_data_page
                 \<lparr>st = READY, name = n, entry_point = rip, rsp = r, stack_page = sp, n_data_page = 0,
                  data_page = [], pid = 0, ppid = 0, open_fds = 0\<rparr>))) (
         kbind (insert_process p) (\<lambda>i.
           if i = -1 then kfault Uninitialised
           else kthen
             (if i \<noteq> 0
              then kbind get_current_process (\<lambda>c. kbind (pid_process c) (\<lambda>q. update_proc p (ppid_update (\<lambda>_. q))))
              else kmodify (foreground_update (\<lambda>_. p)))
             (kthen (update_proc p (open_fds_update (\<lambda>_. 0))) (kreturn p)))))))))"

definition table_entry :: "nat \<Rightarrow> addr kop" where
  "table_entry i = kbind (kgets process_table) (\<lambda>t. koption Out_of_bounds (peek_at t i))"

definition get_process_by_pid :: "nat \<Rightarrow> addr kop" where
  "get_process_by_pid i =
     (if i < MAX_PROCESSES
      then kbind (table_entry i) (\<lambda>p.
             if p \<noteq> NULL
             then kbind (test_proc p is_delete_process False) (\<lambda>deleted. kreturn (if \<not> deleted then p else NULL))
             else kreturn NULL)
      else kreturn NULL)"

definition set_foreground_force_process :: "addr \<Rightarrow> unit kop" where
  "set_foreground_force_process p =
     kwhen (p \<noteq> NULL) (kbind (proc_at p) (\<lambda>d.
       kwhen (pid d \<noteq> 0)
         (kthen (kmodify (foreground_update (\<lambda>_. p))) (update_proc p unblock_foreground_process))))"

definition set_foreground_process :: "addr \<Rightarrow> unit kop" where
  "set_foreground_process p =
     kbind (kgets foreground) (\<lambda>f. kbind get_current_process (\<lambda>c.
       kwhen (f = c) (set_foreground_force_process p)))"

definition free_data_pages :: "addr \<Rightarrow> unit kop" where
  "free_data_pages p =
     kbind (proc_at p) (\<lambda>d.
       case pages_to_free (data_page d) (n_data_page d) of
         (pages, left) \<Rightarrow>
           kthen (kfor pages (\<lambda>a. kignore (store_page a))) (update_proc p (n_data_page_update (\<lambda>_. left))))"

definition destroy_process :: "addr \<Rightarrow> unit kop" where
  "destroy_process p =
     kwhen (p \<noteq> NULL) (
       kseq [lock_table,
             kmodify (n_processes_update decr64),
             free_data_pages p,
             kbind (kgets foreground) (\<lambda>f. kwhen (f = p)
               (kbind (proc_at p) (\<lambda>d. kbind (table_entry (ppid d)) set_foreground_process))),
             kbind (proc_at p) (\<lambda>d.
               if pid d < MAX_PROCESSES then kmodify (process_table_update (\<lambda>t. t[pid d := NULL]))
               else kfault Out_of_bounds),
             unlock_table,
             kbind (proc_at p) (\<lambda>d. kignore (store_stack_page (stack_page d)))]
         (kignore (store_page p)))"

definition kill_process_at :: "addr \<Rightarrow> int kop" where
  "kill_process_at p = kthen (update_proc_or_null p kill_process) (kreturn (if p \<noteq> NULL then 1 else 0))"

section \<open>The scheduler\<close>

definition QUANTUM :: int where "QUANTUM = 1"

definition assign_quantum :: "unit kop" where
  "assign_quantum = kbind (kgets current) (\<lambda>c. update_node c (quantum_update (\<lambda>q. q + 1)))"

definition unassign_quantum :: "unit kop" where
  "unassign_quantum = kbind (kgets current) (\<lambda>c. update_node c (quantum_update (\<lambda>q. q - 1)))"

definition put_node :: "addr \<Rightarrow> list_node \<Rightarrow> unit kop" where
  "put_node n d = kmodify (sched_nodes_update (\<lambda>m. m(n \<mapsto> d)))"

definition add_process :: "addr \<Rightarrow> unit kop" where
  "add_process p =
     kbind (get_page NODE_SIZE) (\<lambda>new_node.
     kthen set_superlock (
     kbind (kgets current) (\<lambda>c.
     kthen
       (if c = NULL
        then kthen (put_node new_node \<lparr>quantum = QUANTUM, node_p = p, node_next = new_node\<rparr>)
               (kmodify (\<lambda>s. s\<lparr>current := new_node, prev := new_node\<rparr>))
        else kbind (node_at c) (\<lambda>d.
               kthen (put_node new_node \<lparr>quantum = QUANTUM, node_p = p, node_next = node_next d\<rparr>)
                 (update_node c (node_next_update (\<lambda>_. new_node)))))
       unset_superlock)))"

definition exec_process :: "addr \<Rightarrow> nat kop" where
  "exec_process p =
     kthen (add_process p) (
     kbind (pid_process p) (\<lambda>i. if i = 0 then kleave else kreturn i))"

text \<open>
  The loop looks for a process that can run and drops the killed ones on its way. It ends if
  there is one in the ring (the initial process never blocks); the ring has at most one node
  per page, and the bound is above that.
\<close>

primrec set_next_current_n :: "nat \<Rightarrow> unit kop" where
  "set_next_current_n 0 = kfault Endless_loop"
| "set_next_current_n (Suc k) =
     kbind (kgets current) (\<lambda>c. kbind (node_at c) (\<lambda>d.
     kbind (test_proc (node_p d) is_blocked_process True) (\<lambda>blocked.
     kbind (test_proc (node_p d) is_delete_process False) (\<lambda>deleted.
       if blocked \<or> deleted then
         kthen
           (if deleted then
              kseq [kbind (kgets prev) (\<lambda>v. update_node v (node_next_update (\<lambda>_. node_next d))),
                    destroy_process (node_p d)]
                (kignore (store_page c))
            else kmodify (prev_update (\<lambda>_. c)))
           (kthen (kmodify (current_update (\<lambda>_. node_next d))) (set_next_current_n k))
       else kreturn ()))))"

definition set_next_current :: "unit kop" where "set_next_current = set_next_current_n QUEUE_BOUND"

definition unlocked_super :: "bool kop" where
  "unlocked_super = kbind (kgets superlock) (\<lambda>old.
     kthen (kmodify (superlock_update (\<lambda>_. 0))) (kreturn (old \<noteq> 0)))"

definition next_process :: "addr \<Rightarrow> addr kop" where
  "next_process current_rsp =
     kbind (kgets current) (\<lambda>c.
       if c = NULL then kreturn current_rsp
       else kthen unassign_quantum (kbind (node_at c) (\<lambda>d.
         if quantum d > 0 then kreturn current_rsp
         else kbind unlocked_super (\<lambda>free.
           if \<not> free then kreturn current_rsp
           else kseq [update_node c (quantum_update (\<lambda>_. QUANTUM)),
                      set_rsp_process (node_p d) current_rsp,
                      kmodify (\<lambda>s. s\<lparr>prev := c, current := node_next d\<rparr>),
                      set_next_current,
                      unset_superlock]
                  (kbind get_current_process get_rsp_process)))))"

definition end_process :: "unit kop" where
  "end_process =
     kthen set_superlock (
     kbind (kgets current) (\<lambda>n. kbind (node_at n) (\<lambda>d.
     kseq [destroy_process (node_p d),
           kbind (node_at n) (\<lambda>d. kbind (kgets prev) (\<lambda>v. update_node v (node_next_update (\<lambda>_. node_next d)))),
           kbind (node_at n) (\<lambda>d. kmodify (current_update (\<lambda>_. node_next d))),
           set_next_current,
           unset_superlock,
           kignore (store_page n),
           assign_quantum]
       kleave)))"

section \<open>Sleeping\<close>

text \<open>
  \<open>timer_handler\<close> walks the list, counts every entry down and drops those that reach zero.
  \<open>ticks\<close> is unsigned: \<open>ticks <= 0\<close> is \<open>ticks == 0\<close>. The list is a HOL list of its nodes.
\<close>

definition SLEEP_SIZE :: nat where "SLEEP_SIZE = 24"

primrec timer_walk :: "sleep_process list \<Rightarrow> sleep_process list kop" where
  "timer_walk [] = kreturn []"
| "timer_walk (c # rest) =
     (let t = decr64 (sl_ticks c)
      in if t = 0
         then kseq [update_proc_or_null (sl_p c) unblock_process] (
                kbind (kbind (store_page (sl_page c)) (\<lambda>_. kreturn ())) (\<lambda>_. timer_walk rest))
         else kbind (timer_walk rest) (\<lambda>l. kreturn (c\<lparr>sl_ticks := t\<rparr> # l)))"

definition timer_handler :: "unit kop" where
  "timer_handler = kbind (kgets sleeping_processes) (\<lambda>l. kbind (timer_walk l) (\<lambda>l'.
     kmodify (sleeping_processes_update (\<lambda>_. l'))))"

definition create_sleep_process :: "nat \<Rightarrow> sleep_process kop" where
  "create_sleep_process ticks =
     kbind (get_page SLEEP_SIZE) (\<lambda>a. kbind get_current_process (\<lambda>p.
       kreturn \<lparr>sl_page = a, sl_p = p, sl_ticks = ticks\<rparr>))"

definition add_sleep_process :: "sleep_process \<Rightarrow> unit kop" where
  "add_sleep_process n = kmodify (sleeping_processes_update (\<lambda>l. n # l))"

definition sleep :: "nat \<Rightarrow> int kop" where
  "sleep milliseconds =
     (let wait_ticks = milliseconds div 55
      in if wait_ticks = 0 then kreturn 0
         else kthen assign_quantum (
           kbind (create_sleep_process wait_ticks) (\<lambda>n.
           kseq [add_sleep_process n,
                 update_proc_or_null (sl_p n) block_process,
                 yield_process] (kreturn 1))))"

end
