(* ===== verification/Scheduler.thy ===== *)
theory Scheduler
  imports ProcessManager
begin

text \<open>
  Correctness of the process table and the scheduler: what \<open>destroy_process\<close> gives back, and
  that \<open>next_process\<close> walks the ring of processes round-robin, dropping the killed ones.
\<close>

section \<open>Critical sections\<close>

text \<open>
  Entering and leaving a mutex nobody holds; at boot, when it is not open yet, both calls
  change nothing.
\<close>

definition idle_mutex :: "int \<Rightarrow> kstate \<Rightarrow> bool" where
  "idle_mutex k s \<longleftrightarrow> (mutex_is_open k s \<longrightarrow> k \<noteq> memory_mutex_key s \<and>
     locked (open_mutexes s ! nat k) = UNLOCKED \<and> kq_is_empty (m_queue (open_mutexes s ! nat k)))"

definition quiet :: "kstate \<Rightarrow> bool" where
  "quiet s \<longleftrightarrow> allocator_ready s \<and> sched_nodes s (current s) \<noteq> None \<and>
     idle_mutex (table_mutex_key s) s \<and> idle_mutex (stack_memory_mutex_key s) s"

definition enter :: "int \<Rightarrow> kstate \<Rightarrow> kstate" where
  "enter k s = (if mutex_is_open k s then set_locked (nat k) LOCKED (s\<lparr>superlock := UNLOCKED\<rparr>) else s)"

definition exit_from :: "int \<Rightarrow> kstate \<Rightarrow> kstate" where
  "exit_from k s = (if mutex_is_open k s then set_locked (nat k) UNLOCKED (s\<lparr>superlock := UNLOCKED\<rparr>) else s)"

lemma quietD:
  assumes "quiet s"
  shows "allocator_ready s" "sched_nodes s (current s) \<noteq> None" "length (open_mutexes s) = MAX_MUTEXES"
    "idle_mutex (table_mutex_key s) s" "idle_mutex (stack_memory_mutex_key s) s"
  using assms by (auto simp: quiet_def allocator_ready_def)

lemma enter_frame [simp]:
  "procs (enter k s) = procs s" "sched_nodes (enter k s) = sched_nodes s" "current (enter k s) = current s"
  "prev (enter k s) = prev s" "kpages (enter k s) = kpages s" "kstacks (enter k s) = kstacks s"
  "memory_mutex_key (enter k s) = memory_mutex_key s" "table_mutex_key (enter k s) = table_mutex_key s"
  "stack_memory_mutex_key (enter k s) = stack_memory_mutex_key s"
  "process_table (enter k s) = process_table s" "foreground (enter k s) = foreground s"
  "n_processes (enter k s) = n_processes s" "umem (enter k s) = umem s" "length (open_mutexes (enter k s)) = length (open_mutexes s)"
  by (simp_all add: enter_def set_locked_def)

lemma exit_frame [simp]:
  "procs (exit_from k s) = procs s" "sched_nodes (exit_from k s) = sched_nodes s"
  "current (exit_from k s) = current s" "prev (exit_from k s) = prev s" "kpages (exit_from k s) = kpages s"
  "kstacks (exit_from k s) = kstacks s" "memory_mutex_key (exit_from k s) = memory_mutex_key s"
  "table_mutex_key (exit_from k s) = table_mutex_key s"
  "stack_memory_mutex_key (exit_from k s) = stack_memory_mutex_key s"
  "process_table (exit_from k s) = process_table s" "foreground (exit_from k s) = foreground s"
  "n_processes (exit_from k s) = n_processes s" "umem (exit_from k s) = umem s"
  by (simp_all add: exit_from_def set_locked_def)

lemma critical_open [simp]:
  "mutex_is_open j (enter k s) = mutex_is_open j s" "mutex_is_open j (exit_from k s) = mutex_is_open j s"
  by (simp_all add: enter_def exit_from_def)

lemma enter_ready:
  assumes "allocator_ready s" "idle_mutex k s"
  shows "allocator_ready (enter k s)"
proof (cases "mutex_is_open k s")
  case True
  then have "0 \<le> k" "k \<noteq> memory_mutex_key s" using assms(2) by (auto simp: idle_mutex_def mutex_is_open_def)
  then have "int (nat k) \<noteq> memory_mutex_key (s\<lparr>superlock := UNLOCKED\<rparr>)" by simp
  from allocator_ready_set_locked [OF this] True assms(1) show ?thesis by (simp add: enter_def)
qed (use assms in \<open>simp add: enter_def\<close>)

lemma lock_idle:
  assumes "idle_mutex k s" "sched_nodes s (current s) \<noteq> None"
  shows "\<exists>v. mutex_lock k s = Ret v (enter k s)"
  using assms lock_free [of k s get_page] lock_closed [of k s get_page]
  by (cases "mutex_is_open k s") (auto simp: mutex_lock_def enter_def idle_mutex_def)

lemma unlock_entered:
  assumes "idle_mutex k s" "open_mutexes t = open_mutexes (enter k s)" "length (open_mutexes s) = MAX_MUTEXES"
  shows "(\<exists>v. mutex_unlock k t = Ret v (exit_from k t)) \<and> open_mutexes (exit_from k t) = open_mutexes s"
proof (cases "mutex_is_open k s")
  case True
  have k: "nat k < length (open_mutexes s)" using mutex_is_open_less [OF True] assms(3) by simp
  have "mutex_is_open k (enter k s)" using True by simp
  then have op: "mutex_is_open k t" by (simp add: mutex_is_open_def assms(2))
  have m: "open_mutexes t = (open_mutexes s)[nat k := (open_mutexes s ! nat k)\<lparr>locked := LOCKED\<rparr>]"
    using True by (simp add: assms(2) enter_def set_locked_def)
  have idle: "locked (open_mutexes s ! nat k) = UNLOCKED" "kq_is_empty (m_queue (open_mutexes s ! nat k))"
    using True assms(1) by (auto simp: idle_mutex_def)
  have "kq_is_empty (m_queue (open_mutexes t ! nat k))" using idle(2) k m by simp
  then have "mutex_unlock k t = Ret 1 (exit_from k t)"
    using unlock_no_waiters [OF op] op by (simp add: mutex_unlock_def exit_from_def)
  moreover have "open_mutexes (exit_from k t) = open_mutexes s"
    using op m k set_locked_back [OF k idle(1)] by (simp add: exit_from_def set_locked_def)
  ultimately show ?thesis by blast
next
  case False
  then have "\<not> mutex_is_open k t" using assms(2) by (simp add: mutex_is_open_def enter_def)
  with False assms(2) show ?thesis by (simp add: mutex_unlock_def exit_from_def enter_def)
qed

section \<open>Giving pages back\<close>

definition push_one :: "addr \<Rightarrow> page_stack \<Rightarrow> page_stack" where
  "push_one a pg = (case push_page a pg of Some pg' \<Rightarrow> pg' | None \<Rightarrow> pg)"

definition stored :: "addr list \<Rightarrow> kstate \<Rightarrow> kstate" where
  "stored as s = (if as = [] then s else (settle s)\<lparr>kpages := fold push_one as (kpages s)\<rparr>)"

lemma stored_frame [simp]:
  "procs (stored as s) = procs s" "sched_nodes (stored as s) = sched_nodes s"
  "current (stored as s) = current s" "prev (stored as s) = prev s"
  "kpages (stored as s) = fold push_one as (kpages s)" "kstacks (stored as s) = kstacks s"
  "memory_mutex_key (stored as s) = memory_mutex_key s" "table_mutex_key (stored as s) = table_mutex_key s"
  "stack_memory_mutex_key (stored as s) = stack_memory_mutex_key s"
  "process_table (stored as s) = process_table s" "foreground (stored as s) = foreground s"
  "n_processes (stored as s) = n_processes s" "open_mutexes (stored as s) = open_mutexes s"
  by (auto simp: stored_def settle_def)

lemma allocator_ready_stored [simp]: "allocator_ready (stored as s) = allocator_ready s"
  by (simp add: stored_def)

lemma mutex_is_open_stored [simp]: "mutex_is_open k (stored as s) = mutex_is_open k s"
  by (simp add: mutex_is_open_def)

lemma settle_idem [simp]: "settle (settle s) = settle s"
  by (simp add: settle_def mutex_is_open_def)

lemma settle_kpages: "settle (s\<lparr>kpages := pg\<rparr>) = (settle s)\<lparr>kpages := pg\<rparr>"
  by (simp add: settle_def mutex_is_open_def)

lemma store_page_stored:
  assumes "allocator_ready s"
  shows "\<exists>v. store_page a s = Ret v (stored [a] s)"
proof -
  have "(settle s)\<lparr>kpages := kpages s\<rparr> = settle s" by (simp add: settle_def)
  then show ?thesis
    using store_page_eq [OF assms, of a] by (auto simp: stored_def push_one_def split: option.splits)
qed

lemma stored_stored: "stored bs (stored as s) = stored (as @ bs) s"
  by (simp add: stored_def settle_kpages)

lemma kfor_store:
  "allocator_ready s \<Longrightarrow> kfor as (\<lambda>a. kignore (store_page a)) s = Ret () (stored as s)"
proof (induction as arbitrary: s)
  case Nil
  then show ?case by (simp add: stored_def)
next
  case (Cons a as)
  obtain v where v: "store_page a s = Ret v (stored [a] s)" using store_page_stored [OF Cons.prems] by blast
  have "allocator_ready (stored [a] s)" using Cons.prems by simp
  with v Cons.IH [OF this] show ?case by (simp add: stored_stored)
qed

section \<open>Destroying a process\<close>

text \<open>The pages a process gives back: its data pages and its descriptor.\<close>

definition process_pages :: "process \<Rightarrow> addr list" where
  "process_pages d = fst (pages_to_free (data_page d) (n_data_page d))"

definition table_ok :: "kstate \<Rightarrow> bool" where
  "table_ok s \<longleftrightarrow> length (process_table s) = MAX_PROCESSES \<and>
     (\<forall>p \<in> set (process_table s). p = NULL \<or> procs s p \<noteq> None) \<and>
     (\<forall>p d. procs s p = Some d \<longrightarrow> pid d < MAX_PROCESSES \<and> ppid d < MAX_PROCESSES)"

definition kernel_good :: "kstate \<Rightarrow> bool" where
  "kernel_good s \<longleftrightarrow> quiet s \<and> table_ok s"

text \<open>
  The changes of descriptors other processes can notice: the count of data pages of the
  destroyed one, and a parent that waited for the foreground is woken.
\<close>

definition same_process :: "process \<Rightarrow> process \<Rightarrow> bool" where
  "same_process d d' \<longleftrightarrow> d' = d\<lparr>st := st d', n_data_page := n_data_page d'\<rparr> \<and>
     (st d' = st d \<or> st d = BLOCKED_FOREGROUND \<and> st d' = READY)"

definition evolves :: "(addr \<rightharpoonup> process) \<Rightarrow> (addr \<rightharpoonup> process) \<Rightarrow> bool" where
  "evolves m m' \<longleftrightarrow> (\<forall>p. (m p = None \<longrightarrow> m' p = None) \<and>
     (\<forall>d. m p = Some d \<longrightarrow> (\<exists>d'. m' p = Some d' \<and> same_process d d')))"

lemma same_process_refl [simp]: "same_process d d"
  by (simp add: same_process_def)

lemma same_process_fields:
  assumes "same_process d d'"
  shows "pid d' = pid d" "ppid d' = ppid d" "rsp d' = rsp d" "stack_page d' = stack_page d"
  using assms unfolding same_process_def by (metis process.select_convs process.surjective process.update_convs)+

lemma same_process_trans: "same_process d d' \<Longrightarrow> same_process d' d'' \<Longrightarrow> same_process d d''"
  unfolding same_process_def
  by (cases d, cases d', cases d'') auto

lemma same_process_runnable: "same_process d d' \<Longrightarrow> runnable d \<Longrightarrow> runnable d'"
  by (auto simp: same_process_def runnable_iff)

lemma same_process_delete: "same_process d d' \<Longrightarrow> is_delete_process d' = is_delete_process d"
  by (auto simp: same_process_def is_delete_process_def)

lemma evolves_refl [simp]: "evolves m m"
  by (auto simp: evolves_def)

lemma evolves_trans: "evolves m m' \<Longrightarrow> evolves m' m'' \<Longrightarrow> evolves m m''"
  unfolding evolves_def by (meson same_process_trans)

lemma evolves_upd: "m p = Some d \<Longrightarrow> same_process d d' \<Longrightarrow> evolves m (m(p \<mapsto> d'))"
  by (auto simp: evolves_def)

lemma evolvesD: "evolves m m' \<Longrightarrow> m p = Some d \<Longrightarrow> \<exists>d'. m' p = Some d' \<and> same_process d d'"
  by (auto simp: evolves_def)

lemma evolves_table_ok:
  assumes "table_ok s" "evolves (procs s) (procs s')" "process_table s' = process_table s"
  shows "table_ok s'"
proof -
  have "procs s' p \<noteq> None" if "procs s p \<noteq> None" for p
    using that assms(2) by (auto simp: evolves_def)
  moreover have "pid d' < MAX_PROCESSES \<and> ppid d' < MAX_PROCESSES" if d': "procs s' p = Some d'" for p d'
  proof -
    obtain d where "procs s p = Some d" "same_process d d'"
      using assms(2) d' unfolding evolves_def by (metis not_None_eq option.inject)
    then show ?thesis using assms(1) same_process_fields by (auto simp: table_ok_def)
  qed
  ultimately show ?thesis using assms(1,3) by (auto simp: table_ok_def)
qed

text \<open>\<open>frame s s'\<close>: the ring, the mutexes and their keys are as before.\<close>

definition frame :: "kstate \<Rightarrow> kstate \<Rightarrow> bool" where
  "frame s s' \<longleftrightarrow> sched_nodes s' = sched_nodes s \<and> current s' = current s \<and> prev s' = prev s \<and>
     open_mutexes s' = open_mutexes s \<and> memory_mutex_key s' = memory_mutex_key s \<and>
     table_mutex_key s' = table_mutex_key s \<and> stack_memory_mutex_key s' = stack_memory_mutex_key s"

lemma frame_refl [simp]: "frame s s"
  by (simp add: frame_def)

lemma frame_trans: "frame s s' \<Longrightarrow> frame s' s'' \<Longrightarrow> frame s s''"
  by (simp add: frame_def)

lemma frame_open: "frame s s' \<Longrightarrow> mutex_is_open k s' = mutex_is_open k s"
  by (simp add: frame_def mutex_is_open_def)

lemma frame_ready: "frame s s' \<Longrightarrow> allocator_ready s' = allocator_ready s"
  unfolding allocator_ready_def using frame_open [of s s'] by (simp add: frame_def)

lemma frame_quiet: "frame s s' \<Longrightarrow> quiet s' = quiet s"
  unfolding quiet_def idle_mutex_def using frame_open [of s s'] frame_ready [of s s'] by (simp add: frame_def)

lemma frame_stored [simp]: "frame s (stored as s') = frame s s'"
  by (simp add: frame_def)

lemma frame_settle [simp]: "frame s (settle s') = frame s s'"
  by (simp add: frame_def settle_def)

definition push_stack_one :: "addr \<Rightarrow> stack_stack \<Rightarrow> stack_stack" where
  "push_stack_one a sts = (case push_stack_page a sts of Some sts' \<Rightarrow> sts' | None \<Rightarrow> sts)"

lemma store_stack_page_run:
  assumes "quiet s"
  shows "\<exists>s' v. store_stack_page a s = Ret v s' \<and> frame s s' \<and> procs s' = procs s \<and> kpages s' = kpages s \<and>
    kstacks s' = push_stack_one a (kstacks s) \<and> process_table s' = process_table s \<and>
    n_processes s' = n_processes s \<and> foreground s' = foreground s"
proof -
  let ?k = "stack_memory_mutex_key s" and ?st = "push_stack_one a (kstacks s)"
  note q = quietD [OF assms]
  let ?t = "(enter ?k s)\<lparr>kstacks := ?st\<rparr>"
  obtain v where v: "mutex_lock ?k s = Ret v (enter ?k s)" using lock_idle [OF q(5,2)] by blast
  have "open_mutexes ?t = open_mutexes (enter ?k s)" by simp
  from unlock_entered [OF q(5) this q(3)] obtain w where
    w: "mutex_unlock ?k ?t = Ret w (exit_from ?k ?t)" "open_mutexes (exit_from ?k ?t) = open_mutexes s" by blast
  have same: "(enter ?k s)\<lparr>kstacks := kstacks s\<rparr> = enter ?k s" by (simp add: enter_def set_locked_def)
  have "\<exists>r. store_stack_page a s = Ret r (exit_from ?k ?t)"
  proof (cases "push_stack_page a (kstacks s)")
    case None
    then have "?t = enter ?k s" using same by (simp add: push_stack_one_def)
    then show ?thesis using v w(1) None by (simp add: store_stack_page_def)
  next
    case (Some sts')
    then show ?thesis using v w(1) by (simp add: store_stack_page_def push_stack_one_def)
  qed
  then obtain r where "store_stack_page a s = Ret r (exit_from ?k ?t)" by blast
  then show ?thesis using w(2) by (intro exI [of _ "exit_from ?k ?t"] exI [of _ r]) (simp add: frame_def)
qed

lemma free_data_pages_run:
  assumes "allocator_ready s" "procs s p = Some d"
  shows "\<exists>m. free_data_pages p s = Ret () ((stored (process_pages d) s)\<lparr>procs := m\<rparr>) \<and>
    evolves (procs s) m \<and> (\<exists>d'. m p = Some d' \<and> same_process d d')"
proof -
  obtain as left where pg: "pages_to_free (data_page d) (n_data_page d) = (as, left)" by force
  let ?m = "(procs s)(p \<mapsto> d\<lparr>n_data_page := left\<rparr>)"
  have "kfor as (\<lambda>a. kignore (store_page a)) s = Ret () (stored as s)"
    using kfor_store [OF assms(1)] .
  then have "free_data_pages p s = Ret () ((stored as s)\<lparr>procs := ?m\<rparr>)"
    using assms(2) pg by (simp add: free_data_pages_def put_proc_def)
  moreover have "same_process d (d\<lparr>n_data_page := left\<rparr>)" by (simp add: same_process_def)
  ultimately show ?thesis
    using pg evolves_upd [of "procs s" p d] assms(2) by (intro exI [of _ ?m]) (simp add: process_pages_def)
qed

lemma set_foreground_run:
  assumes "sched_nodes s (current s) = Some n" "p = NULL \<or> procs s p \<noteq> None"
  shows "\<exists>f m. set_foreground_process p s = Ret () (s\<lparr>foreground := f, procs := m\<rparr>) \<and> evolves (procs s) m"
proof (cases "foreground s = node_p n \<and> p \<noteq> NULL \<and> (\<exists>d. procs s p = Some d \<and> pid d \<noteq> 0)")
  case True
  then obtain d where d: "procs s p = Some d" "pid d \<noteq> 0" by blast
  let ?m = "(procs s)(p \<mapsto> unblock_foreground_process d)"
  have "set_foreground_process p s = Ret () (s\<lparr>foreground := p, procs := ?m\<rparr>)"
    using True d assms(1) by (simp add: set_foreground_process_def set_foreground_force_process_def put_proc_def)
  moreover have "same_process d (unblock_foreground_process d)"
    by (simp add: same_process_def unblock_foreground_process_def)
  ultimately show ?thesis using evolves_upd [of "procs s" p d] d(1) by blast
next
  case False
  then have "set_foreground_process p s = Ret () (s\<lparr>foreground := foreground s, procs := procs s\<rparr>)"
    using assms by (auto simp: set_foreground_process_def set_foreground_force_process_def)
  then show ?thesis using evolves_refl by blast
qed

lemma destroy_process_run:
  assumes "kernel_good s" "p \<noteq> NULL" "procs s p = Some d"
  shows "\<exists>s'. destroy_process p s = Ret () s' \<and> frame s s' \<and> evolves (procs s) (procs s') \<and>
    process_table s' = (process_table s)[pid d := NULL] \<and> n_processes s' = decr64 (n_processes s) \<and>
    kpages s' = fold push_one (process_pages d @ [p]) (kpages s) \<and>
    kstacks s' = push_stack_one (stack_page d) (kstacks s)"
proof -
  let ?k = "table_mutex_key s"
  have good: "quiet s" "table_ok s" using assms(1) by (auto simp: kernel_good_def)
  note q = quietD [OF good(1)]
  obtain n where n: "sched_nodes s (current s) = Some n" using q(2) by blast
  have pids: "pid d < MAX_PROCESSES" "ppid d < MAX_PROCESSES"
    using good(2) assms(3) by (auto simp: table_ok_def)
  define s2 where "s2 = n_processes_update decr64 (enter ?k s)"
  have lock: "lock_table s = Ret () (enter ?k s)"
    using lock_idle [OF q(4,2)] by (auto simp: lock_table_def)
  have f2: "allocator_ready (enter ?k s)" using enter_ready [OF q(1,4)] .
  have r2: "allocator_ready s2"
  proof -
    have "allocator_ready s2 = allocator_ready (enter ?k s)"
      by (rule frame_ready) (simp add: frame_def s2_def)
    then show ?thesis using f2 by simp
  qed
  have p2: "procs s2 p = Some d" using assms(3) by (simp add: s2_def)
  obtain m3 d3 where m3: "free_data_pages p s2 = Ret () ((stored (process_pages d) s2)\<lparr>procs := m3\<rparr>)"
      "evolves (procs s) m3" "m3 p = Some d3" "same_process d d3"
    using free_data_pages_run [OF r2 p2] by (auto simp: s2_def)
  define s3 where "s3 = (stored (process_pages d) s2)\<lparr>procs := m3\<rparr>"
  have d3: "pid d3 = pid d" "ppid d3 = ppid d" "stack_page d3 = stack_page d"
    using same_process_fields [OF m3(4)] by auto
  define parent where "parent = process_table s ! ppid d"
  have len: "length (process_table s) = MAX_PROCESSES" using good(2) by (simp add: table_ok_def)
  have par: "parent = NULL \<or> procs s3 parent \<noteq> None"
  proof -
    have "parent \<in> set (process_table s)" using len pids(2) by (simp add: parent_def)
    then have "parent = NULL \<or> procs s parent \<noteq> None" using good(2) by (auto simp: table_ok_def)
    then show ?thesis using m3(2) by (auto simp: s3_def evolves_def)
  qed
  have n3: "sched_nodes s3 (current s3) = Some n" using n by (simp add: s3_def s2_def)
  obtain f4 m4 where s4: "kwhen (foreground s3 = p) (set_foreground_process parent) s3 =
        Ret () (s3\<lparr>foreground := f4, procs := m4\<rparr>)" "evolves (procs s3) m4"
  proof (cases "foreground s3 = p")
    case True
    then show ?thesis using set_foreground_run [OF n3 par] that by auto
  next
    case False
    then have "kwhen (foreground s3 = p) (set_foreground_process parent) s3 =
        Ret () (s3\<lparr>foreground := foreground s3, procs := procs s3\<rparr>)" by simp
    then show ?thesis using that evolves_refl by blast
  qed
  obtain d4 where d4: "m4 p = Some d4" "same_process d3 d4"
    using evolvesD [OF s4(2)] m3(3) by (auto simp: s3_def)
  have pid4: "pid d4 = pid d" "stack_page d4 = stack_page d"
    using same_process_fields [OF d4(2)] d3 by auto
  define s5 where "s5 = process_table_update (\<lambda>t. t[pid d := NULL]) (s3\<lparr>foreground := f4, procs := m4\<rparr>)"
  have fg: "kbind (kgets foreground) (\<lambda>f. kwhen (f = p)
      (kbind (proc_at p) (\<lambda>d. kbind (table_entry (ppid d)) set_foreground_process))) s3 =
      Ret () (s3\<lparr>foreground := f4, procs := m4\<rparr>)"
    using s4(1) m3(3) d3(2) len pids(2)
    by (auto simp: s3_def s2_def table_entry_def peek_at_def parent_def)
  have o5: "open_mutexes s5 = open_mutexes (enter ?k s)" "table_mutex_key s5 = ?k"
    by (simp_all add: s5_def s3_def s2_def)
  define s6 where "s6 = exit_from ?k s5"
  have unlock: "unlock_table s5 = Ret () s6" and o6: "open_mutexes s6 = open_mutexes s"
    using unlock_entered [OF q(4) o5(1) q(3)] o5(2) by (auto simp: unlock_table_def s6_def)
  have f6: "frame s s6" "procs s6 = m4" "process_table s6 = (process_table s)[pid d := NULL]"
      "n_processes s6 = decr64 (n_processes s)" "kpages s6 = fold push_one (process_pages d) (kpages s)"
      "kstacks s6 = kstacks s"
    using o6 by (simp_all add: frame_def s6_def s5_def s3_def s2_def)
  have "quiet s6" using frame_quiet [OF f6(1)] good(1) by simp
  from store_stack_page_run [OF this, of "stack_page d"] obtain s7 v where
    s7: "store_stack_page (stack_page d) s6 = Ret v s7" "frame s6 s7" "procs s7 = procs s6"
      "kpages s7 = kpages s6" "kstacks s7 = push_stack_one (stack_page d) (kstacks s6)"
      "process_table s7 = process_table s6" "n_processes s7 = n_processes s6" by blast
  have fr: "frame s s7" using frame_trans [OF f6(1) s7(2)] .
  have "allocator_ready s7" using frame_ready [OF fr] q(1) by simp
  then obtain w where w: "store_page p s7 = Ret w (stored [p] s7)" using store_page_stored by blast
  have "destroy_process p s = Ret () (stored [p] s7)"
    using assms(2) lock m3(1) [folded s3_def] fg d4(1) pid4 pids(1) unlock s7(1) w f6(2)
    by (simp add: destroy_process_def flip: s2_def s5_def)
  moreover have "evolves (procs s) m4"
    using evolves_trans [OF m3(2)] s4(2) by (simp add: s3_def)
  ultimately show ?thesis using fr f6 s7 by (intro exI [of _ "stored [p] s7"]) simp
qed

section \<open>The ring of processes\<close>

primrec chain :: "(addr \<rightharpoonup> list_node) \<Rightarrow> addr list \<Rightarrow> addr \<Rightarrow> bool" where
  "chain m [] e \<longleftrightarrow> True"
| "chain m (n # ns) e \<longleftrightarrow>
     (\<exists>d. m n = Some d \<and> node_next d = (case ns of [] \<Rightarrow> e | n' # _ \<Rightarrow> n')) \<and> chain m ns e"

definition ring :: "(addr \<rightharpoonup> list_node) \<Rightarrow> addr list \<Rightarrow> bool" where
  "ring m ns \<longleftrightarrow> ns \<noteq> [] \<and> distinct ns \<and> chain m ns (hd ns)"

definition node_proc :: "kstate \<Rightarrow> addr \<Rightarrow> process" where
  "node_proc s n = the (procs s (node_p (the (sched_nodes s n))))"

definition node_live :: "kstate \<Rightarrow> addr \<Rightarrow> bool" where
  "node_live s n \<longleftrightarrow> n \<noteq> NULL \<and> (\<exists>d q. sched_nodes s n = Some d \<and> node_p d \<noteq> NULL \<and> procs s (node_p d) = Some q)"

text \<open>The ring as seen from the current node: it comes first and \<open>prev\<close> last.\<close>

definition sched_ok :: "kstate \<Rightarrow> addr list \<Rightarrow> bool" where
  "sched_ok s ns \<longleftrightarrow> ring (sched_nodes s) ns \<and> current s = hd ns \<and> prev s = List.last ns \<and>
     (\<forall>n \<in> set ns. node_live s n)"

lemma chain_append:
  "chain m (xs @ ys) e \<longleftrightarrow> chain m xs (case ys of [] \<Rightarrow> e | y # _ \<Rightarrow> y) \<and> chain m ys e"
proof (induction xs)
  case (Cons x xs)
  then show ?case by (cases xs; cases ys) auto
qed simp

lemma chain_frame: "n \<notin> set ns \<Longrightarrow> chain (m(n := v)) ns e = chain m ns e"
  by (induction ns) auto

lemma ring_rotate: "ring m (n # ns) \<Longrightarrow> ring m (ns @ [n])"
  by (cases ns) (auto simp: ring_def chain_append split: list.split)

lemma ring_node: "ring m (n # ns) \<Longrightarrow> \<exists>d. m n = Some d \<and> node_next d = hd (ns @ [n])"
  by (cases ns) (auto simp: ring_def)

text \<open>Unlinking the first node: its predecessor, the last one, is made to skip it.\<close>

lemma ring_unlink:
  assumes "ring m (n # ns)" "ns \<noteq> []" "m (List.last ns) = Some d"
  shows "ring (m(List.last ns \<mapsto> d\<lparr>node_next := hd ns\<rparr>)) ns"
proof -
  obtain ys l where ns: "ns = ys @ [l]" using assms(2) by (metis rev_exhaust)
  have dist: "distinct (ys @ [l])" and ch: "chain m (ys @ [l]) n"
    using assms(1) ns by (auto simp: ring_def)
  have "chain m ys l" using ch by (auto simp: chain_append)
  then have "chain (m(l \<mapsto> d\<lparr>node_next := hd ns\<rparr>)) ys l" using dist by (simp add: chain_frame)
  then show ?thesis using dist ns by (simp add: ring_def chain_append)
qed

lemma sched_ok_node:
  assumes "sched_ok s (n # ns)"
  obtains d q where "n \<noteq> NULL" "current s = n" "sched_nodes s n = Some d" "node_next d = hd (ns @ [n])"
    "node_p d \<noteq> NULL" "procs s (node_p d) = Some q" "node_proc s n = q"
  using assms ring_node [of "sched_nodes s" n ns] unfolding sched_ok_def node_live_def node_proc_def
  by auto

text \<open>The nodes keep their processes.\<close>

definition same_nodes :: "kstate \<Rightarrow> kstate \<Rightarrow> bool" where
  "same_nodes s s' \<longleftrightarrow> (\<forall>n d. sched_nodes s n = Some d \<longrightarrow>
     (\<exists>d'. sched_nodes s' n = Some d' \<and> node_p d' = node_p d \<and> quantum d' = quantum d))"

lemma same_nodes_refl [simp]: "same_nodes s s"
  by (simp add: same_nodes_def)

lemma same_nodes_trans: "same_nodes s s' \<Longrightarrow> same_nodes s' s'' \<Longrightarrow> same_nodes s s''"
  unfolding same_nodes_def by metis

lemma node_live_evolves:
  assumes "node_live s n" "same_nodes s s'" "evolves (procs s) (procs s')"
  shows "node_live s' n \<and> same_process (node_proc s n) (node_proc s' n)"
proof -
  obtain d q where d: "sched_nodes s n = Some d" "node_p d \<noteq> NULL" "procs s (node_p d) = Some q" "n \<noteq> NULL"
    using assms(1) by (auto simp: node_live_def)
  moreover obtain d' where "sched_nodes s' n = Some d'" "node_p d' = node_p d"
    using assms(2) d(1) by (auto simp: same_nodes_def)
  moreover obtain q' where "procs s' (node_p d) = Some q'" "same_process q q'"
    using evolvesD [OF assms(3) d(3)] by blast
  ultimately show ?thesis by (simp add: node_live_def node_proc_def)
qed

lemma allocator_ready_current:
  "allocator_ready s \<Longrightarrow> sched_nodes s c \<noteq> None \<Longrightarrow> allocator_ready (s\<lparr>current := c, prev := v\<rparr>)"
  by (simp add: allocator_ready_def mutex_is_open_def)

lemma quiet_current:
  assumes "quiet s" "sched_nodes s c \<noteq> None"
  shows "quiet (s\<lparr>current := c, prev := v\<rparr>)"
proof -
  have "mutex_is_open k (s\<lparr>current := c, prev := v\<rparr>) = mutex_is_open k s" for k
    by (simp add: mutex_is_open_def)
  then show ?thesis
    using assms allocator_ready_current [of s c v] by (simp add: quiet_def idle_mutex_def)
qed

lemma superlock_irrelevant [simp]:
  "sched_ok (s\<lparr>superlock := v\<rparr>) ns = sched_ok s ns" "kernel_good (s\<lparr>superlock := v\<rparr>) = kernel_good s"
  "node_proc (s\<lparr>superlock := v\<rparr>) n = node_proc s n"
  by (simp_all add: sched_ok_def node_live_def kernel_good_def quiet_def idle_mutex_def table_ok_def node_proc_def)

section \<open>The scheduler's walk\<close>

text \<open>One turn of the loop at a process that is blocked, and at one that was killed.\<close>

lemma walk_blocked:
  assumes "sched_ok s (n # ns)" "kernel_good s" "\<not> runnable (node_proc s n)"
    and "\<not> is_delete_process (node_proc s n)"
  defines "s' \<equiv> s\<lparr>current := hd (ns @ [n]), prev := n\<rparr>"
  shows "set_next_current_n (Suc k) s = set_next_current_n k s'" "sched_ok s' (ns @ [n])" "kernel_good s'"
proof -
  obtain d q where n: "n \<noteq> NULL" "current s = n" "sched_nodes s n = Some d" "node_next d = hd (ns @ [n])"
      "node_p d \<noteq> NULL" "procs s (node_p d) = Some q" "node_proc s n = q"
    using sched_ok_node [OF assms(1)] .
  have q: "is_blocked_process q" "\<not> is_delete_process q"
    using assms(3,4) n(7) by (auto simp: runnable_def)
  have "(s\<lparr>prev := n\<rparr>)\<lparr>current := hd (ns @ [n])\<rparr> = s'" by (simp add: s'_def)
  then show "set_next_current_n (Suc k) s = set_next_current_n k s'"
    using n q by simp
  have "ring (sched_nodes s) (ns @ [n])" using assms(1) ring_rotate by (auto simp: sched_ok_def)
  then show "sched_ok s' (ns @ [n])"
    using assms(1) by (auto simp: sched_ok_def s'_def node_live_def)
  have "sched_nodes s (hd (ns @ [n])) \<noteq> None"
    using assms(1) by (cases ns) (auto simp: sched_ok_def node_live_def)
  from quiet_current [OF _ this, of n] show "kernel_good s'"
    using assms(2) by (auto simp: kernel_good_def s'_def table_ok_def)
qed

lemma walk_deleted:
  assumes "sched_ok s (n # ns)" "kernel_good s" "is_delete_process (node_proc s n)" "ns \<noteq> []"
  shows "\<exists>s'. set_next_current_n (Suc k) s = set_next_current_n k s' \<and> sched_ok s' ns \<and> kernel_good s' \<and>
    evolves (procs s) (procs s') \<and> same_nodes s s' \<and>
    process_table s' = (process_table s)[pid (node_proc s n) := NULL]"
proof -
  obtain d q where n: "n \<noteq> NULL" "current s = n" "sched_nodes s n = Some d" "node_next d = hd (ns @ [n])"
      "node_p d \<noteq> NULL" "procs s (node_p d) = Some q" "node_proc s n = q"
    using sched_ok_node [OF assms(1)] .
  have nx: "node_next d = hd ns" using n(4) assms(4) by simp
  have r: "ring (sched_nodes s) (n # ns)" and pv: "prev s = List.last ns"
    and live: "\<forall>x \<in> set (n # ns). node_live s x"
    using assms(1,4) by (auto simp: sched_ok_def)
  have last: "List.last ns \<in> set ns" "List.last ns \<noteq> n"
    using assms(4) r by (auto simp: ring_def)
  obtain e where e: "sched_nodes s (List.last ns) = Some e"
    using live last(1) by (auto simp: node_live_def)
  define m where "m = (sched_nodes s)(List.last ns \<mapsto> e\<lparr>node_next := hd ns\<rparr>)"
  define s1 where "s1 = s\<lparr>sched_nodes := m\<rparr>"
  have mn: "m n = Some d" using n(3) last(2) by (simp add: m_def)
  have ready: "allocator_ready (s\<lparr>sched_nodes := m\<rparr>)"
    using assms(2) mn n(2) by (auto simp: kernel_good_def quiet_def allocator_ready_def mutex_is_open_def)
  have "mutex_is_open j (s\<lparr>sched_nodes := m\<rparr>) = mutex_is_open j s" for j by (simp add: mutex_is_open_def)
  then have g1: "kernel_good s1"
    using assms(2) ready mn n(2)
    by (auto simp: kernel_good_def quiet_def idle_mutex_def s1_def table_ok_def)
  have q1: "procs s1 (node_p d) = Some q" using n(6) by (simp add: s1_def)
  obtain s2 where s2: "destroy_process (node_p d) s1 = Ret () s2" "frame s1 s2" "evolves (procs s1) (procs s2)"
      "process_table s2 = (process_table s1)[pid q := NULL]"
    using destroy_process_run [OF g1 n(5) q1] by blast
  have "quiet s2" using frame_quiet [OF s2(2)] g1 by (simp add: kernel_good_def)
  then have "allocator_ready s2" by (simp add: quiet_def)
  then obtain v where v: "store_page n s2 = Ret v (stored [n] s2)" using store_page_stored by blast
  define s' where "s' = (stored [n] s2)\<lparr>current := hd ns\<rparr>"
  have nodes: "sched_nodes s' = m" using s2(2) by (simp add: s'_def frame_def s1_def)
  have step: "set_next_current_n (Suc k) s = set_next_current_n k s'"
    using n(2,3,5-7) pv e nx assms(3) s2(1) v by (simp add: s'_def s1_def m_def)
  have ring': "ring m ns" using ring_unlink [OF r assms(4) e] by (simp add: m_def)
  have same: "same_nodes s s'" using e by (auto simp: same_nodes_def nodes m_def)
  have ev: "evolves (procs s) (procs s')" using s2(3) by (simp add: s'_def s1_def)
  have "prev s' = List.last ns" using s2(2) pv by (simp add: s'_def frame_def s1_def)
  moreover have "node_live s' x" if "x \<in> set ns" for x
    using node_live_evolves [OF _ same ev] live that by auto
  ultimately have "sched_ok s' ns" using ring' nodes by (simp add: sched_ok_def s'_def)
  moreover have "kernel_good s'"
  proof -
    have "m (hd ns) \<noteq> None" using ring' by (cases ns) (auto simp: ring_def)
    then have "sched_nodes (stored [n] s2) (hd ns) \<noteq> None"
      using s2(2) by (simp add: frame_def s1_def)
    moreover have "quiet (stored [n] s2)" using frame_quiet [of s2 "stored [n] s2"] \<open>quiet s2\<close> by simp
    ultimately have "quiet ((stored [n] s2)\<lparr>current := hd ns, prev := prev (stored [n] s2)\<rparr>)"
      using quiet_current by blast
    moreover have "(stored [n] s2)\<lparr>current := hd ns, prev := prev (stored [n] s2)\<rparr> = s'"
      by (simp add: s'_def)
    moreover have "table_ok s'"
    proof -
      have "table_ok s1" using g1 by (simp add: kernel_good_def)
      then have "table_ok (s2\<lparr>process_table := process_table s1\<rparr>)"
        by (rule evolves_table_ok) (use s2(3) in simp_all)
      moreover have "set (process_table s') \<subseteq> insert NULL (set (process_table s1))"
        using s2(4) set_update_subset_insert [of "process_table s1" "pid q" NULL] by (simp add: s'_def)
      ultimately show ?thesis using s2(4) by (auto simp: table_ok_def s'_def)
    qed
    ultimately show ?thesis by (simp add: kernel_good_def)
  qed
  moreover have "process_table s' = (process_table s)[pid (node_proc s n) := NULL]"
    using s2(4) n(7) by (simp add: s'_def s1_def)
  ultimately show ?thesis using step ev same by blast
qed

text \<open>The walk: it stops at the first process that can run, having dropped the killed ones.\<close>

definition reap :: "kstate \<Rightarrow> addr list \<Rightarrow> addr list \<Rightarrow> addr list" where
  "reap s ns t = fold (\<lambda>n t. t[pid (node_proc s n) := NULL])
     (filter (\<lambda>n. is_delete_process (node_proc s n)) ns) t"

lemma reap_cong:
  "(\<And>n. n \<in> set ns \<Longrightarrow> pid (node_proc s' n) = pid (node_proc s n) \<and>
      is_delete_process (node_proc s' n) = is_delete_process (node_proc s n)) \<Longrightarrow>
   reap s' ns t = reap s ns t"
  by (induction ns arbitrary: t) (simp_all add: reap_def)

lemma walk_run:
  assumes "sched_ok s (vs @ r # rest)" "kernel_good s" "runnable (node_proc s r)" "length vs < k"
  shows "\<exists>s' us c rest'. set_next_current_n k s = Ret () s' \<and> vs @ r # rest = us @ c # rest' \<and>
    length us \<le> length vs \<and>
    sched_ok s' (c # rest' @ filter (\<lambda>n. \<not> is_delete_process (node_proc s n)) us) \<and> kernel_good s' \<and>
    runnable (node_proc s' c) \<and> (\<forall>n \<in> set us. \<not> runnable (node_proc s n)) \<and>
    evolves (procs s) (procs s') \<and> same_nodes s s' \<and> process_table s' = reap s us (process_table s)"
  using assms
proof (induction vs arbitrary: s rest k)
  case Nil
  obtain d q where n: "r \<noteq> NULL" "current s = r" "sched_nodes s r = Some d" "node_p d \<noteq> NULL"
      "procs s (node_p d) = Some q" "node_proc s r = q"
    using sched_ok_node [of s r rest] Nil.prems(1) by (metis append_Nil)
  obtain j where "k = Suc j" using Nil.prems(4) by (cases k) auto
  moreover have "\<not> is_blocked_process q" "\<not> is_delete_process q"
    using Nil.prems(3) n(6) by (auto simp: runnable_def)
  ultimately have "set_next_current_n k s = Ret () s" using n by simp
  then show ?case using Nil.prems
    by (intro exI [of _ s] exI [of _ "[]"] exI [of _ r] exI [of _ rest]) (simp add: reap_def)
next
  case (Cons v vs)
  obtain j where k: "k = Suc j" using Cons.prems(4) by (cases k) auto
  have ok: "sched_ok s (v # (vs @ r # rest))" using Cons.prems(1) by simp
  have live: "node_live s x" if "x \<in> set (v # vs @ r # rest)" for x
    using ok that by (auto simp: sched_ok_def)
  consider "runnable (node_proc s v)"
    | "\<not> runnable (node_proc s v)" "\<not> is_delete_process (node_proc s v)"
    | "\<not> runnable (node_proc s v)" "is_delete_process (node_proc s v)" by blast
  then show ?case
  proof cases
    case 1
    obtain d q where n: "v \<noteq> NULL" "current s = v" "sched_nodes s v = Some d" "node_p d \<noteq> NULL"
        "procs s (node_p d) = Some q" "node_proc s v = q"
      using sched_ok_node [OF ok] by metis
    have "\<not> is_blocked_process q" "\<not> is_delete_process q" using 1 n(6) by (auto simp: runnable_def)
    then have "set_next_current_n k s = Ret () s" using n k by simp
    then show ?thesis using Cons.prems 1
      by (intro exI [of _ s] exI [of _ "[]"] exI [of _ v] exI [of _ "vs @ r # rest"]) (simp add: reap_def)
  next
    case 2
    let ?s1 = "s\<lparr>current := hd ((vs @ r # rest) @ [v]), prev := v\<rparr>"
    note w = walk_blocked [OF ok Cons.prems(2) 2]
    have np: "node_proc ?s1 x = node_proc s x" for x by (simp add: node_proc_def)
    have "sched_ok ?s1 (vs @ r # (rest @ [v]))" using w(2) by simp
    from Cons.IH [OF this w(3), of j] Cons.prems(3,4) k np
    obtain s' us c rest' where h: "set_next_current_n j ?s1 = Ret () s'"
        "vs @ r # rest @ [v] = us @ c # rest'" "length us \<le> length vs"
        "sched_ok s' (c # rest' @ filter (\<lambda>n. \<not> is_delete_process (node_proc s n)) us)" "kernel_good s'"
        "runnable (node_proc s' c)" "\<forall>n \<in> set us. \<not> runnable (node_proc s n)"
        "evolves (procs s) (procs s')" "same_nodes ?s1 s'" "process_table s' = reap ?s1 us (process_table s)"
      by auto
    have "length us < length (vs @ r # rest)" using h(3) by simp
    then obtain rest'' where rest: "rest' = rest'' @ [v]" "vs @ r # rest = us @ c # rest''"
      using h(2) by (cases rest' rule: rev_cases) auto
    have "reap ?s1 us (process_table s) = reap s (v # us) (process_table s)"
      using 2(2) np by (simp add: reap_def)
    then show ?thesis using h rest w(1) [of j] k 2
      by (intro exI [of _ s'] exI [of _ "v # us"] exI [of _ c] exI [of _ rest''])
         (simp add: same_nodes_def)
  next
    case 3
    obtain s1 where s1: "set_next_current_n (Suc j) s = set_next_current_n j s1" "sched_ok s1 (vs @ r # rest)"
        "kernel_good s1" "evolves (procs s) (procs s1)" "same_nodes s s1"
        "process_table s1 = (process_table s)[pid (node_proc s v) := NULL]"
      using walk_deleted [OF ok Cons.prems(2) 3(2)] by auto
    have np: "same_process (node_proc s x) (node_proc s1 x)" if "x \<in> set (v # vs @ r # rest)" for x
      using node_live_evolves [OF live [OF that] s1(5,4)] by blast
    have "runnable (node_proc s1 r)" using same_process_runnable [OF np] Cons.prems(3) by simp
    from Cons.IH [OF s1(2,3) this, of j] Cons.prems(4) k
    obtain s' us c rest' where h: "set_next_current_n j s1 = Ret () s'"
        "vs @ r # rest = us @ c # rest'" "length us \<le> length vs"
        "sched_ok s' (c # rest' @ filter (\<lambda>n. \<not> is_delete_process (node_proc s1 n)) us)" "kernel_good s'"
        "runnable (node_proc s' c)" "\<forall>n \<in> set us. \<not> runnable (node_proc s1 n)"
        "evolves (procs s1) (procs s')" "same_nodes s1 s'" "process_table s' = reap s1 us (process_table s1)"
      by auto
    have us: "set us \<subseteq> set (v # vs @ r # rest)" unfolding h(2) by auto
    have del: "filter (\<lambda>n. \<not> is_delete_process (node_proc s1 n)) us =
        filter (\<lambda>n. \<not> is_delete_process (node_proc s n)) us"
      using us by (intro filter_cong) (auto simp: same_process_delete [OF np])
    have run: "\<forall>n \<in> set us. \<not> runnable (node_proc s n)"
      using h(7) us same_process_runnable [OF np] by blast
    have "reap s1 us (process_table s1) = reap s us (process_table s1)"
      using us same_process_delete [OF np] same_process_fields(1) [OF np] by (intro reap_cong) blast
    then have "process_table s' = reap s (v # us) (process_table s)"
      using h(10) s1(6) 3(2) by (simp add: reap_def)
    then show ?thesis
      using h s1 k 3 run del evolves_trans [OF s1(4) h(8)] same_nodes_trans [OF s1(5) h(9)]
      by (intro exI [of _ s'] exI [of _ "v # us"] exI [of _ c] exI [of _ rest']) simp
  qed
qed

section \<open>A context switch\<close>

lemma next_process_run:
  assumes ok: "sched_ok s (n # ns)" and good: "kernel_good s" and free: "superlock s = UNLOCKED"
    and used: "quantum (the (sched_nodes s n)) \<le> 1"
    and r: "r \<in> set (n # ns)" "runnable (node_proc s r)" and len: "length ns < QUEUE_BOUND"
  shows "\<exists>s' us c rest. next_process sp s = Ret (rsp (node_proc s' c)) s' \<and> ns @ [n] = us @ c # rest \<and>
    (c = r \<or> r \<in> set rest) \<and>
    sched_ok s' (c # rest @ filter (\<lambda>x. \<not> is_delete_process (node_proc s x)) us) \<and> kernel_good s' \<and>
    runnable (node_proc s' c) \<and> runnable (node_proc s' r) \<and> (\<forall>x \<in> set us. \<not> runnable (node_proc s x)) \<and>
    superlock s' = UNLOCKED \<and> process_table s' = reap s us (process_table s) \<and>
    (runnable (node_proc s c) \<or> st (node_proc s c) = BLOCKED_FOREGROUND) \<and>
    (\<forall>x \<in> set (n # ns). rsp (node_proc s' x) =
       (if node_p (the (sched_nodes s x)) = node_p (the (sched_nodes s n)) then sp else rsp (node_proc s x)))"
proof -
  obtain d q where n: "n \<noteq> NULL" "current s = n" "sched_nodes s n = Some d" "node_next d = hd (ns @ [n])"
      "node_p d \<noteq> NULL" "procs s (node_p d) = Some q" "node_proc s n = q"
    using sched_ok_node [OF ok] .
  have r0: "ring (sched_nodes s) (n # ns)" and live: "\<And>x. x \<in> set (n # ns) \<Longrightarrow> node_live s x"
    using ok by (auto simp: sched_ok_def)
  define d' where "d' = d\<lparr>quantum := QUANTUM\<rparr>"
  define m where "m = (sched_nodes s)(n \<mapsto> d')"
  define pm where "pm = (procs s)(node_p d \<mapsto> q\<lparr>rsp := sp\<rparr>)"
  define s0 where "s0 = s\<lparr>sched_nodes := m, procs := pm, superlock := LOCKED\<rparr>"
  define s1 where "s1 = s0\<lparr>current := hd (ns @ [n]), prev := n\<rparr>"
  have code_order: "s\<lparr>superlock := LOCKED, sched_nodes := m, procs := pm, prev := n, current := hd (ns @ [n])\<rparr> = s1"
    by (simp add: s1_def s0_def)
  have "next_process sp s =
      bind_run (set_next_current (s\<lparr>superlock := LOCKED, sched_nodes := m, procs := pm, prev := n,
          current := hd (ns @ [n])\<rparr>))
        (\<lambda>_ t. bind_run (get_current_process (t\<lparr>superlock := UNLOCKED\<rparr>)) get_rsp_process)"
    using n(1-6) used free
    by (simp add: next_process_def unassign_quantum_def unlocked_super_def set_rsp_process_def
        unset_superlock_def UNLOCKED_def LOCKED_def m_def pm_def d'_def put_proc_def
        kthen_def kbind_def fun_eq_iff)
  note start = this [unfolded code_order]
  have np: "st (node_proc s1 x) = st (node_proc s x) \<and> pid (node_proc s1 x) = pid (node_proc s x) \<and> node_live s1 x"
    if "x \<in> set (n # ns)" for x
    using live [OF that] n(3,6)
    by (auto simp: node_live_def node_proc_def s1_def s0_def m_def pm_def d'_def)
  then have st1: "runnable (node_proc s1 x) = runnable (node_proc s x)"
      "is_delete_process (node_proc s1 x) = is_delete_process (node_proc s x)" if "x \<in> set (n # ns)" for x
    using that by (auto simp: runnable_iff is_delete_process_def)
  have chain_m: "chain m xs e = chain (sched_nodes s) xs e" for xs e
    using n(3) by (induction xs) (auto simp: m_def d'_def)
  have "ring m (ns @ [n])"
    using ring_rotate [OF r0] by (simp add: ring_def chain_m)
  then have ok1: "sched_ok s1 (ns @ [n])" using np by (auto simp: sched_ok_def s1_def s0_def)
  have good1: "kernel_good s1"
  proof -
    have "mutex_is_open k s0 = mutex_is_open k s" for k by (simp add: mutex_is_open_def s0_def)
    then have "quiet s0"
      using good n(2,3) by (auto simp: kernel_good_def quiet_def idle_mutex_def allocator_ready_def s0_def m_def)
    moreover have "sched_nodes s0 (hd (ns @ [n])) \<noteq> None"
      using live by (cases ns) (auto simp: s0_def m_def node_live_def)
    ultimately have "quiet s1" unfolding s1_def by (rule quiet_current)
    moreover have "table_ok s1"
      using good n(6) by (auto simp: kernel_good_def table_ok_def s1_def s0_def pm_def)
    ultimately show ?thesis by (simp add: kernel_good_def)
  qed
  have "r \<in> set (ns @ [n])" using r(1) by auto
  then obtain vs rs where vs: "ns @ [n] = vs @ r # rs" by (meson split_list)
  have "length (vs @ r # rs) = Suc (length ns)" by (simp flip: vs)
  then have "length vs < QUEUE_BOUND" using len by simp
  moreover have "runnable (node_proc s1 r)" using st1(1) [OF r(1)] r(2) by simp
  ultimately obtain s2 us c rest where w: "set_next_current s1 = Ret () s2" "vs @ r # rs = us @ c # rest"
      "length us \<le> length vs" "sched_ok s2 (c # rest @ filter (\<lambda>x. \<not> is_delete_process (node_proc s1 x)) us)"
      "kernel_good s2" "runnable (node_proc s2 c)" "\<forall>x \<in> set us. \<not> runnable (node_proc s1 x)"
      "evolves (procs s1) (procs s2)" "same_nodes s1 s2" "process_table s2 = reap s1 us (process_table s1)"
    using walk_run [of s1 vs r rs QUEUE_BOUND] ok1 good1 vs unfolding set_next_current_def by metis
  define s' where "s' = s2\<lparr>superlock := UNLOCKED\<rparr>"
  have us: "set us \<subseteq> set (n # ns)" "set (us @ c # rest) = set (n # ns)"
    using arg_cong [OF w(2), of set] arg_cong [OF vs, of set] by auto
  have "node_live s2 c" "current s2 = c" using w(4) by (auto simp: sched_ok_def)
  then have "next_process sp s = Ret (rsp (node_proc s' c)) s'"
    unfolding start w(1) by (auto simp: node_live_def node_proc_def get_rsp_process_def s'_def)
  moreover have "ns @ [n] = us @ c # rest" using vs w(2) by simp
  moreover have "c = r \<or> r \<in> set rest"
    using w(2,3) by (auto simp: append_eq_append_conv2 Cons_eq_append_conv append_eq_Cons_conv)
  moreover have "filter (\<lambda>x. \<not> is_delete_process (node_proc s1 x)) us = filter (\<lambda>x. \<not> is_delete_process (node_proc s x)) us"
    using us(1) st1(2) by (intro filter_cong) auto
  then have "sched_ok s' (c # rest @ filter (\<lambda>x. \<not> is_delete_process (node_proc s x)) us)"
    using w(4) by (simp add: s'_def)
  moreover have "kernel_good s'" "runnable (node_proc s' c)" using w(5,6) by (simp_all add: s'_def)
  moreover have "runnable (node_proc s' r)"
  proof -
    have "node_live s1 r" using np r(1) by blast
    from node_live_evolves [OF this w(9,8)] st1(1) [OF r(1)] r(2) same_process_runnable
    show ?thesis by (auto simp: s'_def)
  qed
  moreover have "\<forall>x \<in> set us. \<not> runnable (node_proc s x)" using w(7) us(1) st1(1) by blast
  moreover have "process_table s' = reap s us (process_table s)"
  proof -
    have "reap s1 us t = reap s us t" for t
      using us(1) np st1(2) by (intro reap_cong) blast
    then show ?thesis using w(10) by (simp add: s'_def s1_def s0_def)
  qed
  moreover have "superlock s' = UNLOCKED" by (simp add: s'_def)
  moreover have c: "c \<in> set (n # ns)" using us(2) by auto
  have ev: "same_process (node_proc s1 x) (node_proc s' x)" if "x \<in> set (n # ns)" for x
    using node_live_evolves [OF _ w(9,8), of x] np [OF that] by (simp add: s'_def)
  moreover have "runnable (node_proc s c) \<or> st (node_proc s c) = BLOCKED_FOREGROUND"
    using ev [OF c] np [OF c] w(6) by (auto simp: same_process_def runnable_iff s'_def)
  moreover have "\<forall>x \<in> set (n # ns). rsp (node_proc s' x) =
      (if node_p (the (sched_nodes s x)) = node_p (the (sched_nodes s n)) then sp else rsp (node_proc s x))"
  proof
    fix x assume x: "x \<in> set (n # ns)"
    show "rsp (node_proc s' x) =
      (if node_p (the (sched_nodes s x)) = node_p (the (sched_nodes s n)) then sp else rsp (node_proc s x))"
      using same_process_fields(3) [OF ev [OF x]] n(3,6) live [OF x]
      by (auto simp: node_proc_def node_live_def s1_def s0_def m_def pm_def d'_def)
  qed
  ultimately show ?thesis
    by - (rule exI [of _ s'], rule exI [of _ us], rule exI [of _ c], rule exI [of _ rest], intro conjI; assumption)
qed

section \<open>The process table\<close>

lemma find_slot_first: "i < find_slot ds page \<Longrightarrow> ds ! i \<noteq> page"
  by (induction ds arbitrary: i) (auto simp: nth_Cons split: if_splits nat.splits)

lemma lock_table_run: "quiet s \<Longrightarrow> lock_table s = Ret () (enter (table_mutex_key s) s)"
  using lock_idle [of "table_mutex_key s" s] quietD [of s] by (auto simp: lock_table_def)

lemma unlock_table_run:
  assumes "quiet s" "open_mutexes t = open_mutexes (enter (table_mutex_key s) s)"
    and "table_mutex_key t = table_mutex_key s"
  shows "unlock_table t = Ret () (exit_from (table_mutex_key s) t)"
    "open_mutexes (exit_from (table_mutex_key s) t) = open_mutexes s"
  using unlock_entered [of "table_mutex_key s" s t] quietD [OF assms(1)] assms(2,3)
  by (auto simp: unlock_table_def)

lemma insert_process_run:
  assumes "kernel_good s" "procs s p = Some d"
  defines "i \<equiv> find_slot (process_table s) NULL"
  shows "\<exists>s'. insert_process p s = Ret (if i < MAX_PROCESSES then int i else - 1) s' \<and> frame s s' \<and>
    kpages s' = kpages s \<and> kstacks s' = kstacks s \<and> umem s' = umem s \<and>
    (if i < MAX_PROCESSES
     then process_table s' = (process_table s)[i := p] \<and> procs s' = (procs s)(p \<mapsto> d\<lparr>pid := i\<rparr>) \<and>
          n_processes s' = incr64 (n_processes s)
     else process_table s' = process_table s \<and> procs s' = procs s \<and> n_processes s' = n_processes s)"
proof -
  have q: "quiet s" using assms(1) by (simp add: kernel_good_def)
  let ?k = "table_mutex_key s"
  show ?thesis
  proof (cases "i < MAX_PROCESSES")
    case True
    let ?t = "process_table_update (\<lambda>t. t[i := p])
        (put_proc p (d\<lparr>pid := i\<rparr>) (n_processes_update incr64 (enter ?k s)))"
    have t: "open_mutexes ?t = open_mutexes (enter ?k s)" "table_mutex_key ?t = ?k" by (simp_all add: put_proc_def)
    note u = unlock_table_run [OF q t]
    have "insert_process p s = Ret (int i) (exit_from ?k ?t)"
      using lock_table_run [OF q] u(1) True assms(2)
      by (simp add: insert_process_def Let_def i_def [symmetric])
    then show ?thesis using True u(2) by (intro exI [of _ "exit_from ?k ?t"]) (simp add: frame_def put_proc_def)
  next
    case False
    note u = unlock_table_run [OF q, of "enter ?k s"]
    have "insert_process p s = Ret (- 1) (exit_from ?k (enter ?k s))"
      using lock_table_run [OF q] u(1) False
      by (simp add: insert_process_def Let_def i_def [symmetric])
    then show ?thesis using False u(2)
      by (intro exI [of _ "exit_from ?k (enter ?k s)"]) (simp add: frame_def)
  qed
qed

section \<open>Properties\<close>


text \<open>
  C5. No process starves: with each switch, a process that can run and waits its turn either
  gets the processor or moves strictly closer to the front of the ring.
\<close>

theorem scheduler_progress:
  assumes "sched_ok s (n # ns)" "kernel_good s" "superlock s = UNLOCKED"
    and "quantum (the (sched_nodes s n)) \<le> 1"
    and "r \<in> set ns" "runnable (node_proc s r)" "length ns < QUEUE_BOUND"
  shows "\<exists>s' ns'. next_process sp s = Ret (rsp (node_proc s' (hd ns'))) s' \<and> sched_ok s' ns' \<and> kernel_good s' \<and>
    r \<in> set ns' \<and> runnable (node_proc s' r) \<and>
    (hd ns' = r \<or> find_slot ns' r < find_slot (n # ns) r)"
proof -
  obtain s' us c rest where s': "next_process sp s = Ret (rsp (node_proc s' c)) s'" "ns @ [n] = us @ c # rest"
      "c = r \<or> r \<in> set rest" "sched_ok s' (c # rest @ filter (\<lambda>x. \<not> is_delete_process (node_proc s x)) us)"
      "kernel_good s'" "runnable (node_proc s' r)"
    using next_process_run [OF assms(1-4) _ assms(6,7)] assms(5) by (metis list.set_intros(2))
  have rn: "r \<noteq> n" "distinct ns" "n \<notin> set ns" using assms(1,5) by (auto simp: sched_ok_def ring_def)
  have slot: "find_slot (xs @ ys) r = (if r \<in> set xs then find_slot xs r else length xs + find_slot ys r)" for xs ys
    by (induction xs) auto
  have "c = r \<or> find_slot (c # rest @ zs) r < find_slot (n # ns) r" for zs
  proof (cases "c = r")
    case False
    then have "r \<in> set rest" using s'(3) by blast
    have "distinct (us @ c # rest)" using rn(2,3) by (simp flip: s'(2))
    then have "r \<notin> set us" using \<open>r \<in> set rest\<close> by auto
    have "find_slot (ns @ [n]) r = length us + find_slot (c # rest) r"
      unfolding s'(2) using slot [of us "c # rest"] \<open>r \<notin> set us\<close> by simp
    moreover have "find_slot (ns @ [n]) r = find_slot ns r" using slot [of ns "[n]"] assms(5) by simp
    moreover have "find_slot (n # ns) r = Suc (find_slot ns r)" using rn(1) by simp
    moreover have "find_slot (c # rest @ zs) r = find_slot (c # rest) r"
      using slot [of "c # rest" zs] \<open>r \<in> set rest\<close> by simp
    ultimately show ?thesis by simp
  qed simp
  then show ?thesis using s'(1,3-6)
    by (intro exI [of _ s'] exI [of _ "c # rest @ filter (\<lambda>x. \<not> is_delete_process (node_proc s x)) us"]) auto
qed


text \<open>
  \<open>insert_process\<close> gives a process the least free pid and enters it there; with a full
  table it returns -1 and changes neither the table nor any descriptor.
\<close>

theorem insert_process_least_pid:
  assumes "kernel_good s" "procs s p = Some d"
  shows "\<exists>s'. frame s s' \<and>
    (if NULL \<in> set (process_table s)
     then \<exists>i < MAX_PROCESSES. insert_process p s = Ret (int i) s' \<and> process_table s ! i = NULL \<and>
            (\<forall>j < i. process_table s ! j \<noteq> NULL) \<and> process_table s' = (process_table s)[i := p] \<and>
            procs s' = (procs s)(p \<mapsto> d\<lparr>pid := i\<rparr>)
     else insert_process p s = Ret (- 1) s' \<and> process_table s' = process_table s \<and> procs s' = procs s)"
proof -
  let ?i = "find_slot (process_table s) NULL"
  have len: "length (process_table s) = MAX_PROCESSES" using assms(1) by (simp add: kernel_good_def table_ok_def)
  obtain s' where s': "insert_process p s = Ret (if ?i < MAX_PROCESSES then int ?i else - 1) s'" "frame s s'"
      "if ?i < MAX_PROCESSES
       then process_table s' = (process_table s)[?i := p] \<and> procs s' = (procs s)(p \<mapsto> d\<lparr>pid := ?i\<rparr>) \<and>
            n_processes s' = incr64 (n_processes s)
       else process_table s' = process_table s \<and> procs s' = procs s \<and> n_processes s' = n_processes s"
    using insert_process_run [OF assms] by blast
  have iff: "NULL \<in> set (process_table s) \<longleftrightarrow> ?i < MAX_PROCESSES" using find_slot_less len by metis
  show ?thesis
  proof (cases "?i < MAX_PROCESSES")
    case True
    have "process_table s ! ?i = NULL" using find_slot_nth True len by metis
    then have "\<exists>i < MAX_PROCESSES. insert_process p s = Ret (int i) s' \<and> process_table s ! i = NULL \<and>
            (\<forall>j < i. process_table s ! j \<noteq> NULL) \<and> process_table s' = (process_table s)[i := p] \<and>
            procs s' = (procs s)(p \<mapsto> d\<lparr>pid := i\<rparr>)"
      using s'(1,3) True find_slot_first by (intro exI [of _ ?i]) auto
    then show ?thesis using s'(2) True iff by (intro exI [of _ s']) simp
  next
    case False
    then show ?thesis using s' iff by (intro exI [of _ s']) simp
  qed
qed

section \<open>Instances\<close>

text \<open>Three processes in the ring: the running one, a killed one, and one that can run.\<close>

definition sched_demo :: kstate where
  "sched_demo =
     (demo_state 9 (demo_mutex UNLOCKED create_queue))
       \<lparr>procs := [0x501000 \<mapsto> demo_process 2 READY, 0x502000 \<mapsto> demo_process 3 DELETE,
                  0x508000 \<mapsto> (demo_process 4 READY)\<lparr>rsp := 77\<rparr>],
        process_table := (replicate 128 NULL)[2 := 0x501000, 3 := 0x502000, 4 := 0x508000],
        sched_nodes := [0x503000 \<mapsto> \<lparr>quantum = 1, node_p = 0x501000, node_next = 0x504000\<rparr>,
                        0x504000 \<mapsto> \<lparr>quantum = 1, node_p = 0x502000, node_next = 0x505000\<rparr>,
                        0x505000 \<mapsto> \<lparr>quantum = 1, node_p = 0x508000, node_next = 0x503000\<rparr>],
        current := 0x503000, prev := 0x505000\<rparr>"

lemma sched_demo_fields:
  "procs sched_demo = [0x501000 \<mapsto> demo_process 2 READY, 0x502000 \<mapsto> demo_process 3 DELETE,
     0x508000 \<mapsto> (demo_process 4 READY)\<lparr>rsp := 77\<rparr>]"
  "sched_nodes sched_demo = [0x503000 \<mapsto> \<lparr>quantum = 1, node_p = 0x501000, node_next = 0x504000\<rparr>,
     0x504000 \<mapsto> \<lparr>quantum = 1, node_p = 0x502000, node_next = 0x505000\<rparr>,
     0x505000 \<mapsto> \<lparr>quantum = 1, node_p = 0x508000, node_next = 0x503000\<rparr>]"
  "current sched_demo = 0x503000" "prev sched_demo = 0x505000" "superlock sched_demo = UNLOCKED"
  "process_table sched_demo = (replicate 128 NULL)[2 := 0x501000, 3 := 0x502000, 4 := 0x508000]"
  by (simp_all add: sched_demo_def demo_state_def static_kstate_def)

lemma sched_demo_ok: "sched_ok sched_demo [0x503000, 0x504000, 0x505000]"
  by (simp add: sched_ok_def ring_def node_live_def sched_demo_fields)

lemma sched_demo_good: "kernel_good sched_demo"
proof -
  have "allocator_ready sched_demo"
    by (simp add: sched_demo_def allocator_ready_def demo_defs mutex_is_open_def kq_is_empty_def is_empty_def
        create_queue_def)
  moreover have "table_mutex_key sched_demo = -1" "stack_memory_mutex_key sched_demo = -1"
    by (simp_all add: sched_demo_def demo_state_def static_kstate_def)
  moreover have "set (process_table sched_demo) \<subseteq> {NULL, 0x501000, 0x502000, 0x508000}"
    unfolding sched_demo_fields by (auto dest!: subsetD [OF set_update_subset_insert])
  ultimately show ?thesis
    by (auto simp: kernel_good_def quiet_def idle_mutex_def mutex_is_open_def table_ok_def sched_demo_fields
        demo_process_def MAX_PROCESSES_def split: if_splits)
qed

lemma sched_demo_run: "runnable (node_proc sched_demo 0x505000)" "quantum (the (sched_nodes sched_demo 0x503000)) \<le> 1"
  by (simp_all add: runnable_iff node_proc_def sched_demo_fields demo_process_def)


theorem scheduler_progress_witness:
  "\<exists>s' ns'. next_process 42 sched_demo = Ret (rsp (node_proc s' (hd ns'))) s' \<and> sched_ok s' ns' \<and>
     (0x505000 \<in> set ns' \<and> runnable (node_proc s' 0x505000))"
proof -
  have r: "(0x505000 :: addr) \<in> set [0x504000, 0x505000]" "length [0x504000, 0x505000 :: addr] < QUEUE_BOUND"
    by (simp_all add: QUEUE_BOUND_def STACK_SIZE_def)
  show ?thesis
    using scheduler_progress [OF sched_demo_ok sched_demo_good sched_demo_fields(5) sched_demo_run(2)
        r(1) sched_demo_run(1) r(2), of 42] by blast
qed


theorem insert_process_least_pid_witness:
  "\<exists>s'. insert_process 0x508000 sched_demo = Ret 0 s' \<and> process_table s' ! 0 = 0x508000"
proof -
  have p: "procs sched_demo 0x508000 = Some ((demo_process 4 READY)\<lparr>rsp := 77\<rparr>)"
    by (simp add: sched_demo_fields)
  have t: "process_table sched_demo ! 0 = NULL" "length (process_table sched_demo) = 128"
    by (simp_all add: sched_demo_fields)
  then have "NULL \<in> set (process_table sched_demo)" by (metis nth_mem zero_less_numeral)
  with insert_process_least_pid [OF sched_demo_good p] obtain s' i where
    i: "insert_process 0x508000 sched_demo = Ret (int i) s'" "\<forall>j < i. process_table sched_demo ! j \<noteq> NULL"
      "process_table s' = (process_table sched_demo)[i := 0x508000]" "i < MAX_PROCESSES"
    by auto
  then have "i = 0" using t(1) by (metis gr_zeroI)
  with i t(2) show ?thesis by auto
qed

end
