(* ===== verification/CondVar.thy ===== *)
theory CondVar
  imports Scheduler MutexContract CLib
begin

text \<open>
  \<open>Kernel/condVariable.c\<close>: condition variables, each with a queue of waiting processes and a
  mutex of its own that protects the queue.
\<close>

section \<open>The waiting queue of a condition variable\<close>

definition cond_queue :: "nat \<Rightarrow> queue_ref" where
  "cond_queue i =
     (\<lambda>s. c_queue (open_conds s ! i),
      \<lambda>q s. s\<lparr>open_conds := (open_conds s)[i := (open_conds s ! i)\<lparr>c_queue := q\<rparr>]\<rparr>)"

definition update_cond :: "nat \<Rightarrow> (cond_variable \<Rightarrow> cond_variable) \<Rightarrow> unit kop" where
  "update_cond i f = kmodify (\<lambda>s. s\<lparr>open_conds := (open_conds s)[i := f (open_conds s ! i)]\<rparr>)"

definition cond_is_open :: "int \<Rightarrow> kstate \<Rightarrow> bool" where
  "cond_is_open key s \<longleftrightarrow>
     key \<ge> 0 \<and> key < int MAX_COND_VAR \<and> c_state (open_conds s ! nat key) = OPEN"

section \<open>Opening\<close>

definition COND_LOCK_IDENTIFIER :: "byte list" where
  "COND_LOCK_IDENTIFIER = cstring ''__COND_ARRAY_LOCK__''"

definition initialize_conditional_variable :: "int kop" where
  "initialize_conditional_variable =
     kbind (mutex_open COND_LOCK_IDENTIFIER) (\<lambda>k.
       kthen (kmodify (\<lambda>s. s\<lparr>cond_array_lock := k\<rparr>)) (kreturn 1))"

text \<open>The name of the mutex of variable \<open>key\<close>: its number in decimal and the identifier.\<close>

definition cond_lock_name :: "nat \<Rightarrow> byte list option" where
  "cond_lock_name key =
     Option.bind (itoa (of_nat key) 10) (\<lambda>(b, digits).
     Option.bind (poke_list (replicate IPC_NAME_LEN 0) 0 b) (\<lambda>aux.
     map_option (\<lambda>(t, n). take digits aux @ t) (strcpy (drop digits aux) COND_LOCK_IDENTIFIER)))"

definition create_new_cond :: "nat \<Rightarrow> byte list \<Rightarrow> unit kop" where
  "create_new_cond key nm =
     kbind (koption Out_of_bounds (cond_lock_name key)) (\<lambda>aux.
     kbind (mutex_open aux) (\<lambda>k.
     kthen (update_cond key (lock_queue_update (\<lambda>_. k))) (
     kbind (kgets (\<lambda>s. strcpy (c_name (open_conds s ! key)) nm)) (\<lambda>r.
     kbind (koption Out_of_bounds r) (\<lambda>(n, len).
     kseq [update_cond key (c_name_update (\<lambda>_. n)), update_cond key (c_state_update (\<lambda>_. OPEN))] (
     kbind kcreate_queue (\<lambda>q. update_cond key (c_queue_update (\<lambda>_. q)))))))))"

text \<open>The search compares the other way round than those of mutexes and fifos.\<close>

fun search_cond :: "byte list \<Rightarrow> cond_variable list \<Rightarrow> nat \<Rightarrow> search option" where
  "search_cond nm [] i = Some (Vacant i)"
| "search_cond nm (v # vs) i =
     (if c_state v = OPEN
      then Option.bind (strcmp (c_name v) nm) (\<lambda>c. if c = 0 then Some (Found i) else search_cond nm vs (Suc i))
      else Some (Vacant i))"

definition cond_open :: "byte list \<Rightarrow> int kop" where
  "cond_open nm =
     kbind (kgets cond_array_lock) (\<lambda>array_lock.
     kthen (kignore (mutex_lock array_lock)) (
     kbind (kgets (\<lambda>s. search_cond nm (open_conds s) 0)) (\<lambda>r.
       case r of
         None \<Rightarrow> kfault Out_of_bounds
       | Some (Found i) \<Rightarrow> kthen (kignore (mutex_unlock array_lock)) (kreturn (int i))
       | Some (Vacant i) \<Rightarrow>
           if i = MAX_COND_VAR
           then kthen (kignore (mutex_unlock array_lock)) (kreturn MAX_COND_OPEN_ERROR)
           else kseq [create_new_cond i nm, kignore (mutex_unlock array_lock)] (kreturn (int i)))))"

section \<open>Waiting and waking\<close>

definition sync_enqueue :: "nat \<Rightarrow> addr \<Rightarrow> unit kop" where
  "sync_enqueue i p =
     kbind (kgets (\<lambda>s. lock_queue (open_conds s ! i))) (\<lambda>k.
       kseq [kignore (mutex_lock k), kenqueue (cond_queue i) p] (
     kbind (kgets (\<lambda>s. lock_queue (open_conds s ! i))) (\<lambda>k. kignore (mutex_unlock k))))"

definition sync_dequeue :: "nat \<Rightarrow> addr kop" where
  "sync_dequeue i =
     kbind (kgets (\<lambda>s. lock_queue (open_conds s ! i))) (\<lambda>k.
     kthen (kignore (mutex_lock k)) (
     kbind (kgets (\<lambda>s. kq_is_empty (c_queue (open_conds s ! i)))) (\<lambda>none.
     kbind (if \<not> none then kdequeue (cond_queue i) else kreturn NULL) (\<lambda>p.
     kbind (kgets (\<lambda>s. lock_queue (open_conds s ! i))) (\<lambda>k.
     kthen (kignore (mutex_unlock k)) (kreturn p))))))"

definition cond_wait :: "int \<Rightarrow> int \<Rightarrow> int kop" where
  "cond_wait cond_key lock_key =
     kbind (kgets (cond_is_open cond_key)) (\<lambda>opened.
       if opened then
         kbind get_current_process (\<lambda>p.
         kseq [kignore (mutex_unlock lock_key),
               sync_enqueue (nat cond_key) p,
               update_proc_or_null p block_process,
               yield_process,
               kignore (mutex_lock lock_key)] (kreturn 1))
       else kreturn NOT_OPEN_ERROR)"

definition cond_signal :: "int \<Rightarrow> int kop" where
  "cond_signal key =
     kbind (kgets (cond_is_open key)) (\<lambda>opened.
       if opened then
         kbind (sync_dequeue (nat key)) (\<lambda>p.
           kthen (kwhen (p \<noteq> NULL) (update_proc_or_null p unblock_process)) (kreturn 1))
       else kreturn NOT_OPEN_ERROR)"

definition cond_broadcast :: "int \<Rightarrow> int kop" where
  "cond_broadcast key =
     kbind (kgets (cond_is_open key)) (\<lambda>opened.
       if opened then
         kbind (kgets (\<lambda>s. lock_queue (open_conds s ! nat key))) (\<lambda>k.
           kseq [kignore (mutex_lock k),
                 kdrain (cond_queue (nat key)) (\<lambda>p. update_proc_or_null p unblock_process)] (
         kbind (kgets (\<lambda>s. lock_queue (open_conds s ! nat key))) (\<lambda>k.
           kthen (kignore (mutex_unlock k)) (kreturn 1))))
       else kreturn NOT_OPEN_ERROR)"

definition cond_close :: "int \<Rightarrow> int kop" where
  "cond_close key =
     kbind (kgets (cond_is_open key)) (\<lambda>opened.
       if opened then
         kseq [kignore (cond_broadcast key),
               kdestroy_queue (cond_queue (nat key)),
               kbind (kgets (\<lambda>s. lock_queue (open_conds s ! nat key))) (\<lambda>k. kignore (mutex_close k)),
               update_cond (nat key) (c_state_update (\<lambda>_. CLOSED))] (kreturn 1)
       else kreturn NOT_OPEN_ERROR)"

record cond_info =
  ci_name :: "byte list"
  ci_key :: int

definition fill_conds_info :: "kstate \<Rightarrow> nat \<Rightarrow> cond_info" where
  "fill_conds_info s key = \<lparr>ci_name = cstr (c_name (open_conds s ! key)), ci_key = int key\<rparr>"

definition get_conds_info :: "cond_info list kop" where
  "get_conds_info =
     kbind (kgets cond_array_lock) (\<lambda>array_lock.
     kthen (kignore (mutex_lock array_lock)) (
     kbind (kgets (\<lambda>s. map (fill_conds_info s) (filter (\<lambda>i. cond_is_open (int i) s) [0..<MAX_COND_VAR]))) (\<lambda>info.
     kthen (kignore (mutex_unlock array_lock)) (kreturn info))))"

section \<open>The queue as the allocator's client\<close>

text \<open>
  The laws of \<open>state_queue\<close> hold in the states with given mutexes and a given lock for the
  queue: no operation on the queue changes them.
\<close>

definition client_cond :: "nat \<Rightarrow> mutex list \<Rightarrow> int \<Rightarrow> kstate \<Rightarrow> bool" where
  "client_cond i ms k s \<longleftrightarrow> i < length (open_conds s) \<and> open_mutexes s = ms \<and> lock_queue (open_conds s ! i) = k"

interpretation cond_q: state_queue get_page store_page "cond_queue i" "client_cond i ms k" for i ms k
  by unfold_locales
     (auto simp: cond_queue_def client_cond_def same_defs settle_def put_proc_def allocator_ready_def
        mutex_is_open_def)

lemma enter_more [simp]:
  "open_conds (enter k s) = open_conds s" "requests (enter k s) = requests s" "open_fifos (enter k s) = open_fifos s"
  "sleeping_processes (enter k s) = sleeping_processes s"
  by (simp_all add: enter_def set_locked_def)

lemma exit_more [simp]:
  "open_conds (exit_from k s) = open_conds s" "requests (exit_from k s) = requests s"
  "open_fifos (exit_from k s) = open_fifos s" "sleeping_processes (exit_from k s) = sleeping_processes s"
  by (simp_all add: exit_from_def set_locked_def)

lemma exit_cond_open [simp]: "cond_is_open key (exit_from k s) = cond_is_open key s"
  by (simp add: cond_is_open_def)

text \<open>
  \<open>cond_good i s\<close>: the kernel is between two system calls, the mutex of the queue of variable
  \<open>i\<close> is free; \<open>cond_holds\<close> adds what the queue holds.
\<close>

definition cond_good :: "nat \<Rightarrow> kstate \<Rightarrow> bool" where
  "cond_good i s \<longleftrightarrow> i < length (open_conds s) \<and> allocator_ready s \<and> sched_nodes s (current s) \<noteq> None \<and>
     idle_mutex (lock_queue (open_conds s ! i)) s \<and> q_page (c_queue (open_conds s ! i)) \<noteq> NULL"

definition cond_holds :: "nat \<Rightarrow> kstate \<Rightarrow> (addr \<times> addr) list \<Rightarrow> bool" where
  "cond_holds i s xs \<longleftrightarrow> queue_holds (q_links (c_queue (open_conds s ! i))) xs \<and>
     length xs \<le> current_index (kpages s) \<and> length xs < QUEUE_BOUND \<and>
     (\<forall>x \<in> snd ` set xs. x \<noteq> NULL \<and> procs s x \<noteq> None)"

lemma cond_goodD:
  assumes "cond_good i s"
  defines "k \<equiv> lock_queue (open_conds s ! i)"
  shows "client_cond i (open_mutexes (enter k s)) k (enter k s)" "allocator_ready (enter k s)"
    "\<exists>v. mutex_lock k s = Ret v (enter k s)" "length (open_mutexes s) = MAX_MUTEXES"
    "q_page (fst (cond_queue i) (enter k s)) \<noteq> NULL"
  using assms lock_idle [of k s] enter_ready [of s k]
  by (auto simp: cond_good_def client_cond_def allocator_ready_def cond_queue_def)

section \<open>Broadcast and signal\<close>

lemma broadcast_run:
  assumes "cond_good i s" "cond_holds i s xs" "cond_is_open (int i) s"
  shows "\<exists>s'. cond_broadcast (int i) s = Ret 1 s' \<and> procs s' = wake unblock_process (map snd xs) (procs s) \<and>
    queue_holds (q_links (c_queue (open_conds s' ! i))) [] \<and> open_mutexes s' = open_mutexes s \<and>
    sched_nodes s' = sched_nodes s \<and> current s' = current s"
proof -
  let ?k = "lock_queue (open_conds s ! i)" and ?r = "cond_queue i"
  note g = cond_goodD [OF assms(1)]
  let ?t = "enter ?k s"
  have xs: "queue_holds (q_links (fst ?r ?t)) xs" "length xs \<le> current_index (kpages ?t)" "length xs < QUEUE_BOUND"
      "\<forall>x \<in> snd ` set xs. x \<noteq> NULL \<and> procs ?t x \<noteq> None"
    using assms(2) by (auto simp: cond_holds_def cond_queue_def)
  obtain t where t: "drain_with store_page ?r (\<lambda>p. update_proc_or_null p unblock_process) QUEUE_BOUND ?t = Ret () t"
      "client_cond i (open_mutexes ?t) ?k t" "same_sched ?t t"
      "procs t = wake unblock_process (map ((\<lambda>x. x) \<circ> snd) xs) (procs ?t)" "queue_holds (q_links (fst ?r t)) []"
    using cond_q.drain_run [OF g(1,2) xs(2,3) g(5) xs(1,4), of "\<lambda>p. update_proc_or_null p unblock_process" unblock_process]
    by blast
  have same: "open_mutexes t = open_mutexes ?t" "lock_queue (open_conds t ! i) = ?k"
    using t(2) by (auto simp: client_cond_def)
  obtain v where v: "mutex_unlock ?k t = Ret v (exit_from ?k t)" "open_mutexes (exit_from ?k t) = open_mutexes s"
    using unlock_entered [OF _ same(1) g(4)] assms(1) by (auto simp: cond_good_def)
  have "cond_broadcast (int i) s = Ret 1 (exit_from ?k t)"
    using assms(3) g(3) t(1) v(1) same(2) by (auto simp: cond_broadcast_def kdrain_def)
  then show ?thesis using t(3-5) v(2) by (auto simp: same_defs cond_queue_def comp_def)
qed

lemma signal_run:
  assumes "cond_good i s" "cond_holds i s xs" "cond_is_open (int i) s"
  shows "\<exists>s'. cond_signal (int i) s = Ret 1 s' \<and>
    queue_holds (q_links (c_queue (open_conds s' ! i))) (tl xs) \<and> open_mutexes s' = open_mutexes s \<and>
    procs s' = (case xs of [] \<Rightarrow> procs s | (_, p) # _ \<Rightarrow> (procs s)(p \<mapsto> unblock_process (the (procs s p))))"
proof -
  let ?k = "lock_queue (open_conds s ! i)" and ?r = "cond_queue i"
  note g = cond_goodD [OF assms(1)]
  let ?t = "enter ?k s"
  have holds: "queue_holds (q_links (fst ?r ?t)) xs" using assms(2) by (simp add: cond_holds_def cond_queue_def)
  have emp: "kq_is_empty (c_queue (open_conds ?t ! i)) \<longleftrightarrow> xs = []"
    using g(5) lq.empty_test [OF holds] by (auto simp: kq_is_empty_def cond_queue_def)
  have idle: "idle_mutex ?k s" using assms(1) by (simp add: cond_good_def)
  show ?thesis
  proof (cases xs)
    case Nil
    obtain v where v: "mutex_unlock ?k ?t = Ret v (exit_from ?k ?t)" "open_mutexes (exit_from ?k ?t) = open_mutexes s"
      using unlock_entered [OF idle refl g(4)] by blast
    have "cond_signal (int i) s = Ret 1 (exit_from ?k ?t)"
      using assms(3) g(3) v(1) emp Nil by (auto simp: cond_signal_def sync_dequeue_def)
    then show ?thesis using holds v(2) Nil by (simp add: cond_queue_def)
  next
    case (Cons ap ys)
    obtain a p where ap: "ap = (a, p)" by force
    have pages: "0 < current_index (kpages ?t)" using assms(2) Cons by (auto simp: cond_holds_def)
    obtain d where d: "p \<noteq> NULL" "procs s p = Some d" using assms(2) Cons ap by (auto simp: cond_holds_def)
    obtain t where t: "dequeue_with store_page ?r ?t = Ret p t" "client_cond i (open_mutexes ?t) ?k t"
        "same_tables ?t t" "queue_holds (q_links (fst ?r t)) ys"
      using cond_q.dequeue_run [OF g(1,2) pages g(5), of a p ys] holds Cons ap by blast
    have same: "open_mutexes t = open_mutexes ?t" "lock_queue (open_conds t ! i) = ?k"
      using t(2) by (auto simp: client_cond_def)
    obtain v where v: "mutex_unlock ?k t = Ret v (exit_from ?k t)" "open_mutexes (exit_from ?k t) = open_mutexes s"
      using unlock_entered [OF idle same(1) g(4)] by blast
    have p: "procs (exit_from ?k t) p = Some d" using t(3) d by (simp add: same_defs)
    have "cond_signal (int i) s = Ret 1 (put_proc p (unblock_process d) (exit_from ?k t))"
      using assms(3) g(3) t(1) v(1) same(2) emp Cons d p by (auto simp: cond_signal_def sync_dequeue_def kdequeue_def)
    then show ?thesis using t(3,4) v(2) Cons ap d by (auto simp: same_defs cond_queue_def put_proc_def)
  qed
qed

section \<open>Waiting\<close>

lemma sync_enqueue_run:
  assumes "cond_good i s" "queue_holds (q_links (c_queue (open_conds s ! i))) xs"
    and "pop_page (kpages s) = Some (a, pg)" "a \<noteq> NULL" "a \<notin> fst ` set xs"
  shows "\<exists>s'. sync_enqueue i p s = Ret () s' \<and> open_mutexes s' = open_mutexes s \<and>
    procs s' = (procs s)(a := None) \<and> sched_nodes s' = (sched_nodes s)(a := None) \<and> current s' = current s \<and>
    queue_holds (q_links (c_queue (open_conds s' ! i))) (xs @ [(a, p)])"
proof -
  let ?k = "lock_queue (open_conds s ! i)" and ?r = "cond_queue i"
  note g = cond_goodD [OF assms(1)]
  let ?t = "enter ?k s"
  have holds: "queue_holds (q_links (fst ?r ?t)) xs" using assms(2) by (simp add: cond_queue_def)
  have i: "i < length (open_conds s)" using assms(1) by (simp add: cond_good_def)
  have pop: "pop_page (kpages ?t) = Some (a, pg)" using assms(3) by simp
  obtain l where l: "enqueue_with get_page ?r p ?t =
        Ret () (snd ?r ((fst ?r ?t)\<lparr>q_links := l\<rparr>) (take_page a pg (settle ?t)))" "queue_holds l (xs @ [(a, p)])"
    using cond_q.enqueue_run [OF g(1,2) pop g(5) holds assms(4,5)] by blast
  define t where "t = snd ?r ((fst ?r ?t)\<lparr>q_links := l\<rparr>) (take_page a pg (settle ?t))"
  have t: "open_mutexes t = open_mutexes ?t" "lock_queue (open_conds t ! i) = ?k" "procs t = (procs s)(a := None)"
      "sched_nodes t = (sched_nodes s)(a := None)" "current t = current s" "q_links (c_queue (open_conds t ! i)) = l"
    using i by (simp_all add: t_def cond_queue_def)
  obtain v where v: "mutex_unlock ?k t = Ret v (exit_from ?k t)" "open_mutexes (exit_from ?k t) = open_mutexes s"
    using unlock_entered [OF _ t(1) g(4)] assms(1) by (auto simp: cond_good_def)
  have "sync_enqueue i p s = Ret () (exit_from ?k t)"
    using g(3) l(1) v(1) t(2) by (auto simp: sync_enqueue_def kenqueue_def t_def [symmetric])
  then show ?thesis using t l(2) v(2) by auto
qed

text \<open>
  \<open>wait_ready\<close>: process \<open>p\<close> runs, holds the mutex \<open>l\<close> nobody else waits for, and the page \<open>a\<close>
  the allocator hands out next is unused.
\<close>

definition wait_ready :: "kstate \<Rightarrow> addr \<Rightarrow> nat \<Rightarrow> nat \<Rightarrow> addr \<Rightarrow> bool" where
  "wait_ready s p i l a \<longleftrightarrow> cond_good i s \<and> cond_is_open (int i) s \<and> runs_process s p \<and>
     client_mutex l s \<and> mutex_is_open (int l) s \<and> kq_is_empty (m_queue (open_mutexes s ! l)) \<and>
     int l \<noteq> lock_queue (open_conds s ! i) \<and>
     a \<noteq> NULL \<and> a \<noteq> p \<and> a \<noteq> current s \<and> (\<forall>n. sched_nodes s (current s) = Some n \<longrightarrow> a \<noteq> node_next n) \<and>
     a \<notin> dom (nodes_of (q_links (c_queue (open_conds s ! i))))"

lemma idle_other:
  assumes "idle_mutex k s" "int l \<noteq> k"
  shows "idle_mutex k (set_locked l v (s\<lparr>superlock := w\<rparr>))"
proof -
  have "nat k \<noteq> l" if "mutex_is_open k s" using that assms(2) by (auto simp: mutex_is_open_def)
  moreover have "open_mutexes (set_locked l v (s\<lparr>superlock := w\<rparr>)) ! j = open_mutexes s ! j" if "j \<noteq> l" for j
    using that by (simp add: set_locked_def)
  ultimately show ?thesis using assms(1) by (auto simp: idle_mutex_def)
qed

lemma wait_run:
  assumes "wait_ready s p i l a" "pop_page (kpages s) = Some (a, pg)"
    and "queue_holds (q_links (c_queue (open_conds s ! i))) xs"
  shows "\<exists>s'. cond_wait (int i) (int l) s = Yld s' (kthen (kignore (mutex_lock (int l))) (kreturn 1)) \<and>
    procs s' p = Some (block_process (the (procs s p))) \<and> locked (open_mutexes s' ! l) = UNLOCKED \<and>
    queue_holds (q_links (c_queue (open_conds s' ! i))) (xs @ [(a, p)])"
proof -
  obtain n n' d where run: "sched_nodes s (current s) = Some n" "node_p n = p" "p \<noteq> NULL"
      "sched_nodes s (node_next n) = Some n'" "procs s p = Some d"
    using assms(1) by (auto simp: wait_ready_def runs_process_def)
  note w = assms(1) [unfolded wait_ready_def]
  define t where "t = set_locked l UNLOCKED (s\<lparr>superlock := UNLOCKED\<rparr>)"
  have unlock: "mutex_unlock (int l) s = Ret 1 t"
    using unlock_no_waiters [of "int l" s] w by (simp add: mutex_unlock_def t_def)
  have ready: "allocator_ready t"
    using w client_mutex_not_allocator [of l "s\<lparr>superlock := UNLOCKED\<rparr>"] by (simp add: t_def cond_good_def)
  have good: "cond_good i t"
    using w ready idle_other [of "lock_queue (open_conds s ! i)" s l] by (simp add: cond_good_def t_def)
  have fresh: "a \<notin> fst ` set xs" using w queue_holds_dom [OF assms(3)] by blast
  obtain t2 where t2: "sync_enqueue i p t = Ret () t2" "open_mutexes t2 = open_mutexes t"
      "procs t2 = (procs t)(a := None)" "sched_nodes t2 = (sched_nodes t)(a := None)" "current t2 = current t"
      "queue_holds (q_links (c_queue (open_conds t2 ! i))) (xs @ [(a, p)])"
    using sync_enqueue_run [OF good _ _ _ fresh, of pg p] assms(2,3) w by (auto simp: t_def)
  have t2': "procs t2 p = Some d" "sched_nodes t2 (current t2) = Some n" "sched_nodes t2 (node_next n) = Some n'"
    using t2 run w by (auto simp: t_def)
  let ?t3 = "put_proc p (block_process d) t2"
  obtain t4 where t4: "yield_process ?t3 = Yld t4 (kreturn ())" "procs t4 = procs ?t3"
      "open_mutexes t4 = open_mutexes ?t3" "open_conds t4 = open_conds ?t3"
    using yield_process_run [of ?t3 n] t2' by auto
  have "cond_wait (int i) (int l) s = Yld t4 (kthen (kignore (mutex_lock (int l))) (kreturn 1))"
    using w run unlock t2(1) t2' t4(1) by (simp add: cond_wait_def fun_eq_iff)
  moreover have "l < length (open_mutexes s)" using w by (simp add: client_mutex_def)
  ultimately show ?thesis using t2 t4 run by (simp add: t_def set_locked_def)
qed

section \<open>Properties\<close>


text \<open>
  \<open>cond_broadcast\<close> wakes every process that waits on the variable and empties its queue;
  mutexes and ring are as before.
\<close>

theorem cond_broadcast_wakes_all:
  assumes "cond_good i s" "cond_holds i s xs" "cond_is_open (int i) s"
  shows "\<exists>s'. cond_broadcast (int i) s = Ret 1 s' \<and> procs s' = wake unblock_process (map snd xs) (procs s) \<and>
    queue_holds (q_links (c_queue (open_conds s' ! i))) [] \<and> open_mutexes s' = open_mutexes s \<and>
    sched_nodes s' = sched_nodes s \<and> current s' = current s"
  by (rule broadcast_run [OF assms])

text \<open>
  A signal goes to the longest waiting process, even to one that has been killed: then
  nobody wakes although others may be waiting (\<open>mutex_unlock\<close> skips such processes).
\<close>

theorem cond_signal_first_even_dead:
  assumes "cond_good i s" "cond_holds i s ((a, p) # xs)" "cond_is_open (int i) s"
  shows "\<exists>s'. cond_signal (int i) s = Ret 1 s' \<and> queue_holds (q_links (c_queue (open_conds s' ! i))) xs \<and>
    (if is_dead s p then procs s' = procs s else procs s' = (procs s)(p \<mapsto> (the (procs s p))\<lparr>st := READY\<rparr>))"
proof -
  obtain s' where s': "cond_signal (int i) s = Ret 1 s'" "queue_holds (q_links (c_queue (open_conds s' ! i))) xs"
      "procs s' = (procs s)(p \<mapsto> unblock_process (the (procs s p)))"
    using signal_run [OF assms] by auto
  have "procs s p \<noteq> None" using assms(2) by (simp add: cond_holds_def)
  then have "(procs s)(p \<mapsto> the (procs s p)) = procs s" by (auto simp: fun_eq_iff)
  then show ?thesis using s' by (auto simp: unblock_process_def is_dead_def is_delete_process_def)
qed

section \<open>A concrete state\<close>

text \<open>Variable 0 with mutex 2 for its queue, in which a killed process waits before a live one.\<close>

definition cond_demo :: "queue \<Rightarrow> kstate" where
  "cond_demo q = (demo_state 9 (demo_mutex LOCKED create_queue))
     \<lparr>open_conds := (replicate 128 zero_cond)[0 := \<lparr>c_name = cstring ''c'', c_state = OPEN, lock_queue = 2,
        c_queue = \<lparr>q_page = 0x509000, q_links = q\<rparr>\<rparr>]\<rparr>"

lemma cond_demo_fields [simp]:
  "open_conds (cond_demo q) ! 0 = \<lparr>c_name = cstring ''c'', c_state = OPEN, lock_queue = 2,
     c_queue = \<lparr>q_page = 0x509000, q_links = q\<rparr>\<rparr>"
  "length (open_conds (cond_demo q)) = 128"
  "procs (cond_demo q) = procs (demo_state 9 (demo_mutex LOCKED create_queue))"
  "sched_nodes (cond_demo q) = sched_nodes (demo_state 9 (demo_mutex LOCKED create_queue))"
  "open_mutexes (cond_demo q) = open_mutexes (demo_state 9 (demo_mutex LOCKED create_queue))"
  "current (cond_demo q) = 0x503000"
  "kpages (cond_demo q) = \<lparr>pages_stack = map Suc [0..<255], current_index = 9\<rparr>"
  "memory_mutex_key (cond_demo q) = 0"
  by (simp_all add: cond_demo_def demo_state_def static_kstate_def MAX_COND_VAR_def)

lemma cond_demo_open: "cond_is_open 0 (cond_demo q)"
  by (simp add: cond_is_open_def ipc_defs)

lemma cond_demo_good: "cond_good 0 (cond_demo q)"
proof -
  have "allocator_ready (cond_demo q)"
    using demo_ready [of 9 "demo_mutex LOCKED create_queue"]
    by (simp add: allocator_ready_def mutex_is_open_def demo_state_def)
  moreover have "\<not> mutex_is_open 2 (cond_demo q)"
    by (simp add: mutex_is_open_def demo_defs zero_mutex_def)
  ultimately show ?thesis by (simp add: cond_good_def idle_mutex_def demo_state_def)
qed

lemma cond_demo_holds: "cond_holds 0 (cond_demo demo_queue) [(0x505000, 0x501000), (0x506000, 0x502000)]"
  using demo_queue_holds by (simp add: cond_holds_def QUEUE_BOUND_def STACK_SIZE_def demo_state_def)


theorem cond_broadcast_wakes_all_witness:
  "\<exists>s'. cond_broadcast 0 (cond_demo demo_queue) = Ret 1 s' \<and> procs s' 0x502000 = Some (demo_process 3 READY) \<and>
     procs s' 0x501000 = Some (demo_process 2 DELETE)"
  using cond_broadcast_wakes_all [OF cond_demo_good cond_demo_holds] cond_demo_open [of demo_queue]
  by (auto simp: demo_state_def demo_process_def unblock_process_def)

theorem cond_signal_first_even_dead_witness:
  "\<exists>s'. cond_signal 0 (cond_demo demo_queue) = Ret 1 s' \<and> procs s' 0x502000 = Some (demo_process 3 BLOCKED)"
  using cond_signal_first_even_dead [OF cond_demo_good cond_demo_holds] cond_demo_open [of demo_queue]
  by (auto simp: demo_state_def is_dead_def demo_process_def is_delete_process_def)

end
