(* ===== verification/Fifo.thy ===== *)
theory Fifo
  imports Scheduler MutexContract CLib
begin

text \<open>
  \<open>Kernel/fifo.c\<close>: named byte channels. A write fills the ring buffer of the channel and
  then serves the waiting readers in order; a reader that finds no data queues a read request
  and blocks until a writer has filled its buffer.
\<close>

section \<open>Access\<close>

definition fifo_queue :: "nat \<Rightarrow> queue_ref" where
  "fifo_queue i =
     (\<lambda>s. read_queue (open_fifos s ! i),
      \<lambda>q s. s\<lparr>open_fifos := (open_fifos s)[i := (open_fifos s ! i)\<lparr>read_queue := q\<rparr>]\<rparr>)"

definition update_fifo :: "nat \<Rightarrow> (fifo \<Rightarrow> fifo) \<Rightarrow> unit kop" where
  "update_fifo i f = kmodify (\<lambda>s. s\<lparr>open_fifos := (open_fifos s)[i := f (open_fifos s ! i)]\<rparr>)"

definition fifo_lock :: "unit kop" where
  "fifo_lock = kbind (kgets fifo_array_lock) (\<lambda>k. kignore (mutex_lock k))"

definition fifo_unlock :: "unit kop" where
  "fifo_unlock = kbind (kgets fifo_array_lock) (\<lambda>k. kignore (mutex_unlock k))"

text \<open>\<open>is_open\<close> has no lower bound: a negative key reads outside \<open>open_fifos\<close>.\<close>

definition fifo_is_open :: "int \<Rightarrow> bool kop" where
  "fifo_is_open key =
     (if key < int MAX_FIFOS then
        if key < 0 then kfault Out_of_bounds
        else kbind (kgets (\<lambda>s. f_state (open_fifos s ! nat key) = OPEN)) (\<lambda>opened.
               if opened
               then kbind get_current_process (\<lambda>p.
                      if key < MAX_FDS then kbind (proc_at p) (\<lambda>d. kreturn (file_is_open d key)) else kreturn False)
               else kreturn False)
      else kreturn False)"

definition initialize_fifo_mutex :: "unit kop" where
  "initialize_fifo_mutex =
     kbind (mutex_open (cstring ''__FIFO_ARRAY_MUTEX__'')) (\<lambda>k. kmodify (\<lambda>s. s\<lparr>fifo_array_lock := k\<rparr>))"

section \<open>Opening\<close>

text \<open>The mutex of a fifo has the name of the fifo.\<close>

definition create_new_fifo :: "byte list \<Rightarrow> fifo kop" where
  "create_new_fifo nm =
     kbind (ipc_name nm) (\<lambda>n. kbind (mutex_open nm) (\<lambda>k. kbind kcreate_queue (\<lambda>q.
       kreturn \<lparr>f_name = n, c_buffer = create_circular_buffer, f_state = OPEN, fifo_mutex_key = k,
                read_queue = q\<rparr>)))"

definition open_current :: "nat \<Rightarrow> unit kop" where
  "open_current k =
     kbind get_current_process (\<lambda>p.
       kwhen (int k < MAX_FDS) (update_proc p (\<lambda>d. fst (set_file_open d (int k)))))"

definition fifo_open :: "byte list \<Rightarrow> int kop" where
  "fifo_open nm =
     kthen fifo_lock (
     kbind (kgets (\<lambda>s. search_name nm (map (\<lambda>f. (f_name f, f_state f = OPEN)) (open_fifos s)) 0)) (\<lambda>r.
       case r of
         None \<Rightarrow> kfault Out_of_bounds
       | Some (Found k) \<Rightarrow> kseq [open_current k, fifo_unlock] (kreturn (int k))
       | Some (Vacant k) \<Rightarrow>
           if k = MAX_FIFOS then kthen fifo_unlock (kreturn MAX_FIFOS_OPEN_ERROR)
           else kbind (create_new_fifo nm) (\<lambda>f.
             kseq [update_fifo k (\<lambda>_. f), fifo_unlock, open_current k] (kreturn (int k)))))"

section \<open>Writing and reading\<close>

definition create_read_request :: "nat \<Rightarrow> addr \<Rightarrow> int \<Rightarrow> addr kop" where
  "create_read_request i buf n =
     kbind (get_page 32) (\<lambda>r. kbind get_current_process (\<lambda>p.
       kthen (kmodify (\<lambda>s. s\<lparr>requests := (requests s)(r \<mapsto>
         \<lparr>r_bytes = n, bytes_read = None, r_buffer = buf, r_fifo = i, reader_p = p\<rparr>)\<rparr>)) (kreturn r)))"

definition try_read :: "addr \<Rightarrow> bool kop" where
  "try_read r =
     kbind (request_at r) (\<lambda>q. kbind (kgets (\<lambda>s. c_buffer (open_fifos s ! r_fifo q))) (\<lambda>c.
       if buf_fill c > 0 then
         kbind (kgets (\<lambda>s. read_circular_buffer (umem s) c (r_buffer q) (r_bytes q))) (\<lambda>res.
         kbind (koption Bad_copy res) (\<lambda>(m, c', n).
           kthen (kmodify (\<lambda>s. s\<lparr>umem := m,
                    open_fifos := (open_fifos s)[r_fifo q := (open_fifos s ! r_fifo q)\<lparr>c_buffer := c'\<rparr>],
                    requests := (requests s)(r \<mapsto> q\<lparr>bytes_read := Some n\<rparr>)\<rparr>)) (kreturn True)))
       else kreturn False))"

primrec send_to_readers_n :: "nat \<Rightarrow> nat \<Rightarrow> unit kop" where
  "send_to_readers_n i 0 = kfault Endless_loop"
| "send_to_readers_n i (Suc n) =
     kbind (kgets (\<lambda>s. read_queue (open_fifos s ! i))) (\<lambda>q.
       if kq_is_empty q then kreturn ()
       else kbind (koption Bad_pointer (peek (q_links q))) (\<lambda>r. kbind (try_read r) (\<lambda>could.
         if could then
           kbind (kdequeue (fifo_queue i)) (\<lambda>r. kbind (request_at r) (\<lambda>d.
             kthen (update_proc_or_null (reader_p d) unblock_process) (send_to_readers_n i n)))
         else kreturn ())))"

definition send_to_readers :: "nat \<Rightarrow> unit kop" where
  "send_to_readers i = send_to_readers_n i QUEUE_BOUND"

definition fifo_write :: "int \<Rightarrow> addr \<Rightarrow> int \<Rightarrow> int kop" where
  "fifo_write key buf n =
     kbind (fifo_is_open key) (\<lambda>opened.
       if opened \<and> n > 0 then
         kbind (kgets (\<lambda>s. fifo_mutex_key (open_fifos s ! nat key))) (\<lambda>k.
         kthen (kignore (mutex_lock k)) (
         kbind (kgets (\<lambda>s. write_circular_buffer (umem s) (c_buffer (open_fifos s ! nat key)) buf n)) (\<lambda>res.
         kbind (koption Bad_copy res) (\<lambda>(c, write_bytes).
         kseq [update_fifo (nat key) (\<lambda>f. f\<lparr>c_buffer := c\<rparr>), send_to_readers (nat key)] (
         kbind (kgets (\<lambda>s. fifo_mutex_key (open_fifos s ! nat key))) (\<lambda>k.
         kthen (kignore (mutex_unlock k)) (kreturn write_bytes)))))))
       else if n \<le> 0 then kreturn 0
       else kreturn FIFO_NOT_OPEN_ERROR)"

definition fifo_read :: "int \<Rightarrow> addr \<Rightarrow> int \<Rightarrow> int kop" where
  "fifo_read key buf n =
     kbind (fifo_is_open key) (\<lambda>opened.
       if opened \<and> n > 0 then
         kbind (create_read_request (nat key) buf n) (\<lambda>r.
         kbind (kgets (\<lambda>s. fifo_mutex_key (open_fifos s ! nat key))) (\<lambda>k.
         kthen (kignore (mutex_lock k)) (
         kbind (kgets (\<lambda>s. kq_is_empty (read_queue (open_fifos s ! nat key)))) (\<lambda>first_reader.
         kbind (if first_reader then try_read r else kreturn False) (\<lambda>could_read.
         kbind (kgets (\<lambda>s. fifo_mutex_key (open_fifos s ! nat key))) (\<lambda>k.
         kthen
           (if \<not> could_read then
              kseq [kenqueue (fifo_queue (nat key)) r,
                    kignore (mutex_unlock k),
                    kbind (request_at r) (\<lambda>d. update_proc_or_null (reader_p d) block_process)] yield_process
            else kignore (mutex_unlock k)) (
         kbind (fifo_is_open key) (\<lambda>still.
           if \<not> still then kreturn FIFO_NOT_OPEN_ERROR
           else kbind (request_at r) (\<lambda>d. kbind (koption Uninitialised (bytes_read d)) (\<lambda>got.
                  kthen (kignore (store_page r)) (kreturn got)))))))))))
       else kreturn 0)"

section \<open>Closing and listing\<close>

text \<open>\<open>release_readers\<close> empties the queue and wakes every reader.\<close>

definition release_readers :: "nat \<Rightarrow> unit kop" where
  "release_readers i =
     kdrain (fifo_queue i) (\<lambda>r. kbind (request_at r) (\<lambda>d. update_proc_or_null (reader_p d) unblock_process))"

definition fifo_close :: "int \<Rightarrow> int kop" where
  "fifo_close key =
     kthen fifo_lock (
     kbind (fifo_is_open key) (\<lambda>opened.
       if opened then
         kseq [release_readers (nat key),
               kdestroy_queue (fifo_queue (nat key)),
               update_fifo (nat key) (\<lambda>f. f\<lparr>f_state := CLOSED\<rparr>),
               fifo_unlock] (kreturn 1)
       else kthen fifo_unlock (kreturn FIFO_NOT_OPEN_ERROR)))"

definition FILE_DESCRIPTORS :: int where "FILE_DESCRIPTORS = 3"

record fifo_info =
  fi_name :: "byte list"
  fi_fds :: int

definition fill_fifo_info :: "kstate \<Rightarrow> nat \<Rightarrow> fifo_info" where
  "fill_fifo_info s key =
     \<lparr>fi_name = cstr (f_name (open_fifos s ! key)), fi_fds = int key + FILE_DESCRIPTORS\<rparr>"

definition get_fifos_info :: "fifo_info list kop" where
  "get_fifos_info =
     kthen fifo_lock (
     kbind (kgets (\<lambda>s. map (fill_fifo_info s)
                         (filter (\<lambda>i. f_state (open_fifos s ! i) = OPEN) [0..<MAX_FIFOS]))) (\<lambda>info.
     kthen fifo_unlock (kreturn info)))"

section \<open>The queue of readers as the allocator's client\<close>

text \<open>What no operation on the queue changes: the mutexes, the memory and the rest of the fifo.\<close>

definition client_fifo :: "nat \<Rightarrow> mutex list \<Rightarrow> memory \<Rightarrow> fifo \<Rightarrow> kstate \<Rightarrow> bool" where
  "client_fifo i ms um f s \<longleftrightarrow> i < length (open_fifos s) \<and> open_mutexes s = ms \<and> umem s = um \<and>
     (open_fifos s ! i)\<lparr>read_queue := null_queue\<rparr> = f"

interpretation fifo_q: state_queue get_page store_page "fifo_queue i" "client_fifo i ms um f" for i ms um f
  by unfold_locales
     (auto simp: fifo_queue_def client_fifo_def same_defs settle_def put_proc_def take_page_def
        allocator_ready_def mutex_is_open_def)

section \<open>What the readers get\<close>

text \<open>
  The specification: requests for so many bytes are served in order from the bytes in
  transit, each with what is there up to its size, until nothing is left. The result is the
  bytes of each request served and the bytes that remain.
\<close>

fun serve :: "nat list \<Rightarrow> byte list \<Rightarrow> byte list list \<times> byte list" where
  "serve [] c = ([], c)"
| "serve (n # ns) c =
     (if c = [] then ([], []) else let (ds, rest) = serve ns (drop n c) in (take n c # ds, rest))"

lemma serve_bytes: "concat (fst (serve ns c)) @ snd (serve ns c) = c"
  by (induction ns c rule: serve.induct) (auto simp: split_def Let_def)

lemma serve_length: "length (fst (serve ns c)) \<le> length ns"
  by (induction ns c rule: serve.induct) (auto simp: split_def Let_def)

lemma serve_progress: "ns \<noteq> [] \<Longrightarrow> c \<noteq> [] \<Longrightarrow> fst (serve ns c) \<noteq> []"
  by (cases ns) (auto simp: split_def Let_def)

definition delivered :: "(addr \<times> byte list) list \<Rightarrow> memory \<Rightarrow> memory" where
  "delivered bds = fold (\<lambda>(b, d) m. store_bytes m b d) bds"

definition answered :: "(addr \<times> byte list) list \<Rightarrow> (addr \<rightharpoonup> read_request) \<Rightarrow> addr \<rightharpoonup> read_request" where
  "answered rds = fold (\<lambda>(r, d) m. m(r \<mapsto> (the (m r))\<lparr>bytes_read := Some (int (length d))\<rparr>)) rds"

definition request_of :: "kstate \<Rightarrow> addr \<Rightarrow> read_request" where
  "request_of s r = the (requests s r)"

text \<open>
  \<open>readers_wait i s xs\<close>: the queue of fifo \<open>i\<close> holds the requests \<open>xs\<close> (each with the page of
  its node), every one a request of some process for at least one byte.
\<close>

definition readers_wait :: "nat \<Rightarrow> kstate \<Rightarrow> (addr \<times> addr) list \<Rightarrow> bool" where
  "readers_wait i s xs \<longleftrightarrow> i < length (open_fifos s) \<and> allocator_ready s \<and>
     q_page (read_queue (open_fifos s ! i)) \<noteq> NULL \<and> ring_ok (c_buffer (open_fifos s ! i)) \<and>
     queue_holds (q_links (read_queue (open_fifos s ! i))) xs \<and>
     length xs \<le> current_index (kpages s) \<and> distinct (map snd xs) \<and>
     (\<forall>x \<in> snd ` set xs. \<exists>q. requests s x = Some q \<and> r_fifo q = i \<and> 0 < r_bytes q \<and>
        reader_p q \<noteq> NULL \<and> procs s (reader_p q) \<noteq> None)"

definition fifo_bytes :: "nat \<Rightarrow> kstate \<Rightarrow> byte list" where
  "fifo_bytes i s = ring_contents (c_buffer (open_fifos s ! i))"

text \<open>\<open>served i s s' xs c\<close>: in \<open>s'\<close> the requests \<open>xs\<close> have been served from the bytes \<open>c\<close>.\<close>

definition served :: "nat \<Rightarrow> kstate \<Rightarrow> kstate \<Rightarrow> (addr \<times> addr) list \<Rightarrow> byte list \<Rightarrow> bool" where
  "served i s s' xs c \<longleftrightarrow>
     (let reqs = map (request_of s \<circ> snd) xs; (ds, rest) = serve (map (nat \<circ> r_bytes) reqs) c
      in ring_ok (c_buffer (open_fifos s' ! i)) \<and> fifo_bytes i s' = rest \<and>
         umem s' = delivered (zip (map r_buffer reqs) ds) (umem s) \<and>
         requests s' = answered (zip (map snd xs) ds) (requests s) \<and>
         procs s' = wake unblock_process (map reader_p (take (length ds) reqs)) (procs s) \<and>
         queue_holds (q_links (read_queue (open_fifos s' ! i))) (drop (length ds) xs) \<and>
         open_mutexes s' = open_mutexes s \<and> fifo_mutex_key (open_fifos s' ! i) = fifo_mutex_key (open_fifos s ! i) \<and>
         sched_nodes s' = sched_nodes s \<and> current s' = current s \<and> memory_mutex_key s' = memory_mutex_key s)"

lemma ring_contents_empty: "ring_ok c \<Longrightarrow> ring_contents c = [] \<longleftrightarrow> buf_fill c = 0"
  by (auto simp: ring_contents_def ring_ok_def)

lemma ring_bytes_length: "ring_ok c \<Longrightarrow> length (ring_contents c) = nat (buf_fill c)"
  by (simp add: ring_contents_def)

lemma serve_step:
  assumes "readers_wait i s ((a, r) # ys)" "fifo_bytes i s \<noteq> []"
  shows "\<exists>s1 s2. try_read r s = Ret True s1 \<and> kdequeue (fifo_queue i) s1 = Ret r s2 \<and> readers_wait i s2 ys \<and>
    fifo_bytes i s2 = drop (nat (r_bytes (request_of s r))) (fifo_bytes i s) \<and> open_mutexes s2 = open_mutexes s \<and>
    umem s2 = store_bytes (umem s) (r_buffer (request_of s r)) (take (nat (r_bytes (request_of s r))) (fifo_bytes i s)) \<and>
    requests s2 = (requests s)(r \<mapsto> (request_of s r)\<lparr>bytes_read :=
      Some (int (length (take (nat (r_bytes (request_of s r))) (fifo_bytes i s))))\<rparr>) \<and> procs s2 = procs s \<and>
    fifo_mutex_key (open_fifos s2 ! i) = fifo_mutex_key (open_fifos s ! i) \<and> sched_nodes s2 = sched_nodes s \<and>
    current s2 = current s \<and> memory_mutex_key s2 = memory_mutex_key s"
proof -
  note w = assms(1) [unfolded readers_wait_def]
  obtain q where q: "requests s r = Some q" "r_fifo q = i" "0 < r_bytes q" using w by auto
  let ?n = "nat (r_bytes q)" and ?c = "c_buffer (open_fifos s ! i)"
  have fill: "0 < buf_fill ?c" "0 < ?n"
    using w assms(2) q(3) ring_contents_empty [of ?c] by (auto simp: fifo_bytes_def ring_ok_def)
  obtain c' where c': "read_circular_buffer (umem s) ?c (r_buffer q) (int ?n) =
        Some (store_bytes (umem s) (r_buffer q) (take (min ?n (nat (buf_fill ?c))) (ring_contents ?c)), c',
              int (min ?n (nat (buf_fill ?c))))"
      "ring_ok c'" "ring_contents c' = drop (min ?n (nat (buf_fill ?c))) (ring_contents ?c)"
    using read_ring [of ?c ?n "umem s" "r_buffer q"] w fill by blast
  have len: "length (ring_contents ?c) = nat (buf_fill ?c)" using w by (simp add: ring_bytes_length)
  have td: "take (min ?n (nat (buf_fill ?c))) (ring_contents ?c) = take ?n (ring_contents ?c)"
      "drop (min ?n (nat (buf_fill ?c))) (ring_contents ?c) = drop ?n (ring_contents ?c)"
      "min ?n (nat (buf_fill ?c)) = length (take ?n (ring_contents ?c))"
    using len by (simp_all add: min_def)
  note c'' = c' [unfolded td(1,2)]
  let ?m = "store_bytes (umem s) (r_buffer q) (take ?n (ring_contents ?c))"
  let ?req = "(requests s)(r \<mapsto> q\<lparr>bytes_read := Some (int (length (take ?n (ring_contents ?c))))\<rparr>)"
  define s1 where "s1 = s\<lparr>umem := ?m, open_fifos := (open_fifos s)[i := (open_fifos s ! i)\<lparr>c_buffer := c'\<rparr>],
      requests := ?req\<rparr>"
  have int_n: "int ?n = r_bytes q" using q(3) by simp
  have read: "try_read r s = Ret True s1"
    using q(1,2) fill(1) c''(1) [unfolded int_n td(3)] by (simp add: try_read_def s1_def del: length_take)
  have i: "i < length (open_fifos s)" using w by simp
  have s1: "open_fifos s1 ! i = (open_fifos s ! i)\<lparr>c_buffer := c'\<rparr>" "kpages s1 = kpages s" "requests s1 = ?req"
      "procs s1 = procs s" "open_mutexes s1 = open_mutexes s" "umem s1 = ?m" "length (open_fifos s1) = length (open_fifos s)"
      "sched_nodes s1 = sched_nodes s" "current s1 = current s" "memory_mutex_key s1 = memory_mutex_key s"
    using i by (simp_all add: s1_def)
  have ready: "allocator_ready s1" using w by (simp add: s1_def allocator_ready_def mutex_is_open_def)
  have ok: "client_fifo i (open_mutexes s1) (umem s1) ((open_fifos s1 ! i)\<lparr>read_queue := null_queue\<rparr>) s1"
    using i by (simp add: client_fifo_def s1(7))
  have r: "fst (fifo_queue i) s1 = read_queue (open_fifos s ! i)" by (simp add: fifo_queue_def s1(1))
  have pre: "0 < current_index (kpages s1)" "q_page (fst (fifo_queue i) s1) \<noteq> NULL"
      "queue_holds (q_links (fst (fifo_queue i) s1)) ((a, r) # ys)"
    using w r s1(2) by auto
  obtain s2 where s2: "dequeue_with store_page (fifo_queue i) s1 = Ret r s2"
      "client_fifo i (open_mutexes s1) (umem s1) ((open_fifos s1 ! i)\<lparr>read_queue := null_queue\<rparr>) s2"
      "allocator_ready s2" "same_tables s1 s2" "current_index (kpages s1) = Suc (current_index (kpages s2))"
      "q_page (fst (fifo_queue i) s2) = q_page (fst (fifo_queue i) s1)" "queue_holds (q_links (fst (fifo_queue i) s2)) ys"
    using fifo_q.dequeue_run [OF ok ready pre] by blast
  have rest: "(open_fifos s2 ! i)\<lparr>read_queue := null_queue\<rparr> = (open_fifos s1 ! i)\<lparr>read_queue := null_queue\<rparr>"
    using s2(2) by (simp add: client_fifo_def)
  have f2: "c_buffer (open_fifos s2 ! i) = c'" "fifo_mutex_key (open_fifos s2 ! i) = fifo_mutex_key (open_fifos s ! i)"
    using arg_cong [OF rest, of c_buffer] arg_cong [OF rest, of fifo_mutex_key] s1(1) by simp_all
  have "readers_wait i s2 ys"
    unfolding readers_wait_def
  proof (intro conjI ballI)
    show "i < length (open_fifos s2)" using s2(2) by (simp add: client_fifo_def)
    show "allocator_ready s2" by (rule s2(3))
    show "q_page (read_queue (open_fifos s2 ! i)) \<noteq> NULL" using s2(6) pre(2) by (simp add: fifo_queue_def)
    show "ring_ok (c_buffer (open_fifos s2 ! i))" using f2(1) c''(2) by simp
    show "queue_holds (q_links (read_queue (open_fifos s2 ! i))) ys" using s2(7) by (simp add: fifo_queue_def)
    show "length ys \<le> current_index (kpages s2)" using s2(5) w s1(2) by simp
    show "distinct (map snd ys)" using w by simp
  next
    fix x assume x: "x \<in> snd ` set ys"
    then have "x \<noteq> r" using w by auto
    moreover obtain q' where "requests s x = Some q'" "r_fifo q' = i" "0 < r_bytes q'" "reader_p q' \<noteq> NULL"
        "procs s (reader_p q') \<noteq> None" using w x by auto
    ultimately show "\<exists>q. requests s2 x = Some q \<and> r_fifo q = i \<and> 0 < r_bytes q \<and> reader_p q \<noteq> NULL \<and>
        procs s2 (reader_p q) \<noteq> None"
      using s2(4) s1(3,4) by (auto simp: same_defs)
  qed
  moreover have "umem s2 = ?m" "open_mutexes s2 = open_mutexes s" using s2(2) s1(5,6) by (auto simp: client_fifo_def)
  ultimately show ?thesis
    using read s2(1,4) s1 f2 c''(3) q(1)
    by (intro exI [of _ s1] exI [of _ s2]) (simp add: kdequeue_def request_of_def fifo_bytes_def same_defs)
qed

lemma readers_wait_put:
  assumes "readers_wait i s xs"
  shows "readers_wait i (put_proc p d s) xs"
proof -
  have f: "open_fifos (put_proc p d s) = open_fifos s" by (simp add: put_proc_def)
  have dom: "procs s a \<noteq> None \<Longrightarrow> procs (put_proc p d s) a \<noteq> None" for a by simp
  have P: "(\<exists>q. requests s x = Some q \<and> r_fifo q = i \<and> 0 < r_bytes q \<and> reader_p q \<noteq> NULL \<and> procs s (reader_p q) \<noteq> None) \<Longrightarrow>
      (\<exists>q. requests (put_proc p d s) x = Some q \<and> r_fifo q = i \<and> 0 < r_bytes q \<and> reader_p q \<noteq> NULL \<and>
         procs (put_proc p d s) (reader_p q) \<noteq> None)" for x
    unfolding put_proc_simps(9) by (elim ex_forward conj_forward dom)
  note w = assms [unfolded readers_wait_def]
  have "\<forall>x \<in> snd ` set xs. \<exists>q. requests s x = Some q \<and> r_fifo q = i \<and> 0 < r_bytes q \<and>
      reader_p q \<noteq> NULL \<and> procs s (reader_p q) \<noteq> None" using w by (elim conjE)
  then have all: "\<forall>x \<in> snd ` set xs. \<exists>q. requests (put_proc p d s) x = Some q \<and> r_fifo q = i \<and> 0 < r_bytes q \<and>
      reader_p q \<noteq> NULL \<and> procs (put_proc p d s) (reader_p q) \<noteq> None"
    by (intro ballI P) (rule bspec)
  show ?thesis
    unfolding readers_wait_def f put_proc_simps(7) allocator_ready_simps(4)
    using w by (intro conjI all) (elim conjE, assumption)+
qed

lemma send_run:
  "readers_wait i s xs \<Longrightarrow> length xs < n \<Longrightarrow>
   \<exists>s'. send_to_readers_n i n s = Ret () s' \<and> served i s s' xs (fifo_bytes i s)"
proof (induction xs arbitrary: s n)
  case Nil
  then obtain m where "n = Suc m" by (cases n) auto
  moreover have "kq_is_empty (read_queue (open_fifos s ! i))"
    using Nil.prems(1) lq.empty_test by (auto simp: readers_wait_def kq_is_empty_def)
  ultimately show ?case
    using Nil.prems(1) by (auto simp: served_def readers_wait_def delivered_def answered_def)
next
  case (Cons ar ys)
  obtain a r where ar: "ar = (a, r)" by force
  obtain m where m: "n = Suc m" using Cons.prems(2) by (cases n) auto
  note w = Cons.prems(1) [unfolded readers_wait_def ar]
  obtain q where q: "requests s r = Some q" "r_fifo q = i" "reader_p q \<noteq> NULL" "procs s (reader_p q) \<noteq> None"
    using w by auto
  have rq: "request_of s r = q" by (simp add: request_of_def q(1))
  have ne: "\<not> kq_is_empty (read_queue (open_fifos s ! i))"
    using w lq.empty_test [of _ "(a, r) # ys"] by (auto simp: kq_is_empty_def)
  have pk: "peek (q_links (read_queue (open_fifos s ! i))) = Some r" using w lq.peek_q by blast
  show ?case
  proof (cases "fifo_bytes i s = []")
    case True
    then have "\<not> 0 < buf_fill (c_buffer (open_fifos s ! i))"
      using w ring_contents_empty [of "c_buffer (open_fifos s ! i)"] by (simp add: fifo_bytes_def)
    then have "try_read r s = Ret False s" using q by (simp add: try_read_def)
    then show ?thesis
      using m ne pk True w by (auto simp: served_def ar delivered_def answered_def)
  next
    case False
    let ?k = "nat (r_bytes q)"
    obtain s1 s2 where step: "try_read r s = Ret True s1" "kdequeue (fifo_queue i) s1 = Ret r s2"
        "readers_wait i s2 ys" "fifo_bytes i s2 = drop ?k (fifo_bytes i s)" "open_mutexes s2 = open_mutexes s"
        "umem s2 = store_bytes (umem s) (r_buffer q) (take ?k (fifo_bytes i s))"
        "requests s2 = (requests s)(r \<mapsto> q\<lparr>bytes_read := Some (int (length (take ?k (fifo_bytes i s))))\<rparr>)"
        "procs s2 = procs s" "fifo_mutex_key (open_fifos s2 ! i) = fifo_mutex_key (open_fifos s ! i)"
        "sched_nodes s2 = sched_nodes s" "current s2 = current s" "memory_mutex_key s2 = memory_mutex_key s"
      using serve_step [of i s a r ys] Cons.prems(1) ar False rq by (auto simp del: length_take)
    obtain d where d: "procs s (reader_p q) = Some d" using q(4) by blast
    let ?s3 = "put_proc (reader_p q) (unblock_process d) s2"
    have f3: "open_fifos ?s3 = open_fifos s2" "umem ?s3 = umem s2" by (simp_all add: put_proc_def)
    have w3: "readers_wait i ?s3 ys"
      by (rule readers_wait_put [OF step(3)])
    obtain s' where s': "send_to_readers_n i m ?s3 = Ret () s'" "served i ?s3 s' ys (fifo_bytes i ?s3)"
      using Cons.IH [OF w3] Cons.prems(2) m by auto
    have run: "send_to_readers_n i n s = Ret () s'"
      using m ne pk step(1,2,7,8) s'(1) q(3) d by simp
    have same: "request_of ?s3 x = request_of s x" if "x \<in> snd ` set ys" for x
    proof -
      have "x \<noteq> r" using w that by auto
      then show ?thesis by (simp add: request_of_def step(7))
    qed
    then have reqs: "map (request_of ?s3 \<circ> snd) ys = map (request_of s \<circ> snd) ys" by simp
    have b3: "fifo_bytes i ?s3 = drop ?k (fifo_bytes i s)" using step(4) by (simp add: fifo_bytes_def f3)
    obtain ds rest where ds: "serve (map (nat \<circ> r_bytes) (map (request_of s \<circ> snd) ys)) (drop ?k (fifo_bytes i s)) = (ds, rest)"
      by force
    have "served i s s' ((a, r) # ys) (fifo_bytes i s)"
      using s'(2) ds False step(5-12) d
      unfolding served_def reqs b3
      by (simp add: Let_def delivered_def answered_def rq f3 q(1) del: length_take)
    then show ?thesis using run ar by blast
  qed
qed

text \<open>\<open>fifo_ready\<close>: process \<open>p\<close> runs, has fifo \<open>i\<close> open, and nobody is inside the fifo.\<close>

definition fifo_ready :: "nat \<Rightarrow> kstate \<Rightarrow> bool" where
  "fifo_ready i s \<longleftrightarrow> i < MAX_FIFOS \<and> f_state (open_fifos s ! i) = OPEN \<and> int i < MAX_FDS \<and>
     (\<exists>n d. sched_nodes s (current s) = Some n \<and> procs s (node_p n) = Some d \<and> file_is_open d (int i)) \<and>
     idle_mutex (fifo_mutex_key (open_fifos s ! i)) s"

lemma fifo_ready_open: "fifo_ready i s \<Longrightarrow> fifo_is_open (int i) s = Ret True s"
  by (auto simp: fifo_ready_def fifo_is_open_def)

lemma enter_fifos [simp]:
  "open_fifos (enter k s) = open_fifos s" "requests (enter k s) = requests s"
  by (simp_all add: enter_def set_locked_def)

lemma exit_fifos [simp]:
  "open_fifos (exit_from k s) = open_fifos s" "requests (exit_from k s) = requests s"
  by (simp_all add: exit_from_def set_locked_def)

lemma write_run:
  assumes "fifo_ready i s" "readers_wait i s xs" "length xs < QUEUE_BOUND"
    and "buf_fill (c_buffer (open_fifos s ! i)) < 1024" "0 < n" "n + 1024 < 2 ^ 31"
  defines "k \<equiv> min n (1024 - length (fifo_bytes i s))"
  shows "\<exists>s'. fifo_write (int i) buf (int n) s = Ret (int k) s' \<and>
    served i s s' xs (fifo_bytes i s @ memory_bytes (umem s) buf k)"
proof -
  let ?key = "fifo_mutex_key (open_fifos s ! i)" and ?c = "c_buffer (open_fifos s ! i)"
  let ?s1 = "enter ?key s"
  note w = assms(2) [unfolded readers_wait_def]
  have idle: "idle_mutex ?key s" using assms(1) by (simp add: fifo_ready_def)
  have node: "sched_nodes s (current s) \<noteq> None" using assms(1) by (auto simp: fifo_ready_def)
  obtain v where v: "mutex_lock ?key s = Ret v ?s1" using lock_idle [OF idle node] by blast
  have ready: "allocator_ready ?s1" using enter_ready idle w by blast
  have len: "length (open_mutexes s) = MAX_MUTEXES" using w by (simp add: allocator_ready_def)
  have bound: "int n + buf_fill ?c < 2 ^ 31" using assms(4,6) by simp
  have ring: "ring_ok ?c" using w by simp
  from write_ring [OF ring assms(4,5) bound, of "umem s" buf]
  obtain c where "write_circular_buffer (umem s) ?c buf (int n) = Some (c, int (min n (1024 - nat (buf_fill ?c))))"
      "ring_ok c" "ring_contents c = ring_contents ?c @ memory_bytes (umem s) buf (min n (1024 - nat (buf_fill ?c)))"
    by blast
  moreover have "min n (1024 - nat (buf_fill ?c)) = k"
    unfolding k_def fifo_bytes_def ring_bytes_length [OF ring] by simp
  ultimately have c: "write_circular_buffer (umem s) ?c buf (int n) = Some (c, int k)"
      "ring_ok c" "ring_contents c = ring_contents ?c @ memory_bytes (umem s) buf k" by simp_all
  define s2 where "s2 = ?s1\<lparr>open_fifos := (open_fifos s)[i := (open_fifos s ! i)\<lparr>c_buffer := c\<rparr>]\<rparr>"
  have i: "i < length (open_fifos s)" using w by simp
  have s2: "open_fifos s2 ! i = (open_fifos s ! i)\<lparr>c_buffer := c\<rparr>" "open_mutexes s2 = open_mutexes ?s1"
      "requests s2 = requests s" "procs s2 = procs s" "umem s2 = umem s" "kpages s2 = kpages s"
      "sched_nodes s2 = sched_nodes s" "current s2 = current s" "memory_mutex_key s2 = memory_mutex_key s"
      "length (open_fifos s2) = length (open_fifos s)"
    using i by (simp_all add: s2_def)
  have "allocator_ready s2" using ready by (simp add: s2_def allocator_ready_def mutex_is_open_def)
  then have "readers_wait i s2 xs" using w i c(2) by (auto simp: readers_wait_def s2)
  from send_run [OF this assms(3)] obtain s3 where
    s3: "send_to_readers_n i QUEUE_BOUND s2 = Ret () s3" "served i s2 s3 xs (fifo_bytes i s2)" by blast
  have bytes: "fifo_bytes i s2 = fifo_bytes i s @ memory_bytes (umem s) buf k"
    using c(3) by (simp add: fifo_bytes_def s2)
  have req: "request_of s2 = request_of s" by (simp add: fun_eq_iff request_of_def s2)
  have sv: "served i s2 s3 xs (fifo_bytes i s @ memory_bytes (umem s) buf k)" using s3(2) bytes by simp
  have same: "open_mutexes s3 = open_mutexes ?s1" "fifo_mutex_key (open_fifos s3 ! i) = ?key"
    using sv s2 by (auto simp: served_def Let_def split: prod.splits)
  obtain u where u: "mutex_unlock ?key s3 = Ret u (exit_from ?key s3)" "open_mutexes (exit_from ?key s3) = open_mutexes s"
    using unlock_entered [OF idle same(1) len] by blast
  have fold_s2: "?s1\<lparr>open_fifos := (open_fifos ?s1)[i := (open_fifos ?s1 ! i)\<lparr>c_buffer := c\<rparr>]\<rparr> = s2"
    by (simp add: s2_def)
  have "fifo_write (int i) buf (int n) s = Ret (int k) (exit_from ?key s3)"
    using fifo_ready_open [OF assms(1)] assms(5) v c(1) s3(1) u(1) same(2) fold_s2
    by (simp add: fifo_write_def update_fifo_def send_to_readers_def)
  moreover have "served i s (exit_from ?key s3) xs (fifo_bytes i s @ memory_bytes (umem s) buf k)"
    using sv u(2) s2 by (auto simp: served_def Let_def req fifo_bytes_def split: prod.splits)
  ultimately show ?thesis by blast
qed

text \<open>
  A read that finds data does not block: \<open>p\<close> is the caller, \<open>a\<close> the page its request gets.
\<close>

definition read_ready :: "nat \<Rightarrow> kstate \<Rightarrow> addr \<Rightarrow> bool" where
  "read_ready i s a \<longleftrightarrow> fifo_ready i s \<and> readers_wait i s [] \<and> fifo_bytes i s \<noteq> [] \<and> a \<noteq> current s \<and>
     (\<forall>n. sched_nodes s (current s) = Some n \<longrightarrow> a \<noteq> node_p n)"

lemma idle_mutex_simps [simp]:
  "idle_mutex k (settle s) = idle_mutex k s" "idle_mutex k (take_page a pg s) = idle_mutex k s"
  by (simp_all add: idle_mutex_def)

lemma read_run:
  assumes "read_ready i s a" "pop_page (kpages s) = Some (a, pg)" "0 < n" "n < 2 ^ 31"
  defines "k \<equiv> min n (length (fifo_bytes i s))"
  shows "\<exists>s'. fifo_read (int i) buf (int n) s = Ret (int k) s' \<and>
    umem s' = store_bytes (umem s) buf (take k (fifo_bytes i s)) \<and> fifo_bytes i s' = drop k (fifo_bytes i s) \<and>
    kpages s' = push_one a pg \<and> open_mutexes s' = open_mutexes s"
proof -
  let ?key = "fifo_mutex_key (open_fifos s ! i)" and ?c = "c_buffer (open_fifos s ! i)"
  have fr: "fifo_ready i s" and w: "i < length (open_fifos s)" "allocator_ready s" "ring_ok ?c"
      "queue_holds (q_links (read_queue (open_fifos s ! i))) []" and ne: "fifo_bytes i s \<noteq> []"
    using assms(1) by (auto simp: read_ready_def readers_wait_def)
  obtain nd d where node: "sched_nodes s (current s) = Some nd" "procs s (node_p nd) = Some d" "file_is_open d (int i)"
      "a \<noteq> current s" "a \<noteq> node_p nd" "idle_mutex ?key s" "int i < MAX_FDS" "i < MAX_FIFOS" "f_state (open_fifos s ! i) = OPEN"
    using assms(1) by (auto simp: read_ready_def fifo_ready_def)
  let ?q = "\<lparr>r_bytes = int n, bytes_read = None, r_buffer = buf, r_fifo = i, reader_p = node_p nd\<rparr>"
  define s0 where "s0 = take_page a pg (settle s)"
  define s1 where "s1 = s0\<lparr>requests := (requests s0)(a \<mapsto> ?q)\<rparr>"
  have s0: "open_fifos s0 = open_fifos s" "open_mutexes s0 = open_mutexes s" "memory_mutex_key s0 = memory_mutex_key s"
      "sched_nodes s0 (current s0) = Some nd" "procs s0 (node_p nd) = Some d" "umem s0 = umem s" "kpages s0 = pg"
    using node by (simp_all add: s0_def)
  have s1: "open_fifos s1 = open_fifos s" "open_mutexes s1 = open_mutexes s" "umem s1 = umem s" "kpages s1 = pg"
      "sched_nodes s1 (current s1) = Some nd" "procs s1 (node_p nd) = Some d" "requests s1 a = Some ?q"
      "requests s1 = (requests s0)(a \<mapsto> ?q)"
    using s0 by (simp_all add: s1_def)
  have create: "create_read_request i buf (int n) s = Ret a s1"
    using get_page_eq [OF w(2) assms(2), of 32] s0(4) by (simp add: create_read_request_def s1_def s0_def [symmetric])
  have idle1: "idle_mutex ?key s1" using node(6) by (simp add: s1_def s0_def idle_mutex_def mutex_is_open_def)
  have ready1: "allocator_ready s1"
    using w(2) allocator_ready_take_page [of "settle s" a pg] node(4)
    by (simp add: s1_def s0_def allocator_ready_def mutex_is_open_def)
  have len: "length (open_mutexes s1) = MAX_MUTEXES" using ready1 by (simp add: allocator_ready_def)
  let ?t = "enter ?key s1"
  have lock: "\<exists>v. mutex_lock ?key s1 = Ret v ?t" using lock_idle [OF idle1] s1(5) by simp
  have emp: "kq_is_empty (read_queue (open_fifos s ! i))" using w(4) lq.empty_test by (auto simp: kq_is_empty_def)
  have fill: "0 < buf_fill ?c" using ne w(3) ring_contents_empty [of ?c] by (auto simp: fifo_bytes_def ring_ok_def)
  have k: "min n (nat (buf_fill ?c)) = k" unfolding k_def fifo_bytes_def ring_bytes_length [OF w(3)] ..
  obtain c where c: "read_circular_buffer (umem s) ?c buf (int n) =
        Some (store_bytes (umem s) buf (take k (ring_contents ?c)), c, int k)"
      "ring_contents c = drop k (ring_contents ?c)"
    using read_ring [OF w(3) fill assms(3), of "umem s" buf] k by auto
  define t1 where "t1 = ?t\<lparr>umem := store_bytes (umem s) buf (take k (ring_contents ?c)),
      open_fifos := (open_fifos s)[i := (open_fifos s ! i)\<lparr>c_buffer := c\<rparr>],
      requests := (requests s1)(a \<mapsto> ?q\<lparr>bytes_read := Some (int k)\<rparr>)\<rparr>"
  have try_r: "try_read a ?t = Ret True t1"
    using s1 fill c(1) by (simp add: try_read_def t1_def)
  have same: "open_mutexes t1 = open_mutexes ?t" by (simp add: t1_def)
  have key: "fifo_mutex_key (open_fifos t1 ! i) = ?key" using w(1) by (simp add: t1_def)
  let ?u = "exit_from ?key t1"
  obtain v where v: "mutex_unlock ?key t1 = Ret v ?u" "open_mutexes ?u = open_mutexes s1"
    using unlock_entered [OF idle1 same len] by blast
  have u: "requests ?u a = Some (?q\<lparr>bytes_read := Some (int k)\<rparr>)" "kpages ?u = pg" "umem ?u = umem t1"
      "sched_nodes ?u (current ?u) = Some nd" "procs ?u (node_p nd) = Some d" "open_fifos ?u = open_fifos t1"
      "memory_mutex_key ?u = memory_mutex_key s1" "sched_nodes ?u = sched_nodes s1" "current ?u = current s1"
    using s1 by (simp_all add: t1_def)
  have ready_u: "allocator_ready ?u"
    using ready1 v(2) u(7-9) by (simp add: allocator_ready_def mutex_is_open_def)
  have still: "fifo_is_open (int i) ?u = Ret True ?u"
    using node u(4-6) w(1) by (simp add: fifo_is_open_def t1_def)
  obtain x where x: "store_page a ?u = Ret x (stored [a] ?u)" using store_page_stored [OF ready_u] by blast
  have "fifo_read (int i) buf (int n) s = Ret (int k) (stored [a] ?u)"
    using fifo_ready_open [OF fr] assms(3) create lock try_r v(1) emp key still u(1) x s1(1)
    by (auto simp: fifo_read_def)
  moreover have "umem (stored [a] ?u) = umem ?u" by (simp add: stored_def settle_def)
  moreover have "open_fifos (stored [a] ?u) = open_fifos ?u" by (simp add: stored_def settle_def)
  ultimately show ?thesis
    using u s1(2) v(2) c(2) w(1) by (auto simp: fifo_bytes_def t1_def)
qed

section \<open>Properties\<close>

text \<open>
  C9. A write to a fifo with room serves the blocked readers in order of arrival: each gets the
  next bytes in its buffer and their number in its request and is woken, until the bytes are
  used up; the other readers keep waiting and what is left stays in the buffer. No byte is
  lost or delivered twice.
\<close>

theorem fifo_write_serves_readers:
  assumes "fifo_ready i s" "readers_wait i s xs" "length xs < QUEUE_BOUND"
    and "buf_fill (c_buffer (open_fifos s ! i)) < 1024" "0 < n" "n + 1024 < 2 ^ 31"
  defines "reqs \<equiv> map (request_of s \<circ> snd) xs" and "k \<equiv> min n (1024 - length (fifo_bytes i s))"
  shows "\<exists>s' ds rest. fifo_write (int i) buf (int n) s = Ret (int k) s' \<and>
    serve (map (nat \<circ> r_bytes) reqs) (fifo_bytes i s @ memory_bytes (umem s) buf k) = (ds, rest) \<and>
    concat ds @ rest = fifo_bytes i s @ memory_bytes (umem s) buf k \<and> fifo_bytes i s' = rest \<and>
    umem s' = delivered (zip (map r_buffer reqs) ds) (umem s) \<and>
    requests s' = answered (zip (map snd xs) ds) (requests s) \<and>
    procs s' = wake unblock_process (map reader_p (take (length ds) reqs)) (procs s) \<and>
    queue_holds (q_links (read_queue (open_fifos s' ! i))) (drop (length ds) xs) \<and> open_mutexes s' = open_mutexes s"
proof -
  let ?c = "fifo_bytes i s @ memory_bytes (umem s) buf k"
  obtain s' where s': "fifo_write (int i) buf (int n) s = Ret (int k) s'" "served i s s' xs ?c"
    using write_run [OF assms(1-6)] unfolding k_def by blast
  obtain ds rest where ds: "serve (map (nat \<circ> r_bytes) reqs) ?c = (ds, rest)" by force
  moreover have "concat ds @ rest = ?c" using serve_bytes [of "map (nat \<circ> r_bytes) reqs" ?c] ds by simp
  ultimately show ?thesis using s' by (auto simp: served_def reqs_def)
qed

text \<open>
  C14. A read that finds data in a fifo nobody waits for does not block: it delivers the oldest
  bytes, removes exactly them, returns their number and gives its request's page back.
\<close>

theorem fifo_read_delivers:
  assumes "read_ready i s a" "pop_page (kpages s) = Some (a, pg)" "0 < n" "n < 2 ^ 31"
  defines "k \<equiv> min n (length (fifo_bytes i s))"
  shows "\<exists>s'. fifo_read (int i) buf (int n) s = Ret (int k) s' \<and>
    umem s' = store_bytes (umem s) buf (take k (fifo_bytes i s)) \<and> fifo_bytes i s' = drop k (fifo_bytes i s) \<and>
    kpages s' = push_one a pg \<and> open_mutexes s' = open_mutexes s"
  unfolding k_def by (rule read_run [OF assms(1-4)])

section \<open>A concrete state\<close>

text \<open>Two blocked readers: one wants three bytes, one four.\<close>

definition fifo_demo :: "circular_buffer \<Rightarrow> queue \<Rightarrow> kstate" where
  "fifo_demo c q = (demo_state 9 (demo_mutex UNLOCKED create_queue))
     \<lparr>procs := [0x501000 \<mapsto> (demo_process 2 READY)\<lparr>open_fds := 1\<rparr>, 0x502000 \<mapsto> demo_process 3 BLOCKED,
               0x508000 \<mapsto> demo_process 4 BLOCKED],
      umem := of_nat,
      requests := [0x50B000 \<mapsto> \<lparr>r_bytes = 3, bytes_read = None, r_buffer = 100, r_fifo = 0, reader_p = 0x508000\<rparr>,
                   0x50C000 \<mapsto> \<lparr>r_bytes = 4, bytes_read = None, r_buffer = 200, r_fifo = 0, reader_p = 0x502000\<rparr>],
      open_fifos := (replicate 128 zero_fifo)[0 := \<lparr>f_name = cstring ''f'', c_buffer = c, f_state = OPEN,
        fifo_mutex_key = 2, read_queue = \<lparr>q_page = 0x509000, q_links = q\<rparr>\<rparr>]\<rparr>"

definition demo_readers :: queue where
  "demo_readers =
     \<lparr>nodes_of = [0x505000 \<mapsto> \<lparr>elem = 0x50B000, qnext = 0x506000\<rparr>, 0x506000 \<mapsto> \<lparr>elem = 0x50C000, qnext = NULL\<rparr>],
      first = 0x505000, last = 0x506000\<rparr>"

lemma demo_readers_hold: "queue_holds demo_readers [(0x505000, 0x50B000), (0x506000, 0x50C000)]"
  by (simp add: queue_holds_def demo_readers_def)

lemma fifo_demo_fields [simp]:
  "open_fifos (fifo_demo c q) ! 0 = \<lparr>f_name = cstring ''f'', c_buffer = c, f_state = OPEN,
     fifo_mutex_key = 2, read_queue = \<lparr>q_page = 0x509000, q_links = q\<rparr>\<rparr>"
  "length (open_fifos (fifo_demo c q)) = 128"
  "procs (fifo_demo c q) = [0x501000 \<mapsto> (demo_process 2 READY)\<lparr>open_fds := 1\<rparr>, 0x502000 \<mapsto> demo_process 3 BLOCKED,
     0x508000 \<mapsto> demo_process 4 BLOCKED]"
  "requests (fifo_demo c q) = [0x50B000 \<mapsto> \<lparr>r_bytes = 3, bytes_read = None, r_buffer = 100, r_fifo = 0, reader_p = 0x508000\<rparr>,
     0x50C000 \<mapsto> \<lparr>r_bytes = 4, bytes_read = None, r_buffer = 200, r_fifo = 0, reader_p = 0x502000\<rparr>]"
  "umem (fifo_demo c q) = of_nat" "current (fifo_demo c q) = 0x503000"
  "sched_nodes (fifo_demo c q) = sched_nodes (demo_state 9 (demo_mutex UNLOCKED create_queue))"
  "open_mutexes (fifo_demo c q) = open_mutexes (demo_state 9 (demo_mutex UNLOCKED create_queue))"
  "kpages (fifo_demo c q) = \<lparr>pages_stack = map Suc [0..<255], current_index = 9\<rparr>"
  "memory_mutex_key (fifo_demo c q) = 0"
  by (simp_all add: fifo_demo_def demo_state_def static_kstate_def MAX_FIFOS_def)

lemma fifo_demo_ready: "fifo_ready 0 (fifo_demo c q)" "allocator_ready (fifo_demo c q)"
proof -
  show "allocator_ready (fifo_demo c q)"
    using demo_ready [of 9 "demo_mutex UNLOCKED create_queue"]
    by (simp add: allocator_ready_def mutex_is_open_def demo_state_def)
  have "\<not> mutex_is_open 2 (fifo_demo c q)"
    by (simp add: mutex_is_open_def demo_defs zero_mutex_def)
  moreover have "file_is_open ((demo_process 2 READY)\<lparr>open_fds := 1\<rparr>) 0"
    by (simp add: file_is_open_def MAX_FDS_def shl_int_def)
  ultimately show "fifo_ready 0 (fifo_demo c q)"
    by (simp add: fifo_ready_def MAX_FIFOS_def OPEN_def MAX_FDS_def idle_mutex_def demo_state_def)
qed

theorem fifo_write_serves_readers_witness:
  "\<exists>s'. fifo_write 0 40 5 (fifo_demo create_circular_buffer demo_readers) = Ret 5 s' \<and> fifo_bytes 0 s' = [] \<and>
     umem s' 100 = 40 \<and> umem s' 102 = 42 \<and> umem s' 200 = 43 \<and> umem s' 201 = 44 \<and> umem s' 202 = 202 \<and>
     procs s' 0x502000 = Some (demo_process 3 READY)"
proof -
  let ?s = "fifo_demo create_circular_buffer demo_readers" and ?xs = "[(0x505000, 0x50B000), (0x506000, 0x50C000)]"
  have wait: "readers_wait 0 ?s ?xs"
    using fifo_demo_ready(2) demo_readers_hold by (simp add: readers_wait_def ring_create)
  have pre: "length ?xs < QUEUE_BOUND" "buf_fill (c_buffer (open_fifos ?s ! 0)) < 1024" "0 < (5::nat)" "(5::nat) + 1024 < 2 ^ 31"
    by (simp_all add: QUEUE_BOUND_def STACK_SIZE_def create_circular_buffer_def)
  have bytes: "fifo_bytes 0 ?s = []" by (simp add: fifo_bytes_def ring_create)
  have mem: "memory_bytes of_nat 40 5 = [40, 41, 42, 43, 44]" by (simp add: memory_bytes_def upt_rec)
  show ?thesis
    using fifo_write_serves_readers [OF fifo_demo_ready(1) wait pre, of 40]
    by (auto simp: bytes mem request_of_def delivered_def store_bytes_def unblock_process_def demo_process_def)
qed

theorem fifo_read_delivers_witness:
  "\<exists>s'. fifo_read 0 100 2 (fifo_demo example_ring create_queue) = Ret 2 s' \<and>
     umem s' 100 = 7 \<and> umem s' 101 = 7 \<and> umem s' 102 = 102 \<and> fifo_bytes 0 s' = [7]"
proof -
  let ?s = "fifo_demo example_ring create_queue"
  have bytes: "fifo_bytes 0 ?s = [7, 7, 7]"
    by (simp add: fifo_bytes_def ring_contents_def example_ring_def upt_rec)
  have "ring_ok example_ring" by (simp add: ring_ok_def example_ring_def)
  then have "readers_wait 0 ?s []"
    using fifo_demo_ready(2) empty_queue_holds by (simp add: readers_wait_def)
  then have ready: "read_ready 0 ?s 0x50A000"
    using fifo_demo_ready(1) bytes by (simp add: read_ready_def demo_state_def)
  have pop: "pop_page (kpages ?s) = Some (0x50A000, \<lparr>pages_stack = map Suc [0..<255], current_index = 10\<rparr>)"
    by (simp add: pop_page_def STACK_SIZE_def page_address_def DATA_ADDRESS_def PAGE_SIZE_def)
  have n: "0 < (2::nat)" "(2::nat) < 2 ^ 31" by simp_all
  show ?thesis
    using fifo_read_delivers [OF ready pop n, of 100] by (auto simp: bytes store_bytes_def)
qed

end
