(* ===== verification/Creation.thy ===== *)
theory Creation
  imports Scheduler
begin

text \<open>
  Creating processes: \<open>create_process\<close> of \<open>process.c\<close> and \<open>add_process\<close>, \<open>exec_process\<close> of
  \<open>processManager.c\<close> end in a process that is in the table, in the ring, and starts at its
  entry point.
\<close>

section \<open>Taking a stack page\<close>

lemma get_stack_page_run:
  assumes "quiet s" "pop_stack_page (kstacks s) = Some (a, sts)"
  shows "\<exists>s'. get_stack_page s = Ret a s' \<and> frame s s' \<and> procs s' = procs s \<and> kpages s' = kpages s \<and>
    kstacks s' = sts \<and> process_table s' = process_table s \<and> n_processes s' = n_processes s \<and>
    foreground s' = foreground s \<and> umem s' = umem s"
proof -
  let ?k = "stack_memory_mutex_key s"
  note q = quietD [OF assms(1)]
  let ?t = "(enter ?k s)\<lparr>kstacks := sts\<rparr>"
  obtain v where v: "mutex_lock ?k s = Ret v (enter ?k s)" using lock_idle [OF q(5,2)] by blast
  have "open_mutexes ?t = open_mutexes (enter ?k s)" by simp
  from unlock_entered [OF q(5) this q(3)] obtain w where
    w: "mutex_unlock ?k ?t = Ret w (exit_from ?k ?t)" "open_mutexes (exit_from ?k ?t) = open_mutexes s" by blast
  have "get_stack_page s = Ret a (exit_from ?k ?t)"
    using v w(1) assms(2) by (simp add: get_stack_page_def)
  moreover have "umem (exit_from ?k ?t) = umem s"
    by (simp add: exit_from_def enter_def set_locked_def)
  ultimately show ?thesis using w(2) by (intro exI [of _ "exit_from ?k ?t"]) (simp add: frame_def)
qed

section \<open>A new process\<close>

text \<open>The page \<open>a\<close> is in use by no process of the table and no node around the current one.\<close>

definition unused_page :: "addr \<Rightarrow> kstate \<Rightarrow> bool" where
  "unused_page a s \<longleftrightarrow> a \<noteq> NULL \<and> a \<notin> set (process_table s) \<and> a \<noteq> current s \<and>
     (\<forall>n. sched_nodes s (current s) = Some n \<longrightarrow> a \<noteq> node_p n)"

lemma take_page_good:
  assumes "kernel_good s" "unused_page a s"
  shows "kernel_good (take_page a pg (settle s))"
proof -
  let ?s = "take_page a pg (settle s)"
  have op: "mutex_is_open k ?s = mutex_is_open k s" for k by simp
  have st: "stack_memory_mutex_key ?s = stack_memory_mutex_key s" by (simp add: take_page_def settle_def)
  have g: "quiet s" "table_ok s" using assms(1) by (simp_all add: kernel_good_def)
  have "allocator_ready ?s"
    using allocator_ready_take_page [of "settle s" a pg] g(1) assms(2) by (simp add: quiet_def unused_page_def)
  then have "quiet ?s"
    using g(1) assms(2) unfolding quiet_def idle_mutex_def op by (simp add: st unused_page_def)
  moreover have "table_ok ?s"
    using g(2) assms(2) by (auto simp: table_ok_def unused_page_def)
  ultimately show ?thesis by (simp add: kernel_good_def)
qed

definition new_process :: "byte list \<Rightarrow> addr \<Rightarrow> addr \<Rightarrow> addr \<Rightarrow> nat \<Rightarrow> nat \<Rightarrow> process" where
  "new_process n rip r sp i parent =
     \<lparr>st = READY, name = n, entry_point = rip, rsp = r, stack_page = sp, n_data_page = 0,
      data_page = replicate MAX_DATA_PAGES NULL, pid = i, ppid = parent, open_fds = 0\<rparr>"

lemma kernel_good_put:
  assumes "kernel_good s" "pid d < MAX_PROCESSES" "ppid d < MAX_PROCESSES"
  shows "kernel_good (put_proc p d s)"
proof -
  have "frame s (put_proc p d s)" by (simp add: frame_def put_proc_def)
  then have "quiet (put_proc p d s)" using frame_quiet assms(1) by (simp add: kernel_good_def)
  moreover have "table_ok (put_proc p d s)" using assms by (auto simp: kernel_good_def table_ok_def)
  ultimately show ?thesis by (simp add: kernel_good_def)
qed

lemma kernel_good_umem [simp]: "kernel_good (umem_update f s) = kernel_good s"
proof -
  have "frame s (umem_update f s)" by (simp add: frame_def)
  from frame_quiet [OF this] show ?thesis by (simp add: kernel_good_def table_ok_def)
qed

lemma put_proc_twice: "put_proc a e (put_proc a d s) = put_proc a e s"
  by (simp add: put_proc_def)

lemma create_process_run:
  assumes good: "kernel_good s" and page: "pop_page (kpages s) = Some (a, pg)" "unused_page a s"
    and stack: "pop_stack_page (kstacks s) = Some (sp, sts)" "sp \<noteq> 0"
    and nm: "terminated nm" "length (cstr nm) < MAX_PROCESS_NAME"
    and room: "process_table s ! 0 \<noteq> NULL" "NULL \<in> set (process_table s)"
    and cur: "sched_nodes s (current s) = Some c" "node_p c \<noteq> NULL" "procs s (node_p c) = Some q"
  defines "i \<equiv> find_slot (process_table s) NULL"
  shows "\<exists>s' n. create_process rip params nm s = Ret a s' \<and> cstr n = cstr nm \<and>
    procs s' = (procs s)(a \<mapsto> new_process n rip (sp - frame_size) sp i (pid q)) \<and>
    umem s' = fst (fill_stack (umem s) rip sp params) \<and> 0 < i \<and> i < MAX_PROCESSES \<and>
    process_table s' = (process_table s)[i := a] \<and> kernel_good s' \<and>
    sched_nodes s' = (sched_nodes s)(a := None) \<and> current s' = current s \<and> prev s' = prev s \<and>
    kpages s' = pg \<and> kstacks s' = sts"
proof -
  define s1 where "s1 = take_page a pg (settle s)"
  have g1: "kernel_good s1" using take_page_good [OF good page(2)] by (simp add: s1_def)
  have len: "length (process_table s) = MAX_PROCESSES" using good by (simp add: kernel_good_def table_ok_def)
  have i: "i < MAX_PROCESSES" "0 < i"
    using find_slot_less [of NULL "process_table s"] find_slot_nth [of "process_table s" NULL] room len
    by (auto simp: i_def intro: Suc_leI gr0I)
  have ready: "allocator_ready s" using good by (simp add: kernel_good_def quiet_def)
  have st1: "get_page PROCESS_SIZE s = Ret a s1" using get_page_eq [OF ready page(1)] by (simp add: s1_def)
  obtain n where n: "strcpy (replicate MAX_PROCESS_NAME 0) nm = Some (n, length (cstr nm))" "cstr n = cstr nm"
    using strcpy_result [of nm "replicate MAX_PROCESS_NAME 0"] nm by auto
  have k1: "kstacks s1 = kstacks s" "umem s1 = umem s" by (simp_all add: s1_def take_page_def settle_def)
  have "quiet s1" using g1 by (simp add: kernel_good_def)
  from get_stack_page_run [OF this, of sp sts] stack(1) k1 obtain s2 where
    s2: "get_stack_page s1 = Ret sp s2" "frame s1 s2" "procs s2 = procs s1" "kpages s2 = kpages s1"
      "kstacks s2 = sts" "process_table s2 = process_table s1" "umem s2 = umem s" by auto
  have g2: "kernel_good s2"
    using g1 frame_quiet [OF s2(2)] s2(3,6) by (simp add: kernel_good_def table_ok_def)
  obtain m r where fill: "fill_stack (umem s) rip sp params = (m, r)" by force
  then have r: "r = sp - frame_size" by (auto simp: fill_stack_def)
  define d where "d = clean_data_page \<lparr>st = READY, name = n, entry_point = rip, rsp = r, stack_page = sp,
      n_data_page = 0, data_page = [], pid = 0, ppid = 0, open_fds = 0\<rparr>"
  define s3 where "s3 = put_proc a d (s2\<lparr>umem := m\<rparr>)"
  have g3: "kernel_good s3"
    unfolding s3_def using g2 by (intro kernel_good_put) (simp_all add: d_def clean_data_page_def MAX_PROCESSES_def)
  have t3: "process_table s3 = process_table s" using s2(6) by (simp add: s3_def s1_def)
  have p3: "procs s3 a = Some d" by (simp add: s3_def)
  have "find_slot (process_table s3) NULL = i" by (simp add: t3 i_def)
  with insert_process_run [OF g3 p3] i(1) t3 obtain s4 where
    s4: "insert_process a s3 = Ret (int i) s4" "frame s3 s4" "process_table s4 = (process_table s)[i := a]"
      "procs s4 = (procs s3)(a \<mapsto> d\<lparr>pid := i\<rparr>)" "umem s4 = umem s3" "kpages s4 = kpages s3"
      "kstacks s4 = kstacks s3" by auto
  have fr: "sched_nodes s4 = (sched_nodes s)(a := None)" "current s4 = current s" "prev s4 = prev s"
    using s4(2) s2(2) by (simp_all add: frame_def s3_def put_proc_def s1_def)
  have a: "a \<noteq> current s" "a \<noteq> node_p c" using page(2) cur(1) by (auto simp: unused_page_def)
  have procs: "procs s4 = (procs s)(a \<mapsto> d\<lparr>pid := i\<rparr>)"
    using s4(4) s2(3) by (simp add: s3_def s1_def)
  define d' where "d' = new_process n rip r sp i (pid q)"
  have d': "d\<lparr>pid := i, ppid := pid q, open_fds := 0\<rparr> = d'"
    by (simp add: d'_def d_def new_process_def clean_data_page_def)
  have "create_process rip params nm s = Ret a (put_proc a d' s4)"
    using st1 n(1) s2(1,7) stack(2) fill s4(1) i(2) fr cur a procs d'
    by (simp add: create_process_def process_name_def s3_def [symmetric] d_def [symmetric]
        pid_process_def put_proc_twice)
  moreover have "kernel_good s4"
  proof -
    have "quiet s4" using frame_quiet [OF s4(2)] g3 by (simp add: kernel_good_def)
    moreover have "set (process_table s4) \<subseteq> insert a (set (process_table s))"
      using s4(3) set_update_subset_insert [of "process_table s" i a] by simp
    moreover have "table_ok s" using good by (simp add: kernel_good_def)
    ultimately show ?thesis
      using s4(3) i(1) by (auto simp: kernel_good_def table_ok_def procs d_def clean_data_page_def
          split: if_splits)
  qed
  then have "kernel_good (put_proc a d' s4)"
    using good cur(3) i(1) by (intro kernel_good_put) (auto simp: d'_def new_process_def kernel_good_def table_ok_def)
  moreover have "umem s4 = m" using s4(5) by (simp add: s3_def put_proc_def)
  moreover have "kpages s4 = pg" "kstacks s4 = sts"
    using s4(6,7) s2(4,5) by (simp_all add: s3_def put_proc_def s1_def)
  ultimately show ?thesis
    using fr procs n(2) i fill s4(3) r
    by (intro exI [of _ "put_proc a d' s4"] exI [of _ n]) (simp add: put_proc_def d'_def)
qed

section \<open>Into the ring\<close>

lemma ring_insert:
  assumes "ring m (n # ns)" "m n = Some d" "b \<notin> set (n # ns)" "e = \<lparr>quantum = v, node_p = p, node_next = node_next d\<rparr>"
  shows "ring (m(b \<mapsto> e, n \<mapsto> d\<lparr>node_next := b\<rparr>)) (n # b # ns)"
proof -
  have dist: "distinct (n # ns)" and ch: "chain m ns n" and nx: "node_next d = hd (ns @ [n])"
    using assms(1,2) ring_node [OF assms(1)] by (auto simp: ring_def)
  have "chain (m(b \<mapsto> e, n \<mapsto> d\<lparr>node_next := b\<rparr>)) ns n"
    using ch dist assms(3) by (simp add: chain_frame)
  then show ?thesis using dist assms(3,4) nx by (cases ns) (auto simp: ring_def)
qed

lemma add_process_run:
  assumes good: "kernel_good s" and ok: "sched_ok s (n # ns)" "ns \<noteq> []"
    and page: "pop_page (kpages s) = Some (b, pg)" "unused_page b s" "b \<notin> set (n # ns)"
      "\<forall>x \<in> set (n # ns). node_p (the (sched_nodes s x)) \<noteq> b"
    and p: "p \<noteq> NULL" "procs s p = Some d" "b \<noteq> p"
  shows "\<exists>s'. add_process p s = Ret () s' \<and> sched_ok s' (n # b # ns) \<and> kernel_good s' \<and>
    node_p (the (sched_nodes s' b)) = p \<and> quantum (the (sched_nodes s' b)) = QUANTUM \<and>
    procs s' = (procs s)(b := None) \<and> process_table s' = process_table s \<and> superlock s' = UNLOCKED"
proof -
  obtain c q where n: "n \<noteq> NULL" "current s = n" "sched_nodes s n = Some c" "node_next c = hd (ns @ [n])"
      "node_p c \<noteq> NULL" "procs s (node_p c) = Some q" "node_proc s n = q"
    using sched_ok_node [OF ok(1)] .
  define s1 where "s1 = take_page b pg (settle s)"
  have g1: "kernel_good s1" using take_page_good [OF good page(2)] by (simp add: s1_def)
  have ready: "allocator_ready s" using good by (simp add: kernel_good_def quiet_def)
  have st1: "get_page NODE_SIZE s = Ret b s1" using get_page_eq [OF ready page(1)] by (simp add: s1_def)
  define e where "e = \<lparr>quantum = QUANTUM, node_p = p, node_next = node_next c\<rparr>"
  define m where "m = (sched_nodes s1)(b \<mapsto> e, n \<mapsto> c\<lparr>node_next := b\<rparr>)"
  define s' where "s' = s1\<lparr>superlock := UNLOCKED, sched_nodes := m\<rparr>"
  have bn: "b \<noteq> n" using page(3) by simp
  have f1: "sched_nodes s1 = (sched_nodes s)(b := None)" "current s1 = n" "prev s1 = prev s"
      "procs s1 = (procs s)(b := None)" "process_table s1 = process_table s"
    using n(2) by (simp_all add: s1_def)
  have "(s1\<lparr>superlock := LOCKED, sched_nodes := m, superlock := UNLOCKED\<rparr>) = s'"
    by (simp add: s'_def)
  then have run: "add_process p s = Ret () s'"
    using st1 n(1,3) f1 bn
    by (simp add: add_process_def set_superlock_def unset_superlock_def put_node_def e_def m_def fun_upd_twist)
  have m: "m = (sched_nodes s)(b \<mapsto> e, n \<mapsto> c\<lparr>node_next := b\<rparr>)" by (simp add: m_def f1)
  have "ring (sched_nodes s) (n # ns)" using ok(1) by (simp add: sched_ok_def)
  from ring_insert [OF this n(3) page(3) e_def] have r: "ring m (n # b # ns)" by (simp add: m)
  have live: "node_live s' x" if "x \<in> set (n # b # ns)" for x
  proof (cases "x = b")
    case True
    then show ?thesis using p page(2) bn by (simp add: node_live_def s'_def m e_def f1 unused_page_def)
  next
    case False
    then have x: "x \<in> set (n # ns)" using that by auto
    then have "node_live s x" "node_p (the (sched_nodes s x)) \<noteq> b"
      using ok(1) page(4) by (auto simp: sched_ok_def)
    then obtain dx qx where "x \<noteq> NULL" "sched_nodes s x = Some dx" "node_p dx \<noteq> NULL"
        "procs s (node_p dx) = Some qx" "node_p dx \<noteq> b"
      by (auto simp: node_live_def)
    then show ?thesis using False n(3) by (cases "x = n") (simp_all add: node_live_def s'_def m f1)
  qed
  have "prev s' = List.last (n # b # ns)" using ok f1(3) by (simp add: sched_ok_def s'_def)
  then have "sched_ok s' (n # b # ns)" using r live f1(2) by (simp add: sched_ok_def s'_def)
  moreover have "kernel_good s'"
  proof -
    have "mutex_is_open k s' = mutex_is_open k s1" for k by (simp add: mutex_is_open_def s'_def)
    then show ?thesis
      using g1 f1(2) by (auto simp: kernel_good_def quiet_def idle_mutex_def table_ok_def allocator_ready_def
          s'_def m_def)
  qed
  moreover have "node_p (the (sched_nodes s' b)) = p \<and> quantum (the (sched_nodes s' b)) = QUANTUM"
    using bn by (simp add: s'_def m e_def)
  moreover have "procs s' = (procs s)(b := None) \<and> process_table s' = process_table s \<and> superlock s' = UNLOCKED"
    using f1 by (simp add: s'_def)
  ultimately show ?thesis using run by blast
qed

section \<open>Properties\<close>


text \<open>
  \<open>exec_process\<close> puts a new process right behind the running one in the ring, so that it is
  the next to get the processor, and returns its pid; the rest of the ring is unchanged.
\<close>

theorem exec_process_next:
  assumes "kernel_good s" "sched_ok s (n # ns)" "ns \<noteq> []"
    and "pop_page (kpages s) = Some (b, pg)" "unused_page b s" "b \<notin> set (n # ns)"
    and "\<forall>x \<in> set (n # ns). node_p (the (sched_nodes s x)) \<noteq> b"
    and "p \<noteq> NULL" "procs s p = Some d" "b \<noteq> p" "pid d \<noteq> 0"
  shows "\<exists>s'. exec_process p s = Ret (pid d) s' \<and> sched_ok s' (n # b # ns) \<and> kernel_good s' \<and>
    node_p (the (sched_nodes s' b)) = p"
proof -
  obtain s' where s': "add_process p s = Ret () s'" "sched_ok s' (n # b # ns)" "kernel_good s'"
      "node_p (the (sched_nodes s' b)) = p" "procs s' = (procs s)(b := None)"
    using add_process_run [OF assms(1-10)] by blast
  then have "exec_process p s = Ret (pid d) s'"
    using assms(8-11) by (simp add: exec_process_def pid_process_def)
  then show ?thesis using s' by blast
qed

section \<open>Instances\<close>

definition creation_demo :: kstate where
  "creation_demo = sched_demo\<lparr>process_table := (replicate 128 NULL)[0 := 0x501000, 2 := 0x501000, 3 := 0x502000, 4 := 0x508000],
     kstacks := \<lparr>stack_pages_stack = replicate 128 0x900000, current_stack_index = 4\<rparr>\<rparr>"

lemma creation_demo_fields:
  "procs creation_demo = procs sched_demo" "sched_nodes creation_demo = sched_nodes sched_demo"
  "current creation_demo = 0x503000" "prev creation_demo = 0x505000"
  "process_table creation_demo = (replicate 128 NULL)[0 := 0x501000, 2 := 0x501000, 3 := 0x502000, 4 := 0x508000]"
  "kpages creation_demo = \<lparr>pages_stack = map Suc [0..<255], current_index = 9\<rparr>"
  by (simp_all add: creation_demo_def sched_demo_def demo_state_def)

lemma creation_demo_ok: "sched_ok creation_demo [0x503000, 0x504000, 0x505000]"
  using sched_demo_ok by (simp add: sched_ok_def node_live_def creation_demo_fields sched_demo_fields)

lemma creation_demo_good: "kernel_good creation_demo"
proof -
  have "mutex_is_open k creation_demo = mutex_is_open k sched_demo" for k
    by (simp add: mutex_is_open_def creation_demo_def)
  then have "quiet creation_demo"
    using sched_demo_good by (simp add: kernel_good_def quiet_def idle_mutex_def allocator_ready_def creation_demo_def)
  moreover have "set (process_table creation_demo) \<subseteq> {NULL, 0x501000, 0x502000, 0x508000}"
    unfolding creation_demo_fields by (auto dest!: subsetD [OF set_update_subset_insert])
  ultimately show ?thesis
    by (auto simp: kernel_good_def table_ok_def creation_demo_fields sched_demo_fields
        demo_process_def MAX_PROCESSES_def split: if_splits)
qed

lemma creation_demo_page: "pop_page (kpages creation_demo) = Some (0x50A000, \<lparr>pages_stack = map Suc [0..<255], current_index = 10\<rparr>)"
  by (simp add: pop_page_def creation_demo_fields STACK_SIZE_def page_address_def PAGE_SIZE_def DATA_ADDRESS_def)

lemma creation_demo_unused: "unused_page 0x50A000 creation_demo"
proof -
  have "set (process_table creation_demo) \<subseteq> {NULL, 0x501000, 0x502000, 0x508000}"
    unfolding creation_demo_fields by (auto dest!: subsetD [OF set_update_subset_insert])
  then have "(0x50A000 :: addr) \<notin> set (process_table creation_demo)" by auto
  then show ?thesis by (simp add: unused_page_def creation_demo_fields sched_demo_fields)
qed


theorem exec_process_next_witness:
  "\<exists>s'. exec_process 0x508000 creation_demo = Ret 4 s' \<and>
     sched_ok s' [0x503000, 0x50A000, 0x504000, 0x505000]"
proof -
  have p: "\<forall>x \<in> set [0x503000, 0x504000, 0x505000]. node_p (the (sched_nodes creation_demo x)) \<noteq> 0x50A000"
      "procs creation_demo 0x508000 = Some ((demo_process 4 READY)\<lparr>rsp := 77\<rparr>)"
      "(0x50A000 :: addr) \<notin> set [0x503000, 0x504000, 0x505000]"
    by (simp_all add: creation_demo_fields sched_demo_fields)
  have "\<exists>s'. exec_process 0x508000 creation_demo = Ret (pid ((demo_process 4 READY)\<lparr>rsp := 77\<rparr>)) s' \<and>
      sched_ok s' (0x503000 # 0x50A000 # [0x504000, 0x505000]) \<and> kernel_good s' \<and>
      node_p (the (sched_nodes s' 0x50A000)) = 0x508000"
    by (rule exec_process_next [OF creation_demo_good creation_demo_ok _ creation_demo_page creation_demo_unused
        p(3,1) _ p(2)]) (simp_all add: demo_process_def)
  then show ?thesis by (auto simp: demo_process_def)
qed

end
