(* ===== verification/Timer.thy ===== *)
theory Timer
  imports Scheduler
begin

text \<open>
  Correctness of \<open>Kernel/timer.c\<close>: how long \<open>sleep\<close> sleeps. The definitions of the code are in
  theory \<open>ProcessManager\<close>.
\<close>

definition tick_down :: "sleep_process \<Rightarrow> sleep_process" where
  "tick_down c = c\<lparr>sl_ticks := sl_ticks c - 1\<rparr>"

definition sleeper_ok :: "kstate \<Rightarrow> sleep_process \<Rightarrow> bool" where
  "sleeper_ok s c \<longleftrightarrow> 0 < sl_ticks c \<and> sl_ticks c < 2 ^ 64 \<and> sl_p c \<noteq> NULL \<and> procs s (sl_p c) \<noteq> None"

lemma decr64_pos: "0 < n \<Longrightarrow> n < 2 ^ 64 \<Longrightarrow> decr64 n = n - 1"
  unfolding decr64_def by (rule dec64)

lemma wake_dom: "m p \<noteq> None \<Longrightarrow> wake h ps m p \<noteq> None"
  by (induction ps arbitrary: m) auto

lemma timer_walk_run:
  "allocator_ready s \<Longrightarrow> \<forall>c \<in> set l. sleeper_ok s c \<Longrightarrow>
   \<exists>s'. timer_walk l s = Ret (map tick_down (filter (\<lambda>c. sl_ticks c \<noteq> 1) l)) s' \<and> frame s s' \<and>
     procs s' = wake unblock_process (map sl_p (filter (\<lambda>c. sl_ticks c = 1) l)) (procs s) \<and>
     kpages s' = fold push_one (map sl_page (filter (\<lambda>c. sl_ticks c = 1) l)) (kpages s)"
proof (induction l arbitrary: s)
  case Nil
  then show ?case by simp
next
  case (Cons c l)
  then have c: "0 < sl_ticks c" "sl_ticks c < 2 ^ 64" "sl_p c \<noteq> NULL" "procs s (sl_p c) \<noteq> None"
    by (auto simp: sleeper_ok_def)
  have t: "decr64 (sl_ticks c) = sl_ticks c - 1" using decr64_pos c by blast
  show ?case
  proof (cases "sl_ticks c = 1")
    case True
    obtain d where d: "procs s (sl_p c) = Some d" using c(4) by blast
    define s1 where "s1 = put_proc (sl_p c) (unblock_process d) s"
    have "allocator_ready s1" using Cons.prems(1) by (simp add: s1_def)
    then obtain v where v: "store_page (sl_page c) s1 = Ret v (stored [sl_page c] s1)"
      using store_page_stored by blast
    define s2 where "s2 = stored [sl_page c] s1"
    have "frame s s1" by (simp add: frame_def s1_def put_proc_def)
    then have f2: "frame s s2" by (simp add: s2_def)
    have "allocator_ready s2" using frame_ready [OF f2] Cons.prems(1) by simp
    moreover have p2: "procs s2 = (procs s)(sl_p c \<mapsto> unblock_process d)" by (simp add: s2_def s1_def)
    then have "\<forall>c \<in> set l. sleeper_ok s2 c" using Cons.prems(2) by (auto simp: sleeper_ok_def)
    ultimately obtain s' where s': "timer_walk l s2 = Ret (map tick_down (filter (\<lambda>c. sl_ticks c \<noteq> 1) l)) s'"
        "frame s2 s'" "procs s' = wake unblock_process (map sl_p (filter (\<lambda>c. sl_ticks c = 1) l)) (procs s2)"
        "kpages s' = fold push_one (map sl_page (filter (\<lambda>c. sl_ticks c = 1) l)) (kpages s2)"
      using Cons.IH by blast
    have "timer_walk (c # l) s = timer_walk l s2"
      using True c(3) d v t by (simp add: Let_def s1_def [symmetric] s2_def)
    then show ?thesis
      using s' True d p2 frame_trans [OF f2 s'(2)] by (auto simp: s2_def s1_def)
  next
    case False
    then have t0: "sl_ticks c - 1 \<noteq> 0" using c(1) by simp
    obtain s' where s': "timer_walk l s = Ret (map tick_down (filter (\<lambda>c. sl_ticks c \<noteq> 1) l)) s'"
        "frame s s'" "procs s' = wake unblock_process (map sl_p (filter (\<lambda>c. sl_ticks c = 1) l)) (procs s)"
        "kpages s' = fold push_one (map sl_page (filter (\<lambda>c. sl_ticks c = 1) l)) (kpages s)"
      using Cons.IH [OF Cons.prems(1)] Cons.prems(2) by auto
    then show ?thesis using False t t0 by (auto simp: Let_def tick_down_def)
  qed
qed

lemma timer_handler_run:
  assumes "allocator_ready s" "\<forall>c \<in> set (sleeping_processes s). sleeper_ok s c"
  shows "\<exists>s'. timer_handler s = Ret () s' \<and> frame s s' \<and>
    sleeping_processes s' = map tick_down (filter (\<lambda>c. sl_ticks c \<noteq> 1) (sleeping_processes s)) \<and>
    procs s' = wake unblock_process (map sl_p (filter (\<lambda>c. sl_ticks c = 1) (sleeping_processes s))) (procs s)"
proof -
  obtain s1 where s1: "timer_walk (sleeping_processes s) s =
        Ret (map tick_down (filter (\<lambda>c. sl_ticks c \<noteq> 1) (sleeping_processes s))) s1" "frame s s1"
      "procs s1 = wake unblock_process (map sl_p (filter (\<lambda>c. sl_ticks c = 1) (sleeping_processes s))) (procs s)"
    using timer_walk_run [OF assms] by blast
  let ?s' = "s1\<lparr>sleeping_processes := map tick_down (filter (\<lambda>c. sl_ticks c \<noteq> 1) (sleeping_processes s))\<rparr>"
  have "timer_handler s = Ret () ?s'" using s1(1) by (simp add: timer_handler_def)
  moreover have "frame s ?s'" using s1(2) by (simp add: frame_def)
  ultimately show ?thesis using s1(3) by (intro exI [of _ ?s']) simp
qed

text \<open>A number of timer ticks, with nothing in between.\<close>

primrec timer_ticks :: "nat \<Rightarrow> unit kop" where
  "timer_ticks 0 = kreturn ()"
| "timer_ticks (Suc n) = kthen timer_handler (timer_ticks n)"

definition age :: "nat \<Rightarrow> sleep_process \<Rightarrow> sleep_process" where
  "age n c = c\<lparr>sl_ticks := sl_ticks c - n\<rparr>"

lemma age_tick: "map (age n) (filter (\<lambda>c. n < sl_ticks c) (map tick_down (filter (\<lambda>c. sl_ticks c \<noteq> 1) l))) =
  map (age (Suc n)) (filter (\<lambda>c. Suc n < sl_ticks c) l)"
  by (induction l) (auto simp: age_def tick_down_def)

lemma timer_ticks_run:
  "allocator_ready s \<Longrightarrow> \<forall>c \<in> set (sleeping_processes s). sleeper_ok s c \<Longrightarrow>
   \<exists>s'. timer_ticks n s = Ret () s' \<and>
     sleeping_processes s' = map (age n) (filter (\<lambda>c. n < sl_ticks c) (sleeping_processes s)) \<and>
     (\<forall>p d. procs s p = Some d \<longrightarrow> procs s' p = Some
        (if \<exists>c \<in> set (sleeping_processes s). sl_p c = p \<and> sl_ticks c \<le> n then unblock_process d else d))"
proof (induction n arbitrary: s)
  case 0
  have "filter (\<lambda>c. 0 < sl_ticks c) (sleeping_processes s) = sleeping_processes s"
    using 0 by (auto simp: sleeper_ok_def)
  moreover have "age 0 c = c" for c by (simp add: age_def)
  then have "map (age 0) l = l" for l by (simp add: map_idI)
  ultimately show ?case using 0 by (auto simp: sleeper_ok_def)
next
  case (Suc n)
  let ?l = "sleeping_processes s"
  obtain s1 where s1: "timer_handler s = Ret () s1" "frame s s1"
      "sleeping_processes s1 = map tick_down (filter (\<lambda>c. sl_ticks c \<noteq> 1) ?l)"
      "procs s1 = wake unblock_process (map sl_p (filter (\<lambda>c. sl_ticks c = 1) ?l)) (procs s)"
    using timer_handler_run [OF Suc.prems] by blast
  have "allocator_ready s1" using frame_ready [OF s1(2)] Suc.prems(1) by simp
  moreover have "\<forall>c \<in> set (sleeping_processes s1). sleeper_ok s1 c"
    using Suc.prems(2) s1(3,4) wake_dom by (auto simp: sleeper_ok_def tick_down_def)
  ultimately obtain s' where s': "timer_ticks n s1 = Ret () s'"
      "sleeping_processes s' = map (age n) (filter (\<lambda>c. n < sl_ticks c) (sleeping_processes s1))"
      "\<forall>p d. procs s1 p = Some d \<longrightarrow> procs s' p = Some
        (if \<exists>c \<in> set (sleeping_processes s1). sl_p c = p \<and> sl_ticks c \<le> n then unblock_process d else d)"
    using Suc.IH by blast
  have idem: "unblock_process (unblock_process d) = unblock_process d" for d
    by (simp add: unblock_process_def)
  have "procs s' p = Some
      (if \<exists>c \<in> set ?l. sl_p c = p \<and> sl_ticks c \<le> Suc n then unblock_process d else d)"
    if d: "procs s p = Some d" for p d
  proof -
    let ?now = "\<exists>c \<in> set ?l. sl_p c = p \<and> sl_ticks c = 1"
    let ?ps = "map sl_p (filter (\<lambda>c. sl_ticks c = 1) ?l)"
    have now: "p \<in> set ?ps \<longleftrightarrow> ?now" by auto
    have "procs s1 p = Some (if ?now then unblock_process d else d)"
    proof (cases ?now)
      case True
      then show ?thesis unfolding s1(4) using wake_once [of p ?ps unblock_process "procs s" d] now idem d by simp
    next
      case False
      then have "p \<notin> set ?ps" using now by blast
      from wake_other [OF this] show ?thesis unfolding s1(4) if_not_P [OF False] using d by (simp only:)
    qed
    with s'(3) have "procs s' p = Some
        (if \<exists>c \<in> set (sleeping_processes s1). sl_p c = p \<and> sl_ticks c \<le> n
         then unblock_process (if ?now then unblock_process d else d) else if ?now then unblock_process d else d)"
      by blast
    moreover have "(\<exists>c \<in> set (sleeping_processes s1). sl_p c = p \<and> sl_ticks c \<le> n) \<longleftrightarrow>
        (\<exists>c \<in> set ?l. sl_p c = p \<and> sl_ticks c \<noteq> 1 \<and> sl_ticks c \<le> Suc n)"
      unfolding s1(3) by (auto simp: tick_down_def)
    moreover have "(\<exists>c \<in> set ?l. sl_p c = p \<and> sl_ticks c \<le> Suc n) \<longleftrightarrow>
        ?now \<or> (\<exists>c \<in> set ?l. sl_p c = p \<and> sl_ticks c \<noteq> 1 \<and> sl_ticks c \<le> Suc n)" by auto
    ultimately show ?thesis
      by (cases ?now) (simp_all only: idem if_True if_False simp_thms if_cancel)
  qed
  then show ?case using s1(1) s' age_tick [of n ?l] by (intro exI [of _ s']) (simp add: s1(3))
qed

text \<open>
  C13. \<open>sleep\<close> lasts exactly as many timer ticks as it was asked for: after \<open>n\<close> ticks the list
  holds the entries that asked for more than \<open>n\<close>, counted down by \<open>n\<close>; the processes of the
  others, and only these, have been unblocked.
\<close>

theorem sleep_lasts:
  assumes "allocator_ready s" "\<forall>c \<in> set (sleeping_processes s). sleeper_ok s c"
  shows "\<exists>s'. timer_ticks n s = Ret () s' \<and>
     sleeping_processes s' = map (age n) (filter (\<lambda>c. n < sl_ticks c) (sleeping_processes s)) \<and>
     (\<forall>p d. procs s p = Some d \<longrightarrow> procs s' p = Some
        (if \<exists>c \<in> set (sleeping_processes s). sl_p c = p \<and> sl_ticks c \<le> n then unblock_process d else d))"
  by (rule timer_ticks_run [OF assms])

definition sleep_demo :: kstate where
  "sleep_demo = (demo_state 9 (demo_mutex UNLOCKED create_queue))
     \<lparr>sleeping_processes := [\<lparr>sl_page = 0x509000, sl_p = 0x502000, sl_ticks = 2\<rparr>]\<rparr>"

theorem sleep_lasts_witness:
  "(\<exists>s'. timer_ticks 1 sleep_demo = Ret () s' \<and> procs s' 0x502000 = Some (demo_process 3 BLOCKED)) \<and>
   (\<exists>s'. timer_ticks 2 sleep_demo = Ret () s' \<and> procs s' 0x502000 = Some (demo_process 3 READY) \<and>
      sleeping_processes s' = [])"
proof -
  have ready: "allocator_ready sleep_demo"
    by (simp add: sleep_demo_def allocator_ready_def demo_defs mutex_is_open_def kq_is_empty_def is_empty_def
        create_queue_def)
  have l: "sleeping_processes sleep_demo = [\<lparr>sl_page = 0x509000, sl_p = 0x502000, sl_ticks = 2\<rparr>]"
      "procs sleep_demo 0x502000 = Some (demo_process 3 BLOCKED)"
    by (simp_all add: sleep_demo_def demo_state_def)
  then have ok: "\<forall>c \<in> set (sleeping_processes sleep_demo). sleeper_ok sleep_demo c"
    by (simp add: sleeper_ok_def)
  have u: "unblock_process (demo_process 3 BLOCKED) = demo_process 3 READY"
    by (simp add: unblock_process_def demo_process_def)
  show ?thesis
    using sleep_lasts [OF ready ok, of 1] sleep_lasts [OF ready ok, of 2] l u by auto
qed

end
