(* ===== verification/SystemCalls.thy ===== *)
theory SystemCalls
  imports CondVar Fifo Creation Timer
begin

text \<open>
  \<open>Kernel/systemCalls.c\<close>: the table of system calls, the calls and their wrappers, with
  \<open>process_info.c\<close>. Arguments and results are the 64-bit registers, as numbers below \<open>2^64\<close>;
  a pointer argument is an address of \<open>umem\<close>. The real time clock (assembler) is the argument
  \<open>rtc\<close> of the calls that read it: 0, 1, 2 for seconds, minutes, hour.
\<close>

section \<open>Registers and user memory\<close>

definition to_int :: "nat \<Rightarrow> int" where "to_int n = swrap32 (int n)"
definition ret64 :: "int \<Rightarrow> nat" where "ret64 i = nat (i mod 2 ^ 64)"

definition kret :: "int kop \<Rightarrow> nat kop" where "kret m = kbind m (\<lambda>i. kreturn (ret64 i))"

text \<open>
  A string argument: the page of memory from its address on. No name the kernel stores has
  more than 63 characters, so every comparison ends within it, and copying a longer one is
  out of bounds in any case.
\<close>

definition user_string :: "addr \<Rightarrow> byte list kop" where
  "user_string p = kgets (\<lambda>s. memory_bytes (umem s) p PAGE_SIZE)"

definition write_user :: "addr \<Rightarrow> byte list \<Rightarrow> unit kop" where
  "write_user a bs = kmodify (\<lambda>s. s\<lparr>umem := store_bytes (umem s) a bs\<rparr>)"

definition le32 :: "int \<Rightarrow> byte list" where "le32 v = le_bytes 4 (nat (v mod 2 ^ 32))"

definition on_screen_op :: "(video \<Rightarrow> video option) \<Rightarrow> unit kop" where
  "on_screen_op f =
     kbind (kgets (\<lambda>s. f (screen s))) (\<lambda>r. kbind (koption Out_of_bounds r) (\<lambda>v. kmodify (screen_update (\<lambda>_. v))))"

definition screen_result :: "(video \<Rightarrow> video \<times> int) \<Rightarrow> nat kop" where
  "screen_result f = kbind (kgets (\<lambda>s. f (screen s))) (\<lambda>(v, n). kthen (kmodify (screen_update (\<lambda>_. v))) (kreturn (ret64 n)))"

section \<open>Information about a process\<close>

record process_info =
  is_foreground :: int
  pi_st :: int
  pi_pid :: nat
  pi_ppid :: nat
  pi_name :: "byte list"
  stack_address :: addr
  mem_pages :: "addr list"

definition status_code :: "status \<Rightarrow> int" where
  "status_code x = (case x of RUNNING \<Rightarrow> 0 | READY \<Rightarrow> 1 | BLOCKED \<Rightarrow> 2 | BLOCKED_READ \<Rightarrow> 3 | DELETE \<Rightarrow> 4 |
     BLOCKED_FOREGROUND \<Rightarrow> 5)"

definition get_process_info :: "addr \<Rightarrow> process_info kop" where
  "get_process_info p =
     kthen assign_quantum (
     kbind (kgets foreground) (\<lambda>f.
     kbind get_current_process (\<lambda>c.
     kbind (test_proc p is_blocked_process True) (\<lambda>blocked.
     kbind (proc_at p) (\<lambda>d.
     kthen unassign_quantum (kreturn
       \<lparr>is_foreground = (if f = p then 1 else 0),
        pi_st = status_code (if p = c then RUNNING else if blocked then BLOCKED else READY),
        pi_pid = pid d, pi_ppid = ppid d, pi_name = cstr (name d), stack_address = stack_page d,
        mem_pages = data_pages_process d\<rparr>))))))"

text \<open>Where the fields of \<open>struct process_info_c\<close> lie.\<close>

definition write_process_info :: "addr \<Rightarrow> process_info \<Rightarrow> unit kop" where
  "write_process_info a i =
     kseq [write_user a [word_of_int (is_foreground i), word_of_int (pi_st i)],
           write_user (a + 8) (le_bytes 8 (pi_pid i)),
           write_user (a + 16) (le_bytes 8 (pi_ppid i)),
           write_user (a + 24) (pi_name i @ [0]),
           write_user (a + 88) (le_bytes 8 (stack_address i))]
       (write_user (a + 96) (concat (map (le_bytes 8) (mem_pages i))))"

definition get_process_info_by_pid :: "addr \<Rightarrow> nat \<Rightarrow> int kop" where
  "get_process_info_by_pid a i =
     kbind (get_process_by_pid i) (\<lambda>p.
       if p = NULL then kreturn 0
       else kbind (get_process_info p) (\<lambda>info. kthen (write_process_info a info) (kreturn 1)))"

section \<open>Input and output\<close>

definition STDOUT :: nat where "STDOUT = 0"
definition STDIN :: nat where "STDIN = 1"
definition STDERR :: nat where "STDERR = 2"

definition fifo_to_fds :: "int \<Rightarrow> nat" where
  "fifo_to_fds key = nat ((key + FILE_DESCRIPTORS) mod 2 ^ 32)"

definition fds_to_fifo :: "nat \<Rightarrow> int" where
  "fds_to_fifo fds = swrap32 (int fds - FILE_DESCRIPTORS)"

definition next_key :: "int kop" where
  "next_key = kbind (kgets (\<lambda>s. get_char (keys s))) (\<lambda>(kb, c).
     kthen (kmodify (keys_update (\<lambda>_. kb))) (kreturn c))"

text \<open>
  The loop of \<open>sys_read\<close>. \<open>_sti\<close> lets interrupts in before the process is marked as waiting
  for a key: other code may run there, so it is a suspension (\<open>kyield\<close>) of the run. The first
  argument bounds the iterations.
\<close>

primrec read_keys :: "nat \<Rightarrow> addr \<Rightarrow> nat \<Rightarrow> nat \<Rightarrow> nat kop" where
  "read_keys 0 buf i n = kfault Endless_loop"
| "read_keys (Suc k) buf i n =
     (if i < n then
        kbind next_key (\<lambda>c.
          if c \<noteq> -1 then kthen (write_user (buf + i) [word_of_int c]) (read_keys k buf (i + 1) n)
          else kseq [kyield,
                     kbind get_current_process (\<lambda>p. update_proc p block_read_process),
                     yield_process] (read_keys k buf i n))
      else kreturn i)"

definition sys_read :: "nat \<Rightarrow> nat \<Rightarrow> addr \<Rightarrow> nat \<Rightarrow> nat kop" where
  "sys_read tries fds buf n =
     (if fds = STDIN then
        kbind get_current_process (\<lambda>c. kbind (kgets foreground) (\<lambda>f.
        kthen
          (kwhen (c \<noteq> f)
             (kseq [kbind get_current_process (\<lambda>p. update_proc_or_null p block_foreground_process)] yield_process))
          (read_keys tries buf 0 n)))
      else if fds \<ge> 3
        then kbind (fifo_read (fds_to_fifo fds) buf (to_int n)) (\<lambda>i. kreturn (nat (i mod 2 ^ 32)))
      else kreturn 0)"

text \<open>\<open>n\<close> is not initialised when \<open>fds\<close> is the standard input.\<close>

definition sys_write :: "nat \<Rightarrow> addr \<Rightarrow> nat \<Rightarrow> nat kop" where
  "sys_write fds str len =
     (let text = (\<lambda>s. memory_bytes (umem s) str (nat (to_int len)))
      in if fds = STDERR then
           kbind (kgets (\<lambda>s. current_char_color (screen s))) (\<lambda>(r, g, b).
           kseq [on_screen_op (\<lambda>v. Some (fst (set_char_color 255 0 0 v))),
                 kbind (kgets text) (\<lambda>bs. on_screen_op (put bs)),
                 on_screen_op (\<lambda>v. Some (fst (set_char_color (unat r) (unat g) (unat b) v)))]
             (kreturn (len mod 2 ^ 32)))
         else if fds = STDOUT then kthen (kbind (kgets text) (\<lambda>bs. on_screen_op (put bs))) (kreturn len)
         else if fds \<ge> 3 then
           kbind (fifo_write (fds_to_fifo fds) str (to_int len)) (\<lambda>i. kreturn (nat (i mod 2 ^ 32)))
         else kfault Uninitialised)"

definition sys_time :: "(nat \<Rightarrow> nat) \<Rightarrow> nat \<Rightarrow> nat kop" where
  "sys_time rtc selection = kreturn (if selection \<le> 2 then rtc selection else ret64 (-1))"

definition sys_paint :: "nat \<Rightarrow> nat \<Rightarrow> nat \<Rightarrow> nat kop" where
  "sys_paint c x y =
     screen_result (fill (of_nat (c div 2 ^ 16 mod 256)) (of_nat (c div 2 ^ 8 mod 256)) (of_nat (c mod 256))
       (to_int x) (to_int y))"

definition sys_wait :: "nat \<Rightarrow> nat kop" where "sys_wait milliseconds = kret (sleep milliseconds)"

definition sys_screen_res :: "nat \<Rightarrow> nat kop" where
  "sys_screen_res selection =
     kret (kgets (\<lambda>s. if selection = 0 then scr_x_res (screen s)
                      else if selection = 1 then scr_y_res (screen s) else -1))"

definition sys_text_space :: "nat \<Rightarrow> nat kop" where
  "sys_text_space selection =
     kret (kgets (\<lambda>s. if selection = 0 then text_rows (screen s)
                      else if selection = 1 then text_cols (screen s) else -1))"

definition sys_set_char_color :: "nat \<Rightarrow> nat \<Rightarrow> nat \<Rightarrow> nat kop" where
  "sys_set_char_color r g b = screen_result (set_char_color r g b)"

definition sys_set_bg_color :: "nat \<Rightarrow> nat \<Rightarrow> nat \<Rightarrow> nat kop" where
  "sys_set_bg_color r g b = screen_result (set_bg_color r g b)"

section \<open>Memory and processes\<close>

definition sys_malloc :: "nat \<Rightarrow> nat kop" where
  "sys_malloc n =
     kbind (get_page n) (\<lambda>page. kbind get_current_process (\<lambda>p.
       kthen (update_proc p (\<lambda>d. add_data_page d page)) (kreturn page)))"

definition sys_free :: "nat \<Rightarrow> nat kop" where
  "sys_free address =
     kbind get_current_process (\<lambda>p.
       kthen (update_proc p (\<lambda>d. remove_data_page d address)) (kret (store_page address)))"

definition sys_data_address :: "nat kop" where "sys_data_address = kreturn DATA_ADDRESS"

definition sys_exec :: "nat \<Rightarrow> nat \<Rightarrow> addr \<Rightarrow> nat kop" where
  "sys_exec ptr params nm =
     kbind (user_string nm) (\<lambda>n. kbind (create_process ptr (of_nat params) n) exec_process)"

definition sys_end :: "nat kop" where "sys_end = kthen end_process (kreturn 1)"
definition sys_yield :: "nat kop" where "sys_yield = kthen yield_process (kreturn 1)"

definition sys_set_foreground :: "nat \<Rightarrow> nat kop" where
  "sys_set_foreground i =
     kbind (get_process_by_pid i) (\<lambda>p.
       if p = NULL then kreturn 0 else kthen (set_foreground_process p) (kreturn 1))"

definition sys_kill :: "nat \<Rightarrow> nat kop" where
  "sys_kill i =
     (if i \<noteq> 0 \<and> i \<noteq> 1 then kret (kbind (get_process_by_pid i) kill_process_at) else kreturn 0)"

definition sys_pid :: "nat kop" where "sys_pid = kbind get_current_process pid_process"
definition sys_ppid :: "nat kop" where "sys_ppid = kbind get_current_process ppid_process"

definition sys_process_info :: "nat \<Rightarrow> addr \<Rightarrow> nat kop" where
  "sys_process_info i a = kret (get_process_info_by_pid a i)"

definition sys_get_pids :: "addr \<Rightarrow> nat kop" where
  "sys_get_pids a =
     kbind get_current_pids (\<lambda>pids.
       kthen (write_user a (concat (map le32 pids))) (kreturn (length pids - 1)))"

section \<open>Inter-process communication\<close>

definition sys_mutex_op :: "addr \<Rightarrow> nat kop" where "sys_mutex_op p = kret (kbind (user_string p) mutex_open)"
definition sys_mutex_cl :: "nat \<Rightarrow> nat kop" where "sys_mutex_cl key = kret (mutex_close (to_int key))"
definition sys_mutex_lock :: "nat \<Rightarrow> nat kop" where "sys_mutex_lock key = kret (mutex_lock (to_int key))"
definition sys_mutex_unlock :: "nat \<Rightarrow> nat kop" where "sys_mutex_unlock key = kret (mutex_unlock (to_int key))"

definition sys_fifo_op :: "addr \<Rightarrow> nat kop" where
  "sys_fifo_op p = kbind (kbind (user_string p) fifo_open) (\<lambda>k. kreturn (fifo_to_fds k))"

definition sys_fifo_cl :: "nat \<Rightarrow> nat kop" where "sys_fifo_cl fds = kret (fifo_close (fds_to_fifo fds))"

definition sys_cond_open :: "addr \<Rightarrow> nat kop" where "sys_cond_open p = kret (kbind (user_string p) cond_open)"
definition sys_cond_wait :: "nat \<Rightarrow> nat \<Rightarrow> nat kop" where
  "sys_cond_wait c l = kret (cond_wait (to_int c) (to_int l))"
definition sys_cond_signal :: "nat \<Rightarrow> nat kop" where "sys_cond_signal key = kret (cond_signal (to_int key))"
definition sys_cond_broadcast :: "nat \<Rightarrow> nat kop" where
  "sys_cond_broadcast key = kret (cond_broadcast (to_int key))"
definition sys_cond_close :: "nat \<Rightarrow> nat kop" where "sys_cond_close key = kret (cond_close (to_int key))"

text \<open>The arrays of information are written entry by entry: a name of 64 bytes, then integers.\<close>

primrec write_entries :: "addr \<Rightarrow> (byte list \<times> int list) list \<Rightarrow> unit kop" where
  "write_entries a [] = kreturn ()"
| "write_entries a (e # es) =
     kseq [write_user a (fst e @ [0]), write_user (a + 64) (concat (map le32 (snd e)))]
       (write_entries (a + 64 + 4 * length (snd e)) es)"

definition sys_get_conds_info :: "addr \<Rightarrow> nat kop" where
  "sys_get_conds_info a = kbind get_conds_info (\<lambda>es.
     kthen (write_entries a (map (\<lambda>e. (ci_name e, [ci_key e])) es)) (kreturn (length es)))"

definition sys_get_mutexes_info :: "addr \<Rightarrow> nat kop" where
  "sys_get_mutexes_info a = kbind get_mutexes_info (\<lambda>es.
     kthen (write_entries a (map (\<lambda>e. (mi_name e, [mi_key e, mi_locked e])) es)) (kreturn (length es)))"

definition sys_get_fifos_info :: "addr \<Rightarrow> nat kop" where
  "sys_get_fifos_info a = kbind get_fifos_info (\<lambda>es.
     kthen (write_entries a (map (\<lambda>e. (fi_name e, [fi_fds e])) es)) (kreturn (length es)))"

section \<open>Wrappers and the table\<close>

type_synonym syscall = "nat \<Rightarrow> nat \<Rightarrow> nat \<Rightarrow> nat kop"

definition sys_write_wr :: "syscall" where
  "sys_write_wr fds str len = sys_write fds str len"

definition sys_read_wr :: "nat \<Rightarrow> syscall" where
  "sys_read_wr tries fds buf n = sys_read tries fds buf n"

definition sys_time_wr :: "(nat \<Rightarrow> nat) \<Rightarrow> syscall" where
  "sys_time_wr rtc selection unused2 unused3 = sys_time rtc selection"

definition sys_wait_wr :: "syscall" where
  "sys_wait_wr selection unused2 unused3 = sys_wait selection"

definition sys_screen_res_wr :: "syscall" where
  "sys_screen_res_wr selection unused2 unused3 = sys_screen_res selection"

definition sys_text_space_wr :: "syscall" where
  "sys_text_space_wr selection unused2 unused3 = sys_text_space selection"

definition sys_malloc_wr :: "syscall" where
  "sys_malloc_wr selection unused2 unused3 = sys_malloc selection"

definition sys_free_wr :: "syscall" where
  "sys_free_wr selection unused2 unused3 = sys_free selection"

definition sys_data_address_wr :: "syscall" where
  "sys_data_address_wr unused1 unused2 unused3 = sys_data_address"

definition sys_exec_wr :: "syscall" where
  "sys_exec_wr ptr params nm = sys_exec ptr params nm"

definition sys_end_wr :: "syscall" where
  "sys_end_wr unused1 unused2 unused3 = sys_end"

definition sys_yield_wr :: "syscall" where
  "sys_yield_wr unused1 unused2 unused3 = sys_yield"

definition sys_mutex_op_wr :: "syscall" where
  "sys_mutex_op_wr nameptr unused2 unused3 = sys_mutex_op nameptr"

definition sys_mutex_cl_wr :: "syscall" where
  "sys_mutex_cl_wr key unused2 unused3 = sys_mutex_cl key"

definition sys_mutex_lock_wr :: "syscall" where
  "sys_mutex_lock_wr key unused2 unused3 = sys_mutex_lock key"

definition sys_mutex_unlock_wr :: "syscall" where
  "sys_mutex_unlock_wr key unused2 unused3 = sys_mutex_unlock key"

definition sys_set_foreground_wr :: "syscall" where
  "sys_set_foreground_wr i unused2 unused3 = sys_set_foreground i"

definition sys_fifo_op_wr :: "syscall" where
  "sys_fifo_op_wr nameptr unused2 unused3 = sys_fifo_op nameptr"

definition sys_fifo_cl_wr :: "syscall" where
  "sys_fifo_cl_wr key unused2 unused3 = sys_fifo_cl key"

definition sys_kill_wr :: "syscall" where
  "sys_kill_wr i unused2 unused3 = sys_kill i"

definition sys_pid_wr :: "syscall" where
  "sys_pid_wr unused1 unused2 unused3 = sys_pid"

definition sys_ppid_wr :: "syscall" where
  "sys_ppid_wr unused1 unused2 unused3 = sys_ppid"

definition sys_process_info_wr :: "syscall" where
  "sys_process_info_wr i pi unused3 = sys_process_info i pi"

definition sys_cond_open_wr :: "syscall" where
  "sys_cond_open_wr nm unused2 unused3 = sys_cond_open nm"

definition sys_cond_wait_wr :: "syscall" where
  "sys_cond_wait_wr cond_key lock_key unused3 = sys_cond_wait cond_key lock_key"

definition sys_cond_signal_wr :: "syscall" where
  "sys_cond_signal_wr key unused2 unused3 = sys_cond_signal key"

definition sys_cond_broadcast_wr :: "syscall" where
  "sys_cond_broadcast_wr key unused2 unused3 = sys_cond_broadcast key"

definition sys_cond_close_wr :: "syscall" where
  "sys_cond_close_wr key unused2 unused3 = sys_cond_close key"

definition sys_get_pids_wr :: "syscall" where
  "sys_get_pids_wr pid_array unused2 unused3 = sys_get_pids pid_array"

definition sys_get_conds_info_wr :: "syscall" where
  "sys_get_conds_info_wr info_array unused2 unused3 = sys_get_conds_info info_array"

definition sys_get_mutexes_info_wr :: "syscall" where
  "sys_get_mutexes_info_wr info_array unused2 unused3 = sys_get_mutexes_info info_array"

definition sys_get_fifos_info_wr :: "syscall" where
  "sys_get_fifos_info_wr info_array unused2 unused3 = sys_get_fifos_info info_array"

text \<open>The table. \<open>tries\<close> and \<open>rtc\<close> are the arguments of \<open>sys_read\<close> and \<open>sys_time\<close>.\<close>

definition syscalls :: "nat \<Rightarrow> (nat \<Rightarrow> nat) \<Rightarrow> syscall option list" where
  "syscalls tries rtc =
     [None, None, None, Some (sys_read_wr tries),
      Some sys_write_wr, Some (sys_time_wr rtc), Some sys_paint, Some sys_wait_wr,
      Some sys_screen_res_wr, Some sys_text_space_wr, Some sys_malloc_wr, Some sys_free_wr,
      Some sys_data_address_wr, Some sys_set_char_color, Some sys_set_bg_color, Some sys_exec_wr,
      Some sys_end_wr, Some sys_yield_wr, Some sys_mutex_op_wr, Some sys_mutex_cl_wr,
      Some sys_mutex_lock_wr, Some sys_mutex_unlock_wr, Some sys_set_foreground_wr, Some sys_fifo_op_wr,
      Some sys_fifo_cl_wr, Some sys_kill_wr, Some sys_pid_wr, Some sys_ppid_wr,
      Some sys_process_info_wr, Some sys_cond_open_wr, Some sys_cond_wait_wr, Some sys_cond_signal_wr,
      Some sys_cond_broadcast_wr, Some sys_cond_close_wr, Some sys_get_pids_wr, Some sys_get_conds_info_wr,
      Some sys_get_mutexes_info_wr, Some sys_get_fifos_info_wr]"

definition SYS_SIZE :: nat where "SYS_SIZE = 38"

definition syscallDispatcher :: "nat \<Rightarrow> (nat \<Rightarrow> nat) \<Rightarrow> nat \<Rightarrow> nat \<Rightarrow> nat \<Rightarrow> nat \<Rightarrow> nat kop" where
  "syscallDispatcher tries rtc rax rbx rdx rcx =
     (if rax < SYS_SIZE \<and> rax \<ge> 3
      then (case syscalls tries rtc ! rax of Some f \<Rightarrow> f rbx rcx rdx | None \<Rightarrow> kfault Bad_pointer)
      else kreturn 0)"

section \<open>Facts\<close>

lemma pop_then_push:
  assumes "pop_page pgs = Some (a, pg)" "pages_stack pgs ! current_index pgs < 256" "length (pages_stack pgs) = STACK_SIZE"
  shows "push_page a pg = Some pgs"
  using assms by (auto simp: pop_page_def push_page_def split: if_splits)

lemma find_slot_put: "x \<notin> set ds \<Longrightarrow> y \<in> set ds \<Longrightarrow> find_slot (ds[find_slot ds y := x]) x = find_slot ds y"
  by (induction ds) auto

lemma find_slot_same: "find_slot ds y < length ds \<Longrightarrow> ds[find_slot ds y := y] = ds"
  using find_slot_nth list_update_id by metis

lemma add_remove_page:
  assumes "data_pages_ok d" "NULL \<in> set (data_page d)" "a \<notin> set (data_page d)"
  shows "remove_data_page (add_data_page d a) a = d"
proof -
  let ?i = "find_slot (data_page d) NULL"
  have i: "?i < length (data_page d)" "?i < MAX_DATA_PAGES"
    using assms(1,2) find_slot_less by (auto simp: data_pages_ok_def)
  have "n_data_page d \<le> 64" using used_slots_le [OF assms(1)] .
  then have "((n_data_page d + 1) mod 2 ^ 64 + 2 ^ 64 - 1) mod 2 ^ 64 = n_data_page d" by simp
  then show ?thesis
    using i find_slot_put [OF assms(3,2)] find_slot_same [OF i(1)]
    by (simp add: add_data_page_def remove_data_page_def)
qed

lemma table_entry_live:
  assumes "table_ok s" "i < MAX_PROCESSES" "process_table s ! i \<noteq> NULL"
  shows "\<exists>d. procs s (process_table s ! i) = Some d"
proof -
  have "\<forall>p \<in> set (process_table s). p = NULL \<or> procs s p \<noteq> None" "length (process_table s) = MAX_PROCESSES"
    using assms(1) by (simp_all add: table_ok_def)
  from bspec [OF this(1) nth_mem, of i] this(2) assms(2,3) show ?thesis by auto
qed

lemma get_process_by_pid_run:
  assumes "table_ok s"
  shows "get_process_by_pid i s = Ret
    (if i < MAX_PROCESSES \<and> process_table s ! i \<noteq> NULL \<and> \<not> is_dead s (process_table s ! i)
     then process_table s ! i else NULL) s"
proof (cases "i < MAX_PROCESSES \<and> process_table s ! i \<noteq> NULL")
  case True
  then obtain d where "procs s (process_table s ! i) = Some d" using table_entry_live [OF assms] by blast
  then show ?thesis
    using True assms by (simp add: get_process_by_pid_def table_entry_def peek_at_def table_ok_def is_dead_def)
qed (use assms in \<open>auto simp: get_process_by_pid_def table_entry_def peek_at_def table_ok_def\<close>)

text \<open>A number outside the table does nothing; every number inside it has a function.\<close>

lemma dispatch_other: "rax < 3 \<or> 38 \<le> rax \<Longrightarrow> syscallDispatcher tries rtc rax rbx rdx rcx s = Ret 0 s"
  by (auto simp: syscallDispatcher_def SYS_SIZE_def)

lemma dispatch_table:
  assumes "3 \<le> rax" "rax < 38"
  shows "syscalls tries rtc ! rax \<noteq> None"
proof -
  let ?l = "syscalls tries rtc"
  have "\<forall>f \<in> set (drop 3 ?l). f \<noteq> None" "length ?l = 38" by (simp_all add: syscalls_def)
  have len: "rax - 3 < length (drop 3 ?l)" using assms \<open>length ?l = 38\<close> by simp
  have "drop 3 ?l ! (rax - 3) = ?l ! (3 + (rax - 3))" by (rule nth_drop) (use \<open>length ?l = 38\<close> in simp)
  moreover have "3 + (rax - 3) = rax" using assms by simp
  ultimately show ?thesis using bspec [OF \<open>\<forall>f \<in> set (drop 3 ?l). f \<noteq> None\<close> nth_mem [OF len]] by (simp only:) blast
qed

lemma dispatch_10: "syscallDispatcher tries rtc 10 n x y = sys_malloc n"
  and dispatch_11: "syscallDispatcher tries rtc 11 n x y = sys_free n"
  and dispatch_25: "syscallDispatcher tries rtc 25 n x y = sys_kill n"
  by (simp_all add: syscallDispatcher_def SYS_SIZE_def syscalls_def sys_malloc_wr_def sys_free_wr_def sys_kill_wr_def)

text \<open>
  \<open>kill\<close> marks exactly the process it names: pids 0 (init) and 1 (shell), pids outside the
  table, empty slots and processes already killed give 0 and change nothing; any other process
  is marked for deletion, the call returns 1 and no other process is touched.
\<close>

theorem kill_marks_only_target:
  fixes i :: nat
  assumes "kernel_good s" "\<forall>j < MAX_PROCESSES. process_table s ! j \<noteq> NULL \<longrightarrow> pid (the (procs s (process_table s ! j))) = j"
  defines "p \<equiv> process_table s ! i"
  shows "\<exists>s'. syscallDispatcher tries rtc 25 i x y s =
      Ret (if 2 \<le> i \<and> i < MAX_PROCESSES \<and> p \<noteq> NULL \<and> \<not> is_dead s p then 1 else 0) s' \<and>
    s' = (if 2 \<le> i \<and> i < MAX_PROCESSES \<and> p \<noteq> NULL \<and> \<not> is_dead s p
          then put_proc p ((the (procs s p))\<lparr>st := DELETE\<rparr>) s else s)"
proof -
  have t: "table_ok s" using assms(1) by (simp add: kernel_good_def)
  note run = get_process_by_pid_run [OF t, of i]
  show ?thesis
  proof (cases "2 \<le> i \<and> i < MAX_PROCESSES \<and> p \<noteq> NULL \<and> \<not> is_dead s p")
    case True
    then obtain d where d: "procs s p = Some d" using table_entry_live [OF t] by (auto simp: p_def)
    have "pid d = i" using assms(2) True d by (auto simp: p_def)
    then have "kill_process d = d\<lparr>st := DELETE\<rparr>" using True by (simp add: kill_process_def)
    then have "sys_kill i s = Ret 1 (put_proc p (d\<lparr>st := DELETE\<rparr>) s)"
      using True run d by (simp add: sys_kill_def kret_def ret64_def kill_process_at_def p_def)
    then show ?thesis using True d unfolding dispatch_25 by simp
  next
    case False
    have "sys_kill i s = Ret 0 s"
    proof (cases "i = 0 \<or> i = 1")
      case small: True
      then show ?thesis by (auto simp: sys_kill_def)
    next
      case large: False
      then have "\<not> (i < MAX_PROCESSES \<and> process_table s ! i \<noteq> NULL \<and> \<not> is_dead s (process_table s ! i))"
        using False by (auto simp: p_def)
      with run have "get_process_by_pid i s = Ret NULL s" by (simp only: if_False)
      then show ?thesis using large by (simp add: sys_kill_def kret_def ret64_def kill_process_at_def)
    qed
    then show ?thesis using False unfolding dispatch_25 if_not_P [OF False] by blast
  qed
qed

section \<open>Properties\<close>

text \<open>
  C18. Allocating and freeing is a round trip through the system calls: \<open>malloc\<close> hands out the
  next free page and enters it in the caller's table of data pages; \<open>free\<close> of that page succeeds
  and restores both the stack of free pages and the caller's descriptor.
\<close>

theorem malloc_free_roundtrip:
  assumes "kernel_good s" "pop_page (kpages s) = Some (a, pg)" "unused_page a s"
    and "pages_stack (kpages s) ! current_index (kpages s) < 256" "length (pages_stack (kpages s)) = STACK_SIZE"
    and "sched_nodes s (current s) = Some c" "procs s (node_p c) = Some d"
    and "data_pages_ok d" "NULL \<in> set (data_page d)" "a \<notin> set (data_page d)"
  shows "\<exists>s1 s2. syscallDispatcher tries rtc 10 n x y s = Ret a s1 \<and>
    procs s1 (node_p c) = Some (add_data_page d a) \<and> kpages s1 = pg \<and>
    syscallDispatcher tries rtc 11 a x' y' s1 = Ret 1 s2 \<and>
    procs s2 (node_p c) = Some d \<and> kpages s2 = kpages s"
proof -
  have ready: "allocator_ready s" using assms(1) by (simp add: kernel_good_def quiet_def)
  have a: "a \<noteq> current s" "a \<noteq> node_p c" using assms(3,6) by (auto simp: unused_page_def)
  define s1 where "s1 = put_proc (node_p c) (add_data_page d a) (take_page a pg (settle s))"
  have s1: "sched_nodes s1 (current s1) = Some c" "procs s1 (node_p c) = Some (add_data_page d a)" "kpages s1 = pg"
    using a assms(6,7) by (simp_all add: s1_def)
  have malloc: "sys_malloc n s = Ret a s1"
    using get_page_eq [OF ready assms(2)] a assms(6,7) by (simp add: sys_malloc_def s1_def)
  let ?t = "put_proc (node_p c) d s1"
  have "allocator_ready ?t"
    using allocator_ready_take_page [of "settle s" a pg] ready a(1) by (simp add: s1_def)
  moreover have "push_page a (kpages ?t) = Some (kpages s)" using pop_then_push [OF assms(2,4,5)] s1(3) by simp
  ultimately have "store_page a ?t = Ret 1 ((settle ?t)\<lparr>kpages := kpages s\<rparr>)" using store_page_eq by simp
  then have "sys_free a s1 = Ret 1 ((settle ?t)\<lparr>kpages := kpages s\<rparr>)"
    using s1 add_remove_page [OF assms(8-10)] by (simp add: sys_free_def kret_def ret64_def)
  then show ?thesis using malloc s1 unfolding dispatch_10 dispatch_11 by auto
qed

theorem malloc_free_roundtrip_witness:
  "\<exists>s1 s2. syscallDispatcher 9 (\<lambda>_. 0) 10 100 0 0 creation_demo = Ret 0x50A000 s1 \<and>
     syscallDispatcher 9 (\<lambda>_. 0) 11 0x50A000 0 0 s1 = Ret 1 s2 \<and>
     procs s2 0x501000 = Some (demo_process 2 READY) \<and> kpages s2 = kpages creation_demo"
proof -
  have pages: "pages_stack (kpages creation_demo) ! current_index (kpages creation_demo) < 256"
      "length (pages_stack (kpages creation_demo)) = STACK_SIZE"
    by (simp_all add: creation_demo_fields STACK_SIZE_def)
  let ?c = "\<lparr>quantum = 1, node_p = 0x501000, node_next = 0x504000\<rparr>"
  have cur: "sched_nodes creation_demo (current creation_demo) = Some ?c"
      "procs creation_demo (node_p ?c) = Some (demo_process 2 READY)"
    by (simp_all add: creation_demo_fields sched_demo_fields)
  have data: "data_page (demo_process 2 READY) = replicate 64 0" "n_data_page (demo_process 2 READY) = 0"
    by (simp_all add: demo_process_def)
  then have d: "data_pages_ok (demo_process 2 READY)" "NULL \<in> set (data_page (demo_process 2 READY))"
      "0x50A000 \<notin> set (data_page (demo_process 2 READY))"
    by (simp_all add: data_pages_ok_def MAX_DATA_PAGES_def filter_replicate)
  show ?thesis
    using malloc_free_roundtrip [OF creation_demo_good creation_demo_page creation_demo_unused pages cur d,
        of 9 "\<lambda>_. 0" 100 0 0 0 0] by auto
qed

lemma sched_demo_pids:
  "pid (the (procs sched_demo 0x501000)) = 2" "pid (the (procs sched_demo 0x502000)) = 3"
  "pid (the (procs sched_demo 0x508000)) = 4"
  by (simp_all add: sched_demo_fields demo_process_def)

lemma sched_demo_table:
  "\<forall>j < MAX_PROCESSES. process_table sched_demo ! j \<noteq> NULL \<longrightarrow> pid (the (procs sched_demo (process_table sched_demo ! j))) = j"
proof -
  have e: "process_table sched_demo ! 4 = 0x508000" "process_table sched_demo ! 3 = 0x502000"
      "process_table sched_demo ! 2 = 0x501000"
    by (simp_all add: sched_demo_fields)
  have "process_table sched_demo ! j = NULL" if "j < MAX_PROCESSES" "j \<noteq> 2" "j \<noteq> 3" "j \<noteq> 4" for j
    using that by (simp add: sched_demo_fields MAX_PROCESSES_def)
  then show ?thesis using e by (metis (no_types, lifting) sched_demo_pids)
qed

theorem kill_marks_only_target_witness:
  "(\<exists>s'. syscallDispatcher 9 (\<lambda>_. 0) 25 4 0 0 sched_demo = Ret 1 s' \<and>
     procs s' 0x508000 = Some ((demo_process 4 DELETE)\<lparr>rsp := 77\<rparr>)) \<and>
   (\<exists>s'. syscallDispatcher 9 (\<lambda>_. 0) 25 3 0 0 sched_demo = Ret 0 s' \<and> s' = sched_demo)"
proof -
  have e: "process_table sched_demo ! 4 = 0x508000" "process_table sched_demo ! 3 = 0x502000"
    by (simp_all add: sched_demo_fields)
  have d: "\<not> is_dead sched_demo 0x508000" "is_dead sched_demo 0x502000"
      "procs sched_demo 0x508000 = Some ((demo_process 4 READY)\<lparr>rsp := 77\<rparr>)"
    by (simp_all add: is_dead_def is_delete_process_def sched_demo_fields demo_process_def)
  show ?thesis
    using kill_marks_only_target [OF sched_demo_good sched_demo_table, of 9 "\<lambda>_. 0" 4 0 0]
      kill_marks_only_target [OF sched_demo_good sched_demo_table, of 9 "\<lambda>_. 0" 3 0 0] e d
    by (auto simp: MAX_PROCESSES_def demo_process_def)
qed

end
