(* ===== verification/Console.thy ===== *)
theory Console
  imports CLib
begin

text \<open>
  \<open>Kernel/naiveConsole.c\<close>, the text console of the boot: 80 columns of cells of two bytes,
  written one after the other from \<open>0xB8000\<close> without a bound. The text memory is a device: it
  is kept apart from the memory of the program. \<open>cell\<close> is the number of the cell
  \<open>currentVideo\<close> points to.
\<close>

record console =
  nc_cells :: "nat \<Rightarrow> byte"
  cell :: nat

definition nc_width :: nat where "nc_width = 80"
definition nc_height :: nat where "nc_height = 25"

definition ncPrintChar :: "byte \<Rightarrow> console \<Rightarrow> console" where
  "ncPrintChar c k = k\<lparr>nc_cells := (nc_cells k)(cell k := c), cell := cell k + 1\<rparr>"

primrec ncPrint_loop :: "byte list \<Rightarrow> console \<Rightarrow> console" where
  "ncPrint_loop [] k = k"
| "ncPrint_loop (c # s) k = (if c \<noteq> 0 then ncPrint_loop s (ncPrintChar c k) else k)"

definition ncPrint :: "byte list \<Rightarrow> console \<Rightarrow> console" where "ncPrint s k = ncPrint_loop s k"

lemma nc_distance:
  assumes "2 * (n + 1) mod (nc_width * 2) \<noteq> (0 :: nat)"
  shows "nc_width - (n + 1) mod nc_width < nc_width - n mod nc_width"
proof -
  have "2 * (n + 1) mod (2 * 80) = 2 * ((n + 1) mod 80)" by (rule mult_mod_right [symmetric])
  then have "(n + 1) mod 80 \<noteq> 0" using assms by (simp add: nc_width_def)
  then have "(n + 1) mod 80 = n mod 80 + 1" by (simp add: mod_Suc split: if_splits)
  moreover have "n mod 80 < 80" by simp
  ultimately show ?thesis by (simp add: nc_width_def)
qed

text \<open>The loop prints blanks until the address is a multiple of the two bytes times 80.\<close>

function ncNewline :: "console \<Rightarrow> console" where
  "ncNewline k =
     (let k1 = ncPrintChar 32 k
      in if 2 * cell k1 mod (nc_width * 2) \<noteq> 0 then ncNewline k1 else k1)"
  by pat_completeness auto

termination
  by (relation "measure (\<lambda>k. nc_width - cell k mod nc_width)") (use nc_distance in \<open>auto simp: ncPrintChar_def\<close>)

declare ncNewline.simps [simp del]

definition ncPrintBase :: "u64 \<Rightarrow> u32 \<Rightarrow> console \<Rightarrow> console option" where
  "ncPrintBase value base k = map_option (\<lambda>(buf, digits). ncPrint buf k) (uintToBase value base)"

definition ncPrintDec :: "u64 \<Rightarrow> console \<Rightarrow> console option" where "ncPrintDec value = ncPrintBase value 10"
definition ncPrintHex :: "u64 \<Rightarrow> console \<Rightarrow> console option" where "ncPrintHex value = ncPrintBase value 16"
definition ncPrintBin :: "u64 \<Rightarrow> console \<Rightarrow> console option" where "ncPrintBin value = ncPrintBase value 2"

definition ncClear :: "console \<Rightarrow> console" where
  "ncClear k = k\<lparr>nc_cells := (\<lambda>i. if i < nc_height * nc_width then 32 else nc_cells k i), cell := 0\<rparr>"

section \<open>Facts\<close>

lemma no_cells: "(\<lambda>i. if a \<le> i \<and> i < (a :: nat) then f i else g i) = g"
  by (rule ext) auto

lemma ncPrint_cells:
  "ncPrint_loop s k = k\<lparr>nc_cells := (\<lambda>i. if cell k \<le> i \<and> i < cell k + length (cstr s) then cstr s ! (i - cell k) else nc_cells k i),
     cell := cell k + length (cstr s)\<rparr>"
proof (induction s arbitrary: k)
  case (Cons c s)
  show ?case
  proof (cases "c = 0")
    case False
    then have "ncPrint_loop (c # s) k = ncPrint_loop s (ncPrintChar c k)" by simp
    also have "\<dots> = k\<lparr>nc_cells := (\<lambda>i. if cell k \<le> i \<and> i < cell k + length (cstr (c # s)) then cstr (c # s) ! (i - cell k) else nc_cells k i),
        cell := cell k + length (cstr (c # s))\<rparr>"
      unfolding Cons.IH ncPrintChar_def
      using False by (auto simp: fun_eq_iff nth_Cons' not_le less_Suc_eq_le intro: arg_cong [of _ _ "nth _"])
    finally show ?thesis .
  qed (simp add: no_cells)
qed (simp add: no_cells)

lemma ncNewline_row:
  "\<exists>k'. ncNewline k = k' \<and> cell k' mod 80 = 0 \<and> cell k < cell k' \<and> cell k' \<le> cell k + 80 \<and>
     (\<forall>i. nc_cells k' i = (if cell k \<le> i \<and> i < cell k' then 32 else nc_cells k i))"
proof -
  define n where "n = 79 - cell k mod 80"
  then show ?thesis
  proof (induction n arbitrary: k)
    case 0
    have "(cell k + 1) mod 80 = 0" using 0 mod_less_divisor [of 80 "cell k"] by (simp add: mod_Suc)
    moreover have "2 * (cell k + 1) mod (2 * 80) = 2 * ((cell k + 1) mod 80)" by (rule mult_mod_right [symmetric])
    ultimately have "2 * (cell k + 1) mod 160 = 0" by simp
    then have "ncNewline k = ncPrintChar 32 k"
      by (simp add: ncNewline.simps [of k] Let_def ncPrintChar_def nc_width_def)
    then show ?case using \<open>(cell k + 1) mod 80 = 0\<close> by (auto simp: ncPrintChar_def)
  next
    case (Suc n)
    have lt: "cell k mod 80 < 79" using Suc.prems by simp
    then have s: "(cell k + 1) mod 80 = cell k mod 80 + 1" by (simp add: mod_Suc)
    moreover have "2 * (cell k + 1) mod (2 * 80) = 2 * ((cell k + 1) mod 80)" by (rule mult_mod_right [symmetric])
    ultimately have "2 * (cell k + 1) mod 160 \<noteq> 0" by simp
    then have step: "ncNewline k = ncNewline (ncPrintChar 32 k)"
      by (simp add: ncNewline.simps [of k] Let_def ncPrintChar_def nc_width_def)
    have "n = 79 - cell (ncPrintChar 32 k) mod 80" using Suc.prems s by (simp add: ncPrintChar_def)
    from Suc.IH [OF this] have IH: "cell (ncNewline (ncPrintChar 32 k)) mod 80 = 0"
        "cell k + 1 < cell (ncNewline (ncPrintChar 32 k))"
        "\<forall>i. nc_cells (ncNewline (ncPrintChar 32 k)) i = (if cell k + 1 \<le> i \<and> i < cell (ncNewline (ncPrintChar 32 k))
           then 32 else nc_cells (ncPrintChar 32 k) i)"
        "cell (ncNewline (ncPrintChar 32 k)) \<le> cell k + 1 + 80"
      by (auto simp: ncPrintChar_def)
    have "cell (ncNewline (ncPrintChar 32 k)) \<le> cell k + 80"
    proof (rule ccontr)
      assume "\<not> ?thesis"
      then have "cell (ncNewline (ncPrintChar 32 k)) = cell k + 1 + 80" using IH(4) by simp
      moreover have "(cell k + 1 + 80) mod 80 = (cell k + 1) mod 80" by (rule mod_add_self2)
      ultimately show False using IH(1) s by (simp only:)
    qed
    then show ?case using step IH by (auto simp: ncPrintChar_def)
  qed
qed

end
