(* ===== verification/ModuleImage.thy ===== *)
theory ModuleImage
  imports Console
begin

text \<open>
  The modules of user programs: \<open>Toolchain/ModulePacker/main.c\<close> appends them to the kernel's
  image, \<open>Kernel/moduleLoader.c\<close> copies them to their addresses at boot. Files are lists of
  bytes, a file system is a map from names to files (a file that cannot be opened is not in
  it); printing to the terminal of the packer is not modelled.
\<close>

section \<open>The packer\<close>

definition BUFFER_SIZE :: nat where "BUFFER_SIZE = 128"
definition MAX_FILES :: nat where "MAX_FILES = 128"

definition uint32_bytes :: "nat \<Rightarrow> byte list" where
  "uint32_bytes v = le_bytes 4 v"

text \<open>\<open>feof\<close> holds once a read has come up short: a file of full buffers is read once more.\<close>

function write_file :: "byte list \<Rightarrow> byte list \<Rightarrow> byte list" where
  "write_file target source =
     (let target1 = target @ take BUFFER_SIZE source
      in if length source < BUFFER_SIZE then target1 else write_file target1 (drop BUFFER_SIZE source))"
  by pat_completeness auto
termination
  by (relation "measure (\<lambda>(t, s). length s)") (auto simp: BUFFER_SIZE_def)

declare write_file.simps [simp del]

definition write_size :: "byte list \<Rightarrow> byte list \<Rightarrow> byte list" where
  "write_size target file = target @ uint32_bytes (length file mod 2 ^ 32)"

primrec append_modules :: "byte list \<Rightarrow> byte list list \<Rightarrow> byte list" where
  "append_modules target [] = target"
| "append_modules target (f # fs) = append_modules (write_file (write_size target f) f) fs"

text \<open>\<open>buildImage\<close>: \<open>fopen\<close> of a missing source is \<open>NULL\<close>, which the loops would read from.\<close>

definition buildImage :: "(string \<rightharpoonup> byte list) \<Rightarrow> string list \<Rightarrow> byte list option" where
  "buildImage files names =
     (case those (map files names) of
        Some (kern # mods) \<Rightarrow>
          Some (append_modules (write_file [] kern @ uint32_bytes (length mods)) mods)
      | _ \<Rightarrow> None)"

definition checkFiles :: "(string \<rightharpoonup> byte list) \<Rightarrow> string list \<Rightarrow> bool" where
  "checkFiles files names \<longleftrightarrow> (\<forall>n \<in> set names. files n \<noteq> None)"

text \<open>
  The command line, as \<open>argp\<close> hands it to \<open>parse_opt\<close>. The table of names has 128 entries and
  no bound is checked.
\<close>

datatype arg_event = Opt_output string | Arg string | End_args

record arguments =
  args :: "string list"
  output_file :: string
  count :: nat

datatype parse_result = Parsed arguments | Usage | Overrun

fun parse_opt :: "arg_event \<Rightarrow> arguments \<Rightarrow> parse_result" where
  "parse_opt (Opt_output f) a = Parsed (a\<lparr>output_file := f\<rparr>)"
| "parse_opt (Arg f) a = (if length (args a) < MAX_FILES then Parsed (a\<lparr>args := args a @ [f]\<rparr>) else Overrun)"
| "parse_opt End_args a = (if length (args a) < 1 then Usage else Parsed (a\<lparr>count := length (args a)\<rparr>))"

fun argp_parse :: "arg_event list \<Rightarrow> arguments \<Rightarrow> parse_result" where
  "argp_parse [] a = Parsed a"
| "argp_parse (e # es) a = (case parse_opt e a of Parsed b \<Rightarrow> argp_parse es b | r \<Rightarrow> r)"

text \<open>\<open>main\<close>: the exit status, and the name and contents of the file it writes.\<close>

definition packer_main :: "(string \<rightharpoonup> byte list) \<Rightarrow> arg_event list \<Rightarrow> (int \<times> (string \<times> byte list) option) option" where
  "packer_main files es =
     (case argp_parse es \<lparr>args = [], output_file = ''packedKernel.bin'', count = 0\<rparr> of
        Parsed a \<Rightarrow>
          (let names = take (count a) (args a)
           in if \<not> checkFiles files names then Some (1, None)
              else map_option (\<lambda>img. (0, Some (output_file a, img))) (buildImage files names))
      | Usage \<Rightarrow> Some (64, None)
      | Overrun \<Rightarrow> None)"

section \<open>The loader\<close>

text \<open>A pointer into memory that is read and advanced.\<close>

definition readUint32 :: "memory \<Rightarrow> addr \<Rightarrow> nat \<times> addr" where
  "readUint32 m a =
     (unat (m a) + 256 * (unat (m (a + 1)) + 256 * (unat (m (a + 2)) + 256 * unat (m (a + 3)))), a + 4)"

definition nc_text :: "string \<Rightarrow> console \<Rightarrow> console" where "nc_text s = ncPrint (cstring s)"

definition loadModule :: "addr \<Rightarrow> memory \<times> addr \<times> console \<Rightarrow> (memory \<times> addr \<times> console) option" where
  "loadModule target = (\<lambda>(m, module, k).
     let (moduleSize, p) = readUint32 m module
     in Option.bind (ncPrintHex (of_nat p) (nc_text ''  Will copy module at 0x'' k)) (\<lambda>k.
        Option.bind (ncPrintHex (of_nat target) (nc_text '' to 0x'' k)) (\<lambda>k.
        Option.bind (ncPrintDec (of_nat moduleSize) (nc_text '' ('' k)) (\<lambda>k.
          Some (memcpy m target p moduleSize, p + moduleSize,
                ncNewline (nc_text '' [Done]'' (nc_text '' bytes)'' k)))))))"

fun loadModules_loop :: "nat \<Rightarrow> addr list \<Rightarrow> memory \<times> addr \<times> console \<Rightarrow> (memory \<times> addr \<times> console) option" where
  "loadModules_loop 0 targets c = Some c"
| "loadModules_loop (Suc n) [] c = None"
| "loadModules_loop (Suc n) (t # ts) c = Option.bind (loadModule t c) (loadModules_loop n ts)"

definition loadModules :: "addr \<Rightarrow> addr list \<Rightarrow> memory \<Rightarrow> console \<Rightarrow> (memory \<times> console) option" where
  "loadModules payload targets m k =
     (let (moduleCount, p) = readUint32 m payload
      in map_option (\<lambda>(m', p', k'). (m', k')) (loadModules_loop moduleCount targets (m, p, k)))"

section \<open>What the packer writes\<close>

lemma write_file_eq: "write_file target source = target @ source"
proof (induction target source rule: write_file.induct)
  case (1 target source)
  show ?case
  proof (cases "length source < BUFFER_SIZE")
    case True
    then show ?thesis by (simp add: write_file.simps [of target source])
  next
    case False
    with 1 show ?thesis by (simp add: write_file.simps [of target source])
  qed
qed

text \<open>The modules as they lie in the image: each one's size, then its bytes.\<close>

primrec module_bytes :: "byte list list \<Rightarrow> byte list" where
  "module_bytes [] = []"
| "module_bytes (f # fs) = uint32_bytes (length f mod 2 ^ 32) @ f @ module_bytes fs"

lemma append_modules_eq: "append_modules target fs = target @ module_bytes fs"
  by (induction fs arbitrary: target) (simp_all add: write_file_eq write_size_def)

lemma buildImage_eq:
  assumes "files kname = Some kern" "map files names = map Some mods"
  shows "buildImage files (kname # names) = Some (kern @ uint32_bytes (length mods) @ module_bytes mods)"
proof -
  have "those (map Some mods) = Some mods" by (induction mods) auto
  then show ?thesis using assms by (simp add: buildImage_def append_modules_eq write_file_eq)
qed

section \<open>What the loader reads\<close>

definition memory_holds :: "memory \<Rightarrow> addr \<Rightarrow> byte list \<Rightarrow> bool" where
  "memory_holds m a bs \<longleftrightarrow> (\<forall>i < length bs. m (a + i) = bs ! i)"

lemma memory_holds_append:
  "memory_holds m a (xs @ ys) \<longleftrightarrow> memory_holds m a xs \<and> memory_holds m (a + length xs) ys"
proof
  assume h: "memory_holds m a (xs @ ys)"
  have "m (a + i) = xs ! i" if "i < length xs" for i
    using h [unfolded memory_holds_def, rule_format, of i] that by (simp add: nth_append)
  moreover have "m (a + length xs + i) = ys ! i" if "i < length ys" for i
    using h [unfolded memory_holds_def, rule_format, of "length xs + i"] that by (simp add: nth_append add.assoc)
  ultimately show "memory_holds m a xs \<and> memory_holds m (a + length xs) ys" by (simp add: memory_holds_def)
next
  assume h: "memory_holds m a xs \<and> memory_holds m (a + length xs) ys"
  have "m (a + i) = (xs @ ys) ! i" if "i < length xs + length ys" for i
  proof (cases "i < length xs")
    case False
    then have "m (a + length xs + (i - length xs)) = ys ! (i - length xs)"
      using h [unfolded memory_holds_def, THEN conjunct2, rule_format, of "i - length xs"] that False by simp
    then show ?thesis using False by (simp add: nth_append)
  qed (use h in \<open>simp add: memory_holds_def nth_append\<close>)
  then show "memory_holds m a (xs @ ys)" by (simp add: memory_holds_def)
qed

lemma readUint32_bytes:
  assumes "memory_holds m a (uint32_bytes v)" "v < 2 ^ 32"
  shows "readUint32 m a = (v, a + 4)"
proof -
  have b: "m (a + i) = of_nat (v div 256 ^ i)" if "i < 4" for i
    using assms(1) that by (simp add: memory_holds_def uint32_bytes_def le_bytes_def)
  have "m a = of_nat v" "m (a + 1) = of_nat (v div 256)" "m (a + 2) = of_nat (v div 65536)" "m (a + 3) = of_nat (v div 16777216)"
    using b [of 0] b [of 1] b [of 2] b [of 3] by simp_all
  then have u: "unat (m a) = v mod 256" "unat (m (a + 1)) = v div 256 mod 256" "unat (m (a + 2)) = v div 256 div 256 mod 256"
      "unat (m (a + 3)) = v div 256 div 256 div 256 mod 256"
    by (simp_all add: unat_of_nat div_mult2_eq [symmetric])
  have split: "x mod 256 + 256 * (x div 256) = x" for x :: nat by simp
  have "v div 256 div 256 div 256 < 256" using assms(2) by (simp add: div_mult2_eq [symmetric] less_mult_imp_div_less)
  then show ?thesis unfolding readUint32_def u by (simp add: split)
qed

lemma ncPrintBase_some:
  assumes "2 \<le> base"
  shows "\<exists>k'. ncPrintBase v base k = Some k'"
proof -
  have "2 \<le> unat base" using assms by (simp add: word_le_nat_alt)
  from uint_digits_value [OF this, of "unat v"] show ?thesis
    by (auto simp: ncPrintBase_def uintToBase_def)
qed

lemma loadModule_run:
  assumes "readUint32 m p = (n, q)"
  shows "\<exists>k'. loadModule t (m, p, k) = Some (memcpy m t q n, q + n, k')"
proof -
  have hex: "\<exists>k'. ncPrintHex v k = Some k'" "\<exists>k'. ncPrintDec v k = Some k'" for v k
    by (simp_all add: ncPrintHex_def ncPrintDec_def ncPrintBase_some)
  obtain k1 where k1: "ncPrintHex (of_nat q) (nc_text ''  Will copy module at 0x'' k) = Some k1" using hex(1) by blast
  obtain k2 where k2: "ncPrintHex (of_nat t) (nc_text '' to 0x'' k1) = Some k2" using hex(1) by blast
  obtain k3 where k3: "ncPrintDec (of_nat n) (nc_text '' ('' k2) = Some k3" using hex(2) by blast
  show ?thesis using assms k1 k2 k3 by (auto simp: loadModule_def)
qed

text \<open>Two blocks do not overlap; the targets of a list of modules.\<close>

definition apart :: "addr \<Rightarrow> nat \<Rightarrow> addr \<Rightarrow> nat \<Rightarrow> bool" where
  "apart a n b k \<longleftrightarrow> a + n \<le> b \<or> b + k \<le> a"

definition outside_targets :: "(addr \<times> byte list) list \<Rightarrow> addr \<Rightarrow> bool" where
  "outside_targets tfs a \<longleftrightarrow> (\<forall>(t, f) \<in> set tfs. a < t \<or> t + length f \<le> a)"

lemma memory_holds_cong:
  "memory_holds m a bs \<Longrightarrow> (\<And>i. i < length bs \<Longrightarrow> m' (a + i) = m (a + i)) \<Longrightarrow> memory_holds m' a bs"
  by (simp add: memory_holds_def)

lemma loadModules_loop_run:
  "memory_holds m p (module_bytes mods) \<Longrightarrow> length ts = length mods \<Longrightarrow> \<forall>f \<in> set mods. length f < 2 ^ 32 \<Longrightarrow>
   \<forall>(t, f) \<in> set (zip ts mods). apart t (length f) p (length (module_bytes mods)) \<Longrightarrow>
   sorted_wrt (\<lambda>(t, f) (u, g). apart t (length f) u (length g)) (zip ts mods) \<Longrightarrow>
   \<exists>m' p' k'. loadModules_loop (length mods) ts (m, p, k) = Some (m', p', k') \<and>
     (\<forall>(t, f) \<in> set (zip ts mods). memory_holds m' t f) \<and> (\<forall>a. outside_targets (zip ts mods) a \<longrightarrow> m' a = m a)"
proof (induction mods arbitrary: ts m p k)
  case (Cons f fs)
  obtain t us where ts: "ts = t # us" using Cons.prems(2) by (cases ts) auto
  let ?n = "length f"
  have len: "?n < 2 ^ 32" using Cons.prems(3) by simp
  have holds: "memory_holds m p (uint32_bytes ?n)" "memory_holds m (p + 4) f" "memory_holds m (p + 4 + ?n) (module_bytes fs)"
    using Cons.prems(1) len by (simp_all add: memory_holds_append uint32_bytes_def)
  have ap: "apart t ?n p (4 + ?n + length (module_bytes fs))"
    using Cons.prems(4) ts by (simp add: uint32_bytes_def add.assoc)
  let ?m1 = "block_copied m t (p + 4) ?n"
  have "t \<le> p + 4 \<or> p + 4 + ?n \<le> t" using ap by (auto simp: apart_def)
  then have copy: "memcpy m t (p + 4) ?n = ?m1" by (rule memcpy_block)
  obtain k1 where load: "loadModule t (m, p, k) = Some (?m1, p + 4 + ?n, k1)"
    using loadModule_run [OF readUint32_bytes [OF holds(1) len], of t k] unfolding copy by blast
  have m1: "?m1 a = m a" if "a < t \<or> t + ?n \<le> a" for a using that by (auto simp: block_copied_def)
  have m1f: "memory_holds ?m1 t f" using holds(2) by (simp add: memory_holds_def block_copied_def)
  have rest: "memory_holds ?m1 (p + 4 + ?n) (module_bytes fs)"
    by (rule memory_holds_cong [OF holds(3)]) (use ap m1 in \<open>auto simp: apart_def\<close>)
  have aparts: "\<forall>(u, g) \<in> set (zip us fs). apart u (length g) (p + 4 + ?n) (length (module_bytes fs))"
    using Cons.prems(4) ts by (auto simp: apart_def uint32_bytes_def)
  have ord: "sorted_wrt (\<lambda>(t, f) (u, g). apart t (length f) u (length g)) (zip us fs)"
      "\<forall>(u, g) \<in> set (zip us fs). apart t ?n u (length g)"
    using Cons.prems(5) ts by auto
  have "length us = length fs" "\<forall>f \<in> set fs. length f < 2 ^ 32" using Cons.prems(2,3) ts by auto
  from Cons.IH [OF rest this aparts ord(1), of k1] obtain m' p' k' where
    IH: "loadModules_loop (length fs) us (?m1, p + 4 + ?n, k1) = Some (m', p', k')"
      "\<forall>(u, g) \<in> set (zip us fs). memory_holds m' u g" "\<forall>a. outside_targets (zip us fs) a \<longrightarrow> m' a = ?m1 a" by blast
  have "outside_targets (zip us fs) (t + i)" if "i < ?n" for i
    unfolding outside_targets_def
  proof (intro ballI, clarify)
    fix u g assume "(u, g) \<in> set (zip us fs)" "\<not> u + length g \<le> t + i"
    moreover from this have "apart t ?n u (length g)" using ord(2) by auto
    ultimately show "t + i < u" using that by (auto simp: apart_def)
  qed
  then have "memory_holds m' t f" using IH(3) by (intro memory_holds_cong [OF m1f]) auto
  moreover have "m' a = m a" if "outside_targets (zip ts (f # fs)) a" for a
  proof -
    have "outside_targets (zip us fs) a" "a < t \<or> t + ?n \<le> a" using that ts by (auto simp: outside_targets_def)
    then show ?thesis using IH(3) m1 by auto
  qed
  ultimately show ?case using IH(1,2) load ts by auto
qed (auto simp: outside_targets_def)

section \<open>Properties\<close>

text \<open>
  C19. Packing and loading is a round trip: when the image the packer builds from a kernel and
  its modules lies in memory, the loader, started behind the kernel, puts every module at its
  target address byte for byte and changes nothing else, provided the targets overlap neither
  each other nor the modules in the image.
\<close>

theorem pack_load_roundtrip:
  assumes "files kname = Some kern" "map files names = map Some mods"
    and "buildImage files (kname # names) = Some packed" "memory_holds m base packed"
    and "length mods < 2 ^ 32" "\<forall>f \<in> set mods. length f < 2 ^ 32" "length targets = length mods"
    and "\<forall>(t, f) \<in> set (zip targets mods). apart t (length f) (base + length kern) (length packed - length kern)"
    and "sorted_wrt (\<lambda>(t, f) (u, g). apart t (length f) u (length g)) (zip targets mods)"
  shows "\<exists>m' k'. loadModules (base + length kern) targets m k = Some (m', k') \<and>
    (\<forall>(t, f) \<in> set (zip targets mods). memory_holds m' t f) \<and>
    (\<forall>a. outside_targets (zip targets mods) a \<longrightarrow> m' a = m a)"
proof -
  let ?p = "base + length kern"
  have img: "packed = kern @ uint32_bytes (length mods) @ module_bytes mods"
    using buildImage_eq [of files kname kern names mods] assms(1-3) by simp
  then have holds: "memory_holds m ?p (uint32_bytes (length mods))" "memory_holds m (?p + 4) (module_bytes mods)"
    using assms(4) by (simp_all add: memory_holds_append uint32_bytes_def)
  have "\<forall>(t, f) \<in> set (zip targets mods). apart t (length f) (?p + 4) (length (module_bytes mods))"
    using assms(8) by (auto simp: img apart_def uint32_bytes_def)
  from loadModules_loop_run [OF holds(2) assms(7,6) this assms(9), of k] readUint32_bytes [OF holds(1) assms(5)]
  show ?thesis by (auto simp: loadModules_def)
qed

theorem pack_load_roundtrip_witness:
  "\<exists>packed m' k'. buildImage [''kernel'' \<mapsto> [1, 2], ''shell'' \<mapsto> [7, 8, 9]] [''kernel'', ''shell''] = Some packed \<and>
     loadModules 102 [400] (\<lambda>a. if 100 \<le> a \<and> a < 100 + length packed then packed ! (a - 100) else 0)
       \<lparr>nc_cells = (\<lambda>_. 0), cell = 0\<rparr> = Some (m', k') \<and>
     m' 400 = 7 \<and> m' 402 = 9 \<and> m' 403 = 0"
proof -
  let ?files = "[''kernel'' \<mapsto> [1, 2], ''shell'' \<mapsto> [7, 8, 9 :: byte]]"
  let ?image = "[1, 2] @ uint32_bytes 1 @ module_bytes [[7, 8, 9]]"
  let ?m = "\<lambda>a. if 100 \<le> a \<and> a < 100 + length ?image then ?image ! (a - 100) else 0"
  have f: "?files ''kernel'' = Some [1, 2]" "map ?files [''shell''] = map Some [[7, 8, 9]]" by simp_all
  have img: "buildImage ?files [''kernel'', ''shell''] = Some ?image" using buildImage_eq [OF f] by simp
  have holds: "memory_holds ?m 100 ?image" by (simp add: memory_holds_def)
  have len: "length ?image = 13" by (simp add: uint32_bytes_def)
  have small: "length [[7, 8, 9 :: byte]] < 2 ^ 32" "\<forall>f \<in> set [[7, 8, 9 :: byte]]. length f < 2 ^ 32"
      "length [400 :: addr] = length [[7, 8, 9 :: byte]]" by simp_all
  have sep: "\<forall>(t, f) \<in> set (zip [400] [[7, 8, 9 :: byte]]). apart t (length f) (100 + length [1, 2 :: byte]) (length ?image - length [1, 2 :: byte])"
      "sorted_wrt (\<lambda>(t, f) (u, g). apart t (length f) u (length g)) (zip [400 :: addr] [[7, 8, 9 :: byte]])"
    unfolding len by (simp_all add: apart_def)
  from pack_load_roundtrip [OF f img holds small sep, of "\<lparr>nc_cells = (\<lambda>_. 0), cell = 0\<rparr>"] obtain m' k' where
    l: "loadModules 102 [400] ?m \<lparr>nc_cells = (\<lambda>_. 0), cell = 0\<rparr> = Some (m', k')" "memory_holds m' 400 [7, 8, 9]"
      "\<forall>a. outside_targets [(400, [7, 8, 9])] a \<longrightarrow> m' a = ?m a" by auto
  have "m' 400 = 7" using l(2) [unfolded memory_holds_def, rule_format, of 0] by simp
  moreover have "m' 402 = 9" using l(2) [unfolded memory_holds_def, rule_format, of 2] by simp
  moreover have "m' 403 = 0" using l(3) [rule_format, of 403] len by (simp add: outside_targets_def)
  ultimately show ?thesis using img l(1) by blast
qed

end
