(* ===== verification/Boot.thy ===== *)
theory Boot
  imports SystemCalls ModuleImage
begin

text \<open>
  Interrupts and start-up: \<open>Kernel/handlers.c\<close>, the interrupt side of \<open>keyboardDriver.c\<close>,
  \<open>idtLoader.c\<close>, \<open>kernel.c\<close>, \<open>init.c\<close> and the initialisers of the allocator's and the
  process table's mutexes. Addresses the linker fixes are arguments.
\<close>

section \<open>Interrupt handlers\<close>

definition ESCAPE :: int where "ESCAPE = 1"

definition get_foreground_process :: "addr kop" where "get_foreground_process = kgets foreground"

text \<open>\<open>k\<close> is the scan code \<open>get_key\<close> reads, as a signed byte.\<close>

definition store_scancode :: "int \<Rightarrow> unit kop" where
  "store_scancode k =
     kbind (kgets keys) (\<lambda>kb.
       if buff_size kb = BUFFSIZE then kreturn ()
       else if k = ESCAPE then
         kbind get_foreground_process (\<lambda>f. kbind (ppid_process f) (\<lambda>i. kbind (get_process_by_pid i) set_foreground_force_process))
       else
         (let (kb', stored) = store_key k kb
          in kthen (kmodify (keys_update (\<lambda>_. kb')))
               (kwhen stored (kbind get_foreground_process (\<lambda>f. update_proc f unblock_read_process)))))"

definition irqDispatcher :: "nat \<Rightarrow> int \<Rightarrow> unit kop" where
  "irqDispatcher irq k = (if irq = 0 then timer_handler else if irq = 1 then store_scancode k else kreturn ())"

text \<open>\<open>_irq00Handler\<close> of \<open>asm/interrupts.asm\<close>: count the sleepers down, then switch.\<close>

definition irq00Handler :: "addr \<Rightarrow> addr kop" where
  "irq00Handler current_rsp = kthen timer_handler (next_process current_rsp)"

section \<open>The interrupt descriptor table\<close>

text \<open>
  The addresses of the handlers are those of the assembler's entry points. The last step of
  \<open>load_idt\<close> lets interrupts in.
\<close>

definition set_gate :: "nat \<Rightarrow> u64 \<Rightarrow> unit kop" where
  "set_gate index handler =
     kbind (kgets (\<lambda>s. setup_IDT_entry index 0x08 handler ACS_INT (gates s))) (\<lambda>r.
     kbind (koption Out_of_bounds r) (\<lambda>g. kmodify (gates_update (\<lambda>_. g))))"

definition load_idt :: "u64 \<Rightarrow> u64 \<Rightarrow> u64 \<Rightarrow> u64 \<Rightarrow> unit kop" where
  "load_idt irq00 irq01 syscall_handler yield_interrupt =
     kseq [set_gate 0x20 irq00, set_gate 0x21 irq01, set_gate 0x80 syscall_handler, set_gate 0x70 yield_interrupt] kyield"

section \<open>The binary\<close>

definition clearBSS :: "addr \<Rightarrow> nat \<Rightarrow> memory \<Rightarrow> memory" where
  "clearBSS bssAddress bssSize m = memset m bssAddress 0 bssSize"

definition PageSize :: nat where "PageSize = 0x1000"

definition getStackBase :: "addr \<Rightarrow> addr" where "getStackBase endOfKernel = endOfKernel + PageSize * 8 - 8"

text \<open>
  \<open>initializeKernelBinary\<close>: the modules are loaded, then the static variables are cleared.
  \<open>text_at\<close>, \<open>rodata\<close>, \<open>data_at\<close>, \<open>bss\<close>, \<open>end_binary\<close> and \<open>end_kernel\<close> are the linker's symbols,
  \<open>vendor\<close> the string \<open>cpuVendor\<close> returns.
\<close>

definition print_line :: "string \<Rightarrow> console \<Rightarrow> console" where "print_line s k = ncNewline (nc_text s k)"

definition print_symbol :: "string \<Rightarrow> addr \<Rightarrow> console \<Rightarrow> console option" where
  "print_symbol s a k = map_option ncNewline (ncPrintHex (of_nat a) (nc_text s k))"

definition initializeKernelBinary ::
  "addr \<Rightarrow> addr \<Rightarrow> addr \<Rightarrow> addr \<Rightarrow> addr \<Rightarrow> addr \<Rightarrow> byte list \<Rightarrow> memory \<Rightarrow> console \<Rightarrow> (addr \<times> memory \<times> console) option" where
  "initializeKernelBinary text_at rodata data_at bss end_binary end_kernel vendor m k =
     Option.bind (loadModules end_binary [CODE_ADDRESS, DATA_ADDRESS] m
       (print_line ''[Loading modules]''
         (ncNewline (ncPrint vendor (nc_text ''CPU Vendor:'' (print_line ''[x64BareBones]'' k)))))) (\<lambda>(m, k).
     let k = print_line ''[Initializing kernel's binary]'' (ncNewline (print_line ''[Done]'' k));
         m = clearBSS bss (end_kernel - bss) m
     in Option.bind (print_symbol ''  text: 0x'' text_at k) (\<lambda>k.
        Option.bind (print_symbol ''  rodata: 0x'' rodata k) (\<lambda>k.
        Option.bind (print_symbol ''  data: 0x'' data_at k) (\<lambda>k.
        Option.bind (print_symbol ''  bss: 0x'' bss k) (\<lambda>k.
          Some (getStackBase end_kernel, m, ncNewline (print_line ''[Done]'' k)))))))"

section \<open>Start-up\<close>

definition initialize_memory_allocator_mutex :: "unit kop" where
  "initialize_memory_allocator_mutex =
     kbind (mutex_open (cstring ''__MEMORY_MUTEX__'')) (\<lambda>k. kmodify (memory_mutex_key_update (\<lambda>_. k)))"

definition initialize_stack_memory_allocator_mutex :: "unit kop" where
  "initialize_stack_memory_allocator_mutex =
     kbind (mutex_open (cstring ''__STACK_MEMORY_MUTEX__'')) (\<lambda>k. kmodify (stack_memory_mutex_key_update (\<lambda>_. k)))"

definition initialize_process_mutex :: "unit kop" where
  "initialize_process_mutex =
     kbind (mutex_open (cstring ''__PROCESS_TABLE_MUTEX__'')) (\<lambda>k. kmodify (table_mutex_key_update (\<lambda>_. k)))"

text \<open>
  \<open>main\<close> leaves the boot stack for the first process; what is printed to the boot console
  behind that call is never reached. \<open>init\<close> is that process: it opens the mutexes of the
  allocators and of the table, lets interrupts in and starts the shell.
\<close>

definition kernel_main :: "u64 \<Rightarrow> u64 \<Rightarrow> u64 \<Rightarrow> u64 \<Rightarrow> addr \<Rightarrow> nat kop" where
  "kernel_main irq00 irq01 syscall_handler yield_interrupt init_rip =
     kseq [load_idt irq00 irq01 syscall_handler yield_interrupt,
           kmodify (\<lambda>s. s\<lparr>screen := load_vDriver (umem s) (screen s)\<rparr>),
           kmodify (kpages_update initialize_memory_allocator),
           kmodify (kstacks_update initialize_stack_memory_allocator),
           kignore initialize_conditional_variable,
           initialize_fifo_mutex]
       (kbind (create_process init_rip 0 (cstring ''init'')) exec_process)"

definition init_process :: "unit kop" where
  "init_process =
     kseq [initialize_memory_allocator_mutex,
           initialize_stack_memory_allocator_mutex,
           initialize_process_mutex,
           kyield,
           kignore (kbind (create_process CODE_ADDRESS 0 (cstring ''shell'')) exec_process)]
       (kbind (get_process_by_pid 1) set_foreground_process)"

end
