(* ===== verification/Bmfs.thy ===== *)
theory Bmfs
  imports Prelude "HOL-Library.Multiset"
begin

text \<open>
  \<open>Bootloader/BMFS/bmfs.c\<close>, the tool that keeps the file system of the disk image: its directory,
  and the operations on it. The image and the local files are lists of bytes; \<open>writable\<close> says which
  local files the host lets the tool create; what the tool prints is appended to \<open>terminal\<close>.
  Undefined behaviour (a name that overruns its field, a counter past the range of \<open>int\<close>) is \<open>None\<close>.
\<close>

section \<open>Directory entries\<close>

record BMFSEntry =
  FileName :: "byte list"
  StartingBlock :: u64
  ReservedBlocks :: u64
  FileSize :: u64
  Unused :: u64

text \<open>The entry in the 64 bytes of the directory the code copies it from, and back.\<close>

definition le_value :: "byte list \<Rightarrow> nat" where
  "le_value bs = foldr (\<lambda>b v. unat b + 256 * v) bs 0"

definition field64 :: "nat \<Rightarrow> byte list \<Rightarrow> u64" where
  "field64 i bs = of_nat (le_value (take 8 (drop i bs)))"

definition entry_of :: "byte list \<Rightarrow> BMFSEntry" where
  "entry_of bs = \<lparr>FileName = take 32 bs, StartingBlock = field64 32 bs, ReservedBlocks = field64 40 bs,
     FileSize = field64 48 bs, Unused = field64 56 bs\<rparr>"

definition bytes_of :: "BMFSEntry \<Rightarrow> byte list" where
  "bytes_of e = FileName e @ le_bytes 8 (unat (StartingBlock e)) @ le_bytes 8 (unat (ReservedBlocks e)) @
     le_bytes 8 (unat (FileSize e)) @ le_bytes 8 (unat (Unused e))"

text \<open>\<open>char Directory[4096]\<close> as its 64 entries.\<close>

definition directory_of :: "byte list \<Rightarrow> BMFSEntry list" where
  "directory_of bs = map (\<lambda>i. entry_of (take 64 (drop (64 * i) bs))) [0..<64]"

definition directory_bytes :: "BMFSEntry list \<Rightarrow> byte list" where
  "directory_bytes d = concat (map bytes_of d)"

section \<open>The state of the tool\<close>

record bmfs =
  Directory :: "BMFSEntry list"
  DiskInfo :: "byte list"
  disk :: "byte list"
  diskname :: "byte list"
  disksize :: u32
  local_files :: "byte list \<rightharpoonup> byte list"
  writable :: "byte list \<Rightarrow> bool"
  terminal :: "byte list"

definition tell :: "byte list \<Rightarrow> bmfs \<Rightarrow> bmfs" where
  "tell t s = s\<lparr>terminal := terminal s @ t\<rparr>"

definition tell_line :: "string \<Rightarrow> bmfs \<Rightarrow> bmfs" where
  "tell_line t = tell (bytes t @ [10])"

text \<open>\<open>fwrite\<close> at a position of the image: a gap behind its end fills with zeros.\<close>

definition write_at :: "nat \<Rightarrow> byte list \<Rightarrow> byte list \<Rightarrow> byte list" where
  "write_at p bs d =
     (if bs = [] then d else take p (d @ replicate (p - length d) 0) @ bs @ drop (p + length bs) d)"

text \<open>\<open>getc\<close>: \<open>EOF\<close> is -1, and \<open>putc\<close> of it the byte 255.\<close>

definition getc_at :: "byte list \<Rightarrow> nat \<Rightarrow> byte" where
  "getc_at d p = (if p < length d then d ! p else 255)"

text \<open>An offset past \<open>LONG_MAX\<close> makes \<open>fseek\<close> fail; the position is then where \<open>rewind\<close> left it.\<close>

definition block_offset :: "BMFSEntry \<Rightarrow> nat" where
  "block_offset e = (let p = unat (StartingBlock e * 2097152) in if p < 2 ^ 63 then p else 0)"

definition write_directory :: "bmfs \<Rightarrow> bmfs" where
  "write_directory s = s\<lparr>disk := write_at 4096 (directory_bytes (Directory s)) (disk s)\<rparr>"

section \<open>The operations\<close>

text \<open>\<open>strcmp\<close> finds equality: \<open>None\<close> when it follows a null pointer or leaves the field.\<close>

fun same_string :: "byte list \<Rightarrow> byte list \<Rightarrow> bool option" where
  "same_string t [] = None"
| "same_string [] (b # bs) = Some (b = 0)"
| "same_string (c # cs) (b # bs) = (if c = b then same_string cs bs else Some False)"

definition strcmp_name :: "byte list option \<Rightarrow> byte list \<Rightarrow> bool option" where
  "strcmp_name fname b = Option.bind fname (\<lambda>t. same_string t b)"

fun findfile_loop :: "byte list option \<Rightarrow> nat \<Rightarrow> BMFSEntry list \<Rightarrow> (nat \<times> BMFSEntry) option option" where
  "findfile_loop fname tint [] = Some None"
| "findfile_loop fname tint (entry # es) =
     (if FileName entry ! 0 = 0 then Some None
      else if FileName entry ! 0 = 1 then findfile_loop fname (tint + 1) es
      else Option.bind (strcmp_name fname (FileName entry)) (\<lambda>same.
             if same then Some (Some (tint, entry)) else findfile_loop fname (tint + 1) es))"

definition findfile :: "byte list option \<Rightarrow> bmfs \<Rightarrow> (nat \<times> BMFSEntry) option option" where
  "findfile fname s = findfile_loop fname 0 (Directory s)"

text \<open>\<open>%lld\<close>, \<open>%20lld\<close> and \<open>%-32s\<close>.\<close>

fun digits10 :: "nat \<Rightarrow> byte list" where
  "digits10 n = (if n < 10 then [of_nat (48 + n)] else digits10 (n div 10) @ [of_nat (48 + n mod 10)])"

declare digits10.simps [simp del]

definition decimal :: "int \<Rightarrow> byte list" where
  "decimal v = (if v < 0 then 45 # digits10 (nat (- v)) else digits10 (nat v))"

definition pad_left :: "nat \<Rightarrow> byte list \<Rightarrow> byte list" where
  "pad_left n t = replicate (n - length t) 32 @ t"

definition pad_right :: "nat \<Rightarrow> byte list \<Rightarrow> byte list" where
  "pad_right n t = t @ replicate (n - length t) 32"

fun list_loop :: "BMFSEntry list \<Rightarrow> bmfs \<Rightarrow> bmfs option" where
  "list_loop [] s = Some s"
| "list_loop (entry # es) s =
     (if FileName entry ! 0 = 0 then Some s
      else if FileName entry ! 0 = 1 then list_loop es s
      else if terminated (FileName entry) then
        list_loop es (tell (pad_right 32 (cstr (FileName entry)) @ [32] @
          pad_left 20 (decimal (sint (FileSize entry))) @ [32] @
          pad_left 20 (decimal (sint (ReservedBlocks entry * 2))) @ [10]) s)
      else None)"

definition bmfs_list :: "bmfs \<Rightarrow> bmfs option" where
  "bmfs_list s =
     list_loop (Directory s)
       (tell_line ''==========================================================================''
         (tell_line ''Name                            |            Size (B)|      Reserved (MiB)''
           (tell (diskname s @ [10] @ bytes ''Disk Size: '' @ decimal (sint (disksize s)) @ bytes '' MiB'' @ [10]) s)))"

definition fs_tag :: "byte list" where "fs_tag = bytes ''BMFS''"

definition empty_entry :: BMFSEntry where
  "empty_entry = \<lparr>FileName = replicate 32 0, StartingBlock = 0, ReservedBlocks = 0, FileSize = 0, Unused = 0\<rparr>"

definition bmfs_format :: "bmfs \<Rightarrow> bmfs" where
  "bmfs_format s =
     (let s1 = s\<lparr>DiskInfo := fs_tag @ replicate 508 0, Directory := replicate 64 empty_entry\<rparr>;
          s2 = s1\<lparr>disk := write_at 1024 (DiskInfo s1) (disk s1)\<rparr>
      in tell_line ''Format complete.'' (write_directory s2))"

subsection \<open>Creating a file\<close>

text \<open>
  The comparison subtracts 64-bit block numbers and returns an \<open>int\<close>. \<open>qsort\<close> is an insertion
  sort; the order it gives two deleted entries, for which the comparison is not consistent,
  is not specified by C.
\<close>

definition StartingBlockCmp :: "BMFSEntry \<Rightarrow> BMFSEntry \<Rightarrow> int" where
  "StartingBlockCmp ea eb =
     (if FileName ea ! 0 = 1 then 1
      else if FileName eb ! 0 = 1 then -1
      else sint (ucast (StartingBlock ea - StartingBlock eb) :: u32))"

fun sort_insert :: "BMFSEntry \<Rightarrow> BMFSEntry list \<Rightarrow> BMFSEntry list" where
  "sort_insert x [] = [x]"
| "sort_insert x (y # ys) = (if StartingBlockCmp x y \<le> 0 then x # y # ys else y # sort_insert x ys)"

definition sort_entries :: "BMFSEntry list \<Rightarrow> BMFSEntry list" where
  "sort_entries es = foldr sort_insert es []"

text \<open>
  The loop that counts the entries before the end of the directory and finds the first free one;
  both variables keep their initial values when the loop does not set them.
\<close>

fun count_entries :: "nat \<Rightarrow> nat option \<Rightarrow> BMFSEntry list \<Rightarrow> nat \<times> nat option" where
  "count_entries tint first_free [] = (0, first_free)"
| "count_entries tint first_free (e # es) =
     (if FileName e ! 0 = 0 then (tint, if first_free = None then Some tint else first_free)
      else if FileName e ! 0 = 1
        then count_entries (tint + 1) (if first_free = None then Some tint else first_free) es
      else count_entries (tint + 1) first_free es)"

text \<open>The search for an area: 0 when there is none. The list holds the used entries, sorted.\<close>

fun find_area :: "u64 \<Rightarrow> u64 \<Rightarrow> u64 \<Rightarrow> BMFSEntry list \<Rightarrow> u64" where
  "find_area num_blocks blocks_requested prev_file_end [] =
     (if num_blocks - 1 - prev_file_end \<ge> blocks_requested then prev_file_end else 0)"
| "find_area num_blocks blocks_requested prev_file_end (e # es) =
     (let this_file_start = (if FileName e ! 0 = 1 then num_blocks - 1 else StartingBlock e)
      in if this_file_start - prev_file_end \<ge> blocks_requested then prev_file_end
         else find_area num_blocks blocks_requested (StartingBlock e + ReservedBlocks e) es)"

text \<open>
  The record written to the directory, behind it the end mark when it took the last entry's place:
  \<open>strcpy\<close> writes the name into a field of 32 bytes.
\<close>

definition add_record :: "byte list \<Rightarrow> u64 \<Rightarrow> u64 \<Rightarrow> nat \<Rightarrow> nat \<Rightarrow> BMFSEntry list \<Rightarrow> BMFSEntry list option" where
  "add_record fname new_file_start blocks_requested first_free num_used d =
     Option.bind (poke_list (FileName (d ! first_free)) 0 (fname @ [0])) (\<lambda>name_field.
       let d1 = d[first_free := (d ! first_free)\<lparr>StartingBlock := new_file_start,
                    ReservedBlocks := blocks_requested, FileSize := 0, FileName := name_field\<rparr>]
       in Some (if first_free = num_used \<and> num_used + 1 < 64
                then d1[num_used + 1 := (d1 ! (num_used + 1))\<lparr>FileName := (FileName (d1 ! (num_used + 1)))[0 := 0]\<rparr>]
                else d1))"

definition round_up :: "u64 \<Rightarrow> u64" where
  "round_up maxsize = (if maxsize mod 2 \<noteq> 0 then maxsize + 1 else maxsize)"

definition create :: "byte list \<Rightarrow> u64 \<Rightarrow> bmfs \<Rightarrow> bmfs option" where
  "create fname maxsize0 s =
     (let maxsize = round_up maxsize0
      in Option.bind (findfile (Some fname) s) (\<lambda>found.
         if found \<noteq> None then Some (tell_line ''Error: File already exists.'' s)
         else
           let blocks_requested = maxsize div 2;
               num_blocks = ucast (disksize s div 2);
               s1 = tell_line ''Creating new file...'' s;
               (num_used_entries, first_free_entry) = count_entries 0 None (Directory s)
           in (case first_free_entry of
                 None \<Rightarrow> Some (tell_line ''Cannot create file: no free directory entries.'' s1)
               | Some first_free \<Rightarrow>
                   let new_file_start = find_area num_blocks blocks_requested 1
                         (sort_entries (take num_used_entries (Directory s)))
                   in if new_file_start = 0
                      then Some (tell (bytes ''Cannot create file of size '' @ decimal (sint maxsize) @ bytes '' MiB.'' @ [10]) s1)
                      else map_option (\<lambda>d. tell_line ''Complete'' (write_directory (s1\<lparr>Directory := d\<rparr>)))
                             (add_record fname new_file_start blocks_requested first_free num_used_entries (Directory s)))))"

subsection \<open>Contents and deletion\<close>

definition not_found :: "bmfs \<Rightarrow> bmfs" where
  "not_found = tell_line ''Error: File not found in BMFS.''"

definition quoted :: "string \<Rightarrow> byte list \<Rightarrow> string \<Rightarrow> byte list" where
  "quoted before t after = bytes before @ [39] @ t @ [39] @ bytes after"

text \<open>A local file with the name of the disk image would be written over it while it is open.\<close>

definition bmfs_read :: "byte list option \<Rightarrow> bmfs \<Rightarrow> bmfs option" where
  "bmfs_read fname s =
     Option.bind (findfile fname s) (\<lambda>found.
       case found of
         None \<Rightarrow> Some (not_found s)
       | Some (slot, tempentry) \<Rightarrow>
           let local_name = cstr (FileName tempentry);
               s1 = tell (quoted ''Reading '' (the fname) '' from BMFS to local file... '') s
           in if \<not> writable s local_name
              then Some (tell (quoted ''Error: Could not open local file '' local_name '''' @ [10]) s1)
              else if local_name = diskname s \<or> unat (FileSize tempentry) \<ge> 2 ^ 31 then None
              else Some (tell_line ''Complete''
                     (s1\<lparr>local_files := (local_files s)(local_name \<mapsto>
                        map (\<lambda>k. getc_at (disk s) (block_offset tempentry + k)) [0..<unat (FileSize tempentry)])\<rparr>)))"

definition bmfs_write :: "byte list option \<Rightarrow> bmfs \<Rightarrow> bmfs option" where
  "bmfs_write fname s =
     Option.bind (findfile fname s) (\<lambda>found.
       case found of
         None \<Rightarrow> Some (tell_line ''Error: File not found in BMFS. A file entry must first be created.'' s)
       | Some (slot, tempentry) \<Rightarrow>
           let s1 = tell (quoted ''Writing local file '' (the fname) '' to BMFS... '') s
           in case local_files s (the fname) of
                None \<Rightarrow> Some (tell (quoted ''Error: Could not open local file '' (cstr (FileName tempentry)) '''' @ [10]) s1)
              | Some contents \<Rightarrow>
                  let tempfilesize = of_nat (length contents) :: u64
                  in if the fname = diskname s then None
                     else if ReservedBlocks tempentry * 2097152 < tempfilesize
                     then Some (tell_line ''Not enough reserved space in BMFS.'' s1)
                     else if length contents \<ge> 2 ^ 31 then None
                     else Some (tell_line ''Complete'' (write_directory
                            (s1\<lparr>disk := write_at (block_offset tempentry) contents (disk s),
                                Directory := (Directory s)[slot := (Directory s ! slot)\<lparr>FileSize := tempfilesize\<rparr>]\<rparr>))))"

definition bmfs_delete :: "byte list option \<Rightarrow> bmfs \<Rightarrow> bmfs option" where
  "bmfs_delete fname s =
     Option.bind (findfile fname s) (\<lambda>found.
       case found of
         None \<Rightarrow> Some (not_found s)
       | Some (slot, tempentry) \<Rightarrow>
           let s1 = tell (quoted ''Deleting file '' (the fname) '' from BMFS... '') s;
               e = Directory s ! slot
           in Some (tell_line ''Complete'' (write_directory
                (s1\<lparr>Directory := (Directory s)[slot := e\<lparr>FileName := (FileName e)[0 := 1]\<rparr>]\<rparr>))))"

section \<open>What the directory means\<close>

text \<open>
  The entries before the end mark, the files among them, and the blocks \<open>lo\<close> up to \<open>hi\<close> each one
  reserves. In a good directory the files have different names and no block in common, and leave
  the first and the last block of the disk alone.
\<close>

definition deleted :: "BMFSEntry \<Rightarrow> bool" where "deleted e \<longleftrightarrow> FileName e ! 0 = 1"

definition used_entries :: "BMFSEntry list \<Rightarrow> BMFSEntry list" where
  "used_entries d = takeWhile (\<lambda>e. FileName e ! 0 \<noteq> 0) d"

definition files_of :: "BMFSEntry list \<Rightarrow> BMFSEntry list" where
  "files_of d = filter (\<lambda>e. \<not> deleted e) (used_entries d)"

definition file_name :: "BMFSEntry \<Rightarrow> byte list" where "file_name e = cstr (FileName e)"

definition lo :: "BMFSEntry \<Rightarrow> nat" where "lo e = unat (StartingBlock e)"
definition hi :: "BMFSEntry \<Rightarrow> nat" where "hi e = lo e + unat (ReservedBlocks e)"
definition extent :: "BMFSEntry \<Rightarrow> nat set" where "extent e = {lo e..<hi e}"

definition file_ok :: "nat \<Rightarrow> BMFSEntry \<Rightarrow> bool" where
  "file_ok nb e \<longleftrightarrow> terminated (FileName e) \<and> 1 \<le> lo e \<and> lo e < hi e \<and> hi e < nb \<and>
     unat (FileSize e) \<le> unat (ReservedBlocks e) * 2097152"

definition separate :: "BMFSEntry list \<Rightarrow> bool" where
  "separate fs \<longleftrightarrow> distinct (map file_name fs) \<and>
     (\<forall>a \<in> set fs. \<forall>b \<in> set fs. a \<noteq> b \<longrightarrow> extent a \<inter> extent b = {})"

definition directory_ok :: "nat \<Rightarrow> BMFSEntry list \<Rightarrow> bool" where
  "directory_ok nb d \<longleftrightarrow> length d = 64 \<and> (\<forall>e \<in> set d. length (FileName e) = 32) \<and>
     (\<forall>e \<in> set (files_of d). file_ok nb e) \<and> separate (files_of d)"

definition free_area :: "nat \<Rightarrow> BMFSEntry list \<Rightarrow> nat \<Rightarrow> nat \<Rightarrow> bool" where
  "free_area nb fs n p \<longleftrightarrow> 1 \<le> p \<and> p + n < nb \<and> (\<forall>e \<in> set fs. {p..<p + n} \<inter> extent e = {})"

section \<open>Sorting\<close>

lemma low_half [simp]: "(ucast (word_of_int k :: u64) :: u32) = word_of_int k"
  by (simp add: unsigned_of_int word_of_int_eq_iff)

lemma cmp_live:
  assumes "\<not> deleted a" "\<not> deleted b" "lo a < 2 ^ 31" "lo b < 2 ^ 31"
  shows "StartingBlockCmp a b = int (lo a) - int (lo b)"
proof -
  let ?k = "int (lo a) - int (lo b)"
  have "StartingBlock a - StartingBlock b = word_of_int ?k"
    by (simp add: lo_def)
  then have "(ucast (StartingBlock a - StartingBlock b) :: u32) = word_of_int ?k"
    by (simp only: low_half)
  moreover have "sint (word_of_int ?k :: u32) = ?k"
    using assms(3,4) by (simp only: signed_of_int) (simp add: signed_take_bit_int_eq_self)
  ultimately show ?thesis using assms(1,2) by (simp add: StartingBlockCmp_def deleted_def)
qed

lemma sort_insert_deleted: "deleted x \<Longrightarrow> sort_insert x ys = ys @ [x]"
  by (induction ys) (simp_all add: StartingBlockCmp_def deleted_def)

lemma sort_insert_live:
  assumes "\<not> deleted x" "lo x < 2 ^ 31" "\<forall>e \<in> set ls. \<not> deleted e \<and> lo e < 2 ^ 31"
    and "\<forall>e \<in> set ds. deleted e" "sorted_wrt (\<lambda>a b. lo a \<le> lo b) ls"
  shows "\<exists>ls'. sort_insert x (ls @ ds) = ls' @ ds \<and> mset ls' = add_mset x (mset ls) \<and>
    sorted_wrt (\<lambda>a b. lo a \<le> lo b) ls'"
  using assms(3,5)
proof (induction ls)
  case Nil
  have "sort_insert x ds = x # ds"
    using assms(1,4) by (cases ds) (simp_all add: StartingBlockCmp_def deleted_def)
  then show ?case by (intro exI [of _ "[x]"]) simp
next
  case (Cons y ys)
  have c: "StartingBlockCmp x y = int (lo x) - int (lo y)" using assms(1,2) Cons.prems by (simp add: cmp_live)
  show ?case
  proof (cases "lo x \<le> lo y")
    case True
    with Cons.prems have "sorted_wrt (\<lambda>a b. lo a \<le> lo b) (x # y # ys)" by fastforce
    with True c show ?thesis by (intro exI [of _ "x # y # ys"]) simp
  next
    case False
    from Cons obtain ls' where ls': "sort_insert x (ys @ ds) = ls' @ ds" "mset ls' = add_mset x (mset ys)"
      "sorted_wrt (\<lambda>a b. lo a \<le> lo b) ls'" by auto
    from ls'(2) have "set ls' = insert x (set ys)" by (metis set_mset_add_mset_insert set_mset_mset)
    with False Cons.prems ls' c show ?thesis by (intro exI [of _ "y # ls'"]) auto
  qed
qed

lemma sort_entries_split:
  assumes "\<forall>e \<in> set es. \<not> deleted e \<longrightarrow> lo e < 2 ^ 31"
  shows "\<exists>ls ds. sort_entries es = ls @ ds \<and> mset ls = mset (filter (\<lambda>e. \<not> deleted e) es) \<and>
    sorted_wrt (\<lambda>a b. lo a \<le> lo b) ls \<and> mset ds = mset (filter deleted es)"
  using assms
proof (induction es)
  case Nil
  then show ?case by (simp add: sort_entries_def)
next
  case (Cons x es)
  then obtain ls ds where IH: "sort_entries es = ls @ ds" "mset ls = mset (filter (\<lambda>e. \<not> deleted e) es)"
    "sorted_wrt (\<lambda>a b. lo a \<le> lo b) ls" "mset ds = mset (filter deleted es)" by auto
  have sets: "set ls = {e \<in> set es. \<not> deleted e}" "set ds = {e \<in> set es. deleted e}"
    using IH(2,4) by (metis set_mset_mset set_filter)+
  have step: "sort_entries (x # es) = sort_insert x (ls @ ds)" using IH(1) by (simp add: sort_entries_def)
  show ?case
  proof (cases "deleted x")
    case True
    then show ?thesis using IH step sort_insert_deleted [OF True, of "ls @ ds"]
      by (intro exI [of _ ls] exI [of _ "ds @ [x]"]) simp
  next
    case False
    then have "\<exists>ls'. sort_insert x (ls @ ds) = ls' @ ds \<and> mset ls' = add_mset x (mset ls) \<and>
        sorted_wrt (\<lambda>a b. lo a \<le> lo b) ls'"
      using sets IH(3) Cons.prems by (intro sort_insert_live) auto
    with False show ?thesis using IH step by auto
  qed
qed

section \<open>The search for an area\<close>

text \<open>Files in the order of their blocks, the first behind block \<open>p\<close>.\<close>

fun chain_from :: "nat \<Rightarrow> nat \<Rightarrow> BMFSEntry list \<Rightarrow> bool" where
  "chain_from nb p [] \<longleftrightarrow> p < nb"
| "chain_from nb p (e # es) \<longleftrightarrow> p \<le> lo e \<and> lo e < hi e \<and> chain_from nb (hi e) es"

lemma chain_from_bounds: "chain_from nb p es \<Longrightarrow> p < nb \<and> (\<forall>e \<in> set es. p \<le> lo e \<and> lo e < hi e \<and> hi e < nb)"
  by (induction es arbitrary: p) fastforce+

lemma chain_of_sorted:
  assumes "sorted_wrt (\<lambda>a b. lo a \<le> lo b) ls" "distinct ls" "\<forall>e \<in> set ls. p \<le> lo e \<and> lo e < hi e \<and> hi e < nb" "p < nb"
    and "\<forall>a \<in> set ls. \<forall>b \<in> set ls. a \<noteq> b \<longrightarrow> extent a \<inter> extent b = {}"
  shows "chain_from nb p ls"
  using assms
proof (induction ls arbitrary: p)
  case (Cons a ls)
  have "hi a \<le> lo b" if b: "b \<in> set ls" for b
  proof (rule ccontr)
    assume "\<not> hi a \<le> lo b"
    with Cons.prems b have "lo b \<in> extent a \<inter> extent b" by (auto simp: extent_def)
    moreover have "a \<noteq> b" using Cons.prems(2) b by auto
    ultimately show False using Cons.prems(5) b by auto
  qed
  then have "chain_from nb (hi a) ls" using Cons.prems by (intro Cons.IH) auto
  with Cons.prems show ?case by simp
qed simp

lemma find_area_Cons_live:
  assumes "\<not> deleted e" "unat prev_end \<le> lo e" "hi e < 2 ^ 64"
  shows "find_area nbw req prev_end (e # es) =
      (if unat prev_end + unat req \<le> lo e then prev_end else find_area nbw req (of_nat (hi e)) es)"
proof -
  have "unat (StartingBlock e - prev_end) = lo e - unat prev_end"
    using assms(2) by (simp add: lo_def unat_sub word_le_nat_alt)
  then have "StartingBlock e - prev_end \<ge> req \<longleftrightarrow> unat prev_end + unat req \<le> lo e"
    using assms(2) by (auto simp: word_le_nat_alt)
  moreover have "StartingBlock e + ReservedBlocks e = of_nat (hi e)" by (simp add: hi_def lo_def)
  ultimately show ?thesis using assms(1) by (simp add: deleted_def)
qed

lemma last_area:
  assumes "unat (nbw :: u64) = nb" "unat prev_end < nb"
  shows "nbw - 1 - prev_end \<ge> req \<longleftrightarrow> unat prev_end + unat req < nb"
proof -
  have "1 \<le> nbw" using assms by (simp add: word_le_nat_alt)
  then have "unat (nbw - 1) = nb - 1" using assms by (simp add: unat_sub)
  moreover from this have "unat (nbw - 1 - prev_end) = nb - 1 - unat prev_end"
    using assms(2) by (simp add: unat_sub word_le_nat_alt)
  ultimately show ?thesis using assms(2) by (auto simp: word_le_nat_alt)
qed

lemma find_area_rest:
  assumes "unat nbw = nb" "unat prev_end < nb" "\<forall>e \<in> set ds. deleted e" "unat prev_end + unat req < nb"
  shows "find_area nbw req prev_end ds = prev_end"
  using assms last_area [OF assms(1,2), of req] by (cases ds) (simp_all add: deleted_def)

text \<open>A free area is found whenever there is one, and it is the first.\<close>

lemma find_area_first:
  assumes "unat nbw = nb" "nb \<le> 2 ^ 31" "chain_from nb (unat prev_end) ls" "\<forall>e \<in> set ls. \<not> deleted e"
    and "\<forall>e \<in> set ds. deleted e" "0 < unat req"
    and "unat prev_end \<le> p" "p + unat req < nb" "\<forall>e \<in> set ls. {p..<p + unat req} \<inter> extent e = {}"
  shows "unat prev_end \<le> unat (find_area nbw req prev_end (ls @ ds)) \<and>
    unat (find_area nbw req prev_end (ls @ ds)) \<le> p \<and>
    (\<forall>e \<in> set ls. {unat (find_area nbw req prev_end (ls @ ds))..<unat (find_area nbw req prev_end (ls @ ds)) + unat req} \<inter> extent e = {})"
  using assms(3,4,7-9)
proof (induction ls arbitrary: prev_end)
  case Nil
  then show ?case using assms(1,5) by (simp add: find_area_rest)
next
  case (Cons e ls)
  have b: "unat prev_end \<le> lo e" "lo e < hi e" "hi e < nb" "\<forall>x \<in> set ls. hi e \<le> lo x \<and> lo x < hi x"
    using Cons.prems(1) chain_from_bounds [of nb "hi e" ls] by auto
  have eq: "find_area nbw req prev_end (e # ls @ ds) =
      (if unat prev_end + unat req \<le> lo e then prev_end else find_area nbw req (of_nat (hi e)) (ls @ ds))"
    using Cons.prems b assms(2) by (intro find_area_Cons_live) auto
  have u: "unat (of_nat (hi e) :: u64) = hi e" using b(3) assms(2) by (simp add: unsigned_of_nat take_bit_nat_eq_self)
  show ?case
  proof (cases "unat prev_end + unat req \<le> lo e")
    case True
    have "{unat prev_end..<unat prev_end + unat req} \<inter> extent x = {}" if "x \<in> set (e # ls)" for x
    proof -
      have "lo e \<le> lo x" using that b by fastforce
      with True show ?thesis by (auto simp: extent_def)
    qed
    with True eq Cons.prems(3) show ?thesis by simp
  next
    case False
    have "\<not> p + unat req \<le> lo e" using False Cons.prems(3) by linarith
    have "hi e \<le> p"
    proof (rule ccontr)
      assume "\<not> hi e \<le> p"
      then have "max p (lo e) \<in> {p..<p + unat req} \<inter> extent e"
        using b \<open>\<not> p + unat req \<le> lo e\<close> assms(6) by (auto simp: extent_def max_def)
      then show False using Cons.prems(5) by auto
    qed
    then have IH: "hi e \<le> unat (find_area nbw req (of_nat (hi e)) (ls @ ds)) \<and>
        unat (find_area nbw req (of_nat (hi e)) (ls @ ds)) \<le> p \<and>
        (\<forall>x \<in> set ls. {unat (find_area nbw req (of_nat (hi e)) (ls @ ds))..<unat (find_area nbw req (of_nat (hi e)) (ls @ ds)) + unat req} \<inter> extent x = {})"
      using Cons.IH [of "of_nat (hi e)"] Cons.prems u by simp
    then show ?thesis using eq False b by (auto simp: extent_def)
  qed
qed

lemma find_area_none:
  assumes "unat nbw = nb" "nb \<le> 2 ^ 31" "chain_from nb (unat prev_end) ls" "\<forall>e \<in> set ls. \<not> deleted e"
    and "0 < unat req"
    and "\<And>p. unat prev_end \<le> p \<Longrightarrow> p + unat req < nb \<Longrightarrow> \<exists>e \<in> set ls. {p..<p + unat req} \<inter> extent e \<noteq> {}"
  shows "find_area nbw req prev_end ls = 0"
  using assms(3,4,6)
proof (induction ls arbitrary: prev_end)
  case Nil
  then show ?case using last_area [OF assms(1), of prev_end req] by auto
next
  case (Cons e ls)
  have b: "unat prev_end \<le> lo e" "lo e < hi e" "hi e < nb" "\<forall>x \<in> set ls. hi e \<le> lo x \<and> lo x < hi x"
    using Cons.prems(1) chain_from_bounds [of nb "hi e" ls] by auto
  have u: "unat (of_nat (hi e) :: u64) = hi e" using b(3) assms(2) by (simp add: unsigned_of_nat take_bit_nat_eq_self)
  have full: "\<not> unat prev_end + unat req \<le> lo e"
  proof
    assume fits: "unat prev_end + unat req \<le> lo e"
    have "{unat prev_end..<unat prev_end + unat req} \<inter> extent x = {}" if "x \<in> set (e # ls)" for x
    proof -
      have "lo e \<le> lo x" using that b by fastforce
      with fits show ?thesis by (auto simp: extent_def)
    qed
    moreover have "unat prev_end + unat req < nb" using fits b by linarith
    ultimately show False using Cons.prems(3) [of "unat prev_end"] by auto
  qed
  have "\<exists>x \<in> set ls. {p..<p + unat req} \<inter> extent x \<noteq> {}" if p: "hi e \<le> p" "p + unat req < nb" for p
  proof -
    have "{p..<p + unat req} \<inter> extent e = {}" using p by (auto simp: extent_def)
    then show ?thesis using Cons.prems(3) [of p] p b by auto
  qed
  then have "find_area nbw req (of_nat (hi e)) ls = 0"
    using Cons.IH [of "of_nat (hi e)"] Cons.prems u by simp
  then show ?case using find_area_Cons_live [of e prev_end nbw req ls] Cons.prems b full assms(2) by simp
qed

end
