(* ===== verification/BmfsFiles.thy ===== *)
theory BmfsFiles
  imports Bmfs
begin

text \<open>
  What the operations of \<open>Bootloader/BMFS/bmfs.c\<close> do to the files of an image: creating takes the
  first free area, nothing but the named file changes, and the image carries the directory the
  tool has in memory. Two cases in which a new file is put over an old one are exhibited.
\<close>

section \<open>Names\<close>

definition valid_name :: "byte list \<Rightarrow> bool" where
  "valid_name t \<longleftrightarrow> t \<noteq> [] \<and> 0 \<notin> set t \<and> hd t \<noteq> 1 \<and> length t < 32"

lemma valid_name_head: "valid_name t \<Longrightarrow> hd t \<noteq> 0 \<and> hd t \<noteq> 1"
  by (cases t) (auto simp: valid_name_def)

lemma same_string_eq: "0 \<notin> set t \<Longrightarrow> terminated b \<Longrightarrow> same_string t b = Some (cstr b = t)"
  by (induction t b rule: same_string.induct) auto

lemma findfile_loop_absent:
  assumes "0 \<notin> set f" "\<forall>e \<in> set (files_of es). terminated (FileName e) \<and> file_name e \<noteq> f"
  shows "findfile_loop (Some f) t es = Some None"
  using assms(2)
  by (induction es arbitrary: t)
    (simp_all add: files_of_def used_entries_def deleted_def strcmp_name_def same_string_eq [OF assms(1)] file_name_def)

lemma findfile_loop_found:
  assumes "0 \<notin> set f" "\<forall>e \<in> set (files_of es). terminated (FileName e)" "distinct (map file_name (files_of es))"
    and "i < length (used_entries es)" "\<not> deleted (es ! i)" "file_name (es ! i) = f"
  shows "findfile_loop (Some f) t es = Some (Some (t + i, es ! i))"
  using assms(2-6)
proof (induction es arbitrary: t i)
  case (Cons x es)
  have used: "FileName x ! 0 \<noteq> 0" using Cons.prems(3) by (auto simp: used_entries_def split: if_splits)
  show ?case
  proof (cases i)
    case 0
    then have "same_string f (FileName x) = Some True"
      using Cons.prems used assms(1) by (simp add: same_string_eq files_of_def used_entries_def file_name_def)
    with 0 used Cons.prems show ?thesis by (simp add: strcmp_name_def deleted_def)
  next
    case (Suc j)
    then have j: "j < length (used_entries es)" "\<not> deleted (es ! j)" "file_name (es ! j) = f"
      using Cons.prems used by (auto simp: used_entries_def)
    have IH: "findfile_loop (Some f) (t + 1) es = Some (Some (t + 1 + j, es ! j))"
      using Cons.prems j used by (intro Cons.IH) (auto simp: files_of_def used_entries_def split: if_splits)
    have "used_entries es ! j = es ! j" using j(1) by (simp add: used_entries_def takeWhile_nth)
    with j have mem: "es ! j \<in> set (files_of es)" by (auto simp: files_of_def in_set_conv_nth)
    show ?thesis
    proof (cases "deleted x")
      case True
      with IH Suc used show ?thesis by (simp add: deleted_def)
    next
      case False
      then have fs: "files_of (x # es) = x # files_of es" using used by (simp add: files_of_def used_entries_def)
      then have "same_string f (FileName x) = Some (file_name x = f)"
        using Cons.prems(1) assms(1) by (simp add: same_string_eq file_name_def)
      moreover have "file_name x \<noteq> f"
      proof
        assume "file_name x = f"
        then have "file_name x \<in> file_name ` set (files_of es)" using imageI [OF mem, of file_name] j(3) by simp
        then show False using Cons.prems(2) by (simp add: fs)
      qed
      ultimately show ?thesis using IH Suc used False by (simp add: strcmp_name_def deleted_def)
    qed
  qed
qed (simp add: used_entries_def)

text \<open>A file of the directory stands at one index of it.\<close>

lemma file_index:
  assumes "e \<in> set (files_of d)"
  obtains i where "i < length (used_entries d)" "used_entries d ! i = e" "d ! i = e" "\<not> deleted e" "i < length d"
proof -
  from assms obtain i where i: "i < length (used_entries d)" "used_entries d ! i = e" "\<not> deleted e"
    by (auto simp: files_of_def in_set_conv_nth)
  moreover have "d ! i = e" using i by (simp add: used_entries_def takeWhile_nth)
  moreover have "i < length d" using i(1) length_takeWhile_le order.strict_trans2 unfolding used_entries_def by blast
  ultimately show thesis using that by blast
qed

lemma findfile_file:
  assumes "directory_ok nb (Directory s)" "0 \<notin> set f" "e \<in> set (files_of (Directory s))" "file_name e = f"
  shows "\<exists>i. findfile (Some f) s = Some (Some (i, e)) \<and> i < length (used_entries (Directory s)) \<and> Directory s ! i = e \<and> i < 64"
proof -
  from file_index [OF assms(3)] obtain i where i: "i < length (used_entries (Directory s))" "Directory s ! i = e"
    "\<not> deleted e" "i < length (Directory s)" by metis
  have "\<forall>e \<in> set (files_of (Directory s)). terminated (FileName e)" "distinct (map file_name (files_of (Directory s)))"
    using assms(1) by (auto simp: directory_ok_def file_ok_def separate_def)
  from findfile_loop_found [OF assms(2) this i(1), of 0] i assms show ?thesis
    by (auto simp: findfile_def directory_ok_def)
qed

lemma findfile_absent:
  assumes "directory_ok nb (Directory s)" "0 \<notin> set f" "f \<notin> file_name ` set (files_of (Directory s))"
  shows "findfile (Some f) s = Some None"
  unfolding findfile_def using assms
  by (intro findfile_loop_absent) (auto simp: directory_ok_def file_ok_def)

section \<open>Changing one entry\<close>

lemma mset_filter_update:
  assumes "i < length xs"
  shows "mset (filter P (xs[i := x])) + (if P (xs ! i) then {#xs ! i#} else {#}) =
     mset (filter P xs) + (if P x then {#x#} else {#})"
proof -
  obtain M where "mset xs = add_mset (xs ! i) M" using assms by (metis insert_DiffM nth_mem_mset)
  moreover from this have "mset (xs[i := x]) = add_mset x M" using assms by (simp add: mset_update)
  ultimately show ?thesis by (simp add: mset_filter)
qed

lemma used_update:
  "i < length (used_entries d) \<Longrightarrow> FileName e ! 0 \<noteq> 0 \<Longrightarrow> used_entries (d[i := e]) = (used_entries d)[i := e]"
  unfolding used_entries_def by (induction d arbitrary: i) (auto split: nat.splits if_splits)

lemma files_update:
  assumes "i < length (used_entries d)" "FileName e ! 0 \<noteq> 0"
  shows "mset (files_of (d[i := e])) + (if deleted (d ! i) then {#} else {#d ! i#}) =
    mset (files_of d) + (if deleted e then {#} else {#e#})"
proof -
  have "used_entries d ! i = d ! i" using assms(1) by (simp add: used_entries_def takeWhile_nth)
  with mset_filter_update [OF assms(1), of "\<lambda>e. \<not> deleted e" e] show ?thesis
    unfolding files_of_def used_update [OF assms] by (cases "deleted e"; cases "deleted (d ! i)"; simp only: simp_thms if_True if_False)
qed

lemma used_append:
  assumes "length (used_entries d) = m" "m < length d" "FileName e ! 0 \<noteq> 0"
    and "m + 1 < length d \<Longrightarrow> FileName z ! 0 = 0"
  shows "used_entries (d[m := e, m + 1 := z]) = used_entries d @ [e]"
  using assms
proof (induction d arbitrary: m)
  case (Cons x d)
  show ?case
  proof (cases "FileName x ! 0 = 0")
    case True
    with Cons.prems show ?thesis by (cases d) (auto simp: used_entries_def)
  next
    case False
    with Cons.prems obtain k where "m = Suc k" by (auto simp: used_entries_def)
    with Cons.prems False Cons.IH [of k] show ?thesis by (simp add: used_entries_def)
  qed
qed simp

lemma mset_same:
  assumes "mset fs = mset gs"
  shows "set fs = set gs" "separate fs = separate gs"
proof -
  show sets: "set fs = set gs" using assms by (metis set_mset_mset)
  have "mset (map file_name fs) = mset (map file_name gs)" using assms by simp
  then have "distinct (map file_name fs) = distinct (map file_name gs)" by (rule mset_eq_imp_distinct_iff)
  with sets show "separate fs = separate gs" by (simp add: separate_def)
qed

lemma separate_Cons:
  "separate (e # fs) \<longleftrightarrow> file_name e \<notin> file_name ` set fs \<and> (\<forall>x \<in> set fs. extent e \<inter> extent x = {}) \<and> separate fs"
proof (cases "file_name e \<in> file_name ` set fs")
  case False
  then have "e \<noteq> b" "b \<noteq> e" if "b \<in> set fs" for b using that by auto
  then have "(\<forall>b \<in> set fs. e \<noteq> b \<longrightarrow> P b) = (\<forall>b \<in> set fs. P b)"
    "(\<forall>a \<in> set fs. (a \<noteq> e \<longrightarrow> P a) \<and> Q a) = ((\<forall>a \<in> set fs. P a) \<and> (\<forall>a \<in> set fs. Q a))" for P Q
    by blast+
  with False show ?thesis by (simp add: separate_def Int_commute [of _ "extent e"]) blast
qed (simp add: separate_def)

lemma separate_distinct: "separate fs \<Longrightarrow> distinct fs"
  by (simp add: separate_def distinct_map)

section \<open>Creating a file\<close>

lemma count_found:
  "count_entries t (Some f) es =
     (if length (used_entries es) < length es then t + length (used_entries es) else 0, Some f)"
  by (induction es arbitrary: t) (auto simp: used_entries_def)

lemma count_entries_room:
  "length (used_entries es) < length es \<Longrightarrow>
   \<exists>k \<le> length (used_entries es). count_entries t None es = (t + length (used_entries es), Some (t + k)) \<and>
     (k < length (used_entries es) \<longrightarrow> deleted (es ! k))"
proof (induction es arbitrary: t)
  case (Cons x es)
  consider "FileName x ! 0 = 0" | "deleted x" | "FileName x ! 0 \<noteq> 0" "\<not> deleted x" by blast
  then show ?case
  proof cases
    case 1
    then show ?thesis by (simp add: used_entries_def)
  next
    case 2
    with Cons.prems show ?thesis
      by (intro exI [of _ 0]) (auto simp: used_entries_def deleted_def count_found)
  next
    case 3
    then have u: "used_entries (x # es) = x # used_entries es" by (simp add: used_entries_def)
    with Cons.prems Cons.IH [of "t + 1"] obtain k where "k \<le> length (used_entries es)"
      "count_entries (t + 1) None es = (t + 1 + length (used_entries es), Some (t + 1 + k))"
      "k < length (used_entries es) \<longrightarrow> deleted (es ! k)" by auto
    with 3 u show ?thesis by (intro exI [of _ "Suc k"]) (simp add: deleted_def)
  qed
qed simp

lemma name_field:
  assumes "valid_name f" "length b = 32"
  shows "\<exists>b'. poke_list b 0 (f @ [0]) = Some b' \<and> length b' = 32 \<and> cstr b' = f \<and> terminated b' \<and> b' ! 0 = hd f"
proof -
  let ?b = "f @ 0 # drop (length f + 1) b"
  have "poke_list b 0 (f @ [0]) = Some ?b" using assms by (simp add: poke_list_def valid_name_def)
  moreover have "?b ! 0 = hd f" using assms by (cases f) (simp_all add: valid_name_def)
  ultimately show ?thesis using assms by (intro exI [of _ ?b]) (simp add: valid_name_def)
qed

lemma add_record_ok:
  assumes ok: "directory_ok nb d" and m: "m = length (used_entries d)" "m < 64"
    and k: "k \<le> m" "k < m \<longrightarrow> deleted (d ! k)" and name: "valid_name f"
  shows "\<exists>d' e. add_record f start req k m d = Some d' \<and> mset (files_of d') = add_mset e (mset (files_of d)) \<and>
     file_name e = f \<and> terminated (FileName e) \<and> StartingBlock e = start \<and> ReservedBlocks e = req \<and> FileSize e = 0 \<and>
     length d' = 64 \<and> (\<forall>x \<in> set d'. length (FileName x) = 32)"
proof -
  have len: "length d = 64" "\<forall>x \<in> set d. length (FileName x) = 32" using ok by (auto simp: directory_ok_def)
  with k m have lk: "length (FileName (d ! k)) = 32" by auto
  from name_field [OF name lk] obtain b where b: "poke_list (FileName (d ! k)) 0 (f @ [0]) = Some b" "length b = 32"
    "cstr b = f" "terminated b" "b ! 0 = hd f" by blast
  define e where "e = (d ! k)\<lparr>StartingBlock := start, ReservedBlocks := req, FileSize := 0, FileName := b\<rparr>"
  have e: "FileName e ! 0 \<noteq> 0" "\<not> deleted e"
    using b(5) valid_name_head [OF name] by (simp_all add: e_def deleted_def)
  show ?thesis
  proof (cases "k = m")
    case False
    with k have "k < length (used_entries d)" "deleted (d ! k)" using m by auto
    with files_update [of k d e] e have "mset (files_of (d[k := e])) = add_mset e (mset (files_of d))" by simp
    moreover have "add_record f start req k m d = Some (d[k := e])"
      using b(1) False by (simp add: add_record_def e_def)
    moreover have "\<forall>x \<in> set (d[k := e]). length (FileName x) = 32"
      using len b(2) set_update_subset_insert [of d k e] by (auto simp: e_def)
    ultimately show ?thesis using b len by (intro exI [of _ "d[k := e]"] exI [of _ e]) (simp add: e_def file_name_def)
  next
    case True
    define z where "z = (d ! (m + 1))\<lparr>FileName := (FileName (d ! (m + 1)))[0 := 0]\<rparr>"
    have "add_record f start req k m d = Some (d[m := e, m + 1 := z])"
      using b(1) True len
      by (cases "m + 1 < 64") (simp_all add: add_record_def e_def z_def list_update_beyond Let_def)
    moreover have z: "FileName z ! 0 = 0" "length (FileName z) = 32" if "m + 1 < length d"
    proof -
      have "length (FileName (d ! (m + 1))) = 32" using that len(2) by simp
      then show "FileName z ! 0 = 0" "length (FileName z) = 32" by (simp_all add: z_def)
    qed
    have "used_entries (d[m := e, m + 1 := z]) = used_entries d @ [e]"
      using m len e z by (intro used_append) auto
    then have "files_of (d[m := e, m + 1 := z]) = files_of d @ [e]" using e by (simp add: files_of_def)
    moreover have "\<forall>x \<in> set (d[m := e, m + 1 := z]). length (FileName x) = 32"
    proof (cases "m + 1 < length d")
      case True
      with z len b(2) show ?thesis
        using set_update_subset_insert [of d m e] set_update_subset_insert [of "d[m := e]" "m + 1" z] by (auto simp: e_def)
    next
      case False
      with len b(2) show ?thesis
        using set_update_subset_insert [of d m e] by (auto simp: e_def list_update_beyond)
    qed
    ultimately show ?thesis
      using b len by (intro exI [of _ "d[m := e, m + 1 := z]"] exI [of _ e]) (simp add: e_def file_name_def)
  qed
qed

lemma directory_ok_insert:
  assumes "directory_ok nb d" "mset (files_of d') = add_mset e (mset (files_of d))" "length d' = 64"
    and "\<forall>x \<in> set d'. length (FileName x) = 32" "file_ok nb e" "file_name e \<notin> file_name ` set (files_of d)"
    and "\<forall>x \<in> set (files_of d). extent e \<inter> extent x = {}"
  shows "directory_ok nb d'"
proof -
  have "mset (files_of d') = mset (e # files_of d)" using assms(2) by simp
  from mset_same [OF this] have "set (files_of d') = insert e (set (files_of d))"
    "separate (files_of d') = separate (e # files_of d)" by simp_all
  with assms show ?thesis by (simp add: directory_ok_def separate_Cons)
qed

text \<open>The sorted copy of the directory: the files in the order of their blocks, then the deleted entries.\<close>

lemma sorted_directory:
  assumes "directory_ok nb d" "nb \<le> 2 ^ 31" "1 < nb"
  shows "\<exists>ls ds. sort_entries (used_entries d) = ls @ ds \<and> chain_from nb 1 ls \<and> set ls = set (files_of d) \<and>
    (\<forall>e \<in> set ls. \<not> deleted e) \<and> (\<forall>e \<in> set ds. deleted e) \<and>
    ((\<forall>e \<in> set (used_entries d). \<not> deleted e) \<longrightarrow> ds = [])"
proof -
  have fs: "\<forall>e \<in> set (files_of d). file_ok nb e" "separate (files_of d)" using assms(1) by (simp_all add: directory_ok_def)
  have "lo e < 2 ^ 31" if "e \<in> set (used_entries d)" "\<not> deleted e" for e
    using fs(1) that assms(2) by (auto simp: files_of_def file_ok_def)
  then obtain ls ds where s: "sort_entries (used_entries d) = ls @ ds" "mset ls = mset (files_of d)"
    "sorted_wrt (\<lambda>a b. lo a \<le> lo b) ls" "mset ds = mset (filter deleted (used_entries d))"
    using sort_entries_split [of "used_entries d"] by (auto simp: files_of_def)
  have set_ls: "set ls = set (files_of d)" and sep: "separate ls" using mset_same [OF s(2)] fs(2) by simp_all
  have chain: "chain_from nb 1 ls"
    using s(3) separate_distinct [OF sep] set_ls fs(1) assms(3) sep
    by (intro chain_of_sorted) (auto simp: file_ok_def separate_def)
  have set_ds: "set ds = {e \<in> set (used_entries d). deleted e}" using s(4) by (metis set_filter set_mset_mset)
  have live: "\<forall>e \<in> set ls. \<not> deleted e" using set_ls by (simp add: files_of_def)
  have none: "ds = []" if "\<forall>e \<in> set (used_entries d). \<not> deleted e"
  proof -
    have "set ds = {}" using that unfolding set_ds by fast
    then show ?thesis by simp
  qed
  have "\<forall>e \<in> set ds. deleted e" by (simp add: set_ds)
  with s(1) chain set_ls live none show ?thesis by metis
qed

definition blocks_of :: "bmfs \<Rightarrow> nat" where "blocks_of s = unat (disksize s) div 2"

text \<open>Blocks for a size in MiB, half a block rounded up.\<close>

definition blocks_for :: "u64 \<Rightarrow> nat" where "blocks_for maxsize = (unat maxsize + 1) div 2"

lemma round_up_blocks: "unat maxsize < 2 ^ 63 \<Longrightarrow> unat (round_up maxsize div 2) = blocks_for maxsize"
proof -
  assume small: "unat maxsize < 2 ^ 63"
  then have "unat (maxsize + 1) = unat maxsize + 1" by (simp add: unat_plus_simple [THEN iffD1] word_le_nat_alt unat_word_ariths)
  moreover have "maxsize mod 2 = 0 \<longleftrightarrow> unat maxsize mod 2 = 0"
    using unat_eq_zero [of "maxsize mod 2"] by (simp add: unat_mod)
  ultimately have "unat (round_up maxsize) = (if unat maxsize mod 2 = 0 then unat maxsize else unat maxsize + 1)"
    by (simp add: round_up_def)
  then show ?thesis by (simp add: blocks_for_def unat_div) presburger
qed

lemma num_blocks: "unat (ucast (disksize s div 2) :: u64) = blocks_of s" "blocks_of s \<le> 2 ^ 31"
proof -
  have "unat (disksize s) < 2 ^ 32" using unsigned_less [of "disksize s"] by simp
  then show "blocks_of s \<le> 2 ^ 31" by (simp add: blocks_of_def)
  then have "blocks_of s < 2 ^ 64" by simp
  then show "unat (ucast (disksize s div 2) :: u64) = blocks_of s"
    by (simp add: blocks_of_def unsigned_ucast_eq unat_div take_bit_nat_eq_self)
qed

lemma tell_simps [simp]:
  "Directory (tell t s) = Directory s" "disk (tell t s) = disk s" "disksize (tell t s) = disksize s"
  "local_files (tell t s) = local_files s" "writable (tell t s) = writable s" "diskname (tell t s) = diskname s"
  "DiskInfo (tell t s) = DiskInfo s" "DiskInfo (tell_line u s) = DiskInfo s"
  "Directory (tell_line u s) = Directory s" "disk (tell_line u s) = disk s" "disksize (tell_line u s) = disksize s"
  "local_files (tell_line u s) = local_files s" "writable (tell_line u s) = writable s" "diskname (tell_line u s) = diskname s"
  by (simp_all add: tell_def tell_line_def)

lemma write_directory_simps [simp]:
  "DiskInfo (write_directory s) = DiskInfo s" "Directory (write_directory s) = Directory s" "disksize (write_directory s) = disksize s"
  "local_files (write_directory s) = local_files s" "writable (write_directory s) = writable s" "diskname (write_directory s) = diskname s"
  by (simp_all add: write_directory_def)

text \<open>What no operation on files changes.\<close>

definition same_setting :: "bmfs \<Rightarrow> bmfs \<Rightarrow> bool" where
  "same_setting s s' \<longleftrightarrow> disksize s' = disksize s \<and> diskname s' = diskname s \<and> writable s' = writable s \<and>
     DiskInfo s' = DiskInfo s"

lemma create_places_file:
  assumes ok: "directory_ok (blocks_of s) (Directory s)" and room: "length (used_entries (Directory s)) < 64"
    and name: "valid_name f" "f \<notin> file_name ` set (files_of (Directory s))"
    and size: "0 < unat maxsize" "unat maxsize < 2 ^ 63"
    and free: "free_area (blocks_of s) (files_of (Directory s)) (blocks_for maxsize) p"
  shows "\<exists>s' e. create f maxsize s = Some s' \<and> mset (files_of (Directory s')) = add_mset e (mset (files_of (Directory s))) \<and>
    file_name e = f \<and> FileSize e = 0 \<and> hi e = lo e + blocks_for maxsize \<and> lo e \<le> p \<and>
    free_area (blocks_of s) (files_of (Directory s)) (blocks_for maxsize) (lo e) \<and>
    directory_ok (blocks_of s) (Directory s') \<and> same_setting s s' \<and>
    disk s' = write_at 4096 (directory_bytes (Directory s')) (disk s)"
proof -
  let ?d = "Directory s" and ?nb = "blocks_of s" and ?req = "round_up maxsize div 2"
  have req: "unat ?req = blocks_for maxsize" "0 < blocks_for maxsize"
    using round_up_blocks [OF size(2)] size(1) by (simp_all add: blocks_for_def)
  have len: "length ?d = 64" using ok by (simp add: directory_ok_def)
  from free have p: "1 \<le> p" "p + blocks_for maxsize < ?nb"
    "\<forall>e \<in> set (files_of ?d). {p..<p + blocks_for maxsize} \<inter> extent e = {}" by (simp_all add: free_area_def)
  from count_entries_room [of ?d 0] room len obtain k where k: "k \<le> length (used_entries ?d)"
    "count_entries 0 None ?d = (length (used_entries ?d), Some k)" "k < length (used_entries ?d) \<longrightarrow> deleted (?d ! k)" by auto
  have "1 < ?nb" using p by linarith
  from sorted_directory [OF ok num_blocks(2) this] obtain ls ds where l: "sort_entries (used_entries ?d) = ls @ ds"
    "chain_from ?nb 1 ls" "set ls = set (files_of ?d)" "\<forall>e \<in> set ls. \<not> deleted e" "\<forall>e \<in> set ds. deleted e" by blast
  define q where "q = find_area (ucast (disksize s div 2)) ?req 1 (ls @ ds)"
  have "1 \<le> unat q \<and> unat q \<le> p \<and> (\<forall>e \<in> set ls. {unat q..<unat q + blocks_for maxsize} \<inter> extent e = {})"
    using find_area_first [OF num_blocks(1,2), where prev_end = 1 and ls = ls and ds = ds and req = ?req and p = p]
      l p req by (simp add: q_def)
  then have q: "1 \<le> unat q" "unat q \<le> p" "\<forall>e \<in> set (files_of ?d). {unat q..<unat q + blocks_for maxsize} \<inter> extent e = {}"
    using l(3) by auto
  from add_record_ok [OF ok refl room k(1,3) name(1), of q ?req] obtain d' e where
    d': "add_record f q ?req k (length (used_entries ?d)) ?d = Some d'" "mset (files_of d') = add_mset e (mset (files_of ?d))"
    and e: "file_name e = f" "terminated (FileName e)" "StartingBlock e = q" "ReservedBlocks e = ?req" "FileSize e = 0"
    and lens: "length d' = 64" "\<forall>x \<in> set d'. length (FileName x) = 32" by blast
  have lohi: "lo e = unat q" "hi e = lo e + blocks_for maxsize" using e req by (simp_all add: lo_def hi_def)
  have "file_ok ?nb e" using e q lohi p req by (simp add: file_ok_def)
  then have good: "directory_ok ?nb d'"
    using directory_ok_insert [OF ok d'(2) lens] name(2) e(1) q(3) lohi by (simp add: extent_def)
  have take_used: "take (length (used_entries ?d)) ?d = used_entries ?d"
    by (metis takeWhile_eq_take used_entries_def)
  have "q \<noteq> 0" using q(1) by auto
  have absent: "findfile (Some f) s = Some None"
    using findfile_absent [OF ok _ name(2)] name(1) by (simp add: valid_name_def)
  define s' where "s' = tell_line ''Complete'' (write_directory ((tell_line ''Creating new file...'' s)\<lparr>Directory := d'\<rparr>))"
  have "create f maxsize s = Some s'"
    using d'(1) \<open>q \<noteq> 0\<close> by (simp add: create_def Let_def absent k(2) take_used l(1) q_def [symmetric] s'_def)
  moreover have "Directory s' = d'" "same_setting s s'" "disk s' = write_at 4096 (directory_bytes d') (disk s)"
    by (simp_all add: s'_def write_directory_def same_setting_def)
  moreover have "free_area ?nb (files_of ?d) (blocks_for maxsize) (lo e)"
    using q p lohi by (simp add: free_area_def)
  ultimately show ?thesis
    using d'(2) e lohi q(2) good by (intro exI [of _ s'] exI [of _ e]) simp
qed

lemma create_refuses_full_disk:
  assumes ok: "directory_ok (blocks_of s) (Directory s)" and room: "length (used_entries (Directory s)) < 64"
    and name: "valid_name f" "f \<notin> file_name ` set (files_of (Directory s))"
    and size: "0 < unat maxsize" "unat maxsize < 2 ^ 63" and blocks: "1 < blocks_of s"
    and kept: "\<forall>e \<in> set (used_entries (Directory s)). \<not> deleted e"
    and full: "\<nexists>p. free_area (blocks_of s) (files_of (Directory s)) (blocks_for maxsize) p"
  shows "\<exists>s'. create f maxsize s = Some s' \<and> Directory s' = Directory s \<and> disk s' = disk s \<and> same_setting s s'"
proof -
  let ?d = "Directory s" and ?nb = "blocks_of s" and ?req = "round_up maxsize div 2"
  have req: "unat ?req = blocks_for maxsize" "0 < blocks_for maxsize"
    using round_up_blocks [OF size(2)] size(1) by (simp_all add: blocks_for_def)
  have len: "length ?d = 64" using ok by (simp add: directory_ok_def)
  from count_entries_room [of ?d 0] room len obtain k where
    k: "count_entries 0 None ?d = (length (used_entries ?d), Some k)" by auto
  from sorted_directory [OF ok num_blocks(2) blocks] kept obtain ls where l: "sort_entries (used_entries ?d) = ls"
    "chain_from ?nb 1 ls" "set ls = set (files_of ?d)" "\<forall>e \<in> set ls. \<not> deleted e" by auto
  have "find_area (ucast (disksize s div 2)) ?req 1 ls = 0"
    using full l by (intro find_area_none [OF num_blocks]) (simp_all add: req free_area_def)
  moreover have "take (length (used_entries ?d)) ?d = used_entries ?d"
    by (metis takeWhile_eq_take used_entries_def)
  moreover have "findfile (Some f) s = Some None"
    using findfile_absent [OF ok _ name(2)] name(1) by (simp add: valid_name_def)
  ultimately show ?thesis using k l(1) by (simp add: create_def Let_def same_setting_def)
qed

text \<open>With all 64 entries in use or deleted the count of used entries is left at 0.\<close>

lemma count_entries_full:
  "used_entries es = es \<Longrightarrow> \<exists>e \<in> set es. deleted e \<Longrightarrow>
   \<exists>k < length es. count_entries t None es = (0, Some (t + k)) \<and> deleted (es ! k) \<and> (deleted (es ! 0) \<longrightarrow> k = 0)"
proof (induction es arbitrary: t)
  case (Cons x es)
  then have u: "FileName x ! 0 \<noteq> 0" "used_entries es = es" by (auto simp: used_entries_def split: if_splits)
  show ?case
  proof (cases "deleted x")
    case True
    with u count_found [of "t + 1" t es] show ?thesis by (intro exI [of _ 0]) (simp add: deleted_def)
  next
    case False
    with Cons.prems Cons.IH [of "t + 1"] u obtain k where "k < length es" "count_entries (t + 1) None es = (0, Some (t + 1 + k))"
      "deleted (es ! k)" by auto
    with False u show ?thesis by (intro exI [of _ "Suc k"]) (simp add: deleted_def)
  qed
qed simp

lemma full_table_file:
  assumes ok: "directory_ok (blocks_of s) (Directory s)" and full: "used_entries (Directory s) = Directory s"
    and gone: "\<exists>e \<in> set (Directory s). deleted e"
    and name: "valid_name f" "f \<notin> file_name ` set (files_of (Directory s))"
    and size: "0 < unat maxsize" "unat maxsize < 2 ^ 63" "1 + blocks_for maxsize < blocks_of s"
  shows "\<exists>s' e. create f maxsize s = Some s' \<and> e \<in> set (files_of (Directory s')) \<and> file_name e = f \<and> lo e = 1 \<and>
    hi e = 1 + blocks_for maxsize \<and> (deleted (Directory s ! 0) \<longrightarrow> files_of (Directory s') = [e])"
proof -
  let ?d = "Directory s" and ?req = "round_up maxsize div 2"
  have len: "length ?d = 64" "\<forall>x \<in> set ?d. length (FileName x) = 32" using ok by (simp_all add: directory_ok_def)
  from count_entries_full [OF full gone, of 0] obtain k where k: "k < length ?d" "count_entries 0 None ?d = (0, Some k)"
    "deleted (?d ! k)" "deleted (?d ! 0) \<longrightarrow> k = 0" by auto
  have area: "find_area (ucast (disksize s div 2)) ?req 1 [] = 1"
    using last_area [OF num_blocks(1) [of s], of 1 ?req] size by (simp add: round_up_blocks)
  from k(1) len have "length (FileName (?d ! k)) = 32" by simp
  from name_field [OF name(1) this] obtain b where b: "poke_list (FileName (?d ! k)) 0 (f @ [0]) = Some b" "length b = 32"
    "cstr b = f" "b ! 0 = hd f" by blast
  define e where "e = (?d ! k)\<lparr>StartingBlock := 1, ReservedBlocks := ?req, FileSize := 0, FileName := b\<rparr>"
  have e: "FileName e ! 0 \<noteq> 0" "\<not> deleted e" "file_name e = f" "lo e = 1" "hi e = 1 + blocks_for maxsize"
    using b(3,4) valid_name_head [OF name(1)] round_up_blocks [OF size(2)]
    by (simp_all add: e_def deleted_def file_name_def lo_def hi_def)
  obtain d' where d': "add_record f 1 ?req k 0 ?d = Some d'" "e \<in> set (files_of d')" "deleted (?d ! 0) \<longrightarrow> files_of d' = [e]"
  proof (cases k)
    case 0
    from len(1) obtain x r0 where "?d = x # r0" by (cases ?d) auto
    moreover from this len(1) obtain y r where "r0 = y # r" by (cases r0) auto
    ultimately have d: "?d = x # y # r" by simp
    have "length (FileName y) = 32" using len(2) d by simp
    define z where "z = y\<lparr>FileName := (FileName y)[0 := 0]\<rparr>"
    have "FileName z ! 0 = 0" using \<open>length (FileName y) = 32\<close> by (simp add: z_def)
    then have "files_of (e # z # r) = [e]" using e by (simp add: files_of_def used_entries_def)
    moreover have "add_record f 1 ?req k 0 ?d = Some (e # z # r)"
      using b(1) 0 d by (simp add: add_record_def e_def Let_def z_def)
    ultimately show thesis using that [of "e # z # r"] by simp
  next
    case (Suc j)
    then have "add_record f 1 ?req k 0 ?d = Some (?d[k := e])" using b(1) by (simp add: add_record_def e_def)
    moreover have "used_entries (?d[k := e]) = ?d[k := e]" using used_update [of k ?d e] k(1) full e(1) by simp
    then have "e \<in> set (files_of (?d[k := e]))" using k(1) e(2) by (simp add: files_of_def set_update_memI)
    ultimately show thesis using that k(4) Suc by simp
  qed
  have absent: "findfile (Some f) s = Some None"
    using findfile_absent [OF ok _ name(2)] name(1) by (simp add: valid_name_def)
  define s' where "s' = tell_line ''Complete'' (write_directory ((tell_line ''Creating new file...'' s)\<lparr>Directory := d'\<rparr>))"
  have "create f maxsize s = Some s'"
    using d'(1) area by (simp add: create_def Let_def absent k(2) sort_entries_def s'_def)
  moreover have "Directory s' = d'" by (simp add: s'_def)
  ultimately show ?thesis using d' e by (intro exI [of _ s'] exI [of _ e]) simp
qed

section \<open>Deleting, writing and reading\<close>

definition file_bytes :: "bmfs \<Rightarrow> BMFSEntry \<Rightarrow> byte list" where
  "file_bytes s e = map (\<lambda>k. getc_at (disk s) (lo e * 2097152 + k)) [0..<unat (FileSize e)]"

lemma update_lengths:
  "\<forall>x \<in> set d. length (FileName x) = 32 \<Longrightarrow> length (FileName e) = 32 \<Longrightarrow> \<forall>x \<in> set (d[i := e]). length (FileName x) = 32"
  using set_update_subset_insert [of d i e] by auto

lemma delete_removes_file:
  assumes ok: "directory_ok (blocks_of s) (Directory s)" and name: "0 \<notin> set f" and e: "e \<in> set (files_of (Directory s))" "file_name e = f"
  shows "\<exists>s'. bmfs_delete (Some f) s = Some s' \<and> mset (files_of (Directory s)) = add_mset e (mset (files_of (Directory s'))) \<and>
    directory_ok (blocks_of s) (Directory s') \<and> same_setting s s' \<and> local_files s' = local_files s \<and>
    disk s' = write_at 4096 (directory_bytes (Directory s')) (disk s)"
proof -
  let ?d = "Directory s"
  from findfile_file [OF ok name e] obtain i where i: "findfile (Some f) s = Some (Some (i, e))" "i < length (used_entries ?d)"
    "?d ! i = e" "i < 64" by blast
  have len: "length ?d = 64" "\<forall>x \<in> set ?d. length (FileName x) = 32" using ok by (simp_all add: directory_ok_def)
  define e' where "e' = e\<lparr>FileName := (FileName e)[0 := 1]\<rparr>"
  have "length (FileName e) = 32" using len i(3,4) by (metis nth_mem)
  then have e': "FileName e' ! 0 = 1" "length (FileName e') = 32" "deleted e'" by (simp_all add: e'_def deleted_def)
  have "\<not> deleted e" using e(1) by (simp add: files_of_def)
  with files_update [OF i(2), of e'] e' i(3) have ms: "mset (files_of ?d) = add_mset e (mset (files_of (?d[i := e'])))" by simp
  then have "mset (files_of ?d) = mset (e # files_of (?d[i := e']))" by simp
  from mset_same [OF this] ok have "directory_ok (blocks_of s) (?d[i := e'])"
    using update_lengths [OF len(2) e'(2)] by (auto simp: directory_ok_def separate_Cons)
  with ms i show ?thesis by (simp add: bmfs_delete_def e'_def Let_def write_directory_def same_setting_def)
qed

lemma block_bytes:
  assumes "file_ok nb e" "nb \<le> 2 ^ 31"
  shows "unat (StartingBlock e * 2097152) = lo e * 2097152" "block_offset e = lo e * 2097152"
    "unat (ReservedBlocks e * 2097152) = (hi e - lo e) * 2097152" "hi e - lo e = unat (ReservedBlocks e)"
proof -
  have b: "lo e < 2 ^ 31" "unat (ReservedBlocks e) < 2 ^ 31" using assms by (auto simp: file_ok_def hi_def)
  have times: "unat (w * 2097152) = unat w * 2097152" if "unat w < 2 ^ 31" for w :: u64
    using that by (simp add: unat_word_ariths)
  from times b show l: "unat (StartingBlock e * 2097152) = lo e * 2097152" by (simp add: lo_def)
  with b show "block_offset e = lo e * 2097152" by (simp add: block_offset_def)
  show "hi e - lo e = unat (ReservedBlocks e)" by (simp add: hi_def)
  with times b show "unat (ReservedBlocks e * 2097152) = (hi e - lo e) * 2097152" by simp
qed

lemma write_stores_file:
  assumes ok: "directory_ok (blocks_of s) (Directory s)" and name: "0 \<notin> set f" "f \<noteq> diskname s"
    and e: "e \<in> set (files_of (Directory s))" "file_name e = f"
    and c: "local_files s f = Some c" "length c \<le> (hi e - lo e) * 2097152" "length c < 2 ^ 31"
  shows "\<exists>s' e'. bmfs_write (Some f) s = Some s' \<and> e' = e\<lparr>FileSize := of_nat (length c)\<rparr> \<and>
    mset (files_of (Directory s')) + {#e#} = add_mset e' (mset (files_of (Directory s))) \<and>
    directory_ok (blocks_of s) (Directory s') \<and> same_setting s s' \<and> local_files s' = local_files s \<and>
    disk s' = write_at 4096 (directory_bytes (Directory s')) (write_at (lo e * 2097152) c (disk s))"
proof -
  let ?d = "Directory s"
  from findfile_file [OF ok name(1) e] obtain i where i: "findfile (Some f) s = Some (Some (i, e))" "i < length (used_entries ?d)"
    "?d ! i = e" "i < 64" by blast
  have len: "length ?d = 64" "\<forall>x \<in> set ?d. length (FileName x) = 32" using ok by (simp_all add: directory_ok_def)
  have eok: "file_ok (blocks_of s) e" using ok e(1) by (simp add: directory_ok_def)
  note bb = block_bytes [OF eok num_blocks(2)]
  define e' where "e' = e\<lparr>FileSize := of_nat (length c)\<rparr>"
  have u: "unat (of_nat (length c) :: u64) = length c" using c(3) by (simp add: unsigned_of_nat take_bit_nat_eq_self)
  have live: "FileName e ! 0 \<noteq> 0" "\<not> deleted e"
    using e(1) by (auto simp: files_of_def used_entries_def dest: set_takeWhileD)
  then have live': "FileName e' ! 0 \<noteq> 0" "\<not> deleted e'" by (simp_all add: e'_def deleted_def)
  have same: "file_name e' = file_name e" "extent e' = extent e" "file_ok (blocks_of s) e'" "length (FileName e') = 32"
    using eok c(2) u bb(4) len i(3,4) nth_mem [of i ?d]
    by (auto simp: e'_def file_name_def extent_def lo_def hi_def file_ok_def)
  have ms: "mset (files_of (?d[i := e'])) + {#e#} = add_mset e' (mset (files_of ?d))"
    using files_update [OF i(2) live'(1)] i(3) live live' by simp
  obtain M where M: "mset (files_of ?d) = mset (e # M)"
    using e(1) by (metis in_set_conv_decomp mset_append mset.simps(2) union_mset_add_mset_right)
  then have "mset (files_of (?d[i := e'])) = mset (e' # M)" using ms by simp
  note new = mset_same [OF this] and old = mset_same [OF M]
  have "directory_ok (blocks_of s) (?d[i := e'])"
    using ok new old same update_lengths [OF len(2) same(4)] by (auto simp: directory_ok_def separate_Cons)
  moreover have "\<not> ReservedBlocks e * 2097152 < of_nat (length c)"
    using bb(3) c(2) u by (simp add: word_less_nat_alt)
  moreover have "bmfs_write (Some f) s = Some (tell_line ''Complete'' (write_directory
      ((tell (quoted ''Writing local file '' f '' to BMFS... '') s)\<lparr>disk := write_at (lo e * 2097152) c (disk s),
          Directory := ?d[i := e']\<rparr>)))"
    using i c(1,3) name(2) calculation(2) bb(2) by (simp add: bmfs_write_def Let_def e'_def)
  ultimately show ?thesis using ms
    by (intro exI [of _ e'] exI) (auto simp: e'_def same_setting_def write_directory_def)
qed

lemma read_returns_file:
  assumes ok: "directory_ok (blocks_of s) (Directory s)" and name: "0 \<notin> set f" "f \<noteq> diskname s" "writable s f"
    and e: "e \<in> set (files_of (Directory s))" "file_name e = f" and size: "unat (FileSize e) < 2 ^ 31"
  shows "\<exists>s'. bmfs_read (Some f) s = Some s' \<and> local_files s' = (local_files s)(f \<mapsto> file_bytes s e) \<and>
    Directory s' = Directory s \<and> disk s' = disk s \<and> same_setting s s'"
proof -
  from findfile_file [OF ok name(1) e] obtain i where i: "findfile (Some f) s = Some (Some (i, e))" by blast
  have "file_ok (blocks_of s) e" using ok e(1) by (simp add: directory_ok_def)
  from block_bytes(2) [OF this num_blocks(2)] show ?thesis
    using i name e(2) size by (simp add: bmfs_read_def Let_def file_name_def file_bytes_def same_setting_def)
qed

section \<open>The image\<close>

lemma length_write_at: "p + length bs \<le> length d \<Longrightarrow> length (write_at p bs d) = length d"
  by (simp add: write_at_def)

lemma write_at_inside: "p + length bs \<le> length d \<Longrightarrow> write_at p bs d = take p d @ bs @ drop (p + length bs) d"
  by (simp add: write_at_def)

lemma region_write_same: "p + length bs \<le> length d \<Longrightarrow> take (length bs) (drop p (write_at p bs d)) = bs"
  by (simp add: write_at_inside)

lemma region_write_other:
  assumes "p + length bs \<le> length d" "q + n \<le> p \<or> p + length bs \<le> q"
  shows "take n (drop q (write_at p bs d)) = take n (drop q d)"
proof (cases "q + n \<le> p")
  case True
  then have "take n (drop q (take p d)) = take n (drop q d)" by (simp add: drop_take min_def)
  with True assms(1) show ?thesis by (simp add: write_at_inside)
next
  case False
  with assms show ?thesis by (simp add: write_at_inside)
qed

lemma getc_write_at:
  assumes "p + length bs \<le> length d"
  shows "getc_at (write_at p bs d) q = (if p \<le> q \<and> q < p + length bs then bs ! (q - p) else getc_at d q)"
proof -
  consider "q < p" | "p \<le> q" "q < p + length bs" | "p + length bs \<le> q" by linarith
  then show ?thesis
    using assms by cases (auto simp: getc_at_def write_at_def nth_append min_def)
qed

lemma le_bytes_Suc: "le_bytes (Suc n) v = of_nat v # le_bytes n (v div 256)"
  by (simp add: le_bytes_def upt_conv_Cons div_mult2_eq comp_def flip: map_Suc_upt del: upt_Suc)

lemma le_value_bytes: "le_value (le_bytes n v) = v mod 256 ^ n"
proof (induction n arbitrary: v)
  case (Suc n)
  have "unat (of_nat v :: byte) = v mod 256" by (simp add: unsigned_of_nat take_bit_eq_mod)
  then have "le_value (le_bytes (Suc n) v) = v mod 256 + 256 * (v div 256 mod 256 ^ n)"
    using Suc [of "v div 256"] by (simp add: le_bytes_Suc le_value_def)
  then show ?case by (simp add: mod_mult2_eq)
qed (simp add: le_bytes_def le_value_def)

lemma field64_bytes: "field64 (length a) (a @ le_bytes 8 (unat w) @ b) = w"
proof -
  have "unat w < 2 ^ 64" using unsigned_less [of w] by simp
  then show ?thesis by (simp add: field64_def le_value_bytes)
qed

lemma entry_of_bytes: "length (FileName e) = 32 \<Longrightarrow> entry_of (bytes_of e) = e"
proof -
  assume len: "length (FileName e) = 32"
  let ?n = "FileName e" and ?s = "le_bytes 8 (unat (StartingBlock e))" and ?r = "le_bytes 8 (unat (ReservedBlocks e))"
    and ?z = "le_bytes 8 (unat (FileSize e))"
  have "field64 32 (bytes_of e) = StartingBlock e" "field64 40 (bytes_of e) = ReservedBlocks e"
    "field64 48 (bytes_of e) = FileSize e" "field64 56 (bytes_of e) = Unused e"
    using len field64_bytes [of ?n "StartingBlock e"] field64_bytes [of "?n @ ?s" "ReservedBlocks e"]
      field64_bytes [of "?n @ ?s @ ?r" "FileSize e"] field64_bytes [of "?n @ ?s @ ?r @ ?z" "Unused e" "[]"]
    by (simp_all add: bytes_of_def)
  moreover have "take 32 (bytes_of e) = FileName e" using len by (simp add: bytes_of_def)
  ultimately show ?thesis by (simp add: entry_of_def)
qed

lemma take_drop_concat:
  "\<forall>x \<in> set xs. length x = n \<Longrightarrow> i < length xs \<Longrightarrow> take n (drop (n * i) (concat xs)) = xs ! i"
  by (induction xs arbitrary: i) (auto simp: nth_Cons split: nat.splits)

lemma length_concat_const: "\<forall>x \<in> set xs. length x = n \<Longrightarrow> length (concat xs) = n * length xs"
  by (induction xs) auto

lemma directory_roundtrip:
  assumes "length d = 64" "\<forall>x \<in> set d. length (FileName x) = 32"
  shows "directory_of (directory_bytes d) = d" "length (directory_bytes d) = 4096"
proof -
  have b: "\<forall>x \<in> set (map bytes_of d). length x = 64" using assms(2) by (auto simp: bytes_of_def)
  from length_concat_const [OF b] assms(1) show "length (directory_bytes d) = 4096" by (simp add: directory_bytes_def)
  have "entry_of (take 64 (drop (64 * i) (directory_bytes d))) = d ! i" if "i < 64" for i
    using take_drop_concat [OF b, of i] that assms by (simp add: directory_bytes_def entry_of_bytes)
  then have "directory_of (directory_bytes d) = map ((!) d) [0..<64]" by (simp add: directory_of_def)
  then show "directory_of (directory_bytes d) = d" using map_nth [of d] assms(1) by simp
qed

text \<open>The directory the image holds, as the tool loads it.\<close>

definition loaded :: "byte list \<Rightarrow> BMFSEntry list" where
  "loaded img = directory_of (take 4096 (drop 4096 img))"

lemma loaded_written:
  assumes "length d = 64" "\<forall>x \<in> set d. length (FileName x) = 32"
  shows "loaded (write_at 4096 (directory_bytes d) img) = d"
proof -
  let ?img = "img @ replicate (4096 - length img) 0"
  have "length (take 4096 ?img) = 4096" by simp
  moreover have "directory_bytes d \<noteq> []" using directory_roundtrip(2) [OF assms] by auto
  ultimately show ?thesis using directory_roundtrip [OF assms] by (simp add: loaded_def write_at_def)
qed

section \<open>Histories of commands\<close>

datatype bmfs_op = Create "byte list" u64 | Delete "byte list" | Write "byte list" | Read "byte list" | List_files

fun perform :: "bmfs_op \<Rightarrow> bmfs \<Rightarrow> bmfs option" where
  "perform (Create f n) s = create f n s"
| "perform (Delete f) s = bmfs_delete (Some f) s"
| "perform (Write f) s = bmfs_write (Some f) s"
| "perform (Read f) s = bmfs_read (Some f) s"
| "perform List_files s = bmfs_list s"

text \<open>
  What a careful user does: names are C strings, and a file is created only while the directory
  has an entry left and either an area is free or nothing has been deleted.
\<close>

fun careful :: "bmfs_op \<Rightarrow> bmfs \<Rightarrow> bool" where
  "careful (Create f n) s \<longleftrightarrow> valid_name f \<and> 0 < unat n \<and> unat n < 2 ^ 63 \<and> length (used_entries (Directory s)) < 64 \<and>
     ((\<exists>p. free_area (blocks_of s) (files_of (Directory s)) (blocks_for n) p) \<or>
      (\<forall>e \<in> set (used_entries (Directory s)). \<not> deleted e))"
| "careful (Delete f) s \<longleftrightarrow> 0 \<notin> set f"
| "careful (Write f) s \<longleftrightarrow> 0 \<notin> set f \<and> f \<noteq> diskname s"
| "careful (Read f) s \<longleftrightarrow> 0 \<notin> set f"
| "careful List_files s \<longleftrightarrow> True"

fun history :: "bmfs_op list \<Rightarrow> bmfs \<Rightarrow> bmfs option" where
  "history [] s = Some s"
| "history (x # xs) s = (if careful x s then Option.bind (perform x s) (history xs) else None)"

definition image_good :: "bmfs \<Rightarrow> bool" where
  "image_good s \<longleftrightarrow> 1 < blocks_of s \<and> directory_ok (blocks_of s) (Directory s) \<and> loaded (disk s) = Directory s \<and>
     unat (disksize s) = length (disk s) div 1048576 \<and> take 512 (drop 1024 (disk s)) = DiskInfo s"

lemma same_blocks: "same_setting s s' \<Longrightarrow> blocks_of s' = blocks_of s"
  by (simp add: same_setting_def blocks_of_def)

lemma image_good_same:
  "image_good s \<Longrightarrow> Directory s' = Directory s \<Longrightarrow> disk s' = disk s \<Longrightarrow> same_setting s s' \<Longrightarrow> image_good s'"
  using same_blocks [of s s'] by (simp add: image_good_def same_setting_def)

lemma image_size:
  assumes "image_good s"
  shows "blocks_of s * 2097152 \<le> length (disk s)" "8192 \<le> length (disk s)"
proof -
  have "blocks_of s * 2 \<le> unat (disksize s)" by (simp add: blocks_of_def)
  moreover have "unat (disksize s) * 1048576 \<le> length (disk s)" "1 < blocks_of s"
    using assms by (simp_all add: image_good_def)
  ultimately show "blocks_of s * 2097152 \<le> length (disk s)" "8192 \<le> length (disk s)" by linarith+
qed

lemma image_good_written:
  assumes "image_good s" "directory_ok (blocks_of s) (Directory s')" "same_setting s s'"
    and "disk s' = write_at 4096 (directory_bytes (Directory s')) d"
    and "length d = length (disk s)" "take 512 (drop 1024 d) = take 512 (drop 1024 (disk s))"
  shows "image_good s'"
proof -
  have len: "length (Directory s') = 64" "\<forall>x \<in> set (Directory s'). length (FileName x) = 32"
    using assms(2) by (simp_all add: directory_ok_def)
  have "8192 \<le> length d" using image_size(2) [OF assms(1)] assms(5) by simp
  then have "length (disk s') = length (disk s)" "take 512 (drop 1024 (disk s')) = take 512 (drop 1024 (disk s))"
    using directory_roundtrip(2) [OF len] assms(5,6) region_write_other [of 4096 "directory_bytes (Directory s')" d 1024 512]
    by (simp_all add: assms(4) length_write_at)
  with loaded_written [OF len, of d] same_blocks [OF assms(3)] assms show ?thesis
    by (simp add: image_good_def same_setting_def)
qed

lemma list_loop_same: "list_loop es s = Some s' \<Longrightarrow> Directory s' = Directory s \<and> disk s' = disk s \<and> same_setting s s'"
  by (induction es s rule: list_loop.induct) (auto simp: same_setting_def split: if_splits)

lemma named_file_cases:
  obtains "f \<notin> file_name ` set (files_of d)" | e where "e \<in> set (files_of d)" "file_name e = f"
  by blast

lemma create_keeps_good:
  assumes "image_good s" "careful (Create f n) s" "create f n s = Some s'"
  shows "image_good s'"
proof -
  have ok: "1 < blocks_of s" "directory_ok (blocks_of s) (Directory s)" using assms(1) by (simp_all add: image_good_def)
  have c: "valid_name f" "0 < unat n" "unat n < 2 ^ 63" "length (used_entries (Directory s)) < 64"
    "(\<exists>p. free_area (blocks_of s) (files_of (Directory s)) (blocks_for n) p) \<or> (\<forall>e \<in> set (used_entries (Directory s)). \<not> deleted e)"
    using assms(2) by auto
  show ?thesis
  proof (cases rule: named_file_cases [of f "Directory s"])
    case 1
    show ?thesis
    proof (cases "\<exists>p. free_area (blocks_of s) (files_of (Directory s)) (blocks_for n) p")
      case True
      then obtain p where "free_area (blocks_of s) (files_of (Directory s)) (blocks_for n) p" by blast
      from create_places_file [OF ok(2) c(4,1) 1 c(2,3) this] assms(3) show ?thesis
        by (auto intro: image_good_written [OF assms(1) _ _ _ refl refl])
    next
      case False
      with create_refuses_full_disk [OF ok(2) c(4,1) 1 c(2,3) ok(1)] c(5) obtain s2 where
        "create f n s = Some s2" "Directory s2 = Directory s" "disk s2 = disk s" "same_setting s s2" by blast
      then show ?thesis using assms(1,3) by (auto intro: image_good_same)
    qed
  next
    case (2 e)
    from findfile_file [OF ok(2) _ 2] c(1) obtain i where "findfile (Some f) s = Some (Some (i, e))"
      by (auto simp: valid_name_def)
    with assms(3) have "s' = tell_line ''Error: File already exists.'' s" by (simp add: create_def Let_def)
    with assms(1) show ?thesis by (auto intro: image_good_same simp: same_setting_def)
  qed
qed

lemma write_keeps_good:
  assumes "image_good s" "careful (Write f) s" "bmfs_write (Some f) s = Some s'"
  shows "image_good s'"
proof -
  have ok: "directory_ok (blocks_of s) (Directory s)" and f: "0 \<notin> set f" "f \<noteq> diskname s"
    using assms(1,2) by (simp_all add: image_good_def)
  show ?thesis
  proof (cases rule: named_file_cases [of f "Directory s"])
    case 1
    from findfile_absent [OF ok f(1) this] assms(3) have "Directory s' = Directory s" "disk s' = disk s" "same_setting s s'"
      by (auto simp: bmfs_write_def same_setting_def)
    with assms(1) show ?thesis by (rule image_good_same)
  next
    case (2 e)
    from findfile_file [OF ok f(1) 2] obtain i where i: "findfile (Some f) s = Some (Some (i, e))" by blast
    have eok: "file_ok (blocks_of s) e" using ok 2(1) by (simp add: directory_ok_def)
    note bb = block_bytes [OF eok num_blocks(2)]
    show ?thesis
    proof (cases "\<exists>c. local_files s f = Some c \<and> length c \<le> (hi e - lo e) * 2097152 \<and> length c < 2 ^ 31")
      case True
      then obtain c where c: "local_files s f = Some c" "length c \<le> (hi e - lo e) * 2097152" "length c < 2 ^ 31" by blast
      note image_size(1) [OF assms(1)]
      moreover have "(hi e - lo e) * 2097152 + lo e * 2097152 = hi e * 2097152" "hi e < blocks_of s" "1 \<le> lo e"
        using eok by (auto simp: file_ok_def simp flip: add_mult_distrib)
      ultimately have inside: "lo e * 2097152 + length c \<le> length (disk s)" "1024 + 512 \<le> lo e * 2097152"
        using c(2) by linarith+
      from write_stores_file [OF ok f 2 c] assms(3) length_write_at [OF inside(1)] inside(2)
        region_write_other [OF inside(1), of 1024 512] show ?thesis
        by (auto intro: image_good_written [OF assms(1)])
    next
      case False
      then have "Directory s' = Directory s" "disk s' = disk s" "same_setting s s'"
        using assms(3) i bb(3)
        by (auto simp: same_setting_def bmfs_write_def Let_def word_less_nat_alt unsigned_of_nat take_bit_nat_eq_self split: option.splits if_splits)
      with assms(1) show ?thesis by (rule image_good_same)
    qed
  qed
qed

lemma perform_keeps_good:
  assumes "image_good s" "careful x s" "perform x s = Some s'"
  shows "image_good s'"
proof (cases x)
  case (Create f n)
  with assms create_keeps_good [OF assms(1), of f n s'] show ?thesis by simp
next
  case (Write f)
  with assms write_keeps_good [OF assms(1), of f s'] show ?thesis by simp
next
  case (Delete f)
  have ok: "directory_ok (blocks_of s) (Directory s)" and f: "0 \<notin> set f"
    using assms(1,2) Delete by (simp_all add: image_good_def)
  show ?thesis
  proof (cases rule: named_file_cases [of f "Directory s"])
    case 1
    from findfile_absent [OF ok f this] Delete assms(3) have "s' = not_found s" by (simp add: bmfs_delete_def)
    with assms(1) show ?thesis by (auto simp: not_found_def same_setting_def intro: image_good_same)
  next
    case (2 e)
    from delete_removes_file [OF ok f this] Delete assms(3) show ?thesis
      by (auto intro: image_good_written [OF assms(1) _ _ _ refl refl])
  qed
next
  case (Read f)
  with assms(3) obtain found where "findfile (Some f) s = Some found" by (auto simp: bmfs_read_def bind_eq_Some_conv)
  with Read assms(3) have "Directory s' = Directory s \<and> disk s' = disk s \<and> same_setting s s'"
    by (cases found) (auto simp: same_setting_def bmfs_read_def Let_def not_found_def split: if_splits)
  with assms(1) show ?thesis by (auto intro: image_good_same)
next
  case List_files
  with assms(3) have "Directory s' = Directory s \<and> disk s' = disk s \<and> same_setting s s'"
    by (auto simp: bmfs_list_def same_setting_def dest!: list_loop_same)
  with assms(1) show ?thesis by (auto intro: image_good_same)
qed

lemma perform_same_setting: "perform x s = Some s' \<Longrightarrow> same_setting s s'"
proof (cases x)
  case (Create f n)
  moreover assume "perform x s = Some s'"
  ultimately show ?thesis
    by (auto simp: create_def Let_def bind_eq_Some_conv same_setting_def split: option.splits prod.splits if_splits)
next
  case (Write f)
  moreover assume "perform x s = Some s'"
  ultimately obtain found where "findfile (Some f) s = Some found" "bmfs_write (Some f) s = Some s'"
    by (auto simp: bmfs_write_def bind_eq_Some_conv)
  then show ?thesis
    by (cases found) (auto simp: bmfs_write_def Let_def same_setting_def split: option.splits if_splits)
next
  case (Delete f)
  moreover assume "perform x s = Some s'"
  ultimately show ?thesis
    by (auto simp: bmfs_delete_def Let_def bind_eq_Some_conv not_found_def same_setting_def split: option.splits)
next
  case (Read f)
  moreover assume "perform x s = Some s'"
  ultimately obtain found where "findfile (Some f) s = Some found" "bmfs_read (Some f) s = Some s'"
    by (auto simp: bmfs_read_def bind_eq_Some_conv)
  then show ?thesis
    by (cases found) (auto simp: bmfs_read_def Let_def not_found_def same_setting_def split: if_splits)
next
  case List_files
  moreover assume "perform x s = Some s'"
  ultimately show ?thesis by (auto simp: bmfs_list_def same_setting_def dest!: list_loop_same)
qed

lemma history_good: "image_good s \<Longrightarrow> history xs s = Some s' \<Longrightarrow> image_good s'"
  by (induction xs arbitrary: s) (auto simp: bind_eq_Some_conv split: if_splits intro: perform_keeps_good)

lemma good_files:
  assumes "image_good s"
  shows "loaded (disk s) = Directory s" "blocks_of s = length (disk s) div 2097152"
    and "\<forall>e \<in> set (files_of (Directory s)). 1 \<le> lo e \<and> hi e < blocks_of s \<and> unat (FileSize e) \<le> (hi e - lo e) * 2097152"
    and "\<forall>a \<in> set (files_of (Directory s)). \<forall>b \<in> set (files_of (Directory s)).
       a \<noteq> b \<longrightarrow> file_name a \<noteq> file_name b \<and> extent a \<inter> extent b = {}"
proof -
  have g: "\<forall>e \<in> set (files_of (Directory s)). file_ok (blocks_of s) e" "separate (files_of (Directory s))"
    using assms by (simp_all add: image_good_def directory_ok_def)
  then show "\<forall>e \<in> set (files_of (Directory s)). 1 \<le> lo e \<and> hi e < blocks_of s \<and> unat (FileSize e) \<le> (hi e - lo e) * 2097152"
    "\<forall>a \<in> set (files_of (Directory s)). \<forall>b \<in> set (files_of (Directory s)).
       a \<noteq> b \<longrightarrow> file_name a \<noteq> file_name b \<and> extent a \<inter> extent b = {}"
    by (auto simp: file_ok_def hi_def separate_def distinct_map dest: inj_onD)
  show "loaded (disk s) = Directory s" "blocks_of s = length (disk s) div 2097152"
    using assms by (simp_all add: image_good_def blocks_of_def div_mult2_eq [symmetric])
qed

section \<open>What a user can rely on\<close>

text \<open>An image of 22 MiB (11 blocks), empty and with one file of two blocks.\<close>

definition demo_image :: "BMFSEntry list \<Rightarrow> bmfs" where
  "demo_image d = \<lparr>Directory = d, DiskInfo = fs_tag @ replicate 508 0,
     disk = write_at 4096 (directory_bytes d) (write_at 1024 (fs_tag @ replicate 508 0) (replicate 23068672 0)), diskname = bytes ''disk.img'', disksize = 22,
     local_files = [bytes ''a'' \<mapsto> [7, 8, 9]], writable = (\<lambda>f. True), terminal = []\<rparr>"

definition demo_file :: BMFSEntry where
  "demo_file = \<lparr>FileName = bytes ''a'' @ replicate 31 0, StartingBlock = 1, ReservedBlocks = 2, FileSize = 0, Unused = 0\<rparr>"

definition one_file :: "BMFSEntry list" where "one_file = demo_file # replicate 63 empty_entry"

lemma replicate_ends: "replicate 64 x = x # replicate 63 x" "replicate 63 x = x # replicate 62 x"
    "replicate 62 x = x # replicate 61 x" "replicate 31 x = x # replicate 30 x" "replicate 32 x = x # replicate 31 x"
  using replicate_Suc [of 63 x] replicate_Suc [of 62 x] replicate_Suc [of 61 x] replicate_Suc [of 30 x] replicate_Suc [of 31 x] by simp_all

lemma demo_files: "files_of (replicate 64 empty_entry) = []" "files_of one_file = [demo_file]"
    "used_entries (replicate 64 empty_entry) = []" "used_entries one_file = [demo_file]"
  by (simp_all add: files_of_def used_entries_def one_file_def demo_file_def empty_entry_def deleted_def bytes_def
      replicate_ends)

lemma demo_blocks: "blocks_of (demo_image d) = 11"
  by (simp add: blocks_of_def demo_image_def)

lemma demo_names: "file_name demo_file = bytes ''a''" "lo demo_file = 1" "hi demo_file = 3" "unat (FileSize demo_file) = 0"
    "terminated (FileName demo_file)"
  by (simp_all add: file_name_def demo_file_def lo_def hi_def bytes_def replicate_ends(4))

lemma demo_directory_ok: "directory_ok 11 (replicate 64 empty_entry)" "directory_ok 11 one_file"
  by (simp_all add: directory_ok_def demo_files separate_def file_ok_def demo_names)
    (simp_all add: one_file_def demo_file_def empty_entry_def bytes_def)

lemma demo_good: "image_good (demo_image (replicate 64 empty_entry))" "image_good (demo_image one_file)"
proof -
  have "image_good (demo_image d)" if d: "directory_ok 11 d" for d
  proof -
    have len: "length d = 64" "\<forall>x \<in> set d. length (FileName x) = 32" using d by (simp_all add: directory_ok_def)
    let ?tag = "fs_tag @ replicate 508 0" and ?zeros = "replicate 23068672 (0 :: byte)"
    have tag: "length ?tag = 512" by (simp add: fs_tag_def bytes_def)
    then have "take 512 (drop 1024 (write_at 1024 ?tag ?zeros)) = ?tag" using region_write_same [of 1024 ?tag ?zeros] by simp
    moreover have l: "length (write_at 1024 ?tag ?zeros) = 23068672" using tag by (simp add: length_write_at)
    ultimately show ?thesis
      using d loaded_written [OF len] directory_roundtrip(2) [OF len]
        region_write_other [of 4096 "directory_bytes d" "write_at 1024 ?tag ?zeros" 1024 512]
      by (simp add: image_good_def demo_blocks) (simp add: demo_image_def length_write_at)
  qed
  then show "image_good (demo_image (replicate 64 empty_entry))" "image_good (demo_image one_file)"
    using demo_directory_ok by blast+
qed

lemma demo_length: "length (disk (demo_image one_file)) = 23068672"
proof -
  have "length (directory_bytes one_file) = 4096"
    using demo_directory_ok(2) by (intro directory_roundtrip) (simp_all add: directory_ok_def)
  then show ?thesis by (simp add: demo_image_def length_write_at fs_tag_def bytes_def)
qed

lemma demo_create:
  assumes "image_good s" "Directory s = one_file" "blocks_of s = 11"
  shows "\<exists>s' e. create (bytes ''b'') 3 s = Some s' \<and> image_good s' \<and> same_setting s s' \<and> e \<in> set (files_of (Directory s')) \<and>
    file_name e = bytes ''b'' \<and> careful (Create (bytes ''b'') 3) s"
proof -
  let ?f = "bytes ''b''"
  have f: "valid_name ?f" "?f \<notin> file_name ` set (files_of one_file)"
    by (simp_all add: valid_name_def demo_files demo_names) (simp_all add: bytes_def)
  have free: "free_area 11 (files_of one_file) (blocks_for 3) 3"
    by (simp add: free_area_def demo_files demo_names extent_def blocks_for_def)
  have c: "careful (Create ?f 3) s"
    using f(1) free by (auto simp: assms demo_files)
  have ok: "directory_ok (blocks_of s) (Directory s)" by (simp add: assms demo_directory_ok)
  have "\<exists>s' e. create ?f 3 s = Some s' \<and> mset (files_of (Directory s')) = add_mset e (mset (files_of (Directory s))) \<and>
      file_name e = ?f \<and> same_setting s s'"
    using create_places_file [OF ok _ f(1), of 3 3] f(2) free by (auto simp: assms demo_files)
  then obtain s' e where s': "create ?f 3 s = Some s'" "mset (files_of (Directory s')) = add_mset e (mset (files_of (Directory s)))"
    "file_name e = ?f" "same_setting s s'" by blast
  then have "e \<in> set (files_of (Directory s'))" by (metis set_mset_mset union_single_eq_member)
  with s' c create_keeps_good [OF assms(1) c s'(1)] show ?thesis by blast
qed





text \<open>
  When all 64 entries of the directory have been used and one of them is deleted, create puts the new
  file at block 1, over the file that is there; when the deleted entry is the first, all other files
  disappear from the directory as well.
\<close>

theorem bmfs_full_table_overwrites:
  assumes "directory_ok (blocks_of s) (Directory s)" "used_entries (Directory s) = Directory s"
    and "\<exists>e \<in> set (Directory s). deleted e" "valid_name f" "f \<notin> file_name ` set (files_of (Directory s))"
    and "0 < unat maxsize" "unat maxsize < 2 ^ 63" "1 + blocks_for maxsize < blocks_of s"
    and "g \<in> set (files_of (Directory s))" "lo g = 1"
  shows "\<exists>s' e. create f maxsize s = Some s' \<and> e \<in> set (files_of (Directory s')) \<and> file_name e = f \<and>
    extent e \<inter> extent g \<noteq> {} \<and> (deleted (Directory s ! 0) \<longrightarrow> files_of (Directory s') = [e])"
proof -
  from full_table_file [OF assms(1-8)] obtain s' e where e: "create f maxsize s = Some s'" "e \<in> set (files_of (Directory s'))"
    "file_name e = f" "lo e = 1" "hi e = 1 + blocks_for maxsize" "deleted (Directory s ! 0) \<longrightarrow> files_of (Directory s') = [e]" by blast
  have "1 < hi g" using assms(1,9,10) by (auto simp: directory_ok_def file_ok_def)
  then have "1 \<in> extent e \<inter> extent g" using e(4,5) assms(6,10) by (simp add: extent_def blocks_for_def)
  with e show ?thesis by blast
qed

text \<open>A full directory: 64 entries of one block each, the third deleted.\<close>

definition full_entry :: "nat \<Rightarrow> BMFSEntry" where
  "full_entry i = \<lparr>FileName = (if i = 2 then 1 else of_nat (65 + i)) # replicate 31 0, StartingBlock = of_nat (i + 1),
     ReservedBlocks = 1, FileSize = 0, Unused = 0\<rparr>"

definition full_table :: "BMFSEntry list" where "full_table = map full_entry [0..<64]"

lemma full_entry_facts:
  assumes "i < 64"
  shows "FileName (full_entry i) ! 0 \<noteq> 0" "deleted (full_entry i) \<longleftrightarrow> i = 2" "lo (full_entry i) = i + 1" "hi (full_entry i) = i + 2"
    and "i \<noteq> 2 \<Longrightarrow> file_name (full_entry i) = [of_nat (65 + i)]" "length (FileName (full_entry i)) = 32"
    "terminated (FileName (full_entry i))" "FileSize (full_entry i) = 0"
proof -
  have u: "unat (of_nat (65 + i) :: byte) = 65 + i" using assms by (simp only: unsigned_of_nat) (simp add: take_bit_nat_eq_self)
  have "of_nat (65 + i) \<noteq> (0 :: byte)" "of_nat (65 + i) \<noteq> (1 :: byte)"
  proof -
    show "of_nat (65 + i) \<noteq> (0 :: byte)"
    proof
      assume "of_nat (65 + i) = (0 :: byte)"
      with u show False by (metis add_is_0 unsigned_0 zero_neq_numeral)
    qed
    show "of_nat (65 + i) \<noteq> (1 :: byte)"
    proof
      assume "of_nat (65 + i) = (1 :: byte)"
      then have "unat (of_nat (65 + i) :: byte) = unat (1 :: byte)" by (rule arg_cong)
      with u show False by simp
    qed
  qed
  moreover have "unat (of_nat (i + 1) :: u64) = i + 1" using assms by (simp only: unsigned_of_nat) (simp add: take_bit_nat_eq_self)
  ultimately show "FileName (full_entry i) ! 0 \<noteq> 0" "deleted (full_entry i) \<longleftrightarrow> i = 2" "lo (full_entry i) = i + 1"
    "hi (full_entry i) = i + 2" "i \<noteq> 2 \<Longrightarrow> file_name (full_entry i) = [of_nat (65 + i)]" "length (FileName (full_entry i)) = 32"
    "terminated (FileName (full_entry i))" "FileSize (full_entry i) = 0"
    by (simp_all add: full_entry_def deleted_def lo_def hi_def file_name_def replicate_ends(4) del: of_nat_add)
qed

lemma full_table_facts:
  "used_entries full_table = full_table" "set (files_of full_table) = full_entry ` ({0..<64} - {2})"
  "directory_ok 100 full_table" "\<exists>e \<in> set full_table. deleted e"
proof -
  show u: "used_entries full_table = full_table"
    by (auto simp: used_entries_def full_table_def takeWhile_eq_all_conv full_entry_facts)
  have "filter (\<lambda>i. \<not> deleted (full_entry i)) [0..<64] = filter (\<lambda>i. i \<noteq> 2) [0..<64]"
    by (rule filter_cong) (auto simp: full_entry_facts)
  then have fs: "files_of full_table = map full_entry (filter (\<lambda>i. i \<noteq> 2) [0..<64])"
    by (simp only: files_of_def u) (simp add: full_table_def filter_map comp_def)
  then show set_fs: "set (files_of full_table) = full_entry ` ({0..<64} - {2})" by auto
  have inj: "inj_on (\<lambda>i. [of_nat (65 + i) :: byte]) {0..<64}"
  proof (rule inj_onI)
    fix i j :: nat
    assume ij: "i \<in> {0..<64}" "j \<in> {0..<64}" "[of_nat (65 + i) :: byte] = [of_nat (65 + j)]"
    then have "unat (of_nat (65 + i) :: byte) = unat (of_nat (65 + j) :: byte)" by simp
    with ij(1,2) show "i = j" by (simp only: unsigned_of_nat) (simp add: take_bit_nat_eq_self)
  qed
  have ext: "extent (full_entry i) = {i + 1}" if "i < 64" for i
    using that by (auto simp: extent_def full_entry_facts)
  have "map file_name (files_of full_table) = map (\<lambda>i. [of_nat (65 + i)]) (filter (\<lambda>i. i \<noteq> 2) [0..<64])"
    unfolding fs by (auto simp: full_entry_facts simp del: of_nat_add)
  then have "distinct (map file_name (files_of full_table))"
    using inj by (simp add: distinct_map del: of_nat_add) (auto intro: inj_on_subset)
  then have "separate (files_of full_table)"
    unfolding separate_def set_fs by (auto simp: ext)
  then show "directory_ok 100 full_table"
    unfolding directory_ok_def set_fs
    by (auto simp: full_table_def file_ok_def full_entry_facts)
  have "full_entry 2 \<in> set full_table" by (simp add: full_table_def)
  then show "\<exists>e \<in> set full_table. deleted e" using full_entry_facts(2) [of 2] by (intro bexI [of _ "full_entry 2"]) simp_all
qed

theorem bmfs_full_table_overwrites_witness:
  "\<exists>s' e. create (bytes ''!'') 2 ((demo_image full_table)\<lparr>disksize := 200\<rparr>) = Some s' \<and> e \<in> set (files_of (Directory s')) \<and>
    extent e \<inter> extent (full_entry 0) \<noteq> {}"
proof -
  let ?s = "(demo_image full_table)\<lparr>disksize := 200\<rparr>"
  have s: "Directory ?s = full_table" "blocks_of ?s = 100" by (simp_all add: demo_image_def blocks_of_def)
  have z: "valid_name (bytes ''!'')" by (simp add: valid_name_def bytes_def)
  have "bytes ''!'' \<noteq> file_name (full_entry i)" if "i < 64" "i \<noteq> 2" for i
  proof
    assume "bytes ''!'' = file_name (full_entry i)"
    then have "(33 :: byte) = of_nat (65 + i)" using that by (simp add: full_entry_facts bytes_def del: of_nat_add)
    then have "unat (33 :: byte) = unat (of_nat (65 + i) :: byte)" by (rule arg_cong)
    with that(1) show False by (simp only: unsigned_of_nat) (simp add: take_bit_nat_eq_self)
  qed
  then have "bytes ''!'' \<noteq> file_name e" if "e \<in> set (files_of full_table)" for e
    using that unfolding full_table_facts(2) by (elim imageE) simp
  then have "bytes ''!'' \<notin> file_name ` set (files_of full_table)" by (intro notI) (erule imageE, metis)
  moreover have "full_entry 0 \<in> set (files_of full_table)" by (simp add: full_table_facts)
  ultimately have "\<exists>s' e. create (bytes ''!'') 2 ?s = Some s' \<and> e \<in> set (files_of (Directory s')) \<and>
      file_name e = bytes ''!'' \<and> extent e \<inter> extent (full_entry 0) \<noteq> {} \<and>
      (deleted (Directory ?s ! 0) \<longrightarrow> files_of (Directory s') = [e])"
    using z full_table_facts(1,3,4) full_entry_facts(3) [of 0]
    by (intro bmfs_full_table_overwrites) (simp_all only: s, simp_all add: blocks_for_def)
  then show ?thesis by blast
qed

section \<open>A deleted file misleads the search\<close>

definition small_file :: "byte \<Rightarrow> nat \<Rightarrow> nat \<Rightarrow> BMFSEntry" where
  "small_file c b n = \<lparr>FileName = c # replicate 31 0, StartingBlock = of_nat b, ReservedBlocks = of_nat n, FileSize = 0, Unused = 0\<rparr>"

lemmas create_eval = create_def Let_def findfile_def strcmp_name_def replicate_ends empty_entry_def small_file_def bytes_def
  round_up_def sort_entries_def add_record_def poke_list_def StartingBlockCmp_def

lemma misled_1: "Directory s = replicate 64 empty_entry \<Longrightarrow> disksize s = 22 \<Longrightarrow>
  \<exists>s1. create (bytes ''a'') 4 s = Some s1 \<and> Directory s1 = small_file 97 1 2 # replicate 63 empty_entry \<and> disksize s1 = 22"
  by (simp add: create_eval)

lemma misled_2: "Directory s = small_file 97 1 2 # replicate 63 empty_entry \<Longrightarrow> disksize s = 22 \<Longrightarrow>
  \<exists>s1. create (bytes ''b'') 12 s = Some s1 \<and> Directory s1 = small_file 97 1 2 # small_file 98 3 6 # replicate 62 empty_entry \<and> disksize s1 = 22"
  by (simp add: create_eval)

lemma misled_3: "Directory s = small_file 97 1 2 # small_file 98 3 6 # replicate 62 empty_entry \<Longrightarrow> disksize s = 22 \<Longrightarrow>
  \<exists>s1. bmfs_delete (Some (bytes ''a'')) s = Some s1 \<and> Directory s1 = small_file 1 1 2 # small_file 98 3 6 # replicate 62 empty_entry \<and> disksize s1 = 22"
  by (simp add: create_eval bmfs_delete_def)

lemma misled_4: "Directory s = small_file 1 1 2 # small_file 98 3 6 # replicate 62 empty_entry \<Longrightarrow> disksize s = 22 \<Longrightarrow>
  \<exists>s1. create (bytes ''c'') 6 s = Some s1 \<and> Directory s1 = small_file 99 3 3 # small_file 98 3 6 # replicate 62 empty_entry"
  by (simp add: create_eval word_le_nat_alt)

lemma misled_files: "small_file 98 3 6 \<in> set (files_of (small_file 99 3 3 # small_file 98 3 6 # replicate 62 empty_entry))"
    "small_file 99 3 3 \<in> set (files_of (small_file 99 3 3 # small_file 98 3 6 # replicate 62 empty_entry))"
    "file_name (small_file 98 3 6) = bytes ''b''" "file_name (small_file 99 3 3) = bytes ''c''"
    "3 \<in> extent (small_file 98 3 6) \<inter> extent (small_file 99 3 3)"
  by (simp_all add: files_of_def used_entries_def deleted_def small_file_def file_name_def extent_def lo_def hi_def bytes_def replicate_ends)

text \<open>
  C36. A deleted file misleads create on a disk without a free area large enough: with files a and b
  on an empty image and a deleted, a third file is put over b.
\<close>

theorem bmfs_deleted_file_misleads:
  assumes "Directory s = replicate 64 empty_entry" "disksize s = 22"
  shows "\<exists>s' x y. Option.bind (create (bytes ''a'') 4 s) (\<lambda>s1. Option.bind (create (bytes ''b'') 12 s1) (\<lambda>s2.
      Option.bind (bmfs_delete (Some (bytes ''a'')) s2) (create (bytes ''c'') 6))) = Some s' \<and>
    x \<in> set (files_of (Directory s')) \<and> y \<in> set (files_of (Directory s')) \<and>
    file_name x = bytes ''b'' \<and> file_name y = bytes ''c'' \<and> extent x \<inter> extent y \<noteq> {}"
proof -
  from misled_1 [OF assms] obtain s1 where s1: "create (bytes ''a'') 4 s = Some s1"
    "Directory s1 = small_file 97 1 2 # replicate 63 empty_entry" "disksize s1 = 22" by blast
  from misled_2 [OF s1(2,3)] obtain s2 where s2: "create (bytes ''b'') 12 s1 = Some s2"
    "Directory s2 = small_file 97 1 2 # small_file 98 3 6 # replicate 62 empty_entry" "disksize s2 = 22" by blast
  from misled_3 [OF s2(2,3)] obtain s3 where s3: "bmfs_delete (Some (bytes ''a'')) s2 = Some s3"
    "Directory s3 = small_file 1 1 2 # small_file 98 3 6 # replicate 62 empty_entry" "disksize s3 = 22" by blast
  from misled_4 [OF s3(2,3)] obtain s4 where "create (bytes ''c'') 6 s3 = Some s4"
    "Directory s4 = small_file 99 3 3 # small_file 98 3 6 # replicate 62 empty_entry" by blast
  with s1(1) s2(1) s3(1) misled_files show ?thesis
    by (intro exI [of _ s4] exI [of _ "small_file 98 3 6"] exI [of _ "small_file 99 3 3"]) auto
qed

theorem bmfs_deleted_file_misleads_witness:
  "\<exists>s' x y. Option.bind (create (bytes ''a'') 4 (demo_image (replicate 64 empty_entry))) (\<lambda>s1.
      Option.bind (create (bytes ''b'') 12 s1) (\<lambda>s2.
      Option.bind (bmfs_delete (Some (bytes ''a'')) s2) (create (bytes ''c'') 6))) = Some s' \<and>
    x \<in> set (files_of (Directory s')) \<and> y \<in> set (files_of (Directory s')) \<and>
    file_name x = bytes ''b'' \<and> file_name y = bytes ''c'' \<and> extent x \<inter> extent y \<noteq> {}"
  by (rule bmfs_deleted_file_misleads) (simp_all add: demo_image_def)

end
