(* ===== verification/BmfsTool.thy ===== *)
theory BmfsTool
  imports BmfsFiles
begin

text \<open>
  \<open>initialize\<close> and \<open>main\<close> of \<open>Bootloader/BMFS/bmfs.c\<close>. The image is one of the local files; what the
  host can refuse is an argument: \<open>can_alloc\<close> says that \<open>malloc\<close> succeeds, \<open>room\<close> is the size to which
  the image may grow. The progress display (a percentage in floating point) is not modelled.
\<close>

section \<open>The size of a new image\<close>

definition is_digit :: "byte \<Rightarrow> bool" where "is_digit c \<longleftrightarrow> 48 \<le> c \<and> c \<le> 57"
definition to_upper :: "byte \<Rightarrow> byte" where "to_upper c = (if 97 \<le> c \<and> c \<le> 122 then c - 32 else c)"
definition to_lower :: "byte \<Rightarrow> byte" where "to_lower c = (if 65 \<le> c \<and> c \<le> 90 then c + 32 else c)"

definition error_line :: "string \<Rightarrow> byte list" where "error_line t = bytes t @ [10]"

definition unit_factor :: "byte \<Rightarrow> nat option" where
  "unit_factor ch = map_of [(75, 1), (77, 2), (71, 3), (84, 4), (80, 5)] (to_upper ch)"

definition invalid_size :: "byte list \<Rightarrow> byte list" where
  "invalid_size sz = quoted ''Error: Invalid disk size string: '' sz '''' @ [10]"

text \<open>The loop over the size string: what is printed on an error, or the number and the unit.\<close>

fun parse_size :: "byte list \<Rightarrow> nat \<Rightarrow> u64 \<Rightarrow> nat \<Rightarrow> byte list \<Rightarrow> byte list + u64 \<times> nat" where
  "parse_size sz i diskSize diskSizeFactor [] = Inr (diskSize, diskSizeFactor)"
| "parse_size sz i diskSize diskSizeFactor (ch # rest) =
     (if is_digit ch then
        (let n = ucast (ch - 48)
         in if diskSize * 10 > diskSize then parse_size sz (i + 1) (diskSize * 10 + n) diskSizeFactor rest
            else if diskSize = 0 then parse_size sz (i + 1) (diskSize + n) diskSizeFactor rest
            else Inl (error_line ''Error: Disk size is too large''))
      else if i = 0 then Inl (error_line ''Error: A numeric disk size must be specified'')
      else case unit_factor ch of
             None \<Rightarrow> Inl (invalid_size sz)
           | Some k \<Rightarrow> if rest \<noteq> [] then Inl (invalid_size sz) else parse_size sz (i + 1) diskSize k rest)"

text \<open>\<open>while (diskSizeFactor--)\<close>, with the messages it prints; the loop goes on after an error.\<close>

fun scale_size :: "nat \<Rightarrow> u64 \<Rightarrow> u64 \<times> byte list" where
  "scale_size 0 diskSize = (diskSize, [])"
| "scale_size (Suc k) diskSize =
     (if diskSize * 1024 > diskSize then scale_size k (diskSize * 1024)
      else let (d, t) = scale_size k diskSize in (d, error_line ''Error: Disk size is too large'' @ t))"

definition minimumDiskSize :: u64 where "minimumDiskSize = 6 * 1024 * 1024"

definition disk_size :: "byte list \<Rightarrow> byte list + u64" where
  "disk_size sz =
     (case parse_size sz 0 0 0 sz of
        Inl t \<Rightarrow> Inl t
      | Inr (diskSize, diskSizeFactor) \<Rightarrow>
          let (d, t) = (if diskSize > 0 \<and> diskSizeFactor > 0 then scale_size diskSizeFactor diskSize else (diskSize, []))
          in if t \<noteq> [] then Inl t
             else if d < minimumDiskSize
             then Inl (bytes ''Error: Disk size must be at least '' @ decimal (uint minimumDiskSize) @ bytes '' bytes ('' @
                    decimal (uint (minimumDiskSize div (1024 * 1024))) @ bytes ''MiB)'' @ [10])
             else Inr d)"

lemmas size_eval = disk_size_def unit_factor_def is_digit_def to_upper_def minimumDiskSize_def word_le_nat_alt word_less_nat_alt

lemma six_megabytes: "disk_size (bytes ''6M'') = Inr 6291456"
proof -
  have "scale_size 2 6 = (6291456, [])" unfolding numeral_2_eq_2 by (simp add: word_less_nat_alt)
  then show ?thesis by (simp add: size_eval bytes_def)
qed

lemma disk_size_min: "disk_size sz = Inr n \<Longrightarrow> 6291456 \<le> unat n"
  by (auto simp: disk_size_def Let_def minimumDiskSize_def word_less_nat_alt split: sum.splits prod.splits if_splits)

section \<open>Writing a new image\<close>

definition bufferSize :: nat where "bufferSize = 50 * 1024"

definition open_file :: "string \<Rightarrow> byte list option \<Rightarrow> bmfs \<Rightarrow> byte list + byte list option" where
  "open_file kind name s =
     (case name of
        None \<Rightarrow> Inr None
      | Some f \<Rightarrow> (case local_files s f of
          None \<Rightarrow> Inl (quoted (''Error: Unable to open '' @ kind @ '' file '') f '''' @ [10])
        | Some c \<Rightarrow> Inr (Some c)))"

definition bootFileType :: "byte list option \<Rightarrow> string" where
  "bootFileType kern = (if kern = None then ''system'' else ''boot loader'')"

text \<open>\<open>fwrite\<close> of a chunk at a position: the image, and whether all of it fitted.\<close>

definition fwrite_at :: "nat \<Rightarrow> nat \<Rightarrow> byte list \<Rightarrow> byte list \<Rightarrow> byte list \<times> bool" where
  "fwrite_at room pos chunk img = (write_at pos (take (room - pos) chunk) img, pos + length chunk \<le> room)"

function fill_zeros :: "nat \<Rightarrow> nat \<Rightarrow> nat \<Rightarrow> byte list \<Rightarrow> byte list \<times> bool" where
  "fill_zeros room diskSize writeSize img =
     (if writeSize < diskSize then
        (let chunkSize = min bufferSize (diskSize - writeSize);
             (img1, fits) = fwrite_at room writeSize (replicate chunkSize 0) img
         in if fits then fill_zeros room diskSize (writeSize + chunkSize) img1 else (img1, False))
      else (img, True))"
  by pat_completeness auto
termination
  by (relation "measure (\<lambda>(room, diskSize, writeSize, img). diskSize - writeSize)") (auto simp: bufferSize_def)

declare fill_zeros.simps [simp del]

text \<open>The copying loops of the boot loader and the kernel: a failed write does not stop them; they are counted.\<close>

function copy_chunks :: "nat \<Rightarrow> nat \<Rightarrow> byte list \<Rightarrow> byte list \<times> nat \<Rightarrow> nat \<times> byte list \<times> nat" where
  "copy_chunks room pos contents (img, failures) =
     (if contents = [] then (pos, img, failures)
      else let chunk = take bufferSize contents;
               (img1, fits) = fwrite_at room pos chunk img
           in copy_chunks room (pos + length chunk) (drop bufferSize contents) (img1, if fits then failures else failures + 1))"
  by pat_completeness auto
termination
  by (relation "measure (\<lambda>(room, pos, contents, r). length contents)") (auto simp: bufferSize_def)

declare copy_chunks.simps [simp del]

definition write_failed :: "bmfs \<Rightarrow> byte list" where
  "write_failed s = quoted ''Error: Failed to write disk '' (diskname s) '''' @ [10]"

definition read_failed :: "byte list option \<Rightarrow> byte list" where
  "read_failed name = quoted ''Error: Failed to read file '' (the name) '''' @ [10]"

text \<open>
  The boot loader and the kernel: the position behind what is written, and the state. Every write that
  fails is reported; after one \<open>ferror(disk)\<close> makes the loop report a failure to read as well.
\<close>

definition write_part :: "nat \<Rightarrow> string \<Rightarrow> nat \<Rightarrow> byte list option \<Rightarrow> byte list option \<Rightarrow> bmfs \<Rightarrow> int \<times> nat \<times> bmfs" where
  "write_part room title pos name contents s =
     (case contents of
        None \<Rightarrow> (0, pos, s)
      | Some c \<Rightarrow>
          let (pos1, img, failures) = copy_chunks room pos c (disk s, 0);
              s1 = (tell_line title s)\<lparr>disk := img\<rparr>
          in if failures = 0 then (0, pos1, s1)
             else (1, pos1, tell (concat (replicate failures (write_failed s)) @ read_failed name) s1))"

text \<open>\<open>fread(buffer, 512, 1, mbrFile)\<close> succeeds on a file of at least 512 bytes.\<close>

definition write_mbr :: "nat \<Rightarrow> nat \<Rightarrow> byte list option \<Rightarrow> byte list option \<Rightarrow> bmfs \<Rightarrow> int \<times> nat \<times> bmfs" where
  "write_mbr room pos name contents s =
     (case contents of
        None \<Rightarrow> (0, pos, s)
      | Some c \<Rightarrow>
          let s1 = tell_line ''Writing master boot record.'' s
          in if length c \<ge> 512
             then (let (img, fits) = fwrite_at room 0 (take 512 c) (disk s)
                   in if fits then (0, 512, s1\<lparr>disk := img\<rparr>) else (1, 512, tell (write_failed s) (s1\<lparr>disk := img\<rparr>)))
             else (1, 0, tell (read_failed name) s1))"

definition write_image :: "nat \<Rightarrow> nat \<Rightarrow> byte list option \<Rightarrow> byte list option \<Rightarrow> byte list option \<Rightarrow>
    byte list option \<Rightarrow> byte list option \<Rightarrow> byte list option \<Rightarrow> bmfs \<Rightarrow> int \<times> bmfs" where
  "write_image room diskSize mbr mbrFile boot bootFile kern kernelFile s =
     (let (img, filled) = fill_zeros room diskSize 0 []
      in if \<not> filled then (1, tell (write_failed s) (s\<lparr>disk := img\<rparr>))
         else
           let s1 = bmfs_format (tell (bytes ''Formatting disk: '' @ decimal (int diskSize) @ bytes '' of '' @
                      decimal (int diskSize) @ bytes '' bytes (100%)'' @ replicate 9 32 @ [10]) (s\<lparr>disk := img\<rparr>));
               (ret1, pos1, s2) = write_mbr room 8192 mbr mbrFile s1
           in if ret1 \<noteq> 0 then (1, s2)
              else
                let (ret2, pos2, s3) = write_part room (''Writing '' @ bootFileType kern @ '' file.'')
                      (if bootFile = None then pos1 else 8192) boot bootFile s2
                in if ret2 \<noteq> 0 then (1, s3)
                   else let (ret3, pos3, s4) = write_part room ''Writing kernel.'' pos2 kern kernelFile s3
                        in if ret3 \<noteq> 0 then (1, s4) else (0, tell_line ''Disk initialization complete.'' s4))"

definition close_disk :: "bmfs \<Rightarrow> bmfs" where
  "close_disk s = s\<lparr>local_files := (local_files s)(diskname s \<mapsto> disk s)\<rparr>"

definition initialize :: "bool \<Rightarrow> nat \<Rightarrow> byte list \<Rightarrow> byte list option \<Rightarrow> byte list option \<Rightarrow> byte list option \<Rightarrow> bmfs \<Rightarrow> int \<times> bmfs" where
  "initialize can_alloc room sz mbr boot kern s =
     (case disk_size sz of
        Inl t \<Rightarrow> (1, tell t s)
      | Inr diskSize \<Rightarrow> (case open_file ''MBR'' mbr s of
        Inl t \<Rightarrow> (1, tell t s)
      | Inr mbrFile \<Rightarrow> (case open_file (bootFileType kern) boot s of
        Inl t \<Rightarrow> (1, tell t s)
      | Inr bootFile \<Rightarrow> (case open_file ''kernel'' kern s of
        Inl t \<Rightarrow> (1, tell t s)
      | Inr kernelFile \<Rightarrow>
          if \<not> can_alloc then (1, tell_line ''Error: Failed to allocate buffer'' s)
          else if \<not> writable s (diskname s) then (1, tell (quoted ''Error: Unable to open disk '' (diskname s) '''' @ [10]) s)
          else let (ret, s1) = write_image room (unat diskSize) mbr mbrFile boot bootFile kern kernelFile s
               in (ret, close_disk s1)))))"

section \<open>The command line\<close>

text \<open>\<open>strcasecmp\<close> finds equality, \<open>atoi\<close> of the host (undefined outside the range of \<open>int\<close>).\<close>

definition same_word :: "byte list \<Rightarrow> string \<Rightarrow> bool" where
  "same_word w t \<longleftrightarrow> map to_lower w = map to_lower (bytes t)"

definition is_space :: "byte \<Rightarrow> bool" where "is_space c \<longleftrightarrow> c = 32 \<or> 9 \<le> c \<and> c \<le> 13"

definition digits_number :: "byte list \<Rightarrow> int" where
  "digits_number ds = foldl (\<lambda>n c. n * 10 + (uint c - 48)) 0 ds"

definition host_atoi :: "byte list \<Rightarrow> int option" where
  "host_atoi t =
     (let u = dropWhile is_space t;
          (neg, v) = (case u of c # cs \<Rightarrow> if c = 45 then (True, cs) else if c = 43 then (False, cs) else (False, u) | [] \<Rightarrow> (False, u));
          n = digits_number (takeWhile is_digit v);
          r = (if neg then - n else n)
      in if - (2 ^ 31) \<le> r \<and> r < 2 ^ 31 then Some r else None)"

text \<open>\<open>fread\<close> into a static array that is zero before.\<close>

definition fread_at :: "nat \<Rightarrow> nat \<Rightarrow> byte list \<Rightarrow> byte list" where
  "fread_at pos n img = (let bs = take n (drop pos img) in bs @ replicate (n - length bs) 0)"

definition open_disk :: "byte list \<Rightarrow> byte list \<Rightarrow> bmfs \<Rightarrow> bmfs" where
  "open_disk name img s = s\<lparr>diskname := name, disk := img, disksize := of_nat (length img div 1048576),
     DiskInfo := fread_at 1024 512 img, Directory := directory_of (fread_at 4096 4096 img)\<rparr>"

definition usage :: "byte list \<Rightarrow> byte list" where
  "usage prog = error_line ''BareMetal File System Utility v1.0 (2013 04 10)'' @
     error_line ''Written by Ian Seyler @ Return Infinity (ian.seyler@returninfinity.com)'' @ [10] @
     bytes ''Usage: '' @ prog @ error_line '' disk function file'' @
     error_line ''Disk: the name of the disk file'' @
     error_line ''Function: list, read, write, create, delete, format, initialize'' @
     error_line ''File: (if applicable)''"

text \<open>\<open>fgets\<close> of a line, end of line included.\<close>

definition fgets :: "nat \<Rightarrow> byte list \<Rightarrow> byte list" where
  "fgets n input = (let t = take (n - 1) input in takeWhile (\<lambda>c. c \<noteq> 10) t @ (if 10 \<in> set t then [10] else []))"

text \<open>
  \<open>create\<close>: the size is the fourth argument, or the line that \<open>fgets\<close> reads into the 32 bytes of
  \<open>tempstring\<close>; there it becomes an \<open>unsigned int\<close>.
\<close>

definition create_command :: "byte list list \<Rightarrow> byte list \<Rightarrow> bmfs \<Rightarrow> bmfs option" where
  "create_command argv input s =
     (case drop 3 argv of
        [] \<Rightarrow> Some (tell_line ''Error: File name not specified.'' s)
      | filename # sizes \<Rightarrow>
          (case sizes of
             t # _ \<Rightarrow> Option.bind (host_atoi t) (\<lambda>filesize.
               if filesize \<ge> 1 then create filename (word_of_int filesize) s
               else Some (tell_line ''Error: Invalid file size.'' s))
           | [] \<Rightarrow>
               let s1 = tell (bytes ''Maximum file size in MiB: '') s
               in Option.bind (host_atoi (fgets 32 input)) (\<lambda>v.
                  let filesize = word_of_int v :: u32
                  in if filesize \<ge> 1 then create filename (ucast filesize) s1
                     else Some (tell_line ''Error: Invalid file size.'' s1))))"

definition command_on :: "byte list list \<Rightarrow> byte list \<Rightarrow> bmfs \<Rightarrow> bmfs option" where
  "command_on argv input s =
     (let cmd = argv ! 2; filename = (if length argv > 3 then Some (argv ! 3) else None)
      in if same_word cmd ''list'' then bmfs_list s
         else if same_word cmd ''format''
           then Some (case filename of
                  Some t \<Rightarrow> if same_word t ''/FORCE'' then bmfs_format s else tell_line ''Format aborted!'' s
                | None \<Rightarrow> tell_line ''Format aborted!'' s)
         else if same_word cmd ''create'' then create_command argv input s
         else if same_word cmd ''read'' then bmfs_read filename s
         else if same_word cmd ''write'' then bmfs_write filename s
         else if same_word cmd ''delete'' then bmfs_delete filename s
         else Some (tell_line ''Unknown command'' s))"

text \<open>\<open>main\<close>: the exit status and the host after it.\<close>

definition bmfs_main :: "bool \<Rightarrow> nat \<Rightarrow> byte list list \<Rightarrow> byte list \<Rightarrow> bmfs \<Rightarrow> (int \<times> bmfs) option" where
  "bmfs_main can_alloc room argv input s =
     (if length argv < 3 then Some (0, tell (usage (argv ! 0)) s)
      else if same_word (argv ! 2) ''initialize'' then
        (if length argv \<ge> 4
         then let opt = (\<lambda>i. if length argv > i then Some (argv ! i) else None)
              in Some (initialize can_alloc room (argv ! 3) (opt 4) (opt 5) (opt 6) (s\<lparr>diskname := argv ! 1\<rparr>))
         else Some (1, tell (bytes ''Usage: '' @ argv ! 0 @ bytes '' disk '' @ argv ! 2 @ bytes '' size [mbr_file] '' @
                error_line ''[bootloader_file] [kernel_file]'') s))
      else case local_files s (argv ! 1) of
        None \<Rightarrow> Some (0, tell (quoted ''Error: Unable to open disk '' (argv ! 1) '''' @ [10]) s)
      | Some img \<Rightarrow>
          if \<not> writable s (argv ! 1) then Some (0, tell (quoted ''Error: Unable to open disk '' (argv ! 1) '''' @ [10]) s)
          else
            let s1 = open_disk (argv ! 1) img s
            in if same_string (map to_lower fs_tag) (map to_lower (DiskInfo s1)) \<noteq> Some True
               then Some (0, if same_word (argv ! 2) ''format'' then close_disk (bmfs_format s1)
                             else close_disk (tell_line ''Error: Not a valid BMFS drive (Disk is not BMFS formatted).'' s1))
               else map_option (\<lambda>s2. (0, close_disk s2)) (command_on argv input s1))"

section \<open>A new image\<close>

lemma write_at_append:
  "p + length (a @ b) \<le> length d \<Longrightarrow> write_at (p + length a) b (write_at p a d) = write_at p (a @ b) d"
  by (simp add: write_at_inside ac_simps)

lemma fwrite_fits: "pos + length chunk \<le> room \<Longrightarrow> fwrite_at room pos chunk img = (write_at pos chunk img, True)"
  by (simp add: fwrite_at_def)

lemma fill_zeros_eq:
  "length img = w \<Longrightarrow> w \<le> n \<Longrightarrow> n \<le> room \<Longrightarrow> fill_zeros room n w img = (img @ replicate (n - w) 0, True)"
proof (induction room n w img rule: fill_zeros.induct)
  case (1 room n w img)
  show ?case
  proof (cases "w < n")
    case True
    let ?k = "min bufferSize (n - w)"
    have k: "0 < ?k" "w + ?k \<le> n" using True by (simp_all add: bufferSize_def)
    have "write_at w (replicate ?k 0) img = img @ replicate ?k 0"
      using 1(2) k(1) by (auto simp: write_at_def)
    then have step: "fwrite_at room w (replicate ?k 0) img = (img @ replicate ?k 0, True)"
      using k 1(4) fwrite_fits [of w "replicate ?k 0" room img] by simp
    have "fill_zeros room n (w + ?k) (img @ replicate ?k 0) = ((img @ replicate ?k 0) @ replicate (n - (w + ?k)) 0, True)"
      using 1(1) [OF True refl step [symmetric]] 1(2,4) k by simp
    moreover have "replicate ?k (0 :: byte) @ replicate (n - (w + ?k)) 0 = replicate (n - w) 0"
      using k by (simp flip: replicate_add)
    ultimately show ?thesis using True step by (simp add: fill_zeros.simps [of room n w img] Let_def)
  next
    case False
    with 1(2,3) show ?thesis by (simp add: fill_zeros.simps [of room n n img])
  qed
qed

lemma copy_chunks_eq:
  "pos + length c \<le> room \<Longrightarrow> pos + length c \<le> length img \<Longrightarrow>
   copy_chunks room pos c (img, k) = (pos + length c, write_at pos c img, k)"
proof (induction room pos c "(img, k)" arbitrary: img k rule: copy_chunks.induct)
  case (1 room pos c img k)
  show ?case
  proof (cases "c = []")
    case True
    then show ?thesis by (simp add: copy_chunks.simps write_at_def)
  next
    case False
    let ?a = "take bufferSize c"
    have a: "pos + length ?a \<le> room" "pos + length ?a \<le> length img" using 1 by simp_all
    then have step: "fwrite_at room pos ?a img = (write_at pos ?a img, True)" by (intro fwrite_fits)
    have "copy_chunks room (pos + length ?a) (drop bufferSize c) (write_at pos ?a img, k) =
        (pos + length ?a + length (drop bufferSize c), write_at (pos + length ?a) (drop bufferSize c) (write_at pos ?a img), k)"
      using 1(1) [OF False refl step [symmetric]] 1(2,3) a by (simp add: length_write_at)
    moreover have "write_at (pos + length ?a) (drop bufferSize c) (write_at pos ?a img) = write_at pos c img"
      using write_at_append [of pos ?a "drop bufferSize c" img] 1(3) by simp
    ultimately show ?thesis
      using False step by (simp add: copy_chunks.simps [of room pos c] Let_def)
  qed
qed

text \<open>The image of a fresh disk: what each part of it holds.\<close>

definition part_at :: "nat \<Rightarrow> byte list \<Rightarrow> byte list \<Rightarrow> bool" where
  "part_at pos bs img \<longleftrightarrow> take (length bs) (drop pos img) = bs"

lemma part_at_write: "p + length bs \<le> length img \<Longrightarrow> part_at p bs (write_at p bs img)"
  by (simp add: part_at_def region_write_same)

lemma part_at_other:
  "part_at q c img \<Longrightarrow> p + length bs \<le> length img \<Longrightarrow> q + length c \<le> p \<or> p + length bs \<le> q \<Longrightarrow> part_at q c (write_at p bs img)"
  by (simp add: part_at_def region_write_other)

lemma initialize_writes:
  assumes "disk_size sz = Inr n" "local_files s mbr = Some m" "local_files s boot = Some b" "local_files s kern = Some k"
    and "512 \<le> length m" "8192 + length b + length k \<le> unat n" "unat n \<le> room" "writable s (diskname s)"
  shows "\<exists>s'. initialize True room sz (Some mbr) (Some boot) (Some kern) s = (0, s') \<and> writable s' = writable s \<and>
    local_files s' = (local_files s)(diskname s \<mapsto> disk s') \<and> length (disk s') = unat n \<and>
    part_at 0 (take 512 m) (disk s') \<and> part_at 1024 (fs_tag @ replicate 508 0) (disk s') \<and>
    part_at 4096 (directory_bytes (replicate 64 empty_entry)) (disk s') \<and>
    part_at 8192 b (disk s') \<and> part_at (8192 + length b) k (disk s')"
proof -
  let ?z = "replicate (unat n) (0 :: byte)" and ?tag = "fs_tag @ replicate 508 (0 :: byte)"
    and ?dir = "directory_bytes (replicate 64 empty_entry)"
  have lens: "length ?tag = 512" "length ?dir = 4096"
    using directory_roundtrip(2) [of "replicate 64 empty_entry"] by (simp_all add: fs_tag_def bytes_def empty_entry_def)
  define d1 where "d1 = write_at 4096 ?dir (write_at 1024 ?tag ?z)"
  define d2 where "d2 = write_at 0 (take 512 m) d1"
  define d3 where "d3 = write_at 8192 b d2"
  define d4 where "d4 = write_at (8192 + length b) k d3"
  have l: "length d1 = unat n" "length d2 = unat n" "length d3 = unat n" "length d4 = unat n"
    using lens assms(5,6) by (simp_all add: d1_def d2_def d3_def d4_def length_write_at)
  have fill: "fill_zeros room (unat n) 0 [] = (?z, True)" using fill_zeros_eq [of "[]" 0 "unat n" room] assms(7) by simp
  have "fwrite_at room 0 (take 512 m) d1 = (d2, True)"
    using assms(6,7) by (simp only: d2_def) (intro fwrite_fits, simp)
  moreover have "copy_chunks room 8192 b (d2, 0) = (8192 + length b, d3, 0)"
    using copy_chunks_eq [of 8192 b room d2 0] assms(6,7) l(2) by (simp add: d3_def)
  moreover have "copy_chunks room (8192 + length b) k (d3, 0) = (8192 + length b + length k, d4, 0)"
    using copy_chunks_eq [of "8192 + length b" k room d3 0] assms(6,7) l(3) by (simp add: d4_def)
  ultimately have "\<exists>s'. initialize True room sz (Some mbr) (Some boot) (Some kern) s = (0, s') \<and>
      writable s' = writable s \<and> local_files s' = (local_files s)(diskname s \<mapsto> disk s') \<and> disk s' = d4"
    using assms(1-5,8) fill
    by (simp add: initialize_def open_file_def write_image_def write_mbr_def write_part_def bmfs_format_def close_disk_def
        Let_def write_directory_def d1_def [symmetric])
  moreover have "part_at 1024 ?tag d1 \<and> part_at 4096 ?dir d1"
    using lens assms(6) part_at_other [OF part_at_write [of 1024 ?tag ?z], of 4096 ?dir]
    by (simp add: d1_def part_at_write length_write_at)
  then have "part_at 0 (take 512 m) d2 \<and> part_at 1024 ?tag d2 \<and> part_at 4096 ?dir d2"
    using lens assms(5,6) l(1) by (simp add: d2_def part_at_write part_at_other)
  then have "part_at 0 (take 512 m) d3 \<and> part_at 1024 ?tag d3 \<and> part_at 4096 ?dir d3 \<and> part_at 8192 b d3"
    using lens assms(5,6) l(2) by (simp add: d3_def part_at_write part_at_other)
  then have "part_at 0 (take 512 m) d4 \<and> part_at 1024 ?tag d4 \<and> part_at 4096 ?dir d4 \<and> part_at 8192 b d4 \<and> part_at (8192 + length b) k d4"
    using lens assms(5,6) l(3) by (simp add: d4_def part_at_write part_at_other)
  ultimately show ?thesis using l(4) by auto
qed

section \<open>The tool as a program\<close>

text \<open>The command line of an operation; each runs the program once.\<close>

fun op_words :: "bmfs_op \<Rightarrow> byte list list" where
  "op_words (Create f n) = [bytes ''create'', f, digits10 (unat n)]"
| "op_words (Delete f) = [bytes ''delete'', f]"
| "op_words (Write f) = [bytes ''write'', f]"
| "op_words (Read f) = [bytes ''read'', f]"
| "op_words List_files = [bytes ''list'']"

lemma digit_byte: "k < 10 \<Longrightarrow> is_digit (of_nat (48 + k)) \<and> uint (of_nat (48 + k) :: byte) = 48 + int k \<and> \<not> is_space (of_nat (48 + k)) \<and>
    (of_nat (48 + k) :: byte) \<noteq> 45 \<and> (of_nat (48 + k) :: byte) \<noteq> 43"
proof -
  assume "k < 10"
  then have "k \<in> set [0..<10]" by simp
  then show ?thesis
    by (simp add: upt_rec numeral_eq_Suc [of "Num.One"]) (elim disjE; simp add: is_digit_def is_space_def word_le_nat_alt)
qed

lemma digits10_facts:
  "digits10 n \<noteq> [] \<and> (\<forall>c \<in> set (digits10 n). is_digit c \<and> \<not> is_space c \<and> c \<noteq> 45 \<and> c \<noteq> 43) \<and> digits_number (digits10 n) = int n"
proof (induction n rule: digits10.induct)
  case (1 n)
  show ?case
  proof (cases "n < 10")
    case True
    with digit_byte [of n] show ?thesis by (simp add: digits10.simps [of n] digits_number_def del: of_nat_add)
  next
    case False
    have "n mod 10 < 10" by simp
    from digit_byte [OF this] 1 [OF False] False show ?thesis
      by (simp add: digits10.simps [of n] digits_number_def del: of_nat_add)
        (metis div_mult_mod_eq of_nat_add of_nat_mult of_nat_numeral)
  qed
qed

lemma host_atoi_digits10: "n < 2 ^ 31 \<Longrightarrow> host_atoi (digits10 n) = Some (int n)"
proof -
  assume n: "n < 2 ^ 31"
  obtain c cs where d: "digits10 n = c # cs" "\<not> is_space c" "c \<noteq> 45" "c \<noteq> 43" "is_digit c" "\<forall>x \<in> set cs. is_digit x"
    using digits10_facts [of n] by (cases "digits10 n") auto
  then have digits: "takeWhile is_digit cs = cs" by (simp add: takeWhile_eq_all_conv)
  with d n digits10_facts [of n] show ?thesis by (simp add: host_atoi_def Let_def digits)
qed

text \<open>A file that the tool accepts as an image.\<close>

definition tagged :: "byte list \<Rightarrow> bool" where "tagged img \<longleftrightarrow> part_at 1024 (fs_tag @ replicate 508 0) img"

lemma tagged_accepted:
  assumes "tagged img"
  shows "same_string (map to_lower fs_tag) (map to_lower (DiskInfo (open_disk d img s))) = Some True"
    "DiskInfo (open_disk d img s) = fs_tag @ replicate 508 0"
proof -
  have "take 512 (drop 1024 img) = fs_tag @ replicate 508 0" using assms by (simp add: tagged_def part_at_def fs_tag_def bytes_def)
  then show i: "DiskInfo (open_disk d img s) = fs_tag @ replicate 508 0"
    by (simp add: open_disk_def fread_at_def Let_def fs_tag_def bytes_def)
  have "replicate 508 (0 :: byte) = 0 # replicate 507 0" using replicate_Suc [of 507 "0 :: byte"] by simp
  then show "same_string (map to_lower fs_tag) (map to_lower (DiskInfo (open_disk d img s))) = Some True"
    by (simp add: i fs_tag_def bytes_def to_lower_def word_le_nat_alt)
qed

lemma command_words:
  "same_word (bytes ''list'') ''list''" "same_word (bytes ''create'') ''create''" "same_word (bytes ''read'') ''read''"
  "same_word (bytes ''write'') ''write''" "same_word (bytes ''delete'') ''delete''"
  "\<not> same_word (bytes ''create'') ''list''" "\<not> same_word (bytes ''create'') ''format''"
  "\<not> same_word (bytes ''read'') ''list''" "\<not> same_word (bytes ''read'') ''format''" "\<not> same_word (bytes ''read'') ''create''"
  "\<not> same_word (bytes ''write'') ''list''" "\<not> same_word (bytes ''write'') ''format''" "\<not> same_word (bytes ''write'') ''create''"
  "\<not> same_word (bytes ''write'') ''read''"
  "\<not> same_word (bytes ''delete'') ''list''" "\<not> same_word (bytes ''delete'') ''format''" "\<not> same_word (bytes ''delete'') ''create''"
  "\<not> same_word (bytes ''delete'') ''read''" "\<not> same_word (bytes ''delete'') ''write''"
  "\<not> same_word (bytes ''list'') ''initialize''" "\<not> same_word (bytes ''create'') ''initialize''" "\<not> same_word (bytes ''read'') ''initialize''"
  "\<not> same_word (bytes ''write'') ''initialize''" "\<not> same_word (bytes ''delete'') ''initialize''"
  by (simp_all add: same_word_def bytes_def to_lower_def word_le_nat_alt)

fun small_op :: "bmfs_op \<Rightarrow> bool" where
  "small_op (Create f n) \<longleftrightarrow> 0 < unat n \<and> unat n < 2 ^ 31"
| "small_op x \<longleftrightarrow> True"

lemma main_performs:
  assumes "local_files s d = Some img" "writable s d" "tagged img" "small_op x"
  shows "bmfs_main can_alloc room ([prog, d] @ op_words x) input s =
    map_option (\<lambda>s2. (0, close_disk s2)) (perform x (open_disk d img s))"
proof (cases x)
  case (Create f n)
  with assms(4) have "0 < unat n" "host_atoi (digits10 (unat n)) = Some (uint n)"
    using host_atoi_digits10 [of "unat n"] by simp_all
  moreover from this(1) have "1 \<le> int (unat n)" by linarith
  then have "1 \<le> uint n" by (simp only: of_nat_unat)
  ultimately show ?thesis
    using Create assms(1-3)
    by (simp add: bmfs_main_def Let_def tagged_accepted(1) command_on_def command_words create_command_def)
qed (use assms(1-3) in \<open>simp_all add: bmfs_main_def Let_def tagged_accepted(1) command_on_def command_words\<close>)

section \<open>Histories of invocations\<close>

definition image_file :: "byte list \<Rightarrow> bmfs \<Rightarrow> bool" where
  "image_file d s \<longleftrightarrow> (\<exists>img. local_files s d = Some img \<and> tagged img \<and> writable s d \<and> image_good (open_disk d img s))"

definition image_of :: "byte list \<Rightarrow> bmfs \<Rightarrow> byte list" where "image_of d s = the (local_files s d)"

lemma fread_inside: "pos + n \<le> length img \<Longrightarrow> fread_at pos n img = take n (drop pos img)"
  by (simp add: fread_at_def Let_def)

lemma open_disk_fields [simp]:
  "disk (open_disk d img s) = img" "diskname (open_disk d img s) = d" "writable (open_disk d img s) = writable s"
  "local_files (open_disk d img s) = local_files s"
  by (simp_all add: open_disk_def)

lemma reopened_good:
  assumes "image_good s"
  shows "image_good (open_disk d (disk s) t)"
proof -
  have n: "unat (disksize s) = length (disk s) div 1048576" using assms by (simp add: image_good_def)
  then have size: "disksize (open_disk d (disk s) t) = disksize s"
    by (simp add: open_disk_def flip: n)
  then have "blocks_of (open_disk d (disk s) t) = blocks_of s" by (simp add: blocks_of_def)
  moreover have "fread_at 4096 4096 (disk s) = take 4096 (drop 4096 (disk s))" "fread_at 1024 512 (disk s) = take 512 (drop 1024 (disk s))"
    using image_size(2) [OF assms] by (simp_all add: fread_inside)
  ultimately show ?thesis
    using assms size n by (simp add: image_good_def) (simp add: open_disk_def loaded_def)
qed

fun invocations :: "nat \<Rightarrow> byte list \<Rightarrow> byte list \<Rightarrow> bmfs_op list \<Rightarrow> bmfs \<Rightarrow> bmfs option" where
  "invocations room prog d [] s = Some s"
| "invocations room prog d (x # xs) s =
     (if small_op x \<and> careful x (open_disk d (image_of d s) s)
      then (case bmfs_main True room ([prog, d] @ op_words x) [] s of
              Some (r, s') \<Rightarrow> invocations room prog d xs s' | None \<Rightarrow> None)
      else None)"

lemma invocation_keeps_image:
  assumes "image_file d s" "small_op x" "careful x (open_disk d (image_of d s) s)"
    and "bmfs_main True room ([prog, d] @ op_words x) [] s = Some (r, s')"
  shows "image_file d s'"
proof -
  from assms(1) obtain img where img: "local_files s d = Some img" "tagged img" "writable s d" "image_good (open_disk d img s)"
    by (auto simp: image_file_def)
  from main_performs [OF img(1,3,2) assms(2), of True room prog "[]"] assms(4) obtain s2 where
    s2: "perform x (open_disk d img s) = Some s2" "s' = close_disk s2" by auto
  have good: "image_good s2" using perform_keeps_good [OF img(4) _ s2(1)] assms(3) img(1) by (simp add: image_of_def)
  have same: "same_setting (open_disk d img s) s2" by (rule perform_same_setting [OF s2(1)])
  then have "DiskInfo s2 = fs_tag @ replicate 508 0" using tagged_accepted(2) [OF img(2)] by (simp add: same_setting_def)
  then have "tagged (disk s2)" using good by (simp add: image_good_def tagged_def part_at_def fs_tag_def bytes_def)
  moreover have "diskname s2 = d" "writable s2 d" using same img(3) by (simp_all add: same_setting_def)
  ultimately show ?thesis using reopened_good [OF good] by (simp add: image_file_def s2(2) close_disk_def)
qed

lemma invocations_keep_image:
  "image_file d s \<Longrightarrow> invocations room prog d xs s = Some s' \<Longrightarrow> image_file d s'"
proof (induction xs arbitrary: s)
  case (Cons x xs)
  from Cons.prems(2) obtain r s1 where "small_op x" "careful x (open_disk d (image_of d s) s)"
    "bmfs_main True room ([prog, d] @ op_words x) [] s = Some (r, s1)" "invocations room prog d xs s1 = Some s'"
    by (auto split: if_splits option.splits prod.splits)
  with invocation_keeps_image [OF Cons.prems(1)] Cons.IH show ?case by blast
qed simp

lemma initialized_image_file:
  assumes "part_at 1024 (fs_tag @ replicate 508 0) img" "part_at 4096 (directory_bytes (replicate 64 empty_entry)) img"
    and "6291456 \<le> length img" "length img < 2 ^ 52" "local_files s d = Some img" "writable s d"
  shows "image_file d s"
proof -
  let ?d = "replicate 64 empty_entry"
  have dir: "length ?d = 64" "\<forall>x \<in> set ?d. length (FileName x) = 32" by (simp_all add: empty_entry_def)
  have n: "length img div 1048576 < 2 ^ 32" "6 \<le> length img div 1048576" using assms(3,4) by auto
  then have size: "unat (disksize (open_disk d img s)) = length img div 1048576"
    by (simp add: open_disk_def unsigned_of_nat take_bit_nat_eq_self)
  have l: "loaded img = ?d" using assms(2) directory_roundtrip [OF dir] by (simp add: loaded_def part_at_def)
  have "Directory (open_disk d img s) = ?d" using l assms(3) by (simp add: open_disk_def fread_inside loaded_def)
  moreover have "DiskInfo (open_disk d img s) = take 512 (drop 1024 img)" using assms(3) by (simp add: open_disk_def fread_inside)
  moreover have "directory_ok nb ?d" for nb by (simp add: directory_ok_def demo_files separate_def) (simp add: empty_entry_def)
  ultimately have "image_good (open_disk d img s)" using l size n(2) by (simp add: image_good_def) (simp add: blocks_of_def)
  with assms(1,5,6) show ?thesis by (auto simp: image_file_def tagged_def)
qed


definition demo_host :: bmfs where
  "demo_host = (demo_image one_file)\<lparr>local_files := [bytes ''disk.img'' \<mapsto> disk (demo_image one_file)]\<rparr>"

lemma demo_host_image: "image_file (bytes ''disk.img'') demo_host"
  "image_of (bytes ''disk.img'') demo_host = disk (demo_image one_file)"
proof -
  have "tagged (disk (demo_image one_file))"
    using demo_good(2) by (simp add: image_good_def tagged_def part_at_def) (simp add: demo_image_def fs_tag_def bytes_def)
  moreover have "writable demo_host (bytes ''disk.img'')" by (simp add: demo_host_def demo_image_def)
  ultimately show "image_file (bytes ''disk.img'') demo_host"
    using reopened_good [OF demo_good(2)] by (simp add: image_file_def demo_host_def)
  show "image_of (bytes ''disk.img'') demo_host = disk (demo_image one_file)" by (simp add: image_of_def demo_host_def)
qed



definition demo_builder :: bmfs where
  "demo_builder = demo_host\<lparr>diskname := bytes ''new.img'',
     local_files := [bytes ''mbr'' \<mapsto> replicate 512 1, bytes ''boot'' \<mapsto> [2, 3], bytes ''kernel'' \<mapsto> [4]]\<rparr>"


text \<open>
  The check against overflow does not see every overflow: a size of 30000000000000000000 bytes is taken for
  one of 11553255926290448384.
\<close>

theorem bmfs_size_overflow: "disk_size (bytes ''30000000000000000000'') = Inr 11553255926290448384"
  by (simp add: size_eval bytes_def)

end
