(* ===== verification/Graphics.thy ===== *)
theory Graphics
  imports Prelude "HOL-Library.Signed_Division"
begin

text \<open>
  \<open>Userland/SampleCodeModule\<close>: \<open>paint.c\<close>, the integer algorithms of \<open>graphics.c\<close> and the colours
  of \<open>fractals.c\<close>. A drawing is the list of the pixels painted, in order. Coordinates are C
  \<open>int\<close>s; the drawings stay within a few thousand, far from the limits of 32 bits.
\<close>

section \<open>Pixels\<close>

text \<open>
  \<open>paint_pixel\<close> packs three signed \<open>char\<close>s into the argument of \<open>sys_paint\<close>; the shifts and sums
  are those of a 32-bit \<open>int\<close>.
\<close>

definition paint_pixel :: "byte \<Rightarrow> byte \<Rightarrow> byte \<Rightarrow> u32" where
  "paint_pixel red green blue =
     (let color = 0; color = color + scast red; color = push_bit 8 color; color = color + scast green;
          color = push_bit 8 color
      in color + scast blue)"

text \<open>What \<open>sys_paint\<close> takes for the red, green and blue byte.\<close>

definition unpack_color :: "u32 \<Rightarrow> byte \<times> byte \<times> byte" where
  "unpack_color c = (ucast (drop_bit 16 c), ucast (drop_bit 8 c), ucast c)"

type_synonym pixel = "int \<times> int"

section \<open>Lines\<close>

definition abs_int :: "int \<Rightarrow> int" where "abs_int n = (if n > 0 then n else - n)"

text \<open>The endless loop of \<open>draw_line\<close>, left when the end point is painted.\<close>

partial_function (option) line_loop :: "int \<Rightarrow> int \<Rightarrow> int \<Rightarrow> int \<Rightarrow> int \<Rightarrow> int \<Rightarrow> int \<Rightarrow> int \<Rightarrow> int \<Rightarrow> pixel list option" where
  "line_loop x1 y1 dx sx dy sy x0 y0 err =
     (if x0 = x1 \<and> y0 = y1 then Some [(x0, y0)]
      else (let e2 = err;
                (err, x) = (if e2 > - dx then (err - dy, x0 + sx) else (err, x0));
                (err, y) = (if e2 < dy then (err + dx, y0 + sy) else (err, y0))
            in Option.bind (line_loop x1 y1 dx sx dy sy x y err) (\<lambda>ps. Some ((x0, y0) # ps))))"

declare line_loop.simps [code]

definition draw_line :: "int \<Rightarrow> int \<Rightarrow> int \<Rightarrow> int \<Rightarrow> pixel list option" where
  "draw_line x0 y0 x1 y1 =
     (let dx = abs_int (x1 - x0); sx = (if x0 < x1 then 1 else -1);
          dy = abs_int (y1 - y0); sy = (if y0 < y1 then 1 else -1);
          err = (if dx > dy then dx else - dy) sdiv 2
      in line_loop x1 y1 dx sx dy sy x0 y0 err)"

section \<open>Circles\<close>

definition circle_step :: "int \<Rightarrow> int \<Rightarrow> int \<Rightarrow> int \<times> int \<times> int" where
  "circle_step x y err =
     (let y = y + 1; err = err + 1 + 2 * y
      in if 2 * (err - x) + 1 > 0 then (x - 1, y, err + 1 - 2 * (x - 1)) else (x, y, err))"

definition eight_points :: "int \<Rightarrow> int \<Rightarrow> int \<Rightarrow> int \<Rightarrow> pixel list" where
  "eight_points x0 y0 x y =
     [(x0 + x, y0 + y), (x0 + y, y0 + x), (x0 - y, y0 + x), (x0 - x, y0 + y),
      (x0 - x, y0 - y), (x0 - y, y0 - x), (x0 + y, y0 - x), (x0 + x, y0 - y)]"

lemma circle_step_shrinks:
  "y \<le> x \<Longrightarrow> (case circle_step x y err of (x', y', err') \<Rightarrow> nat (x' - y' + 1)) < nat (x - y + 1)"
  by (auto simp: circle_step_def Let_def split: if_splits)

function circle_loop :: "int \<Rightarrow> int \<Rightarrow> int \<Rightarrow> int \<Rightarrow> int \<Rightarrow> pixel list" where
  "circle_loop x0 y0 x y err =
     (if x \<ge> y then (let (x', y', err') = circle_step x y err in eight_points x0 y0 x y @ circle_loop x0 y0 x' y' err')
      else [])"
  by pat_completeness auto
termination
  by (relation "measure (\<lambda>(x0, y0, x, y, err). nat (x - y + 1))") (use circle_step_shrinks in auto)

declare circle_loop.simps [simp del]

definition draw_circle :: "int \<Rightarrow> int \<Rightarrow> int \<Rightarrow> pixel list" where
  "draw_circle x0 y0 radius = circle_loop x0 y0 radius 0 0"

function filled_loop :: "int \<Rightarrow> int \<Rightarrow> int \<Rightarrow> pixel list" where
  "filled_loop x0 y0 x = (if x \<ge> 0 then draw_circle x0 y0 x @ filled_loop x0 y0 (x - 1) else [])"
  by pat_completeness auto
termination
  by (relation "measure (\<lambda>(x0, y0, x). nat (x + 1))") auto

declare filled_loop.simps [simp del]

definition draw_filledCircle :: "int \<Rightarrow> int \<Rightarrow> int \<Rightarrow> pixel list" where
  "draw_filledCircle x0 y0 radius = filled_loop x0 y0 radius"

text \<open>\<open>draw_filledCircle2\<close> draws five lines where \<open>draw_circle\<close> paints eight points.\<close>

definition append_drawings :: "pixel list option list \<Rightarrow> pixel list option" where
  "append_drawings ds = fold (\<lambda>d acc. Option.bind acc (\<lambda>ps. map_option (\<lambda>qs. ps @ qs) d)) ds (Some [])"

function filled2_loop :: "int \<Rightarrow> int \<Rightarrow> int \<Rightarrow> int \<Rightarrow> int \<Rightarrow> pixel list option" where
  "filled2_loop x0 y0 x y err =
     (if x \<ge> y then
        (let (x', y', err') = circle_step x y err
         in append_drawings
              [draw_line (x0 + x) (y0 + y) (x0 - x) (y0 + y), draw_line (x0 + x) (y0 + y) (x0 - x) (y0 + y),
               draw_line (x0 + y) (y0 + x) (x0 - y) (y0 + x), draw_line (x0 - x) (y0 - y) (x0 + x) (y0 - y),
               draw_line (x0 - y) (y0 - x) (x0 + y) (y0 - x), filled2_loop x0 y0 x' y' err'])
      else Some [])"
  by pat_completeness auto
termination
  by (relation "measure (\<lambda>(x0, y0, x, y, err). nat (x - y + 1))") (use circle_step_shrinks in auto)

declare filled2_loop.simps [simp del]

definition draw_filledCircle2 :: "int \<Rightarrow> int \<Rightarrow> int \<Rightarrow> pixel list option" where
  "draw_filledCircle2 x0 y0 radius = filled2_loop x0 y0 radius 0 0"

section \<open>Ellipses\<close>

definition four_points :: "int \<Rightarrow> int \<Rightarrow> int \<Rightarrow> int \<Rightarrow> pixel list" where
  "four_points xc yc x y = [(xc + x, yc + y), (xc - x, yc + y), (xc + x, yc - y), (xc - x, yc - y)]"

partial_function (option) ellipse_loop1 :: "int \<Rightarrow> int \<Rightarrow> int \<Rightarrow> int \<Rightarrow> int \<Rightarrow> int \<Rightarrow> int \<Rightarrow> pixel list option" where
  "ellipse_loop1 xc yc a2 b2 x y sigma =
     (if b2 * x \<le> a2 * y then
        (let (sigma', y') = (if sigma \<ge> 0 then (sigma + 4 * a2 * (1 - y), y - 1) else (sigma, y));
             sigma' = sigma' + b2 * (4 * x + 6)
         in Option.bind (ellipse_loop1 xc yc a2 b2 (x + 1) y' sigma') (\<lambda>ps. Some (four_points xc yc x y @ ps)))
      else Some [])"

partial_function (option) ellipse_loop2 :: "int \<Rightarrow> int \<Rightarrow> int \<Rightarrow> int \<Rightarrow> int \<Rightarrow> int \<Rightarrow> int \<Rightarrow> pixel list option" where
  "ellipse_loop2 xc yc a2 b2 x y sigma =
     (if a2 * y \<le> b2 * x then
        (let (sigma', x') = (if sigma \<ge> 0 then (sigma + 4 * b2 * (1 - x), x - 1) else (sigma, x));
             sigma' = sigma' + a2 * (4 * y + 6)
         in Option.bind (ellipse_loop2 xc yc a2 b2 x' (y + 1) sigma') (\<lambda>ps. Some (four_points xc yc x y @ ps)))
      else Some [])"

declare ellipse_loop1.simps [code] ellipse_loop2.simps [code]

definition draw_ellipse :: "int \<Rightarrow> int \<Rightarrow> int \<Rightarrow> int \<Rightarrow> pixel list option" where
  "draw_ellipse xc yc width height =
     (let a2 = width * width; b2 = height * height
      in append_drawings
           [ellipse_loop1 xc yc a2 b2 0 height (2 * b2 + a2 * (1 - 2 * height)),
            ellipse_loop2 xc yc a2 b2 width 0 (2 * a2 + b2 * (1 - 2 * width))])"

section \<open>Colours of the fractals\<close>

definition HsvToRgb :: "byte \<Rightarrow> byte \<Rightarrow> byte \<Rightarrow> byte \<times> byte \<times> byte" where
  "HsvToRgb h s v =
     (if s = 0 then (v, v, v)
      else
        (let region = unat h div 43;
             fpart = unat (of_nat ((unat h - region * 43) * 6) :: byte);
             p = of_nat (unat v * (255 - unat s) div 256);
             q = of_nat (unat v * (255 - unat s * fpart div 256) div 256);
             t = of_nat (unat v * (255 - unat s * (255 - fpart) div 256) div 256)
         in if region = 0 then (v, t, p) else if region = 1 then (q, v, p) else if region = 2 then (p, v, t)
            else if region = 3 then (p, q, v) else if region = 4 then (t, p, v) else (v, p, q)))"

section \<open>Facts\<close>

definition in_box :: "int \<Rightarrow> int \<Rightarrow> int \<Rightarrow> int \<Rightarrow> pixel \<Rightarrow> bool" where
  "in_box x0 y0 x1 y1 p \<longleftrightarrow>
     min x0 x1 \<le> fst p \<and> fst p \<le> max x0 x1 \<and> min y0 y1 \<le> snd p \<and> snd p \<le> max y0 y1"

lemma in_box_move:
  assumes "in_box x' y' x1 y1 p" "x1 = x + sx * n" "x' = x + sx * i" "0 \<le> i" "i \<le> n" "y1 = y + sy * m" "y' = y + sy * j"
    "0 \<le> j" "j \<le> m" "sx = 1 \<or> sx = -1" "sy = 1 \<or> sy = -1"
  shows "in_box x y x1 y1 p"
  using assms by (auto simp: in_box_def)

lemma nonneg_of_product: "0 < d \<Longrightarrow> - (d :: int) < m * d \<Longrightarrow> 0 \<le> m"
  using mult_right_mono [of m "-1" d] by (cases "m \<le> -1") auto

lemma nonpos_of_product: "0 < d \<Longrightarrow> m * (d :: int) < d \<Longrightarrow> m \<le> 0"
  using mult_right_mono [of 1 m d] by (cases "1 \<le> m") auto

text \<open>
  The loop of \<open>draw_line\<close> moves along the longer side in every step; \<open>n\<close> steps are left of it
  and \<open>m\<close> of the other side, and the error term tells how far the line lags behind.
\<close>

lemma line_loop_x:
  assumes "dy < dx" "0 \<le> dy" "sx = 1 \<or> sx = -1" "sy = 1 \<or> sy = -1"
  shows "0 \<le> err \<Longrightarrow> err < dx \<Longrightarrow> x1 = x + sx * int n \<Longrightarrow> y1 = y + sy * m \<Longrightarrow>
     0 \<le> err - int n * dy + m * dx \<Longrightarrow> err - int n * dy + m * dx < dx \<Longrightarrow>
     \<exists>ps. line_loop x1 y1 dx sx dy sy x y err = Some ps \<and> hd ps = (x, y) \<and> last ps = (x1, y1) \<and>
       length ps = Suc n \<and> list_all (in_box x y x1 y1) ps"
proof (induction n arbitrary: x y err m)
  case 0
  have d: "0 < dx" using assms(1,2) by simp
  have "0 \<le> err + m * dx" "err + m * dx < dx" using 0(5,6) by simp_all
  then have "m * dx < dx" "- dx < m * dx" using 0(1,2) by linarith+
  then have "m = 0" using nonneg_of_product [OF d, of m] nonpos_of_product [OF d, of m] by simp
  then show ?case using 0 by (subst line_loop.simps) (simp add: in_box_def)
next
  case (Suc n)
  define j where "j = (if err < dy then 1 else 0 :: int)"
  define err' where "err' = err - dy + j * dx"
  have e: "0 \<le> err'" "err' < dx" using Suc.prems(1,2) assms(1,2) by (auto simp: err'_def j_def)
  have i: "err' - int n * dy + (m - j) * dx = err - int (Suc n) * dy + m * dx"
    by (simp add: err'_def algebra_simps)
  have "x1 = (x + sx) + sx * int n" "y1 = (y + sy * j) + sy * (m - j)" using Suc.prems(3,4) by (auto simp: algebra_simps)
  then obtain ps where ps: "line_loop x1 y1 dx sx dy sy (x + sx) (y + sy * j) err' = Some ps" "length ps = Suc n"
      "hd ps = (x + sx, y + sy * j)" "last ps = (x1, y1)" "list_all (in_box (x + sx) (y + sy * j) x1 y1) ps"
    using Suc.IH [OF e, of "x + sx" "y + sy * j" "m - j"] Suc.prems(5,6) i by auto
  have "- dx < (m - j) * dx" using i Suc.prems(5) e assms(2) mult_nonneg_nonneg [of "int n" dy] by linarith
  then have "0 \<le> m - j" using assms(1,2) by (intro nonneg_of_product [of dx]) auto
  then have "list_all (in_box x y x1 y1) ps"
    using Suc.prems(3,4) assms(3,4) by (intro list.pred_mono_strong [OF ps(5)], elim in_box_move [where sx = sx and sy = sy and i = "1" and j = "j" and n = "int (Suc n)" and m = "m"]) (simp_all add: j_def)
  moreover have "in_box x y x1 y1 (x, y)" by (simp add: in_box_def)
  moreover have "x \<noteq> x1" using Suc.prems(3) assms(3) by auto
  moreover have "- dx < err" using Suc.prems(1) assms(1,2) by simp
  ultimately show ?case
    using ps by (subst line_loop.simps) (auto simp: j_def err'_def Let_def)
qed

lemma line_loop_y:
  assumes "dx \<le> dy" "0 \<le> dx" "0 < dy" "sx = 1 \<or> sx = -1" "sy = 1 \<or> sy = -1"
  shows "err \<le> 0 \<Longrightarrow> - dy < err \<Longrightarrow> y1 = y + sy * int n \<Longrightarrow> x1 = x + sx * m \<Longrightarrow>
     err + int n * dx - m * dy \<le> 0 \<Longrightarrow> - dy < err + int n * dx - m * dy \<Longrightarrow>
     \<exists>ps. line_loop x1 y1 dx sx dy sy x y err = Some ps \<and> hd ps = (x, y) \<and> last ps = (x1, y1) \<and>
       length ps = Suc n \<and> list_all (in_box x y x1 y1) ps"
proof (induction n arbitrary: x y err m)
  case 0
  have "err - m * dy \<le> 0" "- dy < err - m * dy" using 0(5,6) by simp_all
  then have "m * dy < dy" "- dy < m * dy" using 0(1,2) by linarith+
  then have "m = 0" using nonneg_of_product [OF assms(3), of m] nonpos_of_product [OF assms(3), of m] by simp
  then show ?case using 0 by (subst line_loop.simps) (simp add: in_box_def)
next
  case (Suc n)
  define j where "j = (if err > - dx then 1 else 0 :: int)"
  define err' where "err' = err - j * dy + dx"
  have e: "err' \<le> 0" "- dy < err'" using Suc.prems(1,2) assms(1,2) by (auto simp: err'_def j_def)
  have i: "err' + int n * dx - (m - j) * dy = err + int (Suc n) * dx - m * dy"
    by (simp add: err'_def algebra_simps)
  have "y1 = (y + sy) + sy * int n" "x1 = (x + sx * j) + sx * (m - j)" using Suc.prems(3,4) by (auto simp: algebra_simps)
  then obtain ps where ps: "line_loop x1 y1 dx sx dy sy (x + sx * j) (y + sy) err' = Some ps" "length ps = Suc n"
      "hd ps = (x + sx * j, y + sy)" "last ps = (x1, y1)" "list_all (in_box (x + sx * j) (y + sy) x1 y1) ps"
    using Suc.IH [OF e, of "y + sy" "x + sx * j" "m - j"] Suc.prems(5,6) i by auto
  have "- dy < (m - j) * dy" using i Suc.prems(5) e assms(2) mult_nonneg_nonneg [of "int n" dx] by linarith
  then have "0 \<le> m - j" by (rule nonneg_of_product [OF assms(3)])
  then have "list_all (in_box x y x1 y1) ps"
    using Suc.prems(3,4) assms(4,5) by (intro list.pred_mono_strong [OF ps(5)], elim in_box_move [where sx = sx and sy = sy and i = "j" and j = "1" and n = "m" and m = "int (Suc n)"]) (simp_all add: j_def)
  moreover have "in_box x y x1 y1 (x, y)" by (simp add: in_box_def)
  moreover have "y \<noteq> y1" using Suc.prems(3) assms(5) by auto
  moreover have "err < dy" using Suc.prems(1) assms(3) by simp
  ultimately show ?case
    using ps by (subst line_loop.simps) (auto simp: j_def err'_def Let_def)
qed

lemma draw_line_path:
  "\<exists>ps. draw_line x0 y0 x1 y1 = Some ps \<and> hd ps = (x0, y0) \<and> last ps = (x1, y1) \<and>
     length ps = Suc (nat (max \<bar>x1 - x0\<bar> \<bar>y1 - y0\<bar>)) \<and> list_all (in_box x0 y0 x1 y1) ps"
proof -
  define dx where "dx = abs_int (x1 - x0)"
  define dy where "dy = abs_int (y1 - y0)"
  define sx where "sx = (if x0 < x1 then 1 else -1 :: int)"
  define sy where "sy = (if y0 < y1 then 1 else -1 :: int)"
  define err where "err = (if dx > dy then dx else - dy) sdiv 2"
  have d: "0 \<le> dx" "0 \<le> dy" "dx = \<bar>x1 - x0\<bar>" "dy = \<bar>y1 - y0\<bar>" by (auto simp: dx_def dy_def abs_int_def)
  have xy: "x1 = x0 + sx * dx" "y1 = y0 + sy * dy" by (auto simp: sx_def sy_def dx_def dy_def abs_int_def)
  have l: "draw_line x0 y0 x1 y1 = line_loop x1 y1 dx sx dy sy x0 y0 err"
    by (simp add: draw_line_def Let_def dx_def dy_def sx_def sy_def err_def)
  have s: "sx = 1 \<or> sx = -1" "sy = 1 \<or> sy = -1" by (auto simp: sx_def sy_def)
  consider "dy < dx" | "dx \<le> dy" "0 < dy" | "dx = 0" "dy = 0" using d(1,2) by linarith
  then show ?thesis
  proof cases
    case 1
    have e: "0 \<le> err" "err < dx" using 1 d(2) by (auto simp: err_def signed_divide_int_def sgn_if)
    have n: "int (nat dx) = dx" using d(1) by simp
    have m: "max \<bar>x1 - x0\<bar> \<bar>y1 - y0\<bar> = dx" using 1 d(3,4) by (metis max.absorb1 less_imp_le)
    have f: "0 \<le> err - int (nat dx) * dy + dy * dx" "err - int (nat dx) * dy + dy * dx < dx"
      unfolding n using e by (simp_all add: mult.commute)
    show ?thesis
      unfolding l m by (rule line_loop_x [OF 1 d(2) s e _ xy(2) f]) (use xy(1) n in simp)
  next
    case 2
    have e: "err \<le> 0" "- dy < err" using 2 by (auto simp: err_def signed_divide_int_def sgn_if)
    have n: "int (nat dy) = dy" using d(2) by simp
    have m: "max \<bar>x1 - x0\<bar> \<bar>y1 - y0\<bar> = dy" using 2(1) d(3,4) by (metis max.absorb2)
    have f: "err + int (nat dy) * dx - dx * dy \<le> 0" "- dy < err + int (nat dy) * dx - dx * dy"
      unfolding n using e by (simp_all add: mult.commute)
    show ?thesis
      unfolding l m by (rule line_loop_y [OF 2(1) d(1) 2(2) s e _ xy(1) f]) (use xy(2) n in simp)
  next
    case 3
    then have "x1 = x0" "y1 = y0" using xy by simp_all
    then show ?thesis unfolding l by (subst line_loop.simps) (simp add: in_box_def)
  qed
qed


lemma paint_pixel_int: "paint_pixel r g b = word_of_int (65536 * sint r + 256 * sint g + sint b)"
  by (simp add: paint_pixel_def Let_def push_bit_eq_mult algebra_simps)

lemma byte_at:
  assumes "n + 8 \<le> 32"
  shows "(ucast (drop_bit n (word_of_int x :: u32)) :: byte) = word_of_int (x div 2 ^ n)"
proof (rule bit_word_eqI)
  fix k assume "k < LENGTH(8)"
  then show "bit (ucast (drop_bit n (word_of_int x :: u32)) :: byte) k = bit (word_of_int (x div 2 ^ n) :: byte) k"
    using assms by (simp add: bit_simps flip: drop_bit_eq_div)
qed

lemma sint_byte: "- 128 \<le> sint (w :: byte)" "sint (w :: byte) < 128"
  using sint_range_size [of w] by (simp_all add: word_size)

lemma borrows: "- n \<le> (k :: int) \<Longrightarrow> k < n \<Longrightarrow> k div n = (if k < 0 then -1 else 0)"
  using int_div_pos_eq [of k n "-1" "k + n"] by (auto simp: zdiv_eq_0_iff)

text \<open>
  The packing of a colour borrows: \<open>char\<close> is signed, so a green or blue byte of 128 and more
  takes one from the byte above it. A colour whose green and blue stay below 128 arrives intact.
\<close>

theorem packed_color:
  "unpack_color (paint_pixel r g b) =
     (if sint g < 0 \<or> g = 0 \<and> sint b < 0 then r - 1 else r, if sint b < 0 then g - 1 else g, b)"
proof -
  let ?x = "65536 * sint r + 256 * sint g + sint b"
  note s = sint_byte [of g] sint_byte [of b]
  have "?x div 256 = 256 * sint r + sint g + sint b div 256" by simp
  also have "sint b div 256 = (if sint b < 0 then -1 else 0)" using s by (intro borrows) auto
  finally have g: "?x div 256 = 256 * sint r + sint g + (if sint b < 0 then -1 else 0)" .
  have "?x div 65536 = sint r + (256 * sint g + sint b) div 65536" by (simp add: add.assoc)
  also have "(256 * sint g + sint b) div 65536 = (if 256 * sint g + sint b < 0 then -1 else 0)"
    using s by (intro borrows) auto
  also have "256 * sint g + sint b < 0 \<longleftrightarrow> sint g < 0 \<or> sint g = 0 \<and> sint b < 0" using s by auto
  also have "sint g = 0 \<longleftrightarrow> g = 0" by (rule signed_eq_0_iff)
  finally have r: "?x div 65536 = sint r + (if sint g < 0 \<or> g = 0 \<and> sint b < 0 then -1 else 0)" .
  have z: "(256 :: byte) = 0" "(65536 :: byte) = 0" by (simp_all add: word_eq_iff_unsigned)
  show ?thesis
    using byte_at [of 16 ?x] byte_at [of 8 ?x] byte_at [of 0 ?x] by (simp add: unpack_color_def paint_pixel_int g r z)
qed

end
