(* ===== verification/UserSyscalls.thy ===== *)
theory UserSyscalls
  imports SystemCalls Graphics
begin

text \<open>
  \<open>Userland/SampleCodeModule/syscalls.c\<close>: the functions a program calls to enter the kernel, joined
  to the kernel's dispatcher. A \<open>uint64_t\<close>, an \<open>unsigned int\<close> and a pointer are natural numbers, an
  \<open>int\<close> is an integer: it is sign-extended on its way into a register, and a result is cut to 32 bits.
\<close>

section \<open>The trap\<close>

text \<open>What the kernel is given from outside: a bound for the turns of \<open>sys_read\<close>, and the clock.\<close>

type_synonym kernel = "nat \<times> (nat \<Rightarrow> nat)"

text \<open>
  \<open>_int80h\<close> moves its third argument to \<open>rcx\<close> and its fourth to \<open>rdx\<close>; \<open>_syscallHandler\<close> hands
  \<open>rax\<close>, \<open>rbx\<close>, \<open>rdx\<close>, \<open>rcx\<close> to the dispatcher, which calls with \<open>rbx\<close>, \<open>rcx\<close>, \<open>rdx\<close>.
\<close>

definition int80h :: "kernel \<Rightarrow> nat \<Rightarrow> nat \<Rightarrow> nat \<Rightarrow> nat \<Rightarrow> nat kop" where
  "int80h k rax rbx rcx rdx = syscallDispatcher (fst k) (snd k) rax rbx rdx rcx"

definition as_int :: "nat kop \<Rightarrow> int kop" where
  "as_int m = kbind m (\<lambda>n. kreturn (to_int n))"

section \<open>The calls\<close>

definition read_u :: "kernel \<Rightarrow> nat \<Rightarrow> addr \<Rightarrow> nat \<Rightarrow> int kop" where
  "read_u k fd buf n = as_int (int80h k 3 fd buf n)"

definition write_u :: "kernel \<Rightarrow> nat \<Rightarrow> addr \<Rightarrow> nat \<Rightarrow> int kop" where
  "write_u k fd buf n = as_int (int80h k 4 fd buf n)"

definition time_u :: "kernel \<Rightarrow> int \<Rightarrow> int kop" where
  "time_u k sel = as_int (int80h k 5 (ret64 sel) 0 0)"

definition paint_u :: "kernel \<Rightarrow> int \<Rightarrow> int \<Rightarrow> int \<Rightarrow> int kop" where
  "paint_u k colour x y = as_int (int80h k 6 (ret64 colour) (ret64 x) (ret64 y))"

definition wait_u :: "kernel \<Rightarrow> nat \<Rightarrow> int kop" where
  "wait_u k milliseconds = as_int (int80h k 7 milliseconds 0 0)"

definition screen_Xresolution_u :: "kernel \<Rightarrow> int kop" where
  "screen_Xresolution_u k = as_int (int80h k 8 0 0 0)"

definition screen_Yresolution_u :: "kernel \<Rightarrow> int kop" where
  "screen_Yresolution_u k = as_int (int80h k 8 1 0 0)"

definition text_rows_u :: "kernel \<Rightarrow> int kop" where
  "text_rows_u k = as_int (int80h k 9 0 0 0)"

definition text_cols_u :: "kernel \<Rightarrow> int kop" where
  "text_cols_u k = as_int (int80h k 9 1 0 0)"

definition reserve_u :: "kernel \<Rightarrow> nat \<Rightarrow> nat kop" where
  "reserve_u k n = int80h k 10 n 0 0"

definition free_reserve_u :: "kernel \<Rightarrow> addr \<Rightarrow> int kop" where
  "free_reserve_u k address = as_int (int80h k 11 address 0 0)"

definition data_address_u :: "kernel \<Rightarrow> nat kop" where
  "data_address_u k = int80h k 12 0 0 0"

definition set_char_color_u :: "kernel \<Rightarrow> nat \<Rightarrow> nat \<Rightarrow> nat \<Rightarrow> int kop" where
  "set_char_color_u k r g b = as_int (int80h k 13 r g b)"

definition set_bg_color_u :: "kernel \<Rightarrow> nat \<Rightarrow> nat \<Rightarrow> nat \<Rightarrow> int kop" where
  "set_bg_color_u k r g b = as_int (int80h k 14 r g b)"

definition exec_u :: "kernel \<Rightarrow> addr \<Rightarrow> nat \<Rightarrow> addr \<Rightarrow> int kop" where
  "exec_u k ptr params nm = as_int (int80h k 15 ptr params nm)"

definition end_u :: "kernel \<Rightarrow> unit kop" where
  "end_u k = kignore (int80h k 16 0 0 0)"

definition yield_u :: "kernel \<Rightarrow> unit kop" where
  "yield_u k = kignore (int80h k 17 0 0 0)"

definition mutex_open_u :: "kernel \<Rightarrow> addr \<Rightarrow> int kop" where
  "mutex_open_u k nm = as_int (int80h k 18 nm 0 0)"

definition mutex_close_u :: "kernel \<Rightarrow> int \<Rightarrow> int kop" where
  "mutex_close_u k key = as_int (int80h k 19 (ret64 key) 0 0)"

definition mutex_lock_u :: "kernel \<Rightarrow> int \<Rightarrow> int kop" where
  "mutex_lock_u k key = as_int (int80h k 20 (ret64 key) 0 0)"

definition mutex_unlock_u :: "kernel \<Rightarrow> int \<Rightarrow> int kop" where
  "mutex_unlock_u k key = as_int (int80h k 21 (ret64 key) 0 0)"

definition set_foreground_u :: "kernel \<Rightarrow> nat \<Rightarrow> int kop" where
  "set_foreground_u k i = as_int (int80h k 22 i 0 0)"

definition fifo_open_u :: "kernel \<Rightarrow> addr \<Rightarrow> int kop" where
  "fifo_open_u k nm = as_int (int80h k 23 nm 0 0)"

definition fifo_close_u :: "kernel \<Rightarrow> int \<Rightarrow> int kop" where
  "fifo_close_u k key = as_int (int80h k 24 (ret64 key) 0 0)"

definition kill_u :: "kernel \<Rightarrow> nat \<Rightarrow> int kop" where
  "kill_u k i = as_int (int80h k 25 i 0 0)"

definition pid_u :: "kernel \<Rightarrow> int kop" where
  "pid_u k = as_int (int80h k 26 0 0 0)"

definition ppid_u :: "kernel \<Rightarrow> int kop" where
  "ppid_u k = as_int (int80h k 27 0 0 0)"

definition get_process_info_u :: "kernel \<Rightarrow> nat \<Rightarrow> addr \<Rightarrow> int kop" where
  "get_process_info_u k i pi = as_int (int80h k 28 i pi 0)"

definition cond_open_u :: "kernel \<Rightarrow> addr \<Rightarrow> int kop" where
  "cond_open_u k nm = as_int (int80h k 29 nm 0 0)"

definition cond_wait_u :: "kernel \<Rightarrow> int \<Rightarrow> int \<Rightarrow> int kop" where
  "cond_wait_u k cond_key lock_key = as_int (int80h k 30 (ret64 cond_key) (ret64 lock_key) 0)"

definition cond_signal_u :: "kernel \<Rightarrow> int \<Rightarrow> int kop" where
  "cond_signal_u k key = as_int (int80h k 31 (ret64 key) 0 0)"

definition cond_broadcast_u :: "kernel \<Rightarrow> int \<Rightarrow> int kop" where
  "cond_broadcast_u k key = as_int (int80h k 32 (ret64 key) 0 0)"

definition cond_close_u :: "kernel \<Rightarrow> int \<Rightarrow> int kop" where
  "cond_close_u k key = as_int (int80h k 33 (ret64 key) 0 0)"

definition get_current_pids_u :: "kernel \<Rightarrow> addr \<Rightarrow> int kop" where
  "get_current_pids_u k pid_array = as_int (int80h k 34 pid_array 0 0)"

definition get_conds_info_u :: "kernel \<Rightarrow> addr \<Rightarrow> int kop" where
  "get_conds_info_u k info_array = as_int (int80h k 35 info_array 0 0)"

definition get_mutexes_info_u :: "kernel \<Rightarrow> addr \<Rightarrow> int kop" where
  "get_mutexes_info_u k info_array = as_int (int80h k 36 info_array 0 0)"

definition get_fifos_info_u :: "kernel \<Rightarrow> addr \<Rightarrow> int kop" where
  "get_fifos_info_u k info_array = as_int (int80h k 37 info_array 0 0)"

text \<open>The two functions of \<open>stdlib.c\<close> over them.\<close>

definition malloc :: "kernel \<Rightarrow> int \<Rightarrow> addr kop" where
  "malloc k n = reserve_u k (nat (n mod 2 ^ 32))"

definition free :: "kernel \<Rightarrow> addr \<Rightarrow> unit kop" where
  "free k ptr = kignore (free_reserve_u k ptr)"

section \<open>Registers\<close>

definition c_int :: "int \<Rightarrow> bool" where "c_int i \<longleftrightarrow> - (2 ^ 31) \<le> i \<and> i < 2 ^ 31"

definition int_result :: "int kop \<Rightarrow> int kop" where
  "int_result m = kbind m (\<lambda>i. kreturn (swrap32 i))"

lemma swrap32_int: "c_int i \<Longrightarrow> swrap32 i = i"
  unfolding swrap32_def c_int_def by (rule signed_take_bit_int_eq_self) auto

lemma to_int_ret64: "to_int (ret64 i) = swrap32 i"
proof -
  have "int (ret64 i) = take_bit 64 i" by (simp add: ret64_def take_bit_eq_mod)
  then show ?thesis
    by (auto simp: to_int_def swrap32_def bit_simps intro!: bit_eqI)
qed

lemma to_int_small: "c_int i \<Longrightarrow> to_int (ret64 i) = i"
  by (simp add: to_int_ret64 swrap32_int)

lemma as_int_kret: "as_int (kret m) = int_result m"
  by (simp add: fun_eq_iff as_int_def kret_def int_result_def bind_run_assoc to_int_ret64 kreturn_def)

lemma signed_low: "signed_take_bit 31 (take_bit 32 i) = signed_take_bit 31 (i :: int)"
  by (simp add: signed_take_bit_take_bit)

lemma fds_wrap:
  assumes "32 \<le> w"
  shows "fds_to_fifo (nat ((i + FILE_DESCRIPTORS) mod 2 ^ w)) = swrap32 i"
proof -
  have "take_bit 32 (take_bit w (i + 3) - 3) = take_bit 32 (take_bit 32 (take_bit w (i + 3)) - take_bit 32 3)"
    by (rule take_bit_diff [symmetric])
  also have "\<dots> = take_bit 32 (take_bit 32 (i + 3) - take_bit 32 3)" using assms by (simp add: min_def)
  also have "\<dots> = take_bit 32 i" unfolding take_bit_diff by simp
  finally have "take_bit 32 (take_bit w (i + 3) - 3) = take_bit 32 i" .
  then have "signed_take_bit 31 (take_bit w (i + 3) - 3) = signed_take_bit 31 i" using signed_low by metis
  then show ?thesis by (simp add: fds_to_fifo_def FILE_DESCRIPTORS_def swrap32_def flip: take_bit_eq_mod)
qed

lemma descriptor_roundtrip: "c_int i \<Longrightarrow> fds_to_fifo (fifo_to_fds i) = i"
  using fds_wrap [of 32 i] by (simp add: fifo_to_fds_def swrap32_int)

section \<open>Each call reaches its operation\<close>

lemmas trap_simps = int80h_def syscallDispatcher_def SYS_SIZE_def syscalls_def

text \<open>The C conversion of an unsigned register to the bytes of a colour.\<close>

lemma register_byte:
  "(of_nat (ret64 (sint (c :: u32)) div 2 ^ n mod 256) :: byte) = ucast (drop_bit n c)" if "n + 8 \<le> 32"
proof -
  have "int (ret64 (sint c) div 2 ^ n mod 256) = take_bit 8 (drop_bit n (take_bit 64 (sint c)))"
    by (simp add: ret64_def of_nat_div of_nat_mod take_bit_eq_mod drop_bit_eq_div)
  then have "(of_nat (ret64 (sint c) div 2 ^ n mod 256) :: byte) = word_of_int (take_bit 8 (drop_bit n (take_bit 64 (sint c))))"
    by (metis of_int_of_nat_eq)
  also have "\<dots> = ucast (drop_bit n c)"
    using that by (intro bit_word_eqI) (auto simp: bit_simps bit_sint_iff)
  finally show ?thesis .
qed

lemma paint_reaches_fill:
  "paint_u k (sint c) x y = kbind (kgets (\<lambda>s. case unpack_color c of (r, g, b) \<Rightarrow>
     fill r g b (swrap32 x) (swrap32 y) (screen s))) (\<lambda>(v, n). kthen (kmodify (screen_update (\<lambda>_. v))) (kreturn (swrap32 n)))"
  using register_byte [of 16 c] register_byte [of 8 c] register_byte [of 0 c]
  by (simp add: trap_simps paint_u_def sys_paint_def screen_result_def unpack_color_def fun_eq_iff as_int_def
      to_int_ret64 split: prod.splits)



end
