(* ===== verification/ContextSwitch.thy ===== *)
theory ContextSwitch
  imports Boot UserSyscalls
begin

text \<open>
  The assembly that surrounds the C code: \<open>Kernel/asm/interrupts.asm\<close> and \<open>SampleCodeModule/int80h.asm\<close>.
  The processor is a record of its registers; instructions act on it and on memory. What C functions
  keep on the stack between entry and return is not part of memory here, as in the rest of the
  kernel. Kernel and user programs run in the same code segment, at the same privilege.
\<close>

section \<open>The processor\<close>

datatype reg = RAX | RBX | RCX | RDX | RBP | RDI | RSI | R8 | R9 | R10 | R11 | R12 | R13 | R14 | R15 | FS | GS

record cpu =
  gpr :: "reg \<Rightarrow> u64"
  sp :: addr
  ip :: u64
  cs :: u64
  ss :: u64
  eflags :: u64

type_synonym machine = "cpu \<times> memory"

text \<open>A segment register has 16 bits.\<close>

definition fitted :: "reg \<Rightarrow> u64 \<Rightarrow> u64" where
  "fitted r v = (if r = FS \<or> r = GS then take_bit 16 v else v)"

definition push :: "reg \<Rightarrow> machine \<Rightarrow> machine" where
  "push r = (\<lambda>(c, m). (c\<lparr>sp := sp c - 8\<rparr>, store64 m (sp c - 8) (gpr c r)))"

definition pop :: "reg \<Rightarrow> machine \<Rightarrow> machine" where
  "pop r = (\<lambda>(c, m). (c\<lparr>gpr := (gpr c)(r := fitted r (load64 m (sp c))), sp := sp c + 8\<rparr>, m))"

definition mov :: "reg \<Rightarrow> u64 \<Rightarrow> cpu \<Rightarrow> cpu" where
  "mov r v c = c\<lparr>gpr := (gpr c)(r := v)\<rparr>"

text \<open>
  An interrupt through a gate with selector 8 aligns the stack to 16 bytes, pushes \<open>ss\<close>, \<open>rsp\<close>, \<open>rflags\<close>, \<open>cs\<close>
  and \<open>rip\<close>, and clears the interrupt, trap, nested task and resume flags. \<open>iretq\<close> takes the five back.
\<close>

definition enter_gate :: "u64 \<Rightarrow> machine \<Rightarrow> machine" where
  "enter_gate handler = (\<lambda>(c, m).
     (let a = sp c - sp c mod 16 - 40
      in (c\<lparr>sp := a, ip := handler, cs := 8, eflags := and (eflags c) (not 0x14300)\<rparr>,
          store_words m a [ip c, cs c, eflags c, of_nat (sp c), ss c])))"

definition iretq :: "machine \<Rightarrow> machine" where
  "iretq = (\<lambda>(c, m). (c\<lparr>ip := load64 m (sp c), cs := load64 m (sp c + 8), eflags := load64 m (sp c + 16),
     sp := unat (load64 m (sp c + 24)), ss := load64 m (sp c + 32)\<rparr>, m))"

section \<open>The handlers\<close>

definition state_notRax :: "reg list" where
  "state_notRax = [RBX, RCX, RDX, RBP, RDI, RSI, R8, R9, R10, R11, R12, R13, R14, R15, FS, GS]"

definition pushState_notRax :: "machine \<Rightarrow> machine" where "pushState_notRax = fold push state_notRax"
definition popState_notRax :: "machine \<Rightarrow> machine" where "popState_notRax = fold pop (rev state_notRax)"

definition pushState :: "machine \<Rightarrow> machine" where "pushState = fold push (RAX # state_notRax)"
definition popState :: "machine \<Rightarrow> machine" where "popState = fold pop (rev (RAX # state_notRax))"

text \<open>Instructions between calls of C functions, on the memory of the kernel's state.\<close>

definition machine_code :: "(machine \<Rightarrow> machine) \<Rightarrow> cpu \<Rightarrow> cpu kop" where
  "machine_code f c = kbind (kgets (\<lambda>s. f (c, umem s))) (\<lambda>(c', m). kthen (kmodify (umem_update (\<lambda>_. m))) (kreturn c'))"

text \<open>The end of the three handlers that switch: \<open>mov rsp, rax\<close>, \<open>popState\<close>, \<open>iretq\<close>.\<close>

definition resume :: "addr \<Rightarrow> cpu \<Rightarrow> cpu kop" where
  "resume rax c = machine_code (\<lambda>x. iretq (popState x)) (c\<lparr>sp := rax\<rparr>)"

definition change_process_code :: "addr \<Rightarrow> cpu \<Rightarrow> cpu kop" where
  "change_process_code rdi c = resume rdi c"

definition yield_interrupt :: "cpu \<Rightarrow> cpu kop" where
  "yield_interrupt c = kbind (machine_code pushState c) (\<lambda>c. kbind (next_process (sp c)) (\<lambda>rax. resume rax c))"

definition irq00_code :: "cpu \<Rightarrow> cpu kop" where
  "irq00_code c = kbind (machine_code pushState c) (\<lambda>c. kbind (irq00Handler (sp c)) (\<lambda>rax. resume rax c))"

text \<open>
  \<open>irqHandlerMaster\<close> with its parameter; \<open>k\<close> is the code the keyboard delivers. The end of interrupt sent to
  the interrupt controller goes through \<open>al\<close>, which \<open>popState\<close> overwrites, here and in \<open>_irq00Handler\<close>.
\<close>

definition irqHandlerMaster :: "nat \<Rightarrow> int \<Rightarrow> cpu \<Rightarrow> cpu kop" where
  "irqHandlerMaster irq k c =
     kbind (machine_code pushState c) (\<lambda>c. kthen (irqDispatcher irq k)
       (machine_code (\<lambda>x. iretq (popState x)) (mov RDI (of_nat irq) c)))"

definition syscallHandler :: "kernel \<Rightarrow> cpu \<Rightarrow> cpu kop" where
  "syscallHandler k c =
     kbind (machine_code pushState_notRax c) (\<lambda>c.
     kbind (syscallDispatcher (fst k) (snd k) (unat (gpr c RAX)) (unat (gpr c RBX)) (unat (gpr c RDX)) (unat (gpr c RCX))) (\<lambda>v.
       machine_code (\<lambda>x. iretq (popState_notRax x)) (mov RAX (of_nat v) c)))"

text \<open>\<open>_int80h\<close>, entered by a call: its return address is on the stack. \<open>trap\<close> is the address behind \<open>int 80h\<close>.\<close>

definition int80h_enter :: "u64 \<Rightarrow> u64 \<Rightarrow> machine \<Rightarrow> machine" where
  "int80h_enter handler trap x0 =
     (let (c, m) = push RBP x0;
          (c, m) = push R15 (push R13 (push R12 (push RBX (mov RBP (of_nat (sp c)) c, m))));
          c = mov RBX (gpr c RSI) (mov RAX (gpr c RDI) c);
          (c, m) = push RCX (c, m);
          (c, m) = pop RDX (mov RCX (gpr c RDX) c, m)
      in enter_gate handler (c\<lparr>ip := trap\<rparr>, m))"

definition int80h_leave :: "machine \<Rightarrow> machine" where
  "int80h_leave x0 =
     (let (c, m) = pop RBX (pop R12 (pop R13 (pop R15 x0)));
          (c, m) = pop RBP (c\<lparr>sp := unat (gpr c RBP)\<rparr>, m)
      in (c\<lparr>ip := load64 m (sp c), sp := sp c + 8\<rparr>, m))"

definition int80h_code :: "kernel \<Rightarrow> u64 \<Rightarrow> u64 \<Rightarrow> cpu \<Rightarrow> cpu kop" where
  "int80h_code k handler trap c =
     kbind (machine_code (int80h_enter handler trap) c) (\<lambda>c.
     kbind (syscallHandler k c) (machine_code int80h_leave))"

section \<open>Words on the stack\<close>

definition words_at :: "memory \<Rightarrow> addr \<Rightarrow> u64 list \<Rightarrow> bool" where
  "words_at m a ws \<longleftrightarrow> (\<forall>i < length ws. load64 m (a + 8 * i) = ws ! i)"

lemma words_at_Nil [simp]: "words_at m a []" by (simp add: words_at_def)

lemma words_at_Cons [simp]: "words_at m a (w # ws) \<longleftrightarrow> load64 m a = w \<and> words_at m (a + 8) ws"
  by (auto simp: words_at_def nth_Cons algebra_simps split: nat.splits)

lemma words_at_append [simp]: "words_at m a (ws @ vs) \<longleftrightarrow> words_at m a ws \<and> words_at m (a + 8 * length ws) vs"
  by (induction ws arbitrary: a) (auto simp: algebra_simps)

lemma words_at_cong:
  assumes "words_at m a ws" "\<And>b. a \<le> b \<Longrightarrow> b < a + 8 * length ws \<Longrightarrow> m' b = m b"
  shows "words_at m' a ws"
  unfolding words_at_def
proof (intro allI impI)
  fix i assume i: "i < length ws"
  have "load64 m' (a + 8 * i) = load64 m (a + 8 * i)" using i by (intro load64_cong assms(2)) auto
  then show "load64 m' (a + 8 * i) = ws ! i" using assms(1) i by (simp add: words_at_def)
qed

lemma words_at_stored: "words_at (store_words m a ws) a ws"
  by (simp add: words_at_def load_store_words)

lemma push_all:
  "8 * length rs \<le> sp c \<Longrightarrow>
   fst (fold push rs (c, m)) = c\<lparr>sp := sp c - 8 * length rs\<rparr> \<and>
   words_at (snd (fold push rs (c, m))) (sp c - 8 * length rs) (map (gpr c) (rev rs)) \<and>
   (\<forall>b. b < sp c - 8 * length rs \<or> sp c \<le> b \<longrightarrow> snd (fold push rs (c, m)) b = m b)"
proof (induction rs arbitrary: c m)
  case (Cons r rs)
  let ?c = "c\<lparr>sp := sp c - 8\<rparr>" and ?m = "store64 m (sp c - 8) (gpr c r)"
  let ?a = "sp c - 8 - 8 * length rs"
  have p: "push r (c, m) = (?c, ?m)" by (simp add: push_def)
  have IH: "fst (fold push rs (?c, ?m)) = ?c\<lparr>sp := ?a\<rparr>" "words_at (snd (fold push rs (?c, ?m))) ?a (map (gpr c) (rev rs))"
      "\<And>b. b < ?a \<or> sp c - 8 \<le> b \<Longrightarrow> snd (fold push rs (?c, ?m)) b = ?m b"
    using Cons.IH [of ?c ?m] Cons.prems by auto
  have top: "?a + 8 * length rs = sp c - 8" using Cons.prems by simp
  have "load64 (snd (fold push rs (?c, ?m))) (sp c - 8) = load64 ?m (sp c - 8)"
    using IH(3) by (intro load64_cong) simp
  then have "load64 (snd (fold push rs (?c, ?m))) (sp c - 8) = gpr c r" by simp
  moreover have "snd (fold push rs (?c, ?m)) b = m b" if "b < ?a \<or> sp c \<le> b" for b
  proof -
    have "b < ?a \<or> sp c - 8 \<le> b" using that by linarith
    moreover have "?m b = m b" using that Cons.prems by (auto simp: store64_def)
    ultimately show ?thesis using IH(3) [of b] by simp
  qed
  moreover have "?a = sp c - 8 * length (r # rs)" by simp
  ultimately show ?case
    using IH top unfolding fold_Cons comp_apply p by (simp add: algebra_simps)
qed simp

lemma pop_all:
  "words_at m (sp c) (map v rs) \<Longrightarrow>
   fold pop rs (c, m) = (c\<lparr>gpr := (\<lambda>r. if r \<in> set rs then fitted r (v r) else gpr c r), sp := sp c + 8 * length rs\<rparr>, m)"
proof (induction rs arbitrary: c)
  case (Cons r rs)
  let ?c = "c\<lparr>gpr := (gpr c)(r := fitted r (v r)), sp := sp c + 8\<rparr>"
  have "pop r (c, m) = (?c, m)" using Cons.prems by (simp add: pop_def)
  moreover have "words_at m (sp ?c) (map v rs)" using Cons.prems by simp
  from Cons.IH [OF this] have "fold pop rs (?c, m) =
      (c\<lparr>gpr := (\<lambda>x. if x \<in> set rs then fitted x (v x) else ((gpr c)(r := fitted r (v r))) x), sp := sp c + 8 + 8 * length rs\<rparr>, m)"
    by (simp cong: if_cong)
  moreover have "(\<lambda>x. if x \<in> set rs then fitted x (v x) else ((gpr c)(r := fitted r (v r))) x) =
      (\<lambda>x. if x \<in> set (r # rs) then fitted x (v x) else gpr c x)" by auto
  ultimately show ?case by simp
qed simp

section \<open>What an interrupt saves and restores\<close>

definition cpu_ok :: "cpu \<Rightarrow> bool" where
  "cpu_ok c \<longleftrightarrow> (\<forall>r. fitted r (gpr c r) = gpr c r) \<and> 256 \<le> sp c \<and> sp c < 2 ^ 64"

definition processor_words :: "cpu \<Rightarrow> u64 list" where
  "processor_words c = [ip c, cs c, eflags c, of_nat (sp c), ss c]"

text \<open>The address of the frame: the registers \<open>rs\<close> below what the processor pushes.\<close>

definition frame_at :: "reg list \<Rightarrow> cpu \<Rightarrow> addr" where
  "frame_at rs c = sp c - sp c mod 16 - 40 - 8 * length rs"

lemma interrupt_frame:
  assumes "cpu_ok c" "length rs \<le> 17"
  shows "gpr (fst (fold push rs (enter_gate h (c, m)))) = gpr c \<and>
    sp (fst (fold push rs (enter_gate h (c, m)))) = frame_at rs c \<and>
    words_at (snd (fold push rs (enter_gate h (c, m)))) (frame_at rs c) (map (gpr c) (rev rs) @ processor_words c) \<and>
    (\<forall>b. b < frame_at rs c \<or> sp c \<le> b \<longrightarrow> snd (fold push rs (enter_gate h (c, m))) b = m b)"
proof -
  define a where "a = sp c - sp c mod 16 - 40"
  let ?c = "c\<lparr>sp := a, ip := h, cs := 8, eflags := and (eflags c) (not 0x14300)\<rparr>"
  let ?m = "store_words m a (processor_words c)"
  have e: "enter_gate h (c, m) = (?c, ?m)" by (simp add: enter_gate_def processor_words_def Let_def a_def)
  have "sp c mod 16 < 16" "256 \<le> sp c" using assms(1) by (simp_all add: cpu_ok_def)
  then have room: "8 * length rs \<le> a" "a + 40 \<le> sp c" using assms(2) unfolding a_def by linarith+
  have l: "length (processor_words c) = 5" by (simp add: processor_words_def)
  have p: "fst (fold push rs (?c, ?m)) = ?c\<lparr>sp := a - 8 * length rs\<rparr>"
      "words_at (snd (fold push rs (?c, ?m))) (a - 8 * length rs) (map (gpr c) (rev rs))"
      "\<And>b. b < a - 8 * length rs \<or> a \<le> b \<Longrightarrow> snd (fold push rs (?c, ?m)) b = ?m b"
    using push_all [of rs ?c ?m] room(1) by auto
  have "words_at (snd (fold push rs (?c, ?m))) a (processor_words c)"
    using p(3) by (intro words_at_cong [OF words_at_stored [of m a]]) simp
  moreover have "snd (fold push rs (?c, ?m)) b = m b" if "b < a - 8 * length rs \<or> sp c \<le> b" for b
  proof -
    have "b < a - 8 * length rs \<or> a \<le> b" "b < a \<or> a + 8 * length (processor_words c) \<le> b"
      using that room unfolding l by linarith+
    with p(3) [of b] store_words_other [of b a "processor_words c" m] show ?thesis by simp
  qed
  ultimately show ?thesis
    using p(1,2) room(1) unfolding e frame_at_def a_def [symmetric] by simp
qed

lemma interrupt_return:
  assumes "words_at m (sp c2) (map (gpr c) (rev rs) @ processor_words c)" "cpu_ok c"
  shows "iretq (fold pop (rev rs) (c2, m)) = (c\<lparr>gpr := (\<lambda>r. if r \<in> set rs then gpr c r else gpr c2 r)\<rparr>, m)"
proof -
  have "fold pop (rev rs) (c2, m) =
      (c2\<lparr>gpr := (\<lambda>r. if r \<in> set rs then gpr c r else gpr c2 r), sp := sp c2 + 8 * length rs\<rparr>, m)"
    using pop_all [of m c2 "gpr c" "rev rs"] assms by (simp add: cpu_ok_def cong: if_cong)
  moreover have "words_at m (sp c2 + 8 * length rs) (processor_words c)" using assms(1) by simp
  moreover have "unat (of_nat (sp c) :: u64) = sp c"
    using assms(2) by (simp add: cpu_ok_def unsigned_of_nat take_bit_nat_eq_self)
  ultimately show ?thesis
    by (cases c, cases c2) (simp add: iretq_def processor_words_def algebra_simps)
qed

lemma all_saved: "r \<in> set (RAX # state_notRax)"
  by (cases r) (simp_all add: state_notRax_def)

lemma resume_frame:
  assumes "words_at (umem t) f (map (gpr c) (rev (RAX # state_notRax)) @ processor_words c)" "cpu_ok c"
  shows "resume f c2 t = Ret c t"
proof -
  have "iretq (popState (c2\<lparr>sp := f\<rparr>, umem t)) = (c, umem t)"
    using interrupt_return [of "umem t" "c2\<lparr>sp := f\<rparr>" c "RAX # state_notRax"] assms all_saved
    by (simp only: popState_def) simp
  then show ?thesis by (simp add: resume_def machine_code_def kreturn_def)
qed

section \<open>Preemption\<close>

lemma switch_saves:
  assumes "cpu_ok c" "enter_gate h (c, umem s) = (c1, m1)"
  shows "\<exists>m2. machine_code pushState c1 (s\<lparr>umem := m1\<rparr>) = Ret (c1\<lparr>sp := frame_at (RAX # state_notRax) c\<rparr>) (s\<lparr>umem := m2\<rparr>) \<and>
    words_at m2 (frame_at (RAX # state_notRax) c) (map (gpr c) (rev (RAX # state_notRax)) @ processor_words c)"
proof -
  let ?x = "fold push (RAX # state_notRax) (c1, m1)"
  have len: "length (RAX # state_notRax) \<le> 17" by (simp add: state_notRax_def)
  note f = interrupt_frame [OF assms(1) len, of h "umem s", unfolded assms(2)]
  have "8 * length (RAX # state_notRax) \<le> sp c1"
    using assms by (auto simp: enter_gate_def cpu_ok_def Let_def state_notRax_def) 
  then have "fst ?x = c1\<lparr>sp := sp (fst ?x)\<rparr>" using push_all [of "RAX # state_notRax" c1 m1] by simp
  then have "fst ?x = c1\<lparr>sp := frame_at (RAX # state_notRax) c\<rparr>" using f by simp
  then obtain m2 where x: "?x = (c1\<lparr>sp := frame_at (RAX # state_notRax) c\<rparr>, m2)" by (metis prod.collapse)
  then have "machine_code pushState c1 (s\<lparr>umem := m1\<rparr>) = Ret (c1\<lparr>sp := frame_at (RAX # state_notRax) c\<rparr>) (s\<lparr>umem := m2\<rparr>)"
    by (simp only: machine_code_def pushState_def) (simp add: kreturn_def)
  then show ?thesis using f unfolding x by auto
qed

lemma sched_ok_umem [simp]: "sched_ok (umem_update f s) ns = sched_ok s ns"
  by (cases ns) (simp_all add: sched_ok_def node_live_def)

text \<open>
  C7. A process loses nothing when it is preempted. The interrupt saves its registers in a frame of 176 bytes
  on its own stack, and the switch stores the address of the frame in its descriptor. However much
  later: when a handler, of a yield or of the timer, gets this address back from the scheduler and the
  frame is still in memory, the processor leaves the handler with every register, the flags, the
  stack pointer and the instruction pointer as they were at the interrupt.
\<close>

theorem preempted_process_resumes:
  assumes "cpu_ok c" "enter_gate h (c, umem s) = (c1, m1)"
    and "sched_ok s (n # ns)" "kernel_good s" "superlock s = UNLOCKED" "quantum (the (sched_nodes s n)) \<le> 1"
    and "r \<in> set (n # ns)" "runnable (node_proc s r)" "length ns < QUEUE_BOUND"
  shows "\<exists>f m2 x s1. f + 176 \<le> sp c \<and> next_process f (s\<lparr>umem := m2\<rparr>) = Ret x s1 \<and> rsp (node_proc s1 n) = f \<and>
    yield_interrupt c1 (s\<lparr>umem := m1\<rparr>) = resume x (c1\<lparr>sp := f\<rparr>) s1 \<and>
    (\<forall>c2 s2 c3 s3 t. machine_code pushState c2 s2 = Ret c3 s3 \<longrightarrow> (\<forall>b \<in> {f..<f + 176}. umem t b = m2 b) \<longrightarrow>
       (next_process (sp c3) s3 = Ret f t \<longrightarrow> yield_interrupt c2 s2 = Ret c t) \<and>
       (irq00Handler (sp c3) s3 = Ret f t \<longrightarrow> irq00_code c2 s2 = Ret c t))"
proof -
  define f where "f = frame_at (RAX # state_notRax) c"
  let ?ws = "map (gpr c) (rev (RAX # state_notRax)) @ processor_words c"
  have len: "8 * length ?ws = 176" by (simp add: state_notRax_def processor_words_def)
  have "sp c mod 16 < 16" "256 \<le> sp c" using assms(1) by (simp_all add: cpu_ok_def)
  then have room: "f + 176 \<le> sp c" by (simp add: f_def frame_at_def state_notRax_def)
  obtain m2 where m2: "machine_code pushState c1 (s\<lparr>umem := m1\<rparr>) = Ret (c1\<lparr>sp := f\<rparr>) (s\<lparr>umem := m2\<rparr>)" "words_at m2 f ?ws"
    using switch_saves [OF assms(1,2)] unfolding f_def by blast
  let ?s = "s\<lparr>umem := m2\<rparr>"
  have "sched_ok ?s (n # ns)" "kernel_good ?s" "superlock ?s = UNLOCKED" "quantum (the (sched_nodes ?s n)) \<le> 1"
      "r \<in> set (n # ns)" "runnable (node_proc ?s r)" "length ns < QUEUE_BOUND"
    using assms(3-9) by (simp_all add: node_proc_def)
  from next_process_run [OF this] obtain x s1 where s1: "next_process f ?s = Ret x s1" "rsp (node_proc s1 n) = f"
    by (metis list.set_intros(1))
  have "yield_interrupt c1 (s\<lparr>umem := m1\<rparr>) = resume x (c1\<lparr>sp := f\<rparr>) s1"
    using m2(1) s1(1) by (simp add: yield_interrupt_def)
  moreover have "resume f c3 t = Ret c t" if "\<forall>b \<in> {f..<f + 176}. umem t b = m2 b" for c3 t
    using that words_at_cong [OF m2(2), of "umem t"] len by (intro resume_frame assms(1)) simp
  ultimately show ?thesis
    using room s1 by (intro exI [of _ f] exI [of _ m2] exI [of _ x] exI [of _ s1])
      (simp add: yield_interrupt_def irq00_code_def)
qed

definition demo_cpu :: cpu where
  "demo_cpu = \<lparr>gpr = (\<lambda>r. if r = RDI then 12 else 7), sp = 0x700FF8, ip = 0x400000, cs = 8, ss = 0, eflags = 0x202\<rparr>"

lemma demo_cpu_ok: "cpu_ok demo_cpu"
  by (auto simp: cpu_ok_def demo_cpu_def fitted_def)

theorem preempted_process_resumes_witness:
  "\<exists>f m2 x s1. f + 176 \<le> 0x700FF8 \<and> next_process f (sched_demo\<lparr>umem := m2\<rparr>) = Ret x s1 \<and> rsp (node_proc s1 0x503000) = f"
proof -
  obtain c1 m1 where e: "enter_gate 0x100000 (demo_cpu, umem sched_demo) = (c1, m1)" by force
  have r: "(0x505000 :: addr) \<in> set [0x503000, 0x504000, 0x505000]" "length [0x504000, 0x505000 :: addr] < QUEUE_BOUND"
    by (simp_all add: QUEUE_BOUND_def STACK_SIZE_def)
  show ?thesis
    using preempted_process_resumes [OF demo_cpu_ok e sched_demo_ok sched_demo_good sched_demo_fields(5) sched_demo_run(2)
        r(1) sched_demo_run(1) r(2)] by (auto simp: demo_cpu_def)
qed

section \<open>System calls\<close>

text \<open>A run that is resumed in the given states, one for each suspension.\<close>

fun resumed :: "('s, 'a) run \<Rightarrow> 's list \<Rightarrow> ('s, 'a) run" where
  "resumed m [] = m"
| "resumed m (x # xs) = (case m of Yld s k \<Rightarrow> resumed (k x) xs | _ \<Rightarrow> m)"

lemma resumed_Ret [simp]: "resumed (Ret a s) xs = Ret a s"
  by (cases xs) auto

lemma resumed_bind: "resumed m xs = Ret a t \<Longrightarrow> f a t = Ret b u \<Longrightarrow> resumed (bind_run m f) xs = Ret b u"
  by (induction m xs rule: resumed.induct) (auto split: run.splits)

definition trap_cpu :: "u64 \<Rightarrow> cpu \<Rightarrow> cpu" where
  "trap_cpu trap c = c\<lparr>gpr := (gpr c)(RBP := of_nat (sp c - 8), RAX := gpr c RDI, RBX := gpr c RSI, RCX := gpr c RDX,
     RDX := gpr c RCX), sp := sp c - 40, ip := trap\<rparr>"

lemma int80h_enter_run:
  assumes "512 \<le> sp c"
  shows "\<exists>m'. int80h_enter handler trap (c, m) = enter_gate handler (trap_cpu trap c, m') \<and>
    words_at m' (sp c - 40) [gpr c R15, gpr c R13, gpr c R12, gpr c RBX, gpr c RBP] \<and>
    (\<forall>b. b < sp c - 48 \<or> sp c \<le> b \<longrightarrow> m' b = m b)"
proof -
  define a where "a = sp c - 48"
  have a: "sp c = a + 48" using assms by (simp add: a_def)
  define m' where "m' = store64 (store64 (store64 (store64 (store64 (store64 m (a + 40) (gpr c RBP)) (a + 32) (gpr c RBX))
    (a + 24) (gpr c R12)) (a + 16) (gpr c R13)) (a + 8) (gpr c R15)) a (gpr c RCX)"
  have "int80h_enter handler trap (c, m) = enter_gate handler (trap_cpu trap c, m')"
  proof -
    obtain g i k st fl where "c = \<lparr>gpr = g, sp = a + 48, ip = i, cs = k, ss = st, eflags = fl\<rparr>" using a by (cases c) simp
    then show ?thesis
      by (simp add: int80h_enter_def push_def pop_def mov_def trap_cpu_def Let_def m'_def fitted_def fun_upd_twist add.commute)
  qed
  moreover have "words_at m' (a + 8) [gpr c R15, gpr c R13, gpr c R12, gpr c RBX, gpr c RBP]"
    by (simp add: m'_def load64_store64_other algebra_simps)
  moreover have "m' b = m b" if "b < a \<or> a + 48 \<le> b" for b
    using that by (auto simp: m'_def store64_def)
  ultimately show ?thesis unfolding a by (intro exI [of _ m']) (simp add: add.commute)
qed

lemma int80h_leave_run:
  assumes "512 \<le> sp c" "sp c < 2 ^ 64" "sp c2 = sp c - 40" "gpr c2 RBP = of_nat (sp c - 8)"
    and "words_at m (sp c - 40) [gpr c R15, gpr c R13, gpr c R12, gpr c RBX, gpr c RBP]"
  shows "int80h_leave (c2, m) = (c2\<lparr>gpr := (gpr c2)(R15 := gpr c R15, R13 := gpr c R13, R12 := gpr c R12, RBX := gpr c RBX,
     RBP := gpr c RBP), ip := load64 m (sp c), sp := sp c + 8\<rparr>, m)"
proof -
  define a where "a = sp c - 40"
  have a: "sp c = a + 40" using assms(1) by (simp add: a_def)
  have u: "unat (of_nat (a + 32) :: u64) = a + 32"
    using assms(2) by (simp only: unsigned_of_nat) (simp add: a take_bit_nat_eq_self)
  obtain g i k st fl where "c2 = \<lparr>gpr = g, sp = a, ip = i, cs = k, ss = st, eflags = fl\<rparr>" using assms(3) a by (cases c2) simp
  then show ?thesis
    using assms(4,5) u by (simp add: int80h_leave_def pop_def Let_def fitted_def a algebra_simps)
qed

lemma machine_code_run: "machine_code f c s = (case f (c, umem s) of (c', m) \<Rightarrow> Ret c' (s\<lparr>umem := m\<rparr>))"
  by (simp add: machine_code_def kreturn_def split: prod.splits)

lemma machine_code_returns: "\<exists>c' s'. machine_code f c s = Ret c' s'"
  by (cases "f (c, umem s)") (simp add: machine_code_run)

text \<open>The trap itself: what is on the stack when the dispatcher is called, and the way out.\<close>

lemma syscall_trap:
  assumes "cpu_ok c" "m1 = snd (enter_gate h (c, umem s))" "c1 = fst (enter_gate h (c, umem s))"
    and "machine_code pushState_notRax c1 (s\<lparr>umem := m1\<rparr>) = Ret c2 s2"
  shows "gpr c2 = gpr c" "\<exists>m. s2 = s\<lparr>umem := m\<rparr>"
    "\<forall>b. b < sp c - 192 \<or> sp c \<le> b \<longrightarrow> umem s2 b = umem s b"
    "\<forall>b \<in> {sp c - 192..<sp c}. umem t b = umem s2 b \<Longrightarrow>
     machine_code (\<lambda>x. iretq (popState_notRax x)) (mov RAX v c2) t = Ret (mov RAX v c) t"
proof -
  let ?x = "fold push state_notRax (enter_gate h (c, umem s))"
  have len: "length state_notRax = 16" by (simp add: state_notRax_def)
  have f: "gpr (fst ?x) = gpr c" "sp (fst ?x) = frame_at state_notRax c"
      "words_at (snd ?x) (frame_at state_notRax c) (map (gpr c) (rev state_notRax) @ processor_words c)"
      "\<And>b. b < frame_at state_notRax c \<or> sp c \<le> b \<Longrightarrow> snd ?x b = umem s b"
    using interrupt_frame [OF assms(1), of state_notRax h "umem s"] len by auto
  have x: "c2 = fst ?x" "s2 = s\<lparr>umem := snd ?x\<rparr>"
    using assms(2-4) by (simp_all add: machine_code_run pushState_notRax_def split: prod.splits)
  then show "gpr c2 = gpr c" "\<exists>m. s2 = s\<lparr>umem := m\<rparr>" using f(1) by auto
  have "sp c mod 16 < 16" "256 \<le> sp c" using assms(1) by (simp_all add: cpu_ok_def)
  then have fr: "sp c - 192 \<le> frame_at state_notRax c" "frame_at state_notRax c + 168 \<le> sp c"
    unfolding frame_at_def len by linarith+
  then show "\<forall>b. b < sp c - 192 \<or> sp c \<le> b \<longrightarrow> umem s2 b = umem s b" using f(4) x(2) by auto
  assume same: "\<forall>b \<in> {sp c - 192..<sp c}. umem t b = umem s2 b"
  have "length (map (gpr c) (rev state_notRax) @ processor_words c) = 21" by (simp add: len processor_words_def)
  then have "words_at (umem t) (frame_at state_notRax c) (map (gpr c) (rev state_notRax) @ processor_words c)"
    using same fr x(2) by (intro words_at_cong [OF f(3)]) auto
  then have "iretq (fold pop (rev state_notRax) (mov RAX v c2, umem t)) =
      (c\<lparr>gpr := (\<lambda>r. if r \<in> set state_notRax then gpr c r else gpr (mov RAX v c2) r)\<rparr>, umem t)"
    using f(2) x(1) by (intro interrupt_return assms(1)) (simp add: mov_def)
  moreover have "(\<lambda>r. if r \<in> set state_notRax then gpr c r else gpr (mov RAX v c2) r) = (gpr c)(RAX := v)"
    using all_saved by (auto simp: mov_def fun_eq_iff f(1) x(1) state_notRax_def)
  ultimately show "machine_code (\<lambda>x. iretq (popState_notRax x)) (mov RAX v c2) t = Ret (mov RAX v c) t"
    by (simp add: machine_code_run popState_notRax_def mov_def)
qed

lemma trap_cpu_ok: "cpu_ok c \<Longrightarrow> 512 \<le> sp c \<Longrightarrow> cpu_ok (trap_cpu trap c)"
proof -
  assume "cpu_ok c" "512 \<le> sp c"
  moreover from this have "fitted FS (gpr c FS) = gpr c FS" "fitted GS (gpr c GS) = gpr c GS" by (simp_all add: cpu_ok_def)
  ultimately show ?thesis by (auto simp: cpu_ok_def trap_cpu_def fitted_def)
qed

text \<open>
  C29. The assembly of a system call implements the call of the C model. Called with its four arguments,
  \<open>_int80h\<close> traps; the handler calls the dispatcher with the number, the first argument, and the
  third and fourth in the order \<open>int80h\<close> says. Whatever the dispatcher does, suspended and resumed
  any number of times, when it returns and the caller's stack is as it left it, \<open>_int80h\<close>
  returns to its caller with the result in \<open>rax\<close>: of the other registers only \<open>rcx\<close> and \<open>rdx\<close>, which a C function
  may change, have changed. Below the caller's stack pointer 256 bytes are written, nothing else.
\<close>

theorem system_call_stub:
  assumes "cpu_ok c" "512 \<le> sp c"
    and "machine_code (int80h_enter handler trap) c s = Ret c1 s1" "machine_code pushState_notRax c1 s1 = Ret c2 s2"
    and "resumed (int80h k (unat (gpr c RDI)) (unat (gpr c RSI)) (unat (gpr c RDX)) (unat (gpr c RCX)) s2) xs = Ret v t"
    and "\<forall>b \<in> {sp c - 256..<sp c + 8}. umem t b = umem s2 b"
  shows "resumed (int80h_code k handler trap c s) xs =
      Ret (c\<lparr>gpr := (gpr c)(RAX := of_nat v, RCX := gpr c RDX, RDX := gpr c RCX), ip := load64 (umem s) (sp c), sp := sp c + 8\<rparr>) t \<and>
    (\<exists>m. s2 = s\<lparr>umem := m\<rparr> \<and> (\<forall>b. b < sp c - 256 \<or> sp c \<le> b \<longrightarrow> m b = umem s b))"
proof -
  let ?c = "trap_cpu trap c"
  obtain m where m: "int80h_enter handler trap (c, umem s) = enter_gate handler (?c, m)"
      "words_at m (sp c - 40) [gpr c R15, gpr c R13, gpr c R12, gpr c RBX, gpr c RBP]"
      "\<And>b. b < sp c - 48 \<or> sp c \<le> b \<Longrightarrow> m b = umem s b"
    using int80h_enter_run [OF assms(2), of handler trap "umem s"] by blast
  let ?s = "s\<lparr>umem := m\<rparr>"
  have c1: "c1 = fst (enter_gate handler (?c, umem ?s))" "s1 = ?s\<lparr>umem := snd (enter_gate handler (?c, umem ?s))\<rparr>"
    using assms(3) m(1) by (simp_all add: machine_code_run split: prod.splits)
  note tr = syscall_trap [OF trap_cpu_ok [OF assms(1,2)] refl c1(1) assms(4) [unfolded c1(2)]]
  have sp: "sp ?c = sp c - 40" by (simp add: trap_cpu_def)
  have low: "m b = umem s2 b" if "b < sp c - 232 \<or> sp c - 40 \<le> b" for b
    using tr(3) that assms(2) unfolding sp by auto
  have "umem t b = umem s2 b" if "b \<in> {sp ?c - 192..<sp ?c}" for b
  proof -
    have "sp c - 256 \<le> b \<and> b < sp c + 8" using that unfolding sp atLeastLessThan_iff by linarith
    then show ?thesis using assms(6) by simp
  qed
  then have "\<forall>b \<in> {sp ?c - 192..<sp ?c}. umem t b = umem s2 b" by blast
  note leave = tr(4) [OF this, of "of_nat v"]
  have dispatch: "syscallDispatcher (fst k) (snd k) (unat (gpr c2 RAX)) (unat (gpr c2 RBX)) (unat (gpr c2 RDX)) (unat (gpr c2 RCX)) s2 =
      int80h k (unat (gpr c RDI)) (unat (gpr c RSI)) (unat (gpr c RDX)) (unat (gpr c RCX)) s2"
    unfolding tr(1) int80h_def by (simp add: trap_cpu_def)
  have handler: "resumed (syscallHandler k c1 s1) xs = Ret (mov RAX (of_nat v) ?c) t"
    using resumed_bind [where f = "\<lambda>v. machine_code (\<lambda>x. iretq (popState_notRax x)) (mov RAX (of_nat v) c2)",
        OF assms(5) leave] assms(4) dispatch by (simp add: syscallHandler_def)
  have same: "umem t b = m b" if "sp c - 40 \<le> b" "b < sp c + 8" for b
    using assms(6) low [of b] that by auto
  have "words_at (umem t) (sp c - 40) [gpr c R15, gpr c R13, gpr c R12, gpr c RBX, gpr c RBP]"
    using assms(2) same by (intro words_at_cong [OF m(2)]) auto
  moreover have "load64 (umem t) (sp c) = load64 (umem s) (sp c)"
    using same m(3) by (intro load64_cong) auto
  ultimately have "machine_code int80h_leave (mov RAX (of_nat v) ?c) t =
      Ret (c\<lparr>gpr := (gpr c)(RAX := of_nat v, RCX := gpr c RDX, RDX := gpr c RCX), ip := load64 (umem s) (sp c), sp := sp c + 8\<rparr>) t"
    using int80h_leave_run [of c "mov RAX (of_nat v) ?c" "umem t"] assms(1,2)
    by (cases c) (simp add: machine_code_run mov_def trap_cpu_def cpu_ok_def fun_upd_twist fun_eq_iff)
  from resumed_bind [where f = "machine_code int80h_leave", OF handler this] assms(3) have "resumed (int80h_code k handler trap c s) xs =
      Ret (c\<lparr>gpr := (gpr c)(RAX := of_nat v, RCX := gpr c RDX, RDX := gpr c RCX), ip := load64 (umem s) (sp c), sp := sp c + 8\<rparr>) t"
    by (simp add: int80h_code_def)
  moreover have "umem s2 b = umem s b" if "b < sp c - 256 \<or> sp c \<le> b" for b
  proof -
    have "b < sp c - 232 \<or> sp c - 40 \<le> b" "b < sp c - 48 \<or> sp c \<le> b" using that by linarith+
    with low [of b] m(3) [of b] show ?thesis by simp
  qed
  ultimately show ?thesis using tr(2) by auto
qed

theorem system_call_stub_witness:
  "\<exists>c' t. resumed (int80h_code (9, \<lambda>_. 0) 0x100000 0x400020 demo_cpu sched_demo) [] = Ret c' t \<and>
     gpr c' RAX = of_nat DATA_ADDRESS \<and> gpr c' RBX = 7 \<and> sp c' = 0x701000"
proof -
  have ok: "cpu_ok demo_cpu" "512 \<le> sp demo_cpu" using demo_cpu_ok by (simp_all add: demo_cpu_def)
  obtain c1 s1 where e: "machine_code (int80h_enter 0x100000 0x400020) demo_cpu sched_demo = Ret c1 s1"
    using machine_code_returns by blast
  obtain c2 s2 where p: "machine_code pushState_notRax c1 s1 = Ret c2 s2"
    using machine_code_returns by blast
  have "int80h (9, \<lambda>_. 0) (unat (gpr demo_cpu RDI)) (unat (gpr demo_cpu RSI)) (unat (gpr demo_cpu RDX)) (unat (gpr demo_cpu RCX)) s2 =
      Ret DATA_ADDRESS s2"
    by (simp add: trap_simps demo_cpu_def sys_data_address_wr_def sys_data_address_def kreturn_def)
  then have r: "resumed (int80h (9, \<lambda>_. 0) (unat (gpr demo_cpu RDI)) (unat (gpr demo_cpu RSI)) (unat (gpr demo_cpu RDX))
      (unat (gpr demo_cpu RCX)) s2) [] = Ret DATA_ADDRESS s2" by simp
  show ?thesis
    using system_call_stub [OF ok e p r] by (simp add: demo_cpu_def)
qed

end
