(* ===== verification/Stdio.thy ===== *)
theory Stdio
  imports CLib
begin

text \<open>
  \<open>Userland/SampleCodeModule/stdio.c\<close>: line-buffered input with editing, and formatted output.
  \<open>typed\<close> are the characters the terminal still delivers: a \<open>read\<close> takes the first, and waits
  when there is none (\<open>None\<close>). \<open>written\<close> are the bytes handed to \<open>write\<close>, with their descriptors.
\<close>

section \<open>Single characters\<close>

definition BUFFER_SIZE :: nat where "BUFFER_SIZE = 1024"

record stdio =
  inbuf :: "byte list"
  buffi :: nat
  typed :: "byte list"
  written :: "(nat \<times> byte) list"

definition static_stdio :: "byte list \<Rightarrow> stdio" where
  "static_stdio keys = \<lparr>inbuf = replicate BUFFER_SIZE 0, buffi = 0, typed = keys, written = []\<rparr>"

definition fputchar :: "nat \<Rightarrow> byte \<Rightarrow> stdio \<Rightarrow> stdio" where
  "fputchar fds c s = s\<lparr>written := written s @ [(fds, c)]\<rparr>"

definition putchar :: "byte \<Rightarrow> stdio \<Rightarrow> stdio" where
  "putchar c s = fputchar 0 c s"

text \<open>
  One turn of the loop of \<open>fill_buffer\<close>: a backspace takes the last character back, and rubs it
  out on the screen unless it was a tab.
\<close>

definition edit_key :: "byte \<Rightarrow> nat \<Rightarrow> stdio \<Rightarrow> nat \<times> stdio" where
  "edit_key c i s =
     (if c = 8 \<and> i > 0 then (i - 1, if inbuf s ! (i - 1) \<noteq> 9 then putchar c s else s)
      else if c \<noteq> 8 then (i + 1, putchar c (s\<lparr>inbuf := (inbuf s)[i := c]\<rparr>))
      else (i, s))"

fun fill_loop :: "byte list \<Rightarrow> nat \<Rightarrow> stdio \<Rightarrow> stdio option" where
  "fill_loop [] i s = None"
| "fill_loop (c # keys) i s =
     (let (i, s) = edit_key c i s
      in if c \<noteq> 10 \<and> i < BUFFER_SIZE - 1 then fill_loop keys i s else Some (s\<lparr>typed := keys\<rparr>))"

definition fill_buffer :: "stdio \<Rightarrow> stdio option" where
  "fill_buffer s = fill_loop (typed s) 0 s"

definition getchar :: "stdio \<Rightarrow> (byte \<times> stdio) option" where
  "getchar s =
     Option.bind (if buffi s = 0 then fill_buffer s else Some s) (\<lambda>s.
     let c = inbuf s ! buffi s; b = buffi s + 1
     in Some (c, s\<lparr>buffi := (if c = 10 \<or> b = BUFFER_SIZE then 0 else b)\<rparr>))"

section \<open>Lines\<close>

fun readline_loop :: "nat \<Rightarrow> stdio \<Rightarrow> (byte list \<times> stdio) option" where
  "readline_loop 0 s = Some ([], s)"
| "readline_loop (Suc k) s =
     Option.bind (getchar s) (\<lambda>(c, s).
       if c = 10 then Some ([], s) else Option.bind (readline_loop k s) (\<lambda>(str, s). Some (c # str, s)))"

definition readline :: "nat \<Rightarrow> stdio \<Rightarrow> (byte list \<times> stdio) option" where
  "readline maxlen s = readline_loop (nat ((int maxlen - 1) mod 2 ^ 32)) s"

text \<open>
  \<open>readline_no_spaces\<close>: \<open>space\<close> is its state, \<open>str\<close> what it has stored. The loop reads one
  character more than fits and drops it. The trailing test reads a signed \<open>char\<close>.
\<close>

partial_function (option) no_spaces_loop :: "nat \<Rightarrow> bool \<Rightarrow> byte list \<Rightarrow> stdio \<Rightarrow> (byte list \<times> stdio) option" where
  "no_spaces_loop maxlen space str s =
     Option.bind (getchar s) (\<lambda>(c, s).
       if c = 10 \<or> \<not> length str < maxlen - 1 then Some (str, s)
       else if \<not> space then no_spaces_loop maxlen (isspace (uint c)) (str @ [c]) s
       else if \<not> isspace (uint c) then no_spaces_loop maxlen False (str @ [c]) s
       else no_spaces_loop maxlen True str s)"

declare no_spaces_loop.simps [code]

definition trim_last :: "byte list \<Rightarrow> byte list" where
  "trim_last str = (if str \<noteq> [] \<and> isspace (sint (last str)) then butlast str else str)"

definition readline_no_spaces :: "nat \<Rightarrow> stdio \<Rightarrow> (byte list \<times> stdio) option" where
  "readline_no_spaces maxlen s = map_option (\<lambda>(str, s). (trim_last str, s)) (no_spaces_loop maxlen True [] s)"

section \<open>Formatted input\<close>

datatype scanned = Num u32 | Text "byte list"

text \<open>
  The loop of \<open>scanf\<close> over the format and the line, both with their terminators, the count of
  conversions and the values stored through the arguments.
\<close>

fun scan_loop :: "byte list \<Rightarrow> byte list \<Rightarrow> nat \<Rightarrow> scanned list \<Rightarrow> (nat \<times> scanned list) option" where
  "scan_loop [] aux argc vs = None"
| "scan_loop fs [] argc vs = None"
| "scan_loop (f # fs) (a # aux) argc vs =
     (if a = 0 \<or> f = 0 then Some (argc, vs)
      else if f = 37 then
        (case fs of
           [] \<Rightarrow> None
         | t # fs \<Rightarrow>
             if t = 100 then
               (if a \<noteq> 43 \<and> a \<noteq> 45 \<and> \<not> isdigit (sint a) then Some (argc, vs)
                else Option.bind (atoi (a # aux)) (\<lambda>num.
                       scan_loop fs (dropWhile (\<lambda>c. isdigit (sint c)) aux) (argc + 1) (vs @ [Num num])))
             else if t = 115 then Some (argc + 1, vs @ [Text (cstr (a # aux))])
             else if t = 37 then (if a \<noteq> 37 then Some (argc, vs) else scan_loop fs (tl aux) (argc + 1) vs)
             else scan_loop fs aux (argc + 1) vs)
      else if f \<noteq> a then Some (argc, vs)
      else scan_loop fs aux argc vs)"

definition scanf :: "byte list \<Rightarrow> stdio \<Rightarrow> (nat \<times> scanned list \<times> stdio) option" where
  "scanf format s =
     Option.bind (readline BUFFER_SIZE s) (\<lambda>(aux, s).
     Option.bind (scan_loop format (aux @ [0]) 0 []) (\<lambda>(argc, vs). Some (argc, vs, s)))"

section \<open>Formatted output\<close>

text \<open>An argument behind the format; reading one of the wrong kind is undefined (\<open>None\<close>).\<close>

datatype fmt_arg = Int_arg u32 | Str_arg "byte list"

type_synonym printed = "(byte list \<times> nat) option"

definition prints :: "byte list \<Rightarrow> printed" where
  "prints str = (if terminated str then Some (cstr str, length (cstr str)) else None)"

definition printi :: "u32 \<Rightarrow> printed" where
  "printi v = Option.bind (itoa v 10) (\<lambda>(aux, n). prints aux)"

definition printb :: "u32 \<Rightarrow> printed" where
  "printb v = Option.bind (itoa v 2) (\<lambda>(aux, n). prints aux)"

definition printx :: "u32 \<Rightarrow> printed" where
  "printx v = Option.bind (itoa v 16) (\<lambda>(aux, n). prints aux)"

definition then_print :: "printed \<Rightarrow> printed \<Rightarrow> printed" where
  "then_print a b = Option.bind a (\<lambda>(out, m). Option.bind b (\<lambda>(rest, n). Some (out @ rest, m + n)))"

text \<open>What \<open>fprintformat\<close> writes and the length it returns. An unknown symbol ends the output.\<close>

fun fprintformat :: "byte list \<Rightarrow> fmt_arg list \<Rightarrow> printed" where
  "fprintformat [] args = None"
| "fprintformat (c # format) args =
     (if c = 0 then Some ([], 0)
      else if c \<noteq> 37 then then_print (Some ([c], 1)) (fprintformat format args)
      else case format of
             [] \<Rightarrow> None
           | symbol # format \<Rightarrow>
               if symbol = 37 then then_print (Some ([37], 1)) (fprintformat format args)
               else if symbol \<notin> {100, 105, 115, 120, 98, 99} then Some ([], 0)
               else case args of
                      [] \<Rightarrow> None
                    | arg # args \<Rightarrow>
                        then_print
                          (case arg of
                             Int_arg v \<Rightarrow> if symbol = 100 \<or> symbol = 105 then printi v
                                      else if symbol = 120 then printx v
                                      else if symbol = 98 then printb v
                                      else if symbol = 99 then Some ([ucast (v AND 0xFF)], 1) else None
                           | Str_arg str \<Rightarrow> if symbol = 115 then prints str else None)
                          (fprintformat format args))"

definition fprintf :: "nat \<Rightarrow> byte list \<Rightarrow> fmt_arg list \<Rightarrow> stdio \<Rightarrow> (nat \<times> stdio) option" where
  "fprintf fds format args s =
     map_option (\<lambda>(out, n). (n, fold (fputchar fds) out s)) (fprintformat format args)"

definition printf :: "byte list \<Rightarrow> fmt_arg list \<Rightarrow> stdio \<Rightarrow> (nat \<times> stdio) option" where
  "printf format args s = fprintf 0 format args s"

section \<open>Facts\<close>

text \<open>What a backspace-edited line comes to.\<close>

definition edited :: "byte list \<Rightarrow> byte list" where
  "edited keys = foldl (\<lambda>cs c. if c = 8 then butlast cs else cs @ [c]) [] keys"

lemma length_edited_from:
  "length (foldl (\<lambda>cs c. if c = 8 then butlast cs else cs @ [c]) cs keys) \<le> length cs + length (keys :: byte list)"
proof (induction keys arbitrary: cs)
  case (Cons k keys)
  show ?case using Cons [of "if k = 8 then butlast cs else cs @ [k]"] by (simp split: if_splits)
qed simp

lemma fill_loop_line:
  assumes "10 \<notin> set keys" "length cs + length keys < 1023" "length (inbuf s) = 1024" "take (length cs) (inbuf s) = cs"
  shows "\<exists>s'. fill_loop (keys @ 10 # rest) (length cs) s = Some s' \<and> typed s' = rest \<and> buffi s' = buffi s \<and>
    length (inbuf s') = 1024 \<and>
    (let l = foldl (\<lambda>cs c. if c = 8 then butlast cs else cs @ [c]) cs keys
     in take (Suc (length l)) (inbuf s') = l @ [10] \<and> length l < 1023)"
  using assms
proof (induction keys arbitrary: cs s)
  case Nil
  then have "take (Suc (length cs)) ((inbuf s)[length cs := 10]) = cs @ [10]"
    by (simp add: take_Suc_conv_app_nth)
  then show ?case using Nil by (simp add: edit_key_def putchar_def fputchar_def)
next
  case (Cons k keys)
  define cs' where "cs' = (if k = 8 then butlast cs else cs @ [k])"
  obtain s1 where s1: "edit_key k (length cs) s = (length cs', s1)" "length (inbuf s1) = 1024"
      "take (length cs') (inbuf s1) = cs'" "buffi s1 = buffi s"
  proof (cases "k = 8")
    case True
    have "butlast (take (length cs) (inbuf s)) = take (length cs - 1) (inbuf s)"
      using Cons.prems(2,3) by (intro butlast_take) simp
    then have "take (length cs - 1) (inbuf s) = butlast cs" using Cons.prems(4) by simp
    then show ?thesis using True Cons.prems
      by (intro that [of "snd (edit_key k (length cs) s)"]) (auto simp: edit_key_def cs'_def putchar_def fputchar_def)
  next
    case False
    have "take (Suc (length cs)) ((inbuf s)[length cs := k]) = cs @ [k]"
      using Cons.prems by (simp add: take_Suc_conv_app_nth)
    then show ?thesis using False Cons.prems
      by (intro that [of "snd (edit_key k (length cs) s)"]) (auto simp: edit_key_def cs'_def putchar_def fputchar_def)
  qed
  have "length cs' + length keys < 1023" using Cons.prems(2) by (auto simp: cs'_def)
  moreover have "length cs' < 1023" using calculation by simp
  ultimately show ?case using Cons.IH [of cs' s1] Cons.prems(1) s1 by (auto simp: cs'_def [symmetric] BUFFER_SIZE_def)
qed

text \<open>
  \<open>line s cs ts\<close>: the next calls of \<open>getchar\<close> return \<open>cs\<close> and a line feed, whether these are
  still to be typed or in the buffer already; \<open>ts\<close> is typed behind them.
\<close>

definition line :: "stdio \<Rightarrow> byte list \<Rightarrow> byte list \<Rightarrow> bool" where
  "line s cs ts \<longleftrightarrow> length (inbuf s) = 1024 \<and> 10 \<notin> set cs \<and>
     (if buffi s = 0
      then \<exists>keys. typed s = keys @ 10 # ts \<and> 10 \<notin> set keys \<and> length keys < 1023 \<and> edited keys = cs
      else typed s = ts \<and> buffi s + length cs < 1023 \<and> take (Suc (length cs)) (drop (buffi s) (inbuf s)) = cs @ [10])"

lemma set_edited_from:
  "set (foldl (\<lambda>cs c. if c = 8 then butlast cs else cs @ [c]) cs keys) \<subseteq> set cs \<union> set (keys :: byte list)"
proof (induction keys arbitrary: cs)
  case (Cons k keys)
  have "set (if k = 8 then butlast cs else cs @ [k]) \<subseteq> insert k (set cs)" by (auto dest: in_set_butlastD)
  then show ?case using Cons [of "if k = 8 then butlast cs else cs @ [k]"] by auto
qed simp

lemma line_typed:
  assumes "buffi s = 0" "length (inbuf s) = 1024" "typed s = keys @ 10 # ts" "10 \<notin> set keys" "length keys < 1023"
  shows "line s (edited keys) ts"
  using assms set_edited_from [of "[]" keys] by (auto simp: line_def edited_def)

lemma line_filled:
  assumes "line s cs ts"
  obtains s1 where "(if buffi s = 0 then fill_buffer s else Some s) = Some s1" "typed s1 = ts" "buffi s1 = buffi s"
    "length (inbuf s1) = 1024" "buffi s + length cs < 1023" "take (Suc (length cs)) (drop (buffi s) (inbuf s1)) = cs @ [10]"
proof (cases "buffi s = 0")
  case True
  then obtain keys where k: "typed s = keys @ 10 # ts" "10 \<notin> set keys" "length keys < 1023" "edited keys = cs"
    using assms by (auto simp: line_def)
  from fill_loop_line [OF k(2), of "[]" s ts] k(3) assms
  obtain s1 where "fill_loop (keys @ 10 # ts) 0 s = Some s1" "typed s1 = ts" "buffi s1 = buffi s" "length (inbuf s1) = 1024"
    "take (Suc (length cs)) (inbuf s1) = cs @ [10]" "length cs < 1023"
    unfolding edited_def [symmetric] k(4) by (auto simp: line_def Let_def)
  then show ?thesis using True k(1) by (intro that [of s1]) (auto simp: fill_buffer_def)
qed (use assms that in \<open>auto simp: line_def\<close>)

lemma getchar_line:
  assumes "line s (c # cs) ts"
  shows "\<exists>s'. getchar s = Some (c, s') \<and> line s' cs ts"
proof -
  obtain s1 where s1: "(if buffi s = 0 then fill_buffer s else Some s) = Some s1" "typed s1 = ts" "buffi s1 = buffi s"
    "length (inbuf s1) = 1024" "buffi s + length (c # cs) < 1023"
    "take (Suc (length (c # cs))) (drop (buffi s) (inbuf s1)) = (c # cs) @ [10]" by (rule line_filled [OF assms])
  have "inbuf s1 ! buffi s = c" using arg_cong [OF s1(6), of "\<lambda>xs. xs ! 0"] s1(4,5) by simp
  moreover have "take (Suc (length cs)) (drop (Suc (buffi s)) (inbuf s1)) = cs @ [10]"
    using arg_cong [OF s1(6), of tl] by (simp add: tl_take drop_Suc tl_drop)
  moreover have "c \<noteq> 10" "10 \<notin> set cs" using assms by (auto simp: line_def)
  ultimately show ?thesis using s1 by (auto simp: getchar_def line_def Let_def BUFFER_SIZE_def)
qed

lemma getchar_end:
  assumes "line s [] ts"
  shows "\<exists>s'. getchar s = Some (10, s') \<and> buffi s' = 0 \<and> typed s' = ts \<and> length (inbuf s') = 1024"
proof -
  obtain s1 where s1: "(if buffi s = 0 then fill_buffer s else Some s) = Some s1" "typed s1 = ts" "buffi s1 = buffi s"
    "length (inbuf s1) = 1024" "buffi s + length ([] :: byte list) < 1023"
    "take (Suc (length ([] :: byte list))) (drop (buffi s) (inbuf s1)) = [] @ [10]" by (rule line_filled [OF assms])
  have "inbuf s1 ! buffi s = 10" using arg_cong [OF s1(6), of "\<lambda>xs. xs ! 0"] s1(4,5) by simp
  then show ?thesis using s1 by (simp add: getchar_def Let_def)
qed

lemma readline_line:
  "line s cs ts \<Longrightarrow> length cs < k \<Longrightarrow> \<exists>s'. readline_loop k s = Some (cs, s') \<and> buffi s' = 0 \<and> typed s' = ts \<and> length (inbuf s') = 1024"
proof (induction cs arbitrary: s k)
  case Nil
  then show ?case using getchar_end [of s ts] by (cases k) auto
next
  case (Cons c cs)
  then obtain s1 where s1: "getchar s = Some (c, s1)" "line s1 cs ts" using getchar_line by blast
  have "c \<noteq> 10" using Cons.prems(1) by (auto simp: line_def)
  then show ?case using Cons.IH [OF s1(2), of "k - 1"] Cons.prems(2) s1(1) by (cases k) auto
qed

subsection \<open>Words\<close>

definition blank :: "byte \<Rightarrow> bool" where "blank c \<longleftrightarrow> isspace (uint c)"

lemma drop_blanks:
  assumes "dropWhile blank l = c # r"
  shows "\<not> blank c" "length r < length l" "dropWhile (\<lambda>c. \<not> blank c) (c # r) = dropWhile (\<lambda>c. \<not> blank c) r"
    "length (dropWhile (\<lambda>c. \<not> blank c) r) < length l"
proof -
  show c: "\<not> blank c" using hd_dropWhile [of blank l] assms by auto
  have "length (c # r) \<le> length l" using length_dropWhile_le [of blank l] assms by simp
  then show l: "length r < length l" by simp
  show "dropWhile (\<lambda>c. \<not> blank c) (c # r) = dropWhile (\<lambda>c. \<not> blank c) r" using c by simp
  show "length (dropWhile (\<lambda>c. \<not> blank c) r) < length l"
    using length_dropWhile_le [of "\<lambda>c. \<not> blank c" r] l by simp
qed

function word_list :: "byte list \<Rightarrow> byte list list" where
  "word_list l =
     (case dropWhile blank l of
        [] \<Rightarrow> []
      | c # r \<Rightarrow> (c # takeWhile (\<lambda>c. \<not> blank c) r) # word_list (dropWhile (\<lambda>c. \<not> blank c) r))"
  by pat_completeness auto
termination
  by (relation "measure length") (use drop_blanks(4) in auto)

declare word_list.simps [simp del]

fun join_words :: "byte list list \<Rightarrow> byte list" where
  "join_words [] = []"
| "join_words [w] = w"
| "join_words (w # ws) = w @ 32 # join_words ws"

text \<open>The loop of \<open>readline_no_spaces\<close> on the characters of a line.\<close>

fun squeezed :: "bool \<Rightarrow> byte list \<Rightarrow> byte list" where
  "squeezed space [] = []"
| "squeezed space (c # cs) =
     (if \<not> space then c # squeezed (blank c) cs else if \<not> blank c then c # squeezed False cs else squeezed True cs)"

lemma squeezed_word:
  "squeezed False l = takeWhile (\<lambda>c. \<not> blank c) l @
     (case dropWhile (\<lambda>c. \<not> blank c) l of [] \<Rightarrow> [] | c # r \<Rightarrow> c # squeezed True r)"
  by (induction l) auto

lemma squeezed_gap:
  "squeezed True l = (case dropWhile blank l of [] \<Rightarrow> [] | c # r \<Rightarrow> c # squeezed False r)"
  by (induction l) auto

lemma isspace_signed: "isspace (sint c) = blank c"
proof -
  have "sint c = uint c \<or> sint c < 0 \<and> 128 \<le> uint (c :: byte)"
  proof (cases "0 \<le> sint c")
    case True
    then have "sint c mod 256 = sint c" using sint_lt [of c] by (intro mod_pos_pos_trivial) auto
    then show ?thesis by (simp add: uint_sint take_bit_eq_mod)
  next
    case False
    then have "(sint c + 256) mod 256 = sint c + 256" using sint_ge [of c] by (intro mod_pos_pos_trivial) auto
    then have "uint c = sint c + 256" by (simp add: uint_sint take_bit_eq_mod)
    then show ?thesis using False sint_ge [of c] by simp
  qed
  then show ?thesis by (auto simp: blank_def ctype_defs)
qed

lemma trim_append: "x \<noteq> [] \<Longrightarrow> trim_last (w @ c # x) = w @ c # trim_last x"
  by (auto simp: trim_last_def butlast_append)

lemma no_blanks_last: "w \<noteq> [] \<Longrightarrow> (\<forall>c \<in> set w. \<not> blank c) \<Longrightarrow> trim_last w = w"
  by (auto simp: trim_last_def isspace_signed)

lemma trim_squeezed:
  "(\<forall>c \<in> set l. blank c \<longrightarrow> c = 32) \<Longrightarrow> trim_last (squeezed True l) = join_words (word_list l)"
proof (induction l rule: word_list.induct)
  case (1 l)
  show ?case
  proof (cases "dropWhile blank l")
    case Nil
    then have "squeezed True l = []" "word_list l = []"
      by (simp_all only: squeezed_gap [of l] word_list.simps [of l] list.case)
    then show ?thesis by (simp add: trim_last_def)
  next
    case (Cons c r)
    define w where "w = c # takeWhile (\<lambda>c. \<not> blank c) r"
    define t where "t = dropWhile (\<lambda>c. \<not> blank c) r"
    have w: "w \<noteq> []" "\<forall>c \<in> set w. \<not> blank c" using drop_blanks(1) [OF Cons] by (auto simp: w_def dest: set_takeWhileD)
    have sub: "set t \<subseteq> set l"
      using Cons set_dropWhileD unfolding t_def by (metis list.set_intros(2) subsetI)
    have sq: "squeezed True l = w @ (case t of [] \<Rightarrow> [] | c # r \<Rightarrow> c # squeezed True r)"
      using Cons by (simp add: squeezed_gap [of l] squeezed_word w_def t_def)
    have ws: "word_list l = w # word_list t" using Cons by (simp add: word_list.simps [of l] w_def t_def)
    show ?thesis
    proof (cases t)
      case Nil
      then show ?thesis using sq ws w by (simp add: no_blanks_last word_list.simps [of "[]"])
    next
      case (Cons d u)
      then have "blank d" using hd_dropWhile [of "\<lambda>c. \<not> blank c" r] by (simp add: t_def)
      then have d: "d = 32" "dropWhile blank t = dropWhile blank u" using 1(2) sub Cons by auto
      have "dropWhile blank (d # u) = dropWhile blank u" using \<open>blank d\<close> by simp
      then have "word_list (d # u) = word_list u" by (simp only: word_list.simps [of "d # u"] word_list.simps [of u])
      then have u: "squeezed True t = squeezed True u" "word_list t = word_list u" using Cons \<open>blank d\<close>
        by simp_all
      have IH: "trim_last (squeezed True t) = join_words (word_list t)"
        using 1(1) [OF \<open>dropWhile blank l = c # r\<close>] 1(2) sub by (auto simp: t_def)
      show ?thesis
      proof (cases "squeezed True u")
        case Nil
        then have "dropWhile blank u = []" by (cases "dropWhile blank u") (simp_all only: squeezed_gap [of u] list.case list.distinct)
        then have "word_list u = []" by (simp only: word_list.simps [of u] list.case)
        moreover have "trim_last (w @ [32]) = w" by (simp add: trim_last_def isspace_signed blank_def ctype_defs)
        ultimately show ?thesis using sq ws u Cons d(1) Nil by simp
      next
        case (Cons x xs)
        then have "dropWhile blank u \<noteq> []" by (cases "dropWhile blank u") (simp_all only: squeezed_gap [of u] list.case list.distinct, simp)
        then have "word_list u \<noteq> []" by (cases "dropWhile blank u") (simp_all only: word_list.simps [of u] list.case list.distinct, simp)
        then have "join_words (word_list l) = w @ 32 # join_words (word_list u)"
          using ws u by (cases "word_list u") auto
        moreover have "squeezed True l = w @ 32 # squeezed True u" using sq \<open>t = d # u\<close> d by simp
        ultimately show ?thesis using trim_append [of "squeezed True u" w 32] IH u Cons by simp
      qed
    qed
  qed
qed

lemma no_spaces_line:
  "line s cs ts \<Longrightarrow> length str + length cs < maxlen \<Longrightarrow>
     \<exists>s'. no_spaces_loop maxlen space str s = Some (str @ squeezed space cs, s') \<and> buffi s' = 0 \<and> typed s' = ts \<and>
       length (inbuf s') = 1024"
proof (induction cs arbitrary: s str space)
  case Nil
  then show ?case using getchar_end [of s ts] by (subst no_spaces_loop.simps) auto
next
  case (Cons c cs)
  then obtain s1 where s1: "getchar s = Some (c, s1)" "line s1 cs ts" using getchar_line by blast
  have "c \<noteq> 10" "length str < maxlen - 1" using Cons.prems by (auto simp: line_def)
  then show ?case
    using Cons.IH [OF s1(2), of "str @ [c]" False] Cons.IH [OF s1(2), of "str @ [c]" True] Cons.IH [OF s1(2), of str True]
      Cons.prems(2) s1(1)
    by (subst no_spaces_loop.simps) (auto simp: blank_def)
qed



subsection \<open>Long lines\<close>

lemma fill_loop_full:
  assumes "10 \<notin> set keys" "8 \<notin> set keys" "length cs + length keys = 1023" "keys \<noteq> []" "length (inbuf s) = 1024"
    "take (length cs) (inbuf s) = cs"
  shows "\<exists>s'. fill_loop (keys @ rest) (length cs) s = Some s' \<and> typed s' = rest \<and> buffi s' = buffi s \<and>
    inbuf s' = cs @ keys @ [inbuf s ! 1023]"
  using assms
proof (induction keys arbitrary: cs s)
  case (Cons k keys)
  define s1 where "s1 = putchar k (s\<lparr>inbuf := (inbuf s)[length cs := k]\<rparr>)"
  have s1: "edit_key k (length cs) s = (length (cs @ [k]), s1)" "length (inbuf s1) = 1024" "buffi s1 = buffi s"
      "inbuf s1 = (inbuf s)[length cs := k]" "length cs < 1023"
    using Cons.prems by (auto simp: edit_key_def s1_def putchar_def fputchar_def)
  have t: "take (length (cs @ [k])) (inbuf s1) = cs @ [k]"
    using Cons.prems(5,6) s1(4,5) by (simp add: take_Suc_conv_app_nth)
  show ?case
  proof (cases "keys = []")
    case True
    then have n: "length cs = 1022" using Cons.prems(3) by simp
    have "take (Suc 1023) (inbuf s1) = take 1023 (inbuf s1) @ [inbuf s1 ! 1023]"
      by (rule take_Suc_conv_app_nth) (simp add: s1(2))
    moreover have "take (Suc 1023) (inbuf s1) = inbuf s1" by (rule take_all) (simp add: s1(2))
    ultimately have "inbuf s1 = take 1023 (inbuf s1) @ [inbuf s1 ! 1023]" by simp
    then have "inbuf s1 = cs @ [k] @ [inbuf s ! 1023]" using t n s1(4) by simp
    then show ?thesis using True s1 n Cons.prems(1) by (simp add: BUFFER_SIZE_def)
  next
    case False
    then have "length (cs @ [k]) < 1023" using Cons.prems(3) by (cases keys) auto
    then show ?thesis
      using Cons.IH [of "cs @ [k]" s1] Cons.prems s1 t False by (auto simp: BUFFER_SIZE_def)
  qed
qed simp

lemma read_buffered:
  "0 < buffi s \<Longrightarrow> buffi s + length cs = 1024 \<Longrightarrow> drop (buffi s) (inbuf s) = cs \<Longrightarrow> 10 \<notin> set cs \<Longrightarrow> cs \<noteq> [] \<Longrightarrow>
     readline_loop (length cs) s = Some (cs, s\<lparr>buffi := 0\<rparr>)"
proof (induction cs arbitrary: s)
  case (Cons c cs)
  have len: "buffi s < length (inbuf s)" using arg_cong [OF Cons.prems(3), of length] by auto
  have c: "inbuf s ! buffi s = c" "drop (Suc (buffi s)) (inbuf s) = cs"
    using Cons.prems(3) by (simp_all only: Cons_nth_drop_Suc [OF len, symmetric] list.inject)
  then have g: "getchar s = Some (c, s\<lparr>buffi := (if cs = [] then 0 else Suc (buffi s))\<rparr>)"
    using Cons.prems by (auto simp: getchar_def Let_def BUFFER_SIZE_def)
  show ?case
  proof (cases "cs = []")
    case True
    then show ?thesis using g Cons.prems(4) by simp
  next
    case False
    then show ?thesis using g c(2) Cons.prems(2,4) Cons.IH [of "s\<lparr>buffi := Suc (buffi s)\<rparr>"] by simp
  qed
qed simp

text \<open>
  A line of more than 1,023 characters gets a character nobody typed: the buffer is filled up
  to index 1,022, but \<open>getchar\<close> starts over only behind index 1,023, so the 1,024th character read
  is the stale last byte of the buffer.
\<close>

theorem long_line_stale:
  assumes "buffi s = 0" "length (inbuf s) = 1024" "typed s = keys @ ts" "length keys = 1023" "10 \<notin> set keys" "8 \<notin> set keys"
    "inbuf s ! 1023 \<noteq> 10"
  shows "\<exists>s'. readline_loop 1024 s = Some (keys @ [inbuf s ! 1023], s') \<and> typed s' = ts"
proof -
  have "keys \<noteq> []" using assms(4) by auto
  then obtain s1 where s1: "fill_loop (keys @ ts) 0 s = Some s1" "typed s1 = ts" "buffi s1 = 0" "inbuf s1 = keys @ [inbuf s ! 1023]"
    using fill_loop_full [of keys "[]" s ts] assms by auto
  obtain k ks where k: "keys = k # ks" using assms(4) by (cases keys) auto
  define s2 where "s2 = s1\<lparr>buffi := 1\<rparr>"
  have "getchar s = Some (k, s2)"
    using assms s1 k by (auto simp: getchar_def fill_buffer_def s2_def Let_def BUFFER_SIZE_def)
  moreover have "length (ks @ [inbuf s ! 1023]) = 1023" using assms(4) k by simp
  then have "readline_loop 1023 s2 = Some (ks @ [inbuf s ! 1023], s2\<lparr>buffi := 0\<rparr>)"
    using read_buffered [of s2 "ks @ [inbuf s ! 1023]"] assms(5,7) s1(4) k by (simp only:) (simp add: s2_def)
  moreover have "k \<noteq> 10" using assms(5) k by auto
  ultimately have "readline_loop (Suc 1023) s = Some (keys @ [inbuf s ! 1023], s2\<lparr>buffi := 0\<rparr>)"
    unfolding readline_loop.simps(2) k by simp
  then show ?thesis using s1(2) by (simp add: s2_def)
qed

theorem long_line_stale_witness:
  "\<exists>s'. readline_loop 1024 (static_stdio (replicate 1023 97 @ [98])) = Some (replicate 1023 97 @ [0], s') \<and> typed s' = [98]"
proof -
  have z: "inbuf (static_stdio ks) ! 1023 = 0" "length (inbuf (static_stdio ks)) = 1024" "buffi (static_stdio ks) = 0"
    "typed (static_stdio ks) = ks" for ks by (simp_all add: static_stdio_def BUFFER_SIZE_def)
  have "10 \<notin> set (replicate 1023 (97 :: byte))" "8 \<notin> set (replicate 1023 (97 :: byte))" by simp_all
  from long_line_stale [OF z(3) z(2) z(4) length_replicate this] show ?thesis by (simp only: z) simp
qed

end
