(* ===== verification/Philosophers.thy ===== *)
theory Philosophers
  imports CLib
begin

text \<open>
  \<open>Userland/SampleCodeModule/philo.c\<close>: the dining philosophers, with philosophers added and
  removed while the others eat. Every philosopher is a process; the shell's command loop is the
  main process. They share \<open>philo_array\<close> and \<open>philosopherCount\<close> under the mutex \<open>critical_m\<close>.

  A step of the model is one stretch of code of one process between two synchronisations: being
  woken, taking \<open>critical_m\<close>, the code behind the lock up to its release, taking a private mutex.
  Any process that can move may move next. \<open>holder\<close> is the process inside \<open>critical_m\<close>; the other
  mutexes are found by name, \<open>Some True\<close> when locked and \<open>None\<close> when closed; a condition is the
  queue of the processes waiting on it, \<open>None\<close> when closed. This is what the kernel's mutexes and
  conditions promise: a lock waits until the mutex is open, an unlock opens it whoever calls it,
  and a wait queues the caller before it lets go of the mutex.
\<close>

section \<open>Data\<close>

datatype philo_state = THINKING | HUNGRY | EATING | DYING

record philosopher_data =
  p_state :: philo_state
  mut :: "byte list"
  p_pid :: int
  p_die :: int
  cond_die :: "byte list"

definition MAX_PHILOSOPHERS :: nat where "MAX_PHILOSOPHERS = 16"
definition MODIFY_COND_NAME :: "byte list" where "MODIFY_COND_NAME = bytes ''MODIFY_COND''"

definition LEFT :: "nat \<Rightarrow> nat \<Rightarrow> nat" where "LEFT x n = (x + n - 1) mod (if n \<noteq> 0 then n else 1)"
definition RIGHT :: "nat \<Rightarrow> nat \<Rightarrow> nat" where "RIGHT x n = (x + 1) mod (if n \<noteq> 0 then n else 1)"

text \<open>
  Where a philosopher is: asleep while thinking, at the lock of \<open>should_die\<close>, in its
  \<open>cond_wait\<close>, at the lock of \<open>take_forks\<close>, at its private mutex, asleep while eating, at the
  lock of \<open>put_forks\<close>, or not running.
\<close>

datatype philo_pc = Thinking | Ask_die | Wait_die | Take_forks | Wait_forks | Eating | Put_forks | Gone

datatype agent = Main | Philo nat

text \<open>
  The main process: reading commands, at the lock of \<open>add_philosopher\<close> (with the philosophers
  still to add), at the lock of \<open>remove_philosopher\<close> or waiting in it for the count to leave the
  given value (with the removals still to do for \<open>slow_die\<close>), pausing, at the lock of
  \<open>remove_all_philosophers\<close>, or done.
\<close>

datatype main_pc =
    Listening | Adding nat | Removing "nat option" | Wait_removed "nat option" nat
  | Pausing | Ending | Over

record philo_world =
  philosopherCount :: nat
  philo_array :: "philosopher_data list"
  is_paused :: bool
  graphic_mode :: bool
  holder :: "agent option"
  mutexes :: "byte list \<rightharpoonup> bool"
  waiters :: "byte list \<rightharpoonup> agent list"
  philo_pcs :: "nat \<Rightarrow> philo_pc"
  main_at :: main_pc
  frames :: "philo_state list list"

definition philosopher_at :: "nat \<Rightarrow> philo_world \<Rightarrow> philosopher_data" where
  "philosopher_at i w = philo_array w ! i"

definition update_philo :: "nat \<Rightarrow> (philosopher_data \<Rightarrow> philosopher_data) \<Rightarrow> philo_world \<Rightarrow> philo_world" where
  "update_philo i f w = w\<lparr>philo_array := (philo_array w)[i := f (philo_array w ! i)]\<rparr>"

definition goto :: "nat \<Rightarrow> philo_pc \<Rightarrow> philo_world \<Rightarrow> philo_world" where
  "goto i p w = w\<lparr>philo_pcs := (philo_pcs w)(i := p)\<rparr>"

section \<open>Mutexes and conditions\<close>

definition unlock :: "byte list \<Rightarrow> philo_world \<Rightarrow> philo_world" where
  "unlock m w = (case mutexes w m of None \<Rightarrow> w | Some l \<Rightarrow> w\<lparr>mutexes := (mutexes w)(m \<mapsto> False)\<rparr>)"

definition close_mutex :: "byte list \<Rightarrow> philo_world \<Rightarrow> philo_world" where
  "close_mutex m w = w\<lparr>mutexes := (mutexes w)(m := None)\<rparr>"

definition open_condition :: "byte list \<Rightarrow> philo_world \<Rightarrow> philo_world" where
  "open_condition c w = (case waiters w c of None \<Rightarrow> w\<lparr>waiters := (waiters w)(c \<mapsto> [])\<rparr> | Some q \<Rightarrow> w)"

definition close_condition :: "byte list \<Rightarrow> philo_world \<Rightarrow> philo_world" where
  "close_condition c w = w\<lparr>waiters := (waiters w)(c := None)\<rparr>"

definition wait_on :: "agent \<Rightarrow> byte list \<Rightarrow> philo_world \<Rightarrow> philo_world" where
  "wait_on a c w =
     (case waiters w c of None \<Rightarrow> w | Some q \<Rightarrow> w\<lparr>waiters := (waiters w)(c \<mapsto> q @ [a]), holder := None\<rparr>)"

definition signal :: "byte list \<Rightarrow> philo_world \<Rightarrow> philo_world" where
  "signal c w = (case waiters w c of Some (a # q) \<Rightarrow> w\<lparr>waiters := (waiters w)(c \<mapsto> q)\<rparr> | _ \<Rightarrow> w)"

definition sleeps_on :: "agent \<Rightarrow> byte list \<Rightarrow> philo_world \<Rightarrow> bool" where
  "sleeps_on a c w = (case waiters w c of None \<Rightarrow> False | Some q \<Rightarrow> a \<in> set q)"

section \<open>The philosophers\<close>

text \<open>\<open>render\<close> draws the states of the philosophers at the table; \<open>frames\<close> records what it drew.\<close>

definition render :: "philo_world \<Rightarrow> philo_world" where
  "render w = w\<lparr>frames := frames w @ [map p_state (take (philosopherCount w) (philo_array w))]\<rparr>"

definition setState :: "nat \<Rightarrow> philo_state \<Rightarrow> philo_world \<Rightarrow> philo_world" where
  "setState i x w = render (update_philo i (\<lambda>d. d\<lparr>p_state := x\<rparr>) w)"

definition eats :: "nat \<Rightarrow> philo_world \<Rightarrow> bool" where
  "eats i w \<longleftrightarrow> p_state (philosopher_at i w) = EATING"

definition test :: "nat \<Rightarrow> philo_world \<Rightarrow> philo_world" where
  "test i w =
     (if p_state (philosopher_at i w) = HUNGRY \<and> \<not> eats (LEFT i (philosopherCount w)) w \<and>
         \<not> eats (RIGHT i (philosopherCount w)) w
      then (let w = setState i EATING w in unlock (mut (philosopher_at i w)) w)
      else w)"

definition take_forks :: "nat \<Rightarrow> philo_world \<Rightarrow> philo_world" where
  "take_forks i w =
     (let w = setState i HUNGRY w; w = test i w
      in goto i Wait_forks (w\<lparr>holder := None\<rparr>))"

definition put_forks :: "nat \<Rightarrow> philo_world \<Rightarrow> philo_world" where
  "put_forks i w =
     (let w = setState i THINKING w;
          l = LEFT i (philosopherCount w);
          w = test l w;
          w = signal (cond_die (philosopher_at l w)) w;
          r = RIGHT i (philosopherCount w);
          w = test r w;
          w = signal (cond_die (philosopher_at r w)) w
      in goto i Thinking (w\<lparr>holder := None\<rparr>))"

text \<open>The loop of \<open>should_die\<close>, entered again whenever its \<open>cond_wait\<close> returns.\<close>

definition should_die_loop :: "nat \<Rightarrow> philo_world \<Rightarrow> philo_world" where
  "should_die_loop i w =
     (if eats (LEFT i (philosopherCount w)) w \<and> eats (RIGHT i (philosopherCount w)) w
      then goto i Wait_die (wait_on (Philo i) (cond_die (philosopher_at i w)) w)
      else
        (let d = philosopher_at i w;
             w = update_philo i (\<lambda>d. d\<lparr>p_die := 0\<rparr>) w;
             w = w\<lparr>philosopherCount := philosopherCount w - 1\<rparr>;
             w = close_mutex (mut d) w;
             w = close_condition (cond_die d) w;
             w = render w;
             w = signal MODIFY_COND_NAME w
         in goto i Gone (w\<lparr>holder := None\<rparr>)))"

definition should_die :: "nat \<Rightarrow> philo_world \<Rightarrow> philo_world" where
  "should_die i w =
     (if p_die (philosopher_at i w) \<noteq> 0 then should_die_loop i (setState i DYING w)
      else goto i Take_forks (w\<lparr>holder := None\<rparr>))"

section \<open>The main process\<close>

definition philo_name :: "nat \<Rightarrow> byte list" where
  "philo_name i = bytes ''PhilosopherMutex'' @ (case itoa (of_nat i) 10 of None \<Rightarrow> [] | Some (s, n) \<Rightarrow> cstr s)"

text \<open>
  \<open>add_philosopher\<close>, with the pid \<open>execp\<close> returns (\<open>-1\<close> when it fails). \<open>mutex_lock (pd->mut)\<close>
  waits when the mutex is found locked: the step is not enabled then.
\<close>

definition add_philosopher :: "int \<Rightarrow> philo_world \<Rightarrow> philo_world option" where
  "add_philosopher new_pid w =
     (if philosopherCount w < MAX_PHILOSOPHERS then
        (let i = philosopherCount w; nm = philo_name i;
             w = w\<lparr>philosopherCount := i + 1\<rparr>;
             w = update_philo i (\<lambda>d. d\<lparr>p_die := 0, mut := nm, cond_die := nm, p_state := THINKING, p_pid := new_pid\<rparr>) w;
             w = open_condition nm w
         in if mutexes w nm = Some True then None
            else Some (goto i (if new_pid = -1 then Gone else Thinking)
                   (w\<lparr>mutexes := (mutexes w)(nm \<mapsto> True), holder := None\<rparr>)))
      else Some (w\<lparr>holder := None\<rparr>))"

definition release_resources :: "philo_world \<Rightarrow> philo_world" where
  "release_resources w = close_condition MODIFY_COND_NAME (w\<lparr>main_at := Over\<rparr>)"

text \<open>What the main process does after a removal: \<open>slow_die\<close> goes on with the next one.\<close>

definition after_removal :: "nat option \<Rightarrow> philo_world \<Rightarrow> philo_world" where
  "after_removal rest w =
     (case rest of None \<Rightarrow> w\<lparr>main_at := Listening\<rparr>
      | Some k \<Rightarrow> if k = 0 then release_resources w else w\<lparr>main_at := Removing (Some (k - 1))\<rparr>)"

text \<open>The loop of \<open>remove_philosopher\<close>: wait while the count is still \<open>n\<close>.\<close>

definition remove_loop :: "nat option \<Rightarrow> nat \<Rightarrow> philo_world \<Rightarrow> philo_world" where
  "remove_loop rest n w =
     (if n = philosopherCount w then wait_on Main MODIFY_COND_NAME (w\<lparr>main_at := Wait_removed rest n\<rparr>)
      else after_removal rest (w\<lparr>holder := None\<rparr>))"

definition remove_philosopher :: "nat option \<Rightarrow> philo_world \<Rightarrow> philo_world" where
  "remove_philosopher rest w =
     (if philosopherCount w > 0 then
        remove_loop rest (philosopherCount w) (update_philo (philosopherCount w - 1) (\<lambda>d. d\<lparr>p_die := 1\<rparr>) w)
      else after_removal rest (w\<lparr>holder := None\<rparr>))"

definition slow_die :: "philo_world \<Rightarrow> philo_world" where
  "slow_die w =
     (if philosopherCount w = 0 then release_resources w
      else w\<lparr>main_at := Removing (Some (philosopherCount w - 1))\<rparr>)"

text \<open>One turn of the loop of \<open>remove_all_philosophers\<close>; a killed process does not run again.\<close>

definition remove_one :: "nat \<Rightarrow> philo_world \<Rightarrow> philo_world" where
  "remove_one i w =
     (let d = philosopher_at i w
      in close_condition (cond_die d) (close_mutex (mut d) (if p_pid d = -1 then w else goto i Gone w)))"

definition remove_all_philosophers :: "philo_world \<Rightarrow> philo_world" where
  "remove_all_philosophers w =
     release_resources ((fold remove_one [0..<philosopherCount w] w)\<lparr>holder := None\<rparr>)"

definition pause_philosophers :: "philo_world \<Rightarrow> philo_world" where
  "pause_philosophers w =
     (if \<not> is_paused w then w\<lparr>is_paused := True, main_at := Pausing\<rparr>
      else w\<lparr>is_paused := False, holder := None\<rparr>)"

text \<open>One character read by \<open>listen_commands\<close>.\<close>

definition listen_commands :: "char \<Rightarrow> philo_world \<Rightarrow> philo_world" where
  "listen_commands c w =
     (if c = CHR ''e'' then (if \<not> is_paused w then w\<lparr>main_at := Ending\<rparr> else w)
      else if c = CHR ''w'' then (if \<not> is_paused w then w\<lparr>main_at := Adding 0\<rparr> else w)
      else if c = CHR ''s'' then (if \<not> is_paused w then w\<lparr>main_at := Removing None\<rparr> else w)
      else if c = CHR ''g'' then w\<lparr>graphic_mode := \<not> graphic_mode w\<rparr>
      else if c = CHR ''p'' then pause_philosophers w
      else if c = CHR ''q'' then (if \<not> is_paused w then slow_die w else w)
      else w)"

definition start_philosophers_problem :: "bool \<Rightarrow> int \<Rightarrow> philo_world" where
  "start_philosophers_problem graphic philoNumber =
     (let k = nat (if philoNumber > int MAX_PHILOSOPHERS then int MAX_PHILOSOPHERS else philoNumber)
      in \<lparr>philosopherCount = 0,
          philo_array = replicate MAX_PHILOSOPHERS \<lparr>p_state = THINKING, mut = [], p_pid = 0, p_die = 0, cond_die = []\<rparr>,
          is_paused = False, graphic_mode = graphic, holder = None, mutexes = Map.empty,
          waiters = [MODIFY_COND_NAME \<mapsto> []], philo_pcs = (\<lambda>_. Gone),
          main_at = (if k = 0 then Listening else Adding (k - 1)), frames = []\<rparr>)"

section \<open>Steps\<close>

text \<open>
  \<open>Awake i\<close>: the sleep of philosopher \<open>i\<close> ends. \<open>Enter a\<close>: \<open>a\<close>, at a lock of \<open>critical_m\<close>, gets
  it. \<open>Critical a\<close>: \<open>a\<close> runs the code behind that lock. \<open>Forks i\<close>: philosopher \<open>i\<close> gets through
  its private mutex. \<open>Created pid\<close>: the code behind the lock of \<open>add_philosopher\<close>. \<open>Command c\<close>:
  the main process reads \<open>c\<close>.
\<close>

datatype action = Awake nat | Enter agent | Critical agent | Forks nat | Created int | Command char

text \<open>Is the process at a lock of \<open>critical_m\<close>, not asleep in a \<open>cond_wait\<close>?\<close>

definition at_lock :: "agent \<Rightarrow> philo_world \<Rightarrow> bool" where
  "at_lock a w =
     (case a of
        Main \<Rightarrow> (case main_at w of Listening \<Rightarrow> False | Over \<Rightarrow> False
                 | Wait_removed m n \<Rightarrow> \<not> sleeps_on Main MODIFY_COND_NAME w | _ \<Rightarrow> True)
      | Philo i \<Rightarrow> (case philo_pcs w i of Ask_die \<Rightarrow> True | Take_forks \<Rightarrow> True | Put_forks \<Rightarrow> True
                    | Wait_die \<Rightarrow> \<not> sleeps_on (Philo i) (cond_die (philosopher_at i w)) w | _ \<Rightarrow> False))"

fun philo_step :: "action \<Rightarrow> philo_world \<Rightarrow> philo_world option" where
  "philo_step (Awake i) w =
     (case philo_pcs w i of Thinking \<Rightarrow> Some (goto i Ask_die w) | Eating \<Rightarrow> Some (goto i Put_forks w) | _ \<Rightarrow> None)"
| "philo_step (Enter a) w =
     (if holder w = None \<and> at_lock a w then Some (w\<lparr>holder := Some a\<rparr>) else None)"
| "philo_step (Critical (Philo i)) w =
     (if holder w \<noteq> Some (Philo i) then None
      else case philo_pcs w i of
             Ask_die \<Rightarrow> Some (should_die i w) | Wait_die \<Rightarrow> Some (should_die_loop i w)
           | Take_forks \<Rightarrow> Some (take_forks i w) | Put_forks \<Rightarrow> Some (put_forks i w) | _ \<Rightarrow> None)"
| "philo_step (Critical Main) w =
     (if holder w \<noteq> Some Main then None
      else case main_at w of
             Removing m \<Rightarrow> Some (remove_philosopher m w) | Wait_removed m n \<Rightarrow> Some (remove_loop m n w)
           | Pausing \<Rightarrow> Some (w\<lparr>main_at := Listening\<rparr>) | Ending \<Rightarrow> Some (remove_all_philosophers w) | _ \<Rightarrow> None)"
| "philo_step (Created new_pid) w =
     (if holder w \<noteq> Some Main then None
      else case main_at w of
             Adding k \<Rightarrow> map_option (\<lambda>w. w\<lparr>main_at := (if k = 0 then Listening else Adding (k - 1))\<rparr>)
                          (add_philosopher new_pid w)
           | _ \<Rightarrow> None)"
| "philo_step (Forks i) w =
     (if philo_pcs w i \<noteq> Wait_forks then None
      else case mutexes w (mut (philosopher_at i w)) of
             None \<Rightarrow> Some (goto i Eating w)
           | Some True \<Rightarrow> None
           | Some False \<Rightarrow> Some (goto i Eating (w\<lparr>mutexes := (mutexes w)(mut (philosopher_at i w) \<mapsto> True)\<rparr>)))"
| "philo_step (Command c) w = (if main_at w = Listening then Some (listen_commands c w) else None)"

fun philo_run :: "action list \<Rightarrow> philo_world \<Rightarrow> philo_world option" where
  "philo_run [] w = Some w"
| "philo_run (a # as) w = Option.bind (philo_step a w) (philo_run as)"

section \<open>The invariant\<close>

text \<open>Round the table: nobody eats beside an eating neighbour.\<close>

definition peaceful :: "nat \<Rightarrow> (nat \<Rightarrow> philo_state) \<Rightarrow> bool" where
  "peaceful n f \<longleftrightarrow> (\<forall>i < n. RIGHT i n \<noteq> i \<longrightarrow> \<not> (f i = EATING \<and> f (RIGHT i n) = EATING))"

definition states :: "philo_world \<Rightarrow> nat \<Rightarrow> philo_state" where
  "states w = (\<lambda>i. p_state (philo_array w ! i))"

text \<open>What the place of a process says of its state and of its private mutex.\<close>

definition place_ok :: "philo_pc \<Rightarrow> philo_state \<Rightarrow> bool option \<Rightarrow> int \<Rightarrow> bool" where
  "place_ok p x l d =
     (case p of
        Thinking \<Rightarrow> x = THINKING \<and> l = Some True | Ask_die \<Rightarrow> x = THINKING \<and> l = Some True
      | Take_forks \<Rightarrow> x = THINKING \<and> l = Some True
      | Wait_forks \<Rightarrow> x = HUNGRY \<and> l = Some True \<or> x = EATING \<and> l = Some False
      | Eating \<Rightarrow> x = EATING \<and> l = Some True | Put_forks \<Rightarrow> x = EATING \<and> l = Some True
      | Wait_die \<Rightarrow> x = DYING \<and> l = Some True \<and> d \<noteq> 0
      | Gone \<Rightarrow> True)"

definition marked :: "philo_world \<Rightarrow> nat \<Rightarrow> bool" where
  "marked w i \<longleftrightarrow> p_die (philo_array w ! i) \<noteq> 0"

definition shape_ok :: "philo_world \<Rightarrow> bool" where
  "shape_ok w \<longleftrightarrow> length (philo_array w) = 16 \<and> philosopherCount w \<le> 16 \<and>
     (\<forall>i. philo_pcs w i \<noteq> Gone \<longrightarrow> i < philosopherCount w) \<and>
     (\<forall>i < philosopherCount w. mut (philo_array w ! i) = philo_name i) \<and>
     (\<forall>i < philosopherCount w. p_pid (philo_array w ! i) = -1 \<longrightarrow> philo_pcs w i = Gone)"

definition places_ok :: "philo_world \<Rightarrow> bool" where
  "places_ok w \<longleftrightarrow> (\<forall>i < philosopherCount w.
     place_ok (philo_pcs w i) (states w i) (mutexes w (philo_name i)) (p_die (philo_array w ! i)))"

definition marks_ok :: "philo_world \<Rightarrow> bool" where
  "marks_ok w \<longleftrightarrow> (\<forall>i < philosopherCount w. marked w i \<longrightarrow>
     Suc i = philosopherCount w \<and> (\<exists>r. main_at w = Wait_removed r (philosopherCount w)))"

definition frames_ok :: "philo_world \<Rightarrow> bool" where
  "frames_ok w \<longleftrightarrow> (\<forall>f \<in> set (frames w). peaceful (length f) (nth f))"

definition philo_inv :: "philo_world \<Rightarrow> bool" where
  "philo_inv w \<longleftrightarrow> shape_ok w \<and> places_ok w \<and> marks_ok w \<and> peaceful (philosopherCount w) (states w) \<and> frames_ok w"

inductive philo_reach :: "bool \<Rightarrow> int \<Rightarrow> philo_world \<Rightarrow> bool" for graphic n where
  start: "philo_reach graphic n (start_philosophers_problem graphic n)"
| step: "philo_reach graphic n w \<Longrightarrow> philo_step a w = Some w' \<Longrightarrow> philo_reach graphic n w'"

subsection \<open>Round the table\<close>

lemma ring_index:
  assumes "i < n"
  shows "LEFT i n < n" "RIGHT i n < n" "RIGHT (LEFT i n) n = i"
    "LEFT i n = (if i = 0 then n - 1 else i - 1)" "RIGHT i n = (if Suc i = n then 0 else Suc i)"
proof -
  show L: "LEFT i n = (if i = 0 then n - 1 else i - 1)"
    using assms by (cases i) (auto simp: LEFT_def)
  show R: "RIGHT i n = (if Suc i = n then 0 else Suc i)" using assms by (auto simp: RIGHT_def)
  show "LEFT i n < n" "RIGHT i n < n" using L R assms by auto
  show "RIGHT (LEFT i n) n = i" unfolding L using assms by (auto simp: RIGHT_def)
qed

lemma right_inverse: "i < n \<Longrightarrow> j < n \<Longrightarrow> RIGHT j n = i \<Longrightarrow> j = LEFT i n"
  using ring_index(4) [of i n] ring_index(5) [of j n] by (auto split: if_splits)

lemma peaceful_cong:
  assumes "\<And>i. i < n \<Longrightarrow> f i = g i"
  shows "peaceful n f = peaceful n g"
  unfolding peaceful_def using assms ring_index(2) by metis

lemma peaceful_calm: "peaceful n f \<Longrightarrow> x \<noteq> EATING \<Longrightarrow> peaceful n (f(i := x))"
  by (auto simp: peaceful_def)

lemma peaceful_eat:
  assumes "peaceful n f" "i < n" "f (LEFT i n) \<noteq> EATING" "f (RIGHT i n) \<noteq> EATING"
  shows "peaceful n (f(i := EATING))"
  unfolding peaceful_def
proof (intro allI impI notI)
  fix j assume j: "j < n" "RIGHT j n \<noteq> j" "(f(i := EATING)) j = EATING \<and> (f(i := EATING)) (RIGHT j n) = EATING"
  show False
  proof (cases "j = i \<or> RIGHT j n = i")
    case True
    then show False using assms(2-4) j right_inverse [of i n j] by (auto split: if_splits)
  next
    case False
    then show False using assms(1) j by (auto simp: peaceful_def)
  qed
qed

lemma peaceful_add:
  assumes "peaceful n f"
  shows "peaceful (Suc n) (f(n := THINKING))"
  using assms by (auto simp: peaceful_def ring_index(5) split: if_splits)

lemma peaceful_remove:
  assumes "peaceful (Suc n) f" "\<not> (f (LEFT n (Suc n)) = EATING \<and> f (RIGHT n (Suc n)) = EATING)"
  shows "peaceful n f"
  unfolding peaceful_def
proof (intro allI impI notI)
  fix i assume i: "i < n" "RIGHT i n \<noteq> i" "f i = EATING \<and> f (RIGHT i n) = EATING"
  show False
  proof (cases "Suc i = n")
    case True
    then show False using assms(2) i by (auto simp: ring_index(4,5))
  next
    case False
    then have "f i = EATING \<and> f (Suc i) = EATING" using i by (simp add: ring_index(5))
    then show False using assms(1) i(1) by (auto simp: peaceful_def ring_index(5) dest!: spec [of _ i])
  qed
qed

subsection \<open>Names\<close>

lemma philo_name_eq: "i < 16 \<Longrightarrow> j < 16 \<Longrightarrow> philo_name i = philo_name j \<longleftrightarrow> i = j"
proof -
  have name: "\<exists>ds. philo_name k = bytes ''PhilosopherMutex'' @ rev ds \<and> digits_value ds = int k" if "k < 16" for k
  proof -
    have k: "sint (of_nat k :: u32) = int k" using that by (simp add: signed_of_nat signed_take_bit_int_eq_self)
    then have "0 \<le> sint (of_nat k :: u32)" by simp
    then obtain ds where "itoa (of_nat k) 10 = Some (rev ds @ [0], length ds)" "all_digits ds" "digits_value ds = int k"
      using k by (metis itoa_nonneg)
    then show ?thesis using cstr_digits [of ds "[]"] by (auto simp: philo_name_def)
  qed
  assume "i < 16" "j < 16"
  then obtain di dj where "philo_name i = bytes ''PhilosopherMutex'' @ rev di" "digits_value di = int i"
    "philo_name j = bytes ''PhilosopherMutex'' @ rev dj" "digits_value dj = int j" using name by metis
  then show ?thesis by auto
qed

subsection \<open>Preservation\<close>

lemmas inv_defs = philo_inv_def shape_ok_def places_ok_def marks_ok_def frames_ok_def marked_def states_def

lemma inv_update [simp]:
  "philo_inv (w\<lparr>holder := h\<rparr>) = philo_inv w" "philo_inv (w\<lparr>waiters := q\<rparr>) = philo_inv w"
  "philo_inv (w\<lparr>is_paused := b\<rparr>) = philo_inv w" "philo_inv (w\<lparr>graphic_mode := b\<rparr>) = philo_inv w"
  by (simp_all add: inv_defs)

lemma inv_sync [simp]:
  "philo_inv (wait_on a c w) = philo_inv w" "philo_inv (signal c w) = philo_inv w"
  "philo_inv (open_condition c w) = philo_inv w" "philo_inv (close_condition c w) = philo_inv w"
  by (simp_all add: wait_on_def signal_def open_condition_def close_condition_def split: option.splits list.splits)

lemma sync_fields [simp]:
  "philosopherCount (wait_on a c w) = philosopherCount w" "philosopherCount (signal c w) = philosopherCount w"
  "philosopherCount (close_condition c w) = philosopherCount w" "philo_array (close_condition c w) = philo_array w"
  "philo_array (signal c w) = philo_array w" "philo_array (wait_on a c w) = philo_array w"
  "philo_pcs (signal c w) = philo_pcs w" "main_at (signal c w) = main_at w" "main_at (wait_on a c w) = main_at w"
  "mutexes (signal c w) = mutexes w" "mutexes (wait_on a c w) = mutexes w" "mutexes (close_condition c w) = mutexes w"
  "philo_pcs (close_condition c w) = philo_pcs w" "philo_pcs (wait_on a c w) = philo_pcs w"
  "main_at (close_condition c w) = main_at w"
  by (auto simp: wait_on_def signal_def close_condition_def split: option.splits list.splits)

lemma set_fields [simp]:
  "philosopherCount (setState i x w) = philosopherCount w" "philo_pcs (setState i x w) = philo_pcs w"
  "mutexes (setState i x w) = mutexes w" "main_at (setState i x w) = main_at w"
  "philo_array (setState i x w) = (philo_array w)[i := (philo_array w ! i)\<lparr>p_state := x\<rparr>]"
  by (simp_all add: setState_def update_philo_def render_def)

lemma frame_peaceful:
  assumes "shape_ok w" "peaceful (philosopherCount w) (states w)"
  shows "peaceful (length (map p_state (take (philosopherCount w) (philo_array w))))
     (nth (map p_state (take (philosopherCount w) (philo_array w))))"
proof -
  have n: "length (map p_state (take (philosopherCount w) (philo_array w))) = philosopherCount w"
    using assms(1) by (simp add: shape_ok_def)
  show ?thesis unfolding n using assms
    by (subst peaceful_cong [of _ _ "states w"]) (auto simp: shape_ok_def states_def)
qed

lemma inv_render: "philo_inv w \<Longrightarrow> philo_inv (render w)"
  using frame_peaceful [of w] by (auto simp: render_def inv_defs)

lemma inv_set:
  assumes inv: "philo_inv w" and i: "i < philosopherCount w"
    and place: "place_ok p x l (p_die (philo_array w ! i))" "philo_pcs w i = Gone \<Longrightarrow> p = Gone"
    and peace: "peaceful (philosopherCount w) ((states w)(i := x))"
  shows "philo_inv (setState i x (goto i p (w\<lparr>mutexes := (mutexes w)(philo_name i := l)\<rparr>)))"
proof -
  define v where "v = update_philo i (\<lambda>d. d\<lparr>p_state := x\<rparr>) (goto i p (w\<lparr>mutexes := (mutexes w)(philo_name i := l)\<rparr>))"
  have len: "length (philo_array w) = 16" "i < 16" "philosopherCount w \<le> 16"
    using inv i by (auto simp: philo_inv_def shape_ok_def)
  have st: "states v = (states w)(i := x)"
    using len by (auto simp: v_def states_def update_philo_def goto_def fun_eq_iff nth_list_update)
  moreover have "shape_ok v"
    using inv i place(2) len by (auto simp: v_def update_philo_def goto_def philo_inv_def shape_ok_def nth_list_update)
  moreover have "places_ok v"
    using inv i place(1) len unfolding places_ok_def st
    by (auto simp: v_def update_philo_def goto_def philo_inv_def places_ok_def nth_list_update philo_name_eq)
  moreover have "marks_ok v"
    using inv i len by (auto simp: v_def update_philo_def goto_def philo_inv_def marks_ok_def marked_def nth_list_update)
  moreover have "frames_ok v" using inv by (simp add: v_def update_philo_def goto_def philo_inv_def frames_ok_def)
  ultimately have "philo_inv v" using peace by (simp add: philo_inv_def v_def update_philo_def goto_def)
  then show ?thesis using inv_render by (simp add: setState_def v_def)
qed

lemma inv_setState:
  assumes "philo_inv w" "i < philosopherCount w"
    "place_ok p x (mutexes w (philo_name i)) (p_die (philo_array w ! i))" "philo_pcs w i = Gone \<Longrightarrow> p = Gone"
    "peaceful (philosopherCount w) ((states w)(i := x))"
  shows "philo_inv (setState i x (goto i p w))"
  using inv_set [OF assms] by simp

lemma goto_same [simp]: "goto i (philo_pcs w i) w = w"
  by (simp add: goto_def)

lemma inv_test:
  assumes inv: "philo_inv w" and j: "j < philosopherCount w"
  shows "philo_inv (test j w)"
proof (cases "p_state (philosopher_at j w) = HUNGRY \<and> \<not> eats (LEFT j (philosopherCount w)) w \<and>
         \<not> eats (RIGHT j (philosopherCount w)) w")
  case True
  have peace: "peaceful (philosopherCount w) ((states w)(j := EATING))"
    using inv j True by (intro peaceful_eat) (auto simp: philo_inv_def eats_def states_def philosopher_at_def)
  have len: "mut (philo_array w ! j) = philo_name j" "length (philo_array w) = 16" "j < 16"
    using inv j by (auto simp: philo_inv_def shape_ok_def)
  have p: "place_ok (philo_pcs w j) EATING (if mutexes w (philo_name j) = None then None else Some False) d" for d
    using inv j True by (auto simp: philo_inv_def places_ok_def place_ok_def states_def philosopher_at_def
        split: philo_pc.splits)
  have t: "test j w = unlock (philo_name j) (setState j EATING w)"
    using True len by (simp add: test_def philosopher_at_def)
  have w: "w\<lparr>mutexes := (mutexes w)(philo_name j := None)\<rparr> = w" if "mutexes w (philo_name j) = None"
    using that by (simp add: fun_upd_idem)
  have u: "unlock (philo_name j) (setState j EATING w) = setState j EATING (goto j (philo_pcs w j)
      (w\<lparr>mutexes := (mutexes w)(philo_name j := (if mutexes w (philo_name j) = None then None else Some False))\<rparr>))"
    using w by (auto simp: unlock_def setState_def render_def update_philo_def goto_def split: option.split)
  show ?thesis unfolding t u by (rule inv_set [OF inv j p _ peace])
next
  case False
  then have "test j w = w" unfolding test_def by (rule if_not_P)
  then show ?thesis using inv by simp
qed

lemma goto_commutes:
  "setState j x (goto i p w) = goto i p (setState j x w)" "test j (goto i p w) = goto i p (test j w)"
  "signal c (goto i p w) = goto i p (signal c w)" "goto i p (w\<lparr>holder := h\<rparr>) = goto i p w\<lparr>holder := h\<rparr>"
  by (auto simp: goto_def setState_def update_philo_def render_def test_def unlock_def signal_def philosopher_at_def
      eats_def Let_def split: option.splits list.splits)

lemma test_fields [simp]:
  "philosopherCount (test i w) = philosopherCount w" "philo_pcs (test i w) = philo_pcs w"
  "main_at (test i w) = main_at w"
  by (auto simp: test_def unlock_def Let_def split: option.split)

lemma inv_place: "philo_inv w \<Longrightarrow> philo_pcs w i \<noteq> Gone \<Longrightarrow> i < philosopherCount w \<and>
    place_ok (philo_pcs w i) (states w i) (mutexes w (philo_name i)) (p_die (philo_array w ! i))"
  by (simp add: philo_inv_def shape_ok_def places_ok_def)

lemma inv_calm:
  assumes "philo_inv w" "philo_pcs w i \<noteq> Gone" "x \<noteq> EATING"
    "place_ok p x (mutexes w (philo_name i)) (p_die (philo_array w ! i))"
  shows "philo_inv (setState i x (goto i p w))" "i < philosopherCount w"
  using assms inv_setState [of w i p x] peaceful_calm inv_place [of w i] by (auto simp: philo_inv_def)

lemma inv_take_forks:
  assumes "philo_inv w" "philo_pcs w i = Take_forks"
  shows "philo_inv (take_forks i w)"
proof -
  have "place_ok Wait_forks HUNGRY (mutexes w (philo_name i)) (p_die (philo_array w ! i))"
    using inv_place [of w i] assms by (simp add: place_ok_def)
  then have "philo_inv (test i (setState i HUNGRY (goto i Wait_forks w)))"
    using inv_calm [of w i HUNGRY Wait_forks] assms by (intro inv_test) (auto simp: goto_def)
  then show ?thesis by (simp add: take_forks_def Let_def goto_commutes)
qed

lemma inv_put_forks:
  assumes "philo_inv w" "philo_pcs w i = Put_forks"
  shows "philo_inv (put_forks i w)"
proof -
  have "place_ok Thinking THINKING (mutexes w (philo_name i)) (p_die (philo_array w ! i))"
    using inv_place [of w i] assms by (simp add: place_ok_def)
  then have w1: "philo_inv (setState i THINKING (goto i Thinking w))" "i < philosopherCount w"
    using inv_calm [of w i THINKING Thinking] assms by auto
  have "LEFT i (philosopherCount w) < philosopherCount w" "RIGHT i (philosopherCount w) < philosopherCount w"
    using ring_index [OF w1(2)] by auto
  moreover obtain c1 c2 where "put_forks i w = signal c2 (test (RIGHT i (philosopherCount w)) (signal c1
      (test (LEFT i (philosopherCount w)) (setState i THINKING (goto i Thinking w)))))\<lparr>holder := None\<rparr>"
    by (simp add: put_forks_def Let_def goto_commutes)
  ultimately show ?thesis using w1(1) by (simp add: inv_test goto_def)
qed

lemma inv_main:
  assumes "philo_inv w" "\<And>r. main_at w \<noteq> Wait_removed r (philosopherCount w)"
  shows "philo_inv (w\<lparr>main_at := m\<rparr>)"
  using assms by (auto simp: inv_defs)

lemma inv_die_loop:
  assumes inv: "philo_inv w" and pc: "philo_pcs w i = Wait_die"
  shows "philo_inv (should_die_loop i w)"
proof (cases "eats (LEFT i (philosopherCount w)) w \<and> eats (RIGHT i (philosopherCount w)) w")
  case True
  have "goto i Wait_die (wait_on (Philo i) c w) = wait_on (Philo i) c w" for c
    using pc by (simp add: goto_def fun_upd_idem)
  then show ?thesis using True inv by (simp add: should_die_loop_def)
next
  case False
  have i: "i < philosopherCount w" and "p_die (philo_array w ! i) \<noteq> 0"
    using inv_place [OF inv, of i] pc by (auto simp: place_ok_def)
  then obtain n where n: "philosopherCount w = Suc n" "i = n"
    using inv by (auto simp: philo_inv_def marks_ok_def marked_def)
  have m: "mut (philosopher_at i w) = philo_name i" "n < 16" "length (philo_array w) = 16"
    using inv n by (auto simp: philo_inv_def shape_ok_def philosopher_at_def)
  define v where "v = goto i Gone (close_mutex (philo_name i) ((update_philo i (\<lambda>d. d\<lparr>p_die := 0\<rparr>) w)\<lparr>philosopherCount := n\<rparr>))"
  have st: "states v = states w"
    using m n by (auto simp: v_def states_def goto_def close_mutex_def update_philo_def nth_list_update fun_eq_iff)
  have "peaceful n (states w)"
    using peaceful_remove [of n "states w"] inv False n by (simp add: philo_inv_def eats_def philosopher_at_def states_def)
  moreover have "shape_ok v"
    using inv n m by (auto simp: v_def goto_def close_mutex_def update_philo_def philo_inv_def shape_ok_def nth_list_update less_Suc_eq)
  moreover have "places_ok v"
    unfolding places_ok_def st using inv n m
    by (auto simp: v_def goto_def close_mutex_def update_philo_def philo_inv_def places_ok_def philo_name_eq)
  moreover have "p_die (philo_array w ! j) = 0" if "j < n" for j
    using inv n(1) that by (auto simp: philo_inv_def marks_ok_def marked_def dest!: spec [of _ j])
  then have "marks_ok v" using n by (simp add: v_def goto_def close_mutex_def update_philo_def marks_ok_def marked_def)
  moreover have "frames_ok v" using inv by (simp add: v_def goto_def close_mutex_def update_philo_def philo_inv_def frames_ok_def)
  moreover have "philosopherCount v = n" by (simp add: v_def goto_def close_mutex_def update_philo_def)
  ultimately have "philo_inv v" by (simp add: philo_inv_def st)
  moreover have "should_die_loop i w = signal MODIFY_COND_NAME (render (close_condition (cond_die (philosopher_at i w)) v))\<lparr>holder := None\<rparr>"
    using False n m by (auto simp: should_die_loop_def v_def Let_def goto_def close_condition_def close_mutex_def
        render_def update_philo_def signal_def split: option.split list.split)
  ultimately show ?thesis by (simp add: inv_render)
qed

lemma inv_goto:
  assumes "philo_inv w" "philo_pcs w i \<noteq> Gone" "place_ok p (states w i) (mutexes w (philo_name i)) (p_die (philo_array w ! i))"
  shows "philo_inv (goto i p w)"
proof -
  have "shape_ok (goto i p w)" using assms by (auto simp: philo_inv_def shape_ok_def goto_def)
  moreover have "places_ok (goto i p w)" using assms by (auto simp: philo_inv_def places_ok_def goto_def states_def)
  moreover have "marks_ok (goto i p w)" using assms by (auto simp: philo_inv_def marks_ok_def goto_def marked_def)
  ultimately show ?thesis using assms(1) by (simp add: philo_inv_def frames_ok_def goto_def states_def)
qed

lemma goto_goto:
  "goto i p (wait_on a c (goto i q w)) = goto i p (wait_on a c w)" "goto i p (goto i q w) = goto i p w"
  "update_philo i f (goto i q w) = goto i q (update_philo i f w)"
  "(goto i q w)\<lparr>philosopherCount := n\<rparr> = goto i q (w\<lparr>philosopherCount := n\<rparr>)"
  "close_mutex c (goto i q w) = goto i q (close_mutex c w)"
  "close_condition c (goto i q w) = goto i q (close_condition c w)" "render (goto i q w) = goto i q (render w)"
  "(goto i q w)\<lparr>holder := h\<rparr> = goto i q (w\<lparr>holder := h\<rparr>)"
  by (cases w; auto simp: goto_def wait_on_def update_philo_def close_mutex_def close_condition_def render_def
      split: option.split)+

lemma die_loop_goto: "should_die_loop i (goto i q w) = should_die_loop i w"
proof -
  have "philosopher_at k (goto i q w) = philosopher_at k w" "eats k (goto i q w) = eats k w"
    "philosopherCount (goto i q v) = philosopherCount v" for k v
    by (simp_all add: philosopher_at_def eats_def goto_def)
  then show ?thesis by (simp add: should_die_loop_def Let_def goto_goto goto_commutes(3))
qed

lemma inv_should_die:
  assumes inv: "philo_inv w" and pc: "philo_pcs w i = Ask_die"
  shows "philo_inv (should_die i w)"
proof (cases "p_die (philosopher_at i w) = 0")
  case True
  have "place_ok Take_forks (states w i) (mutexes w (philo_name i)) (p_die (philo_array w ! i))"
    using inv_place [OF inv, of i] pc by (simp add: place_ok_def)
  then have "philo_inv (goto i Take_forks w)" using inv pc by (intro inv_goto) auto
  then show ?thesis using True by (simp add: should_die_def goto_commutes)
next
  case False
  then have "place_ok Wait_die DYING (mutexes w (philo_name i)) (p_die (philo_array w ! i))"
    using inv_place [OF inv, of i] pc by (simp add: place_ok_def philosopher_at_def)
  then have "philo_inv (setState i DYING (goto i Wait_die w))" using inv_calm inv pc by auto
  then have "philo_inv (should_die_loop i (setState i DYING (goto i Wait_die w)))"
    by (rule inv_die_loop) (simp add: goto_def)
  moreover have "should_die_loop i (setState i DYING (goto i Wait_die w)) = should_die_loop i (setState i DYING w)"
    unfolding goto_commutes(1) by (rule die_loop_goto)
  ultimately show ?thesis using False by (simp add: should_die_def)
qed

lemma no_marks:
  assumes "philo_inv w" "\<And>r. main_at w \<noteq> Wait_removed r (philosopherCount w)" "i < philosopherCount w"
  shows "p_die (philo_array w ! i) = 0"
  using assms by (auto simp: philo_inv_def marks_ok_def marked_def)

lemma inv_add:
  assumes inv: "philo_inv w" and at: "main_at w = Adding k" and add: "add_philosopher new_pid w = Some w'"
  shows "philo_inv w' \<and> main_at w' = Adding k"
proof (cases "philosopherCount w < 16")
  case False
  then show ?thesis using add inv at by (auto simp: add_philosopher_def MAX_PHILOSOPHERS_def)
next
  case True
  define n where "n = philosopherCount w"
  define p where "p = (if new_pid = -1 then Gone else Thinking)"
  define d where "d = (philo_array w ! n)\<lparr>p_die := 0, mut := philo_name n, cond_die := philo_name n, p_state := THINKING, p_pid := new_pid\<rparr>"
  define v where "v = w\<lparr>philosopherCount := Suc n, philo_array := (philo_array w)[n := d],
      mutexes := (mutexes w)(philo_name n \<mapsto> True), philo_pcs := (philo_pcs w)(n := p)\<rparr>"
  have len: "length (philo_array w) = 16" "n < 16" using inv True by (auto simp: philo_inv_def shape_ok_def n_def)
  have st: "states v = (states w)(n := THINKING)"
    using len by (auto simp: v_def d_def states_def nth_list_update fun_eq_iff)
  have "shape_ok v"
    using inv len by (auto simp: v_def d_def philo_inv_def shape_ok_def nth_list_update less_Suc_eq n_def p_def)
  moreover have "places_ok v"
    unfolding places_ok_def st using inv len
    by (auto simp: v_def d_def philo_inv_def places_ok_def nth_list_update less_Suc_eq n_def philo_name_eq p_def place_ok_def)
  moreover have "p_die (philo_array v ! i) = 0" if "i < Suc n" for i
    using that no_marks [OF inv, of i] at len by (auto simp: v_def d_def n_def nth_list_update less_Suc_eq)
  then have "marks_ok v" by (simp add: marks_ok_def marked_def v_def)
  moreover have "peaceful (Suc n) (states v)" unfolding st using inv by (intro peaceful_add) (simp add: philo_inv_def n_def)
  moreover have "frames_ok v" using inv by (simp add: v_def philo_inv_def frames_ok_def)
  ultimately have "philo_inv v" by (simp add: philo_inv_def v_def)
  moreover have "w' = open_condition (philo_name n) v\<lparr>holder := None\<rparr>"
    using add True by (auto simp: add_philosopher_def MAX_PHILOSOPHERS_def v_def d_def p_def n_def [symmetric] Let_def
        update_philo_def open_condition_def goto_def split: if_splits option.splits)
  moreover have "main_at (open_condition c v) = Adding k" for c
    using at by (auto simp: open_condition_def v_def split: option.split)
  ultimately show ?thesis by simp
qed

lemma inv_after_removal:
  assumes "philo_inv w" "\<And>r. main_at w \<noteq> Wait_removed r (philosopherCount w)"
  shows "philo_inv (after_removal rest w)"
  using inv_main [OF assms] by (simp add: after_removal_def release_resources_def split: option.split)

lemma inv_remove_loop:
  assumes inv: "philo_inv w" and at: "main_at w = Wait_removed r n"
  shows "philo_inv (remove_loop r n w)"
proof (cases "n = philosopherCount w")
  case True
  have "w\<lparr>main_at := Wait_removed r n\<rparr> = w" using at by simp
  then show ?thesis using True inv by (simp add: remove_loop_def)
next
  case False
  then show ?thesis
    using inv at by (simp add: remove_loop_def inv_after_removal)
qed

lemma inv_remove:
  assumes inv: "philo_inv w" and at: "main_at w = Removing r"
  shows "philo_inv (remove_philosopher r w)"
proof (cases "philosopherCount w")
  case 0
  then show ?thesis using inv at by (simp add: remove_philosopher_def inv_after_removal)
next
  case (Suc n)
  define v where "v = (update_philo n (\<lambda>d. d\<lparr>p_die := 1\<rparr>) w)\<lparr>main_at := Wait_removed r (Suc n)\<rparr>"
  have len: "length (philo_array w) = 16" "n < 16" using inv Suc by (auto simp: philo_inv_def shape_ok_def)
  have st: "states v = states w"
    using len by (auto simp: v_def update_philo_def states_def nth_list_update fun_eq_iff)
  have "shape_ok v" using inv len by (auto simp: v_def update_philo_def philo_inv_def shape_ok_def nth_list_update)
  moreover have "places_ok v"
    unfolding places_ok_def st using inv len
    by (auto simp: v_def update_philo_def philo_inv_def places_ok_def nth_list_update place_ok_def split: philo_pc.splits)
  moreover have "marks_ok v"
    using no_marks [OF inv] at len Suc
    by (auto simp: v_def update_philo_def marks_ok_def marked_def nth_list_update less_Suc_eq split: if_splits)
  moreover have "frames_ok v" using inv by (simp add: v_def update_philo_def philo_inv_def frames_ok_def)
  ultimately have "philo_inv v" using inv by (simp add: philo_inv_def st) (simp add: v_def update_philo_def)
  then have "philo_inv (remove_loop r (Suc n) v)" by (rule inv_remove_loop) (simp add: v_def)
  moreover have "remove_philosopher r w = remove_loop r (Suc n) v"
    using Suc by (simp add: remove_philosopher_def remove_loop_def v_def update_philo_def)
  ultimately show ?thesis by simp
qed

lemma inv_remove_one:
  assumes "philo_inv w" "i < philosopherCount w"
  shows "philo_inv (remove_one i w)" "philosopherCount (remove_one i w) = philosopherCount w" "main_at (remove_one i w) = main_at w"
proof -
  have gone: "p_pid (philo_array w ! i) = -1 \<Longrightarrow> philo_pcs w i = Gone" and m: "mut (philosopher_at i w) = philo_name i"
    and len: "i < 16" "philosopherCount w \<le> 16"
    using assms by (auto simp: philo_inv_def shape_ok_def philosopher_at_def)
  define v where "v = goto i Gone (w\<lparr>mutexes := (mutexes w)(philo_name i := None)\<rparr>)"
  have "shape_ok v" using assms by (auto simp: philo_inv_def shape_ok_def v_def goto_def)
  moreover have "places_ok v"
    using assms len by (auto simp: philo_inv_def places_ok_def v_def goto_def states_def philo_name_eq place_ok_def)
  moreover have "marks_ok v" using assms by (auto simp: philo_inv_def marks_ok_def v_def goto_def marked_def)
  ultimately have "philo_inv v" using assms(1) by (simp add: philo_inv_def frames_ok_def v_def goto_def states_def)
  moreover have "remove_one i w = close_condition (cond_die (philosopher_at i w)) v"
    using gone m by (cases w) (auto simp: remove_one_def v_def close_mutex_def goto_def philosopher_at_def Let_def fun_upd_idem)
  ultimately show "philo_inv (remove_one i w)" "philosopherCount (remove_one i w) = philosopherCount w"
    "main_at (remove_one i w) = main_at w" by (simp_all add: v_def goto_def)
qed

lemma inv_remove_all:
  assumes "philo_inv w" "main_at w = Ending"
  shows "philo_inv (remove_all_philosophers w)"
proof -
  have "philo_inv (fold remove_one is w) \<and> main_at (fold remove_one is w) = Ending"
    if "set is \<subseteq> {..<philosopherCount w}" for "is"
    using that assms
  proof (induction "is" arbitrary: w)
    case (Cons i "is")
    then show ?case using inv_remove_one [of w i] by simp
  qed simp
  from this [of "[0..<philosopherCount w]"]
  have "philo_inv (fold remove_one [0..<philosopherCount w] w)" "main_at (fold remove_one [0..<philosopherCount w] w) = Ending"
    by (auto simp: atLeast0LessThan [symmetric])
  then show ?thesis by (simp add: remove_all_philosophers_def release_resources_def inv_main)
qed

lemma inv_forks:
  assumes inv: "philo_inv w" and pc: "philo_pcs w i = Wait_forks" "mutexes w (mut (philosopher_at i w)) = Some False"
  shows "philo_inv (goto i Eating (w\<lparr>mutexes := (mutexes w)(mut (philosopher_at i w) \<mapsto> True)\<rparr>))"
proof -
  have n: "philosopherCount w \<le> 16" using inv by (simp add: philo_inv_def shape_ok_def)
  have c: "i < philosopherCount w" using inv_place [OF inv, of i] pc(1) by simp
  with n inv have i: "i < philosopherCount w" "mut (philosopher_at i w) = philo_name i" "i < 16" "philosopherCount w \<le> 16"
    by (simp_all add: philo_inv_def shape_ok_def philosopher_at_def)
  then have e: "states w i = EATING" using inv_place [OF inv, of i] pc by (auto simp: place_ok_def)
  define v where "v = goto i Eating (w\<lparr>mutexes := (mutexes w)(philo_name i \<mapsto> True)\<rparr>)"
  have "p_pid (philo_array w ! i) \<noteq> -1"
  proof
    assume "p_pid (philo_array w ! i) = -1"
    with inv c have "philo_pcs w i = Gone" by (simp add: philo_inv_def shape_ok_def)
    with pc(1) show False by simp
  qed
  then have "shape_ok v" using inv pc(1) by (auto simp: philo_inv_def shape_ok_def v_def goto_def)
  moreover have "places_ok v"
    using inv i e by (auto simp: philo_inv_def places_ok_def v_def goto_def states_def philo_name_eq place_ok_def)
  moreover have "marks_ok v" using inv by (auto simp: philo_inv_def marks_ok_def v_def goto_def marked_def)
  ultimately have "philo_inv v" using inv by (simp add: philo_inv_def frames_ok_def v_def goto_def states_def)
  then show ?thesis using i(2) by (simp add: v_def)
qed

lemma inv_command:
  assumes "philo_inv w" "main_at w = Listening"
  shows "philo_inv (listen_commands c w)"
  using assms by (simp add: listen_commands_def pause_philosophers_def slow_die_def release_resources_def inv_main)

lemma inv_step:
  assumes inv: "philo_inv w" and step: "philo_step a w = Some w'"
  shows "philo_inv w'"
proof (cases a)
  case (Awake i)
  then show ?thesis using inv step inv_place [OF inv, of i]
    by (auto split: philo_pc.splits intro!: inv_goto simp: place_ok_def)
next
  case (Enter b)
  then show ?thesis using inv step by (auto split: if_splits)
next
  case (Critical b)
  show ?thesis
  proof (cases b)
    case Main
    then show ?thesis using inv step Critical
      by (auto split: if_splits main_pc.splits intro: inv_remove inv_remove_loop inv_main inv_remove_all)
  next
    case (Philo i)
    then show ?thesis using inv step Critical
      by (auto split: if_splits philo_pc.splits intro: inv_should_die inv_die_loop inv_take_forks inv_put_forks)
  qed
next
  case (Forks i)
  then have pc: "philo_pcs w i = Wait_forks" using step by (simp split: if_splits)
  then have i: "i < philosopherCount w" "mutexes w (philo_name i) \<noteq> None"
    using inv_place [OF inv, of i] by (auto simp: place_ok_def)
  moreover have "mut (philosopher_at i w) = philo_name i"
    using inv i(1) by (simp add: philo_inv_def shape_ok_def philosopher_at_def)
  ultimately show ?thesis using Forks step inv_forks [OF inv pc] by (auto split: if_splits bool.splits)
next
  case (Created pid)
  then obtain k v where "main_at w = Adding k" "add_philosopher pid w = Some v"
      "w' = v\<lparr>main_at := (if k = 0 then Listening else Adding (k - 1))\<rparr>"
    using step by (cases "main_at w") (auto split: if_splits)
  then show ?thesis using inv_add [OF inv, of k pid v] by (simp add: inv_main)
next
  case (Command c)
  then show ?thesis using inv step by (auto split: if_splits intro: inv_command)
qed

lemma reach_inv: "philo_reach graphic n w \<Longrightarrow> philo_inv w"
proof (induction rule: philo_reach.induct)
  case start
  then show ?case
    by (simp add: start_philosophers_problem_def inv_defs MAX_PHILOSOPHERS_def peaceful_def Let_def)
next
  case (step w a w')
  then show ?case using inv_step by blast
qed

section \<open>What the philosophers guarantee\<close>

definition eating_now :: "philo_world \<Rightarrow> nat \<Rightarrow> bool" where
  "eating_now w i \<longleftrightarrow> philo_pcs w i = Eating \<or> philo_pcs w i = Put_forks"

lemma run_reach: "philo_run as w = Some w' \<Longrightarrow> philo_reach graphic n w \<Longrightarrow> philo_reach graphic n w'"
  by (induction "as" arbitrary: w) (auto split: Option.bind_splits intro: philo_reach.step)

text \<open>A meal: the philosopher wakes up, is not asked to die and reaches for the forks.\<close>

definition sits_down :: "nat \<Rightarrow> action list" where
  "sits_down i = [Awake i, Enter (Philo i), Critical (Philo i), Enter (Philo i), Critical (Philo i)]"

definition gets_up :: "nat \<Rightarrow> action list" where
  "gets_up i = [Awake i, Enter (Philo i), Critical (Philo i)]"

text \<open>Three philosophers are added one after the other; the pids are arbitrary.\<close>

definition table_of_three :: "action list" where
  "table_of_three = [Enter Main, Created 10, Enter Main, Created 11, Enter Main, Created 12]"

text \<open>
  C22. No two neighbours ever eat together: in every state the processes can reach, whatever is
  added, removed or paused, of two philosophers beside each other round the table at most one is
  behind its private mutex, and nobody drawn as eating sits beside another one drawn as eating.
\<close>

theorem neighbours_never_eat:
  assumes "philo_reach graphic n w" "i < philosopherCount w" "j = RIGHT i (philosopherCount w)" "i \<noteq> j"
  shows "\<not> (eating_now w i \<and> eating_now w j) \<and> list_all (\<lambda>f. peaceful (length f) (nth f)) (frames w)"
proof -
  have inv: "philo_inv w" by (rule reach_inv [OF assms(1)])
  have "states w k = EATING" if "eating_now w k" for k
    using inv_place [OF inv, of k] that by (auto simp: eating_now_def place_ok_def)
  moreover have "\<not> (states w i = EATING \<and> states w j = EATING)"
    using inv assms(2-4) by (auto simp: philo_inv_def peaceful_def)
  ultimately show ?thesis using inv by (auto simp: philo_inv_def frames_ok_def list_all_iff)
qed

definition reaches :: "action list \<Rightarrow> (philo_world \<Rightarrow> bool) \<Rightarrow> bool" where
  "reaches as P = (case philo_run as (start_philosophers_problem False 3) of None \<Rightarrow> False | Some w \<Rightarrow> P w)"

lemma reaches_world:
  assumes "reaches as P"
  obtains w where "philo_reach False 3 w" "P w"
  using assms run_reach [of "as" "start_philosophers_problem False 3" _ False 3] philo_reach.start [of False 3]
  by (auto simp: reaches_def split: option.splits)

theorem neighbours_never_eat_witness:
  "\<exists>w. eating_now w 0 \<and> philo_pcs w 1 = Wait_forks \<and> \<not> (eating_now w 0 \<and> eating_now w 1) \<and> length (frames w) = 3"
proof -
  have "reaches (table_of_three @ sits_down 0 @ [Forks 0] @ sits_down 1)
      (\<lambda>w. eating_now w 0 \<and> philo_pcs w 1 = Wait_forks \<and> philosopherCount w = 3 \<and> length (frames w) = 3)"
    by code_simp
  then obtain w where w: "philo_reach False 3 w" "eating_now w 0" "philo_pcs w 1 = Wait_forks" "philosopherCount w = 3"
    "length (frames w) = 3" by (rule reaches_world) auto
  have "\<not> (eating_now w 0 \<and> eating_now w 1)"
    using neighbours_never_eat [OF w(1), of 0 1] w(4) by (simp add: RIGHT_def)
  then show ?thesis using w by blast
qed

text \<open>
  A philosopher who sits down between two others can make a hungry one wait for nobody:
  with three at the table, 2 waits for 0; a fourth is added between them and 0 gets up, which
  asks only its new neighbours. Now 2 waits behind its locked private mutex although nobody eats.
\<close>

theorem hungry_forgotten:
  "\<exists>w. philo_reach False 3 w \<and> philosopherCount w = 4 \<and> map (states w) [0..<4] = [THINKING, THINKING, HUNGRY, THINKING] \<and>
     philo_pcs w 2 = Wait_forks \<and> mutexes w (philo_name 2) = Some True \<and> holder w = None"
proof -
  have "reaches (table_of_three @ sits_down 0 @ [Forks 0] @ sits_down 2 @ [Command CHR ''w'', Enter Main, Created 13] @ gets_up 0)
      (\<lambda>w. philosopherCount w = 4 \<and> map (states w) [0..<4] = [THINKING, THINKING, HUNGRY, THINKING] \<and>
         philo_pcs w 2 = Wait_forks \<and> mutexes w (philo_name 2) = Some True \<and> holder w = None)"
    by code_simp
  then obtain w where "philo_reach False 3 w" and "philosopherCount w = 4 \<and>
      map (states w) [0..<4] = [THINKING, THINKING, HUNGRY, THINKING] \<and> philo_pcs w 2 = Wait_forks \<and>
      mutexes w (philo_name 2) = Some True \<and> holder w = None" by (rule reaches_world)
  then show ?thesis by (intro exI [of _ w] conjI) simp_all
qed

end
