(* ===== verification/UserReports.thy ===== *)
theory UserReports
  imports SystemCalls Stdio Philosophers
begin

text \<open>
  \<open>Userland/SampleCodeModule\<close>: \<open>process_info.c\<close> and \<open>ipc_info.c\<close>, which turn the tables the kernel
  reports into text, and the text half of \<open>philosophersGUI.c\<close>. The records of processes, mutexes,
  conditions and fifos are those the system calls deliver.
\<close>

section \<open>The line of a process\<close>

definition MAX_PROCESS_STRING :: nat where "MAX_PROCESS_STRING = 256"
definition SEPARATOR :: byte where "SEPARATOR = 32"
definition state :: "byte list list" where "state = map bytes [''RUNNING'', ''READY'', ''BLOCKED'']"

text \<open>
  The line grows in a buffer of \<open>MAX_PROCESS_STRING\<close> bytes; its length is the index \<open>i\<close> of the code.
  \<open>store_byte\<close> is \<open>buffer[i++] = c\<close>, \<open>store_text\<close> a copy with its terminator; both are undefined
  outside the buffer.
\<close>

definition store_byte :: "byte list \<Rightarrow> byte \<Rightarrow> byte list option" where
  "store_byte str c = (if length str < MAX_PROCESS_STRING then Some (str @ [c]) else None)"

definition store_text :: "byte list \<Rightarrow> byte list \<Rightarrow> byte list option" where
  "store_text str t = (if length (str @ t) < MAX_PROCESS_STRING then Some (str @ t) else None)"

definition store_number :: "byte list \<Rightarrow> nat \<Rightarrow> int \<Rightarrow> byte list option" where
  "store_number str n base = Option.bind (itoa (of_nat n) base) (\<lambda>(s, len). store_text str (cstr s))"

definition strcpysep :: "byte list \<Rightarrow> byte list \<Rightarrow> byte \<Rightarrow> byte list option" where
  "strcpysep str source separator = Option.bind (store_text str source) (\<lambda>str. store_text str [separator])"

definition has_mem_pages :: "process_info \<Rightarrow> bool option" where
  "has_mem_pages p = map_option (\<lambda>a. a \<noteq> NULL) (peek_at (mem_pages p) 0)"

text \<open>The loop over the pages; reading on behind the array is undefined.\<close>

fun store_pages :: "addr list \<Rightarrow> byte list \<Rightarrow> byte list option" where
  "store_pages [] str = None"
| "store_pages (a # as) str =
     (if a = NULL then Some str
      else Option.bind (store_number str a 16) (\<lambda>str.
           case as of
             [] \<Rightarrow> None
           | b # _ \<Rightarrow>
               if b \<noteq> NULL then Option.bind (store_byte str 44) (\<lambda>str. Option.bind (store_byte str 32) (store_pages as))
               else store_pages as str))"

definition process_string :: "process_info \<Rightarrow> byte list option" where
  "process_string p =
     Option.bind (store_number [] (pi_pid p) 10) (\<lambda>str.
     Option.bind (store_byte str SEPARATOR) (\<lambda>str.
     Option.bind (strcpysep str (pi_name p) SEPARATOR) (\<lambda>str.
     Option.bind (strcpysep str (bytes ''PPID'') SEPARATOR) (\<lambda>str.
     Option.bind (store_number str (pi_ppid p) 10) (\<lambda>str.
     Option.bind (store_byte str SEPARATOR) (\<lambda>str.
     Option.bind (strcpysep str (bytes (if is_foreground p \<noteq> 0 then ''foreground'' else ''background'')) SEPARATOR) (\<lambda>str.
     Option.bind (peek_at state (nat (pi_st p))) (\<lambda>x.
     Option.bind (strcpysep str x SEPARATOR) (\<lambda>str.
     Option.bind (strcpysep str (bytes ''Stack Address: '') SEPARATOR) (\<lambda>str.
     Option.bind (store_number str (stack_address p) 16) (\<lambda>str.
     Option.bind (store_byte str SEPARATOR) (\<lambda>str.
     Option.bind (has_mem_pages p) (\<lambda>pages.
     Option.bind
       (if pages
        then Option.bind (strcpysep str (bytes ''Memory Address: '') SEPARATOR) (store_pages (mem_pages p))
        else Some str) (\<lambda>str.
     store_text str []))))))))))))))"

section \<open>The tables of mutexes, conditions and fifos\<close>

definition say :: "string \<Rightarrow> fmt_arg list \<Rightarrow> stdio \<Rightarrow> stdio option" where
  "say format args s = map_option snd (printf (cstring format) args s)"

definition newline :: string where "newline = [CHR 0x0A]"

text \<open>An entry is printed with its name and integers; the list stops where an output is undefined.\<close>

primrec say_all :: "string \<Rightarrow> fmt_arg list list \<Rightarrow> stdio \<Rightarrow> stdio option" where
  "say_all format [] s = Some s"
| "say_all format (as # rest) s = Option.bind (say format as s) (say_all format rest)"

definition print_conds_info :: "cond_info list \<Rightarrow> stdio \<Rightarrow> stdio option" where
  "print_conds_info info s =
     Option.bind (say ('' - Open Condition Variables -'' @ newline) [] s) (\<lambda>s.
     Option.bind (say_all (''%s - Key: %d'' @ newline)
       (map (\<lambda>e. [Str_arg (ci_name e @ [0]), Int_arg (word_of_int (ci_key e))]) info) s) (\<lambda>s.
     Some (putchar 10 s)))"

definition print_mutexes_info :: "mutex_info list \<Rightarrow> stdio \<Rightarrow> stdio option" where
  "print_mutexes_info info s =
     Option.bind (say ('' - Open Mutexes -'' @ newline) [] s) (\<lambda>s.
     Option.bind (say_all (''%s - Key: %d - State: %s'' @ newline)
       (map (\<lambda>e. [Str_arg (mi_name e @ [0]), Int_arg (word_of_int (mi_key e)),
          Str_arg (cstring (if mi_locked e \<noteq> 0 then ''UNLOCKED'' else ''LOCKED''))]) info) s) (\<lambda>s.
     Some (putchar 10 s)))"

definition print_fifos_info :: "fifo_info list \<Rightarrow> stdio \<Rightarrow> stdio option" where
  "print_fifos_info info s =
     Option.bind (say ('' - Open FIFOs -'' @ newline) [] s) (\<lambda>s.
     Option.bind (say_all (''%s - File Descriptor: %d'' @ newline)
       (map (\<lambda>e. [Str_arg (fi_name e @ [0]), Int_arg (word_of_int (fi_fds e))]) info) s) (\<lambda>s.
     Some (putchar 10 s)))"

definition print_ipc_info :: "cond_info list \<Rightarrow> mutex_info list \<Rightarrow> fifo_info list \<Rightarrow> stdio \<Rightarrow> stdio option" where
  "print_ipc_info cs ms fs s =
     Option.bind (print_conds_info cs s) (\<lambda>s. Option.bind (print_mutexes_info ms s) (print_fifos_info fs))"

section \<open>The philosophers as text\<close>

definition stateStrings :: "philo_state \<Rightarrow> string" where
  "stateStrings x = (case x of THINKING \<Rightarrow> ''THINKING'' | HUNGRY \<Rightarrow> ''HUNGRY'' | EATING \<Rightarrow> ''EATING'' | DYING \<Rightarrow> ''DYING'')"

definition renderText :: "philosopher_data list \<Rightarrow> stdio \<Rightarrow> stdio option" where
  "renderText philos s =
     (if philos = [] then say (''There are no philosophers left'' @ newline) [] s
      else map_option (putchar 10)
             (say_all (''Philosopher %d: %s'' @ newline)
               (map (\<lambda>(i, d). [Int_arg (of_nat i), Str_arg (cstring (stateStrings (p_state d)))]) (enumerate 0 philos)) s))"

definition get_state_color :: "philo_state \<Rightarrow> int \<times> int \<times> int" where
  "get_state_color x =
     (case x of EATING \<Rightarrow> (255, 0, 0) | HUNGRY \<Rightarrow> (255, 187, 0) | THINKING \<Rightarrow> (112, 142, 224) | DYING \<Rightarrow> (25, 25, 25))"

section \<open>The record of a process in memory\<close>

text \<open>
  The record a program finds at an address: \<open>struct process_info_c\<close> of \<open>include/process_info.h\<close>, with the
  padding the compiler puts behind its two characters, and an array of 64 pages.
\<close>

definition read_process_info :: "memory \<Rightarrow> addr \<Rightarrow> process_info" where
  "read_process_info m a =
     \<lparr>is_foreground = sint (m a), pi_st = sint (m (a + 1)),
      pi_pid = unat (load64 m (a + 8)), pi_ppid = unat (load64 m (a + 16)),
      pi_name = cstr (memory_bytes m (a + 24) 64), stack_address = unat (load64 m (a + 88)),
      mem_pages = map (\<lambda>i. unat (load64 m (a + 96 + 8 * i))) [0..<64]\<rparr>"

definition stored_info :: "addr \<Rightarrow> process_info \<Rightarrow> memory \<Rightarrow> memory" where
  "stored_info a i m =
     (let m = store_bytes m a [word_of_int (is_foreground i), word_of_int (pi_st i)];
          m = store_bytes m (a + 8) (le_bytes 8 (pi_pid i));
          m = store_bytes m (a + 16) (le_bytes 8 (pi_ppid i));
          m = store_bytes m (a + 24) (pi_name i @ [0]);
          m = store_bytes m (a + 88) (le_bytes 8 (stack_address i))
      in store_bytes m (a + 96) (concat (map (le_bytes 8) (mem_pages i))))"

lemma write_process_info_run: "write_process_info a i t = Ret () (t\<lparr>umem := stored_info a i (umem t)\<rparr>)"
  by (simp add: write_process_info_def write_user_def stored_info_def Let_def)

lemma store_le_bytes: "store_bytes m a (le_bytes 8 v) = store64 m a (of_nat v)"
proof
  fix b
  have "(of_nat (v div 256 ^ i) :: byte) = ucast (drop_bit (8 * i) (of_nat v :: u64))" if "i < 8" for i
  proof (rule bit_word_eqI)
    fix k assume "k < LENGTH(8)"
    moreover have "v div 256 ^ i = drop_bit (8 * i) v" by (simp add: drop_bit_eq_div power_mult)
    ultimately show "bit (of_nat (v div 256 ^ i) :: byte) k = bit (ucast (drop_bit (8 * i) (of_nat v :: u64)) :: byte) k"
      using that by (simp add: bit_simps)
  qed
  then show "store_bytes m a (le_bytes 8 v) b = store64 m a (of_nat v) b"
    by (auto simp: store_bytes_def store64_def le_bytes_def)
qed

lemma store_bytes_append: "store_bytes m a (xs @ ys) = store_bytes (store_bytes m a xs) (a + length xs) ys"
  by (auto simp: store_bytes_def fun_eq_iff nth_append)

lemma store_le_words: "store_bytes m a (concat (map (le_bytes 8) vs)) = store_words m a (map of_nat vs)"
  by (induction vs arbitrary: m a) (simp_all add: store_bytes_append store_le_bytes, auto simp: store_bytes_def fun_eq_iff)

lemma store_bytes_other: "b < a \<or> a + length bs \<le> b \<Longrightarrow> store_bytes m a bs b = m b"
  by (auto simp: store_bytes_def)

lemma store64_other: "b < a \<or> a + 8 \<le> b \<Longrightarrow> store64 m a v b = m b"
  by (auto simp: store64_def)

lemma load64_other:
  "c + 8 \<le> a \<or> a + length bs \<le> c \<Longrightarrow> load64 (store_bytes m a bs) c = load64 m c"
  "c + 8 \<le> a \<or> a + 8 * length ws \<le> c \<Longrightarrow> load64 (store_words m a ws) c = load64 m c"
  by (intro load64_cong; auto intro!: store_bytes_other store_words_other)+

lemma memory_bytes_cong: "(\<And>i. i < n \<Longrightarrow> m (a + i) = m' (a + i)) \<Longrightarrow> memory_bytes m a n = memory_bytes m' a n"
  by (simp add: memory_bytes_def)

text \<open>The two sides agree on the layout: what the kernel writes is what a program reads.\<close>

definition info_fits :: "process_info \<Rightarrow> bool" where
  "info_fits i \<longleftrightarrow> is_foreground i \<in> {0, 1} \<and> pi_st i \<in> {0, 1, 2} \<and> pi_pid i < 2 ^ 64 \<and> pi_ppid i < 2 ^ 64 \<and>
     stack_address i < 2 ^ 64 \<and> 0 \<notin> set (pi_name i) \<and> length (pi_name i) \<le> 63 \<and> length (mem_pages i) \<le> 64 \<and>
     (\<forall>p \<in> set (mem_pages i). p < 2 ^ 64)"

lemma read_stored_info:
  assumes "info_fits i"
  shows "\<exists>rest. read_process_info (stored_info a i m) a = i\<lparr>mem_pages := mem_pages i @ rest\<rparr>"
proof -
  define base where "base = store64 (store64 (store_bytes m a [word_of_int (is_foreground i), word_of_int (pi_st i)]) (a + 8)
    (of_nat (pi_pid i))) (a + 16) (of_nat (pi_ppid i))"
  define named where "named = store64 (store_bytes base (a + 24) (pi_name i @ [0])) (a + 88) (of_nat (stack_address i))"
  define m' where "m' = store_words named (a + 96) (map of_nat (mem_pages i))"
  have m': "stored_info a i m = m'"
    by (simp add: stored_info_def store_le_bytes store_le_words base_def named_def m'_def Let_def)
  have n: "length (pi_name i) \<le> 63" "0 \<notin> set (pi_name i)" "length (mem_pages i) \<le> 64" using assms by (auto simp: info_fits_def)
  have fg: "sint (m' a) = is_foreground i" "sint (m' (a + 1)) = pi_st i"
    using assms by (auto simp: m'_def named_def base_def store_words_other store64_other store_bytes_other info_fits_def,
      auto simp: store_bytes_def)
  have base: "load64 base (a + 8) = of_nat (pi_pid i)" "load64 base (a + 16) = of_nat (pi_ppid i)"
    by (simp_all add: base_def load64_store64_other)
  have "load64 m' (a + 8) = load64 base (a + 8)" "load64 m' (a + 16) = load64 base (a + 16)"
      "load64 m' (a + 88) = of_nat (stack_address i)"
    using n(1) by (simp_all add: m'_def named_def load64_other load64_store64_other)
  then have words: "unat (load64 m' (a + 8)) = pi_pid i" "unat (load64 m' (a + 16)) = pi_ppid i"
      "unat (load64 m' (a + 88)) = stack_address i"
    using assms base by (simp_all add: info_fits_def unat_of_nat)
  have "memory_bytes m' (a + 24) 64 = memory_bytes (store_bytes base (a + 24) (pi_name i @ [0])) (a + 24) 64"
    by (rule memory_bytes_cong) (simp add: m'_def named_def store_words_other store64_other)
  also have "\<dots> = (pi_name i @ [0]) @ drop (Suc (length (pi_name i))) (memory_bytes base (a + 24) 64)"
    using n(1) by (intro nth_equalityI) (auto simp: nth_append store_bytes_def not_less Suc_le_eq)
  finally have name: "cstr (memory_bytes m' (a + 24) 64) = pi_name i" using n(2) by simp
  have page: "unat (load64 m' (a + 96 + 8 * j)) = mem_pages i ! j" if "j < length (mem_pages i)" for j
    using that assms load_store_words [of j "map of_nat (mem_pages i)" named "a + 96"]
    by (simp add: m'_def info_fits_def unat_of_nat)
  let ?f = "\<lambda>j. unat (load64 m' (a + 96 + 8 * j))"
  have split: "[0..<64] = [0..<length (mem_pages i)] @ [length (mem_pages i)..<64]"
    using upt_add_eq_append [of 0 "length (mem_pages i)" "64 - length (mem_pages i)"] n(3) by simp
  have "map ?f [0..<length (mem_pages i)] = mem_pages i" by (rule nth_equalityI) (simp_all add: page)
  then have "map ?f [0..<64] = mem_pages i @ map ?f [length (mem_pages i)..<64]" unfolding split map_append by simp
  then have "read_process_info m' a = i\<lparr>mem_pages := mem_pages i @ map ?f [length (mem_pages i)..<64]\<rparr>"
    using fg words name
    by (intro process_info.equality) (simp_all add: read_process_info_def del: upt_rec_numeral)
  then show ?thesis unfolding m' by blast
qed

section \<open>What the line says\<close>

definition number_text :: "int \<Rightarrow> nat \<Rightarrow> byte list" where
  "number_text base n = (case itoa (of_nat n) base of None \<Rightarrow> [] | Some (s, len) \<Rightarrow> cstr s)"

fun page_texts :: "addr list \<Rightarrow> byte list" where
  "page_texts [] = []"
| "page_texts [a] = number_text 16 a"
| "page_texts (a # as) = number_text 16 a @ [44, 32] @ page_texts as"

definition process_line :: "process_info \<Rightarrow> addr list \<Rightarrow> byte list" where
  "process_line p pages =
     number_text 10 (pi_pid p) @ [32] @ pi_name p @ bytes '' PPID '' @ number_text 10 (pi_ppid p) @ [32] @
     bytes (if is_foreground p \<noteq> 0 then ''foreground '' else ''background '') @ state ! nat (pi_st p) @
     bytes '' Stack Address:  '' @ number_text 16 (stack_address p) @ [32] @
     (if pages = [] then [] else bytes ''Memory Address:  '' @ page_texts pages)"

text \<open>
  The continuations of \<open>process_string\<close> append a fixed text and fail exactly when it does not
  fit: every store that fits in between is followed by one that checks more.
\<close>

definition appends :: "(byte list \<Rightarrow> byte list option) \<Rightarrow> byte list \<Rightarrow> bool" where
  "appends f t \<longleftrightarrow> (\<forall>str. f str = (if length (str @ t) < MAX_PROCESS_STRING then Some (str @ t) else None))"

lemma appends_end: "appends (\<lambda>str. store_text str []) []"
  by (simp add: appends_def store_text_def)

lemma appends_text: "appends f u \<Longrightarrow> appends (\<lambda>str. Option.bind (store_text str t) f) (t @ u)"
  by (auto simp: appends_def store_text_def)

lemma appends_byte: "appends f u \<Longrightarrow> appends (\<lambda>str. Option.bind (store_byte str c) f) (c # u)"
  by (auto simp: appends_def store_byte_def)

lemma appends_sep: "appends f u \<Longrightarrow> appends (\<lambda>str. Option.bind (strcpysep str t c) f) (t @ c # u)"
  by (auto simp: appends_def strcpysep_def store_text_def Let_def)

lemma number_text:
  assumes "2 \<le> b" "b \<le> 16" "n < 2 ^ 31"
  shows "itoa (of_nat n) b = Some (number_text b n @ [0], length (number_text b n))" "0 \<notin> set (number_text b n)"
    and "0 < k \<Longrightarrow> int n < b ^ k \<Longrightarrow> length (number_text b n) \<le> k" "b ^ k \<le> int n \<Longrightarrow> k < length (number_text b n)"
proof -
  have n: "sint (of_nat n :: u32) = int n" using assms(3) by (simp add: signed_of_nat signed_take_bit_int_eq_self)
  obtain t where t: "itoa (of_nat n) b = Some (t @ [0], length t)" "0 \<notin> set t" "t \<noteq> []"
      "\<And>k. 0 < k \<Longrightarrow> sint (of_nat n :: u32) < b ^ k \<Longrightarrow> length t \<le> k" "\<And>k. b ^ k \<le> sint (of_nat n :: u32) \<Longrightarrow> k < length t"
    by (rule itoa_width [OF assms(1,2), of "of_nat n"]) (use n in auto)
  then have "number_text b n = t" by (simp add: number_text_def)
  then show "itoa (of_nat n) b = Some (number_text b n @ [0], length (number_text b n))" "0 \<notin> set (number_text b n)"
      "0 < k \<Longrightarrow> int n < b ^ k \<Longrightarrow> length (number_text b n) \<le> k" "b ^ k \<le> int n \<Longrightarrow> k < length (number_text b n)"
    using t n by auto
qed

lemma appends_number:
  assumes "appends f u" "2 \<le> b" "b \<le> 16" "n < 2 ^ 31"
  shows "appends (\<lambda>str. Option.bind (store_number str n b) f) (number_text b n @ u)"
  using appends_text [OF assms(1), of "number_text b n"] number_text(1,2) [OF assms(2-4)] by (simp add: store_number_def)

lemma appends_pages:
  assumes "appends f u" "\<forall>a \<in> set pages. 0 < a \<and> a < 2 ^ 31"
  shows "appends (\<lambda>str. Option.bind (store_pages (pages @ NULL # rest) str) f) (page_texts pages @ u)"
  using assms(2)
proof (induction pages rule: page_texts.induct)
  case 1
  then show ?case using assms(1) by simp
next
  case (2 a)
  then show ?case using appends_number [OF assms(1), of 16 a] by (simp add: bind_assoc)
next
  case (3 a b as)
  let ?f = "\<lambda>str. Option.bind (store_pages ((b # as) @ NULL # rest) str) f"
  have "appends ?f (page_texts (b # as) @ u)" using 3 by simp
  from appends_number [OF appends_byte [OF appends_byte [OF this]], of 16 a 44 32]
  have "appends (\<lambda>str. Option.bind (store_number str a 16) (\<lambda>str. Option.bind (store_byte str 44)
      (\<lambda>str. Option.bind (store_byte str 32) ?f))) (number_text 16 a @ 44 # 32 # page_texts (b # as) @ u)"
    using 3 by simp
  then show ?case using 3 by (simp add: bind_assoc)
qed

text \<open>
  \<open>process_string\<close> writes the line of a process, and exactly when that line is 255 characters
  long or shorter: a longer one overruns the buffer of its callers.
\<close>

lemma process_string_exact:
  assumes "pi_pid p < 2 ^ 31" "pi_ppid p < 2 ^ 31" "stack_address p < 2 ^ 31" "pi_st p \<in> {0, 1, 2}"
    and "mem_pages p = pages @ NULL # rest" "\<forall>a \<in> set pages. 0 < a \<and> a < 2 ^ 31"
  shows "process_string p = (if length (process_line p pages) < 256 then Some (process_line p pages) else None)"
proof -
  define x where "x = state ! nat (pi_st p)"
  define ground where "ground = bytes (if is_foreground p \<noteq> 0 then ''foreground'' else ''background'')"
  have x: "peek_at state (nat (pi_st p)) = Some x" using assms(4) by (auto simp: x_def peek_at_def state_def)
  have h: "has_mem_pages p = Some (pages \<noteq> [])"
    using assms(5,6) by (cases pages) (auto simp: has_mem_pages_def peek_at_def)
  let ?last = "\<lambda>str. Option.bind
    (if pages \<noteq> [] then Option.bind (strcpysep str (bytes ''Memory Address: '') 32) (store_pages (pages @ NULL # rest)) else Some str)
    (\<lambda>str. store_text str [])"
  have last: "appends ?last (if pages = [] then [] else bytes ''Memory Address: '' @ 32 # page_texts pages)"
    using appends_end appends_sep [OF appends_pages [OF appends_end assms(6)], of "bytes ''Memory Address: ''" 32]
    by (simp add: bind_assoc)
  note appends_number [OF appends_byte [OF last, of 32], of 16 "stack_address p"]
  then have "appends (\<lambda>str. Option.bind (store_number str (stack_address p) 16) (\<lambda>str. Option.bind (store_byte str 32) ?last))
      (number_text 16 (stack_address p) @ 32 # (if pages = [] then [] else bytes ''Memory Address: '' @ 32 # page_texts pages))"
    using assms(3) by simp
  note stack = appends_sep [OF appends_sep [OF appends_sep [OF this, of "bytes ''Stack Address: ''" 32], of x 32], of ground 32]
  note parent = appends_sep [OF appends_sep [OF appends_number [OF appends_byte [OF stack, of 32], of 10 "pi_ppid p"],
      of "bytes ''PPID''" 32], of "pi_name p" 32]
  note all = appends_number [OF appends_byte [OF parent, of 32], of 10 "pi_pid p"]
  let ?T = "number_text 10 (pi_pid p) @ 32 # pi_name p @ 32 # bytes ''PPID'' @ 32 # number_text 10 (pi_ppid p) @ 32 #
    ground @ 32 # x @ 32 # bytes ''Stack Address: '' @ 32 # number_text 16 (stack_address p) @ 32 #
    (if pages = [] then [] else bytes ''Memory Address: '' @ 32 # page_texts pages)"
  have "process_string p = (if length ([] @ ?T) < MAX_PROCESS_STRING then Some ([] @ ?T) else None)"
    using all assms(1,2,5) x h
    by (simp only: appends_def process_string_def SEPARATOR_def ground_def [symmetric] bind.bind_lunit if_True)
  moreover have "?T = process_line p pages"
    by (cases "pages = []"; cases "is_foreground p = 0")
      (simp_all add: process_line_def ground_def x_def [symmetric] bytes_def)
  ultimately show ?thesis by (simp only: MAX_PROCESS_STRING_def append_Nil)
qed

lemma page_texts_no_NUL: "\<forall>a \<in> set pages. a < 2 ^ 31 \<Longrightarrow> 0 \<notin> set (page_texts pages)"
  by (induction pages rule: page_texts.induct) (simp_all add: number_text(2))

lemma line_no_NUL:
  assumes "pi_pid p < 2 ^ 31" "pi_ppid p < 2 ^ 31" "stack_address p < 2 ^ 31" "pi_st p \<in> {0, 1, 2}" "0 \<notin> set (pi_name p)"
    and "\<forall>a \<in> set pages. a < 2 ^ 31"
  shows "0 \<notin> set (process_line p pages)"
proof -
  have "0 \<notin> set (state ! nat (pi_st p))" using assms(4) by (auto simp: state_def bytes_def)
  moreover have "0 \<notin> set (number_text 10 (pi_pid p))" "0 \<notin> set (number_text 10 (pi_ppid p))"
      "0 \<notin> set (number_text 16 (stack_address p))"
    using number_text(2) assms(1-3) by simp_all
  ultimately show ?thesis using assms(5) page_texts_no_NUL [OF assms(6)] by (simp add: process_line_def bytes_def)
qed

lemma length_state: "i < 3 \<Longrightarrow> 5 \<le> length (state ! i) \<and> length (state ! i) \<le> 7"
  by (auto simp: state_def bytes_def less_Suc_eq numeral_3_eq_3)

lemma length_page_texts:
  assumes "\<And>a. a \<in> set pages \<Longrightarrow> lo \<le> length (number_text 16 a) \<and> length (number_text 16 a) \<le> hi"
  shows "length pages * (lo + 2) \<le> length (page_texts pages) + 2 \<and>
    (pages = [] \<or> length (page_texts pages) + 2 \<le> length pages * (hi + 2))"
  using assms
proof (induction pages rule: page_texts.induct)
  case (2 a)
  then show ?case by (fastforce simp: algebra_simps)
next
  case (3 a b as)
  have "lo \<le> length (number_text 16 a)" "length (number_text 16 a) \<le> hi" using 3(2) by auto
  moreover have "length (b # as) * (lo + 2) \<le> length (page_texts (b # as)) + 2 \<and>
      length (page_texts (b # as)) + 2 \<le> length (b # as) * (hi + 2)"
    using 3 by auto
  ultimately show ?case by simp
qed simp

text \<open>
  What fits: with pids of three digits and a name of up to 63 characters, 13 pages below 256 MB. With
  25 pages the line of any process is too long, although a process may have 64.
\<close>

lemma line_fits:
  assumes "pi_pid p < 1000" "pi_ppid p < 1000" "stack_address p < 2 ^ 28" "pi_st p \<in> {0, 1, 2}" "length (pi_name p) \<le> 63"
    and "\<forall>a \<in> set pages. a < 2 ^ 28" "length pages \<le> 13"
  shows "length (process_line p pages) < 256"
proof -
  have d: "length (number_text 10 (pi_pid p)) \<le> 3" "length (number_text 10 (pi_ppid p)) \<le> 3"
      "length (number_text 16 (stack_address p)) \<le> 7"
    using number_text(3) [of 10 "pi_pid p" 3] number_text(3) [of 10 "pi_ppid p" 3] number_text(3) [of 16 "stack_address p" 7]
      assms(1-3) by simp_all
  have "length (number_text 16 a) \<le> 7" if "a \<in> set pages" for a
  proof -
    have "a < 2 ^ 28" using that assms(6) by blast
    then show ?thesis using number_text(3) [of 16 a 7] by simp
  qed
  then have "pages = [] \<or> length (page_texts pages) + 2 \<le> length pages * 9" using length_page_texts [of pages 0 7] by simp
  then have "length (if pages = [] then [] else bytes ''Memory Address:  '' @ page_texts pages) \<le> 132"
    using assms(7) by (auto simp: bytes_def)
  moreover have "length (state ! nat (pi_st p)) \<le> 7" using length_state [of "nat (pi_st p)"] assms(4) by auto
  moreover have "length (bytes (if is_foreground p \<noteq> 0 then ''foreground '' else ''background '')) = 11" by (simp add: bytes_def)
  moreover have "length (bytes '' PPID '') = 6" "length (bytes '' Stack Address:  '') = 17" by (simp_all add: bytes_def)
  ultimately show ?thesis using d assms(5) unfolding process_line_def length_append by simp
qed

lemma line_overflows:
  assumes "pi_st p \<in> {0, 1, 2}" "\<forall>a \<in> set pages. 2 ^ 20 \<le> a \<and> a < 2 ^ 31" "25 \<le> length pages"
  shows "256 \<le> length (process_line p pages)"
proof -
  have "6 \<le> length (number_text 16 a) \<and> length (number_text 16 a) \<le> 8" if "a \<in> set pages" for a
    using that assms(2) number_text(3) [of 16 a 8] number_text(4) [of 16 a 5] by force
  then have "length pages * 8 \<le> length (page_texts pages) + 2" using length_page_texts [of pages 6 8] by simp
  then have "215 \<le> length (if pages = [] then [] else bytes ''Memory Address:  '' @ page_texts pages)"
    using assms(3) by (auto simp: bytes_def)
  moreover have "5 \<le> length (state ! nat (pi_st p))" using length_state [of "nat (pi_st p)"] assms(1) by auto
  moreover have "length (bytes (if is_foreground p \<noteq> 0 then ''foreground '' else ''background '')) = 11" by (simp add: bytes_def)
  moreover have "length (bytes '' PPID '') = 6" "length (bytes '' Stack Address:  '') = 17" by (simp_all add: bytes_def)
  ultimately show ?thesis unfolding process_line_def length_append by simp
qed

text \<open>The shell, started by pid 0, with two pages: the line as \<open>ps\<close> prints it.\<close>

definition shell_report :: process_info where
  "shell_report = \<lparr>is_foreground = 1, pi_st = 2, pi_pid = 1, pi_ppid = 0, pi_name = bytes ''shell'',
     stack_address = 0xA00000, mem_pages = [0x600000, 0x601000, 0]\<rparr>"

lemma shell_line:
  "process_string shell_report =
     Some (bytes ''1 shell PPID 0 foreground BLOCKED Stack Address:  A00000 Memory Address:  600000, 601000'')"
proof -
  have n: "number_text 10 1 = bytes ''1''" "number_text 10 0 = bytes ''0''" by code_simp+
  have h: "number_text 16 0xA00000 = bytes ''A00000''" "number_text 16 0x600000 = bytes ''600000''"
      "number_text 16 0x601000 = bytes ''601000''"
    unfolding number_text_def of_nat_numeral by code_simp+
  have "process_line shell_report [0x600000, 0x601000] =
      bytes ''1 shell PPID 0 foreground BLOCKED Stack Address:  A00000 Memory Address:  600000, 601000''"
    by (simp add: process_line_def shell_report_def n n(1) [unfolded One_nat_def] h state_def bytes_def)
  then show ?thesis
    using process_string_exact [of shell_report "[0x600000, 0x601000]" "[]"] by (simp add: shell_report_def bytes_def)
qed

end
