(* ===== verification/Fractals.thy ===== *)
theory Fractals
  imports Graphics Process ModuleImage
begin

text \<open>
  \<open>Userland/SampleCodeModule/fractals.c\<close> with \<open>sampleCodeModule.c\<close>, which starts it, and
  \<open>SampleDataModule/writer.c\<close>, which writes its table of parameters. A \<open>double\<close> in memory is its
  bit pattern. What the drawing computes with doubles is a parameter, the record of the operations
  of the arithmetic unit; the loops, the colours and the order of the pixels are those of the code.
\<close>

section \<open>The table of parameters\<close>

record fractalParams =
  zoom :: u64
  moveX :: u64
  moveY :: u64
  maxIterations :: nat
  cRe :: u64
  cIm :: u64

definition PARAMS_SIZE :: nat where "PARAMS_SIZE = 48"

text \<open>\<open>writer.c\<close>: the decimal constants as the nearest doubles; the last entry ends the table.\<close>

definition fractal_table :: "fractalParams list" where
  "fractal_table =
     [\<lparr>zoom = 0x4093c70b5ddfda1b, moveX = 0x3fdb61a5bcbd8b10, moveY = 0x3fdb16b0861a35e1, maxIterations = 128,
       cRe = 0xbfe4f4cd9cd664fc, cIm = 0xbfdca73929ed3954\<rparr>,
      \<lparr>zoom = 0x3feb36113404ea4b, moveX = 0x3fdbfc2eba27ae9b, moveY = 0xbfe3a2ec28b2a6b1, maxIterations = 120,
       cRe = 0xbfde24894c447c31, cIm = 0xbfe5ef34d6a161e5\<rparr>,
      \<lparr>zoom = 0x3fea923a29c779a7, moveX = 0x3fb657214f0520d1, moveY = 0xbf8bee3d5fdcdf6a, maxIterations = 128,
       cRe = 0xbfe8abde3fbbd7b2, cIm = 0xbfb5e00d1b71758e\<rparr>,
      \<lparr>zoom = 0x4093c70b5dcc63f1, moveX = 0x3fcacaff6d330942, moveY = 0x3fbac669057d1783, maxIterations = 256,
       cRe = 0xbfe4a2e217b7acaa, cIm = 0xbfdca737110e453d\<rparr>,
      \<lparr>zoom = 0x3fea923a29c779a7, moveX = 0x3fb0e219652bd3c3, moveY = 0xbfbf3d188f42fe82, maxIterations = 128,
       cRe = 0xbfe4f4cd31769a91, cIm = 0xbfdca73929ed3954\<rparr>,
      \<lparr>zoom = 0x4093c70b5ddfda1b, moveX = 0x3fcacd5f99c38b05, moveY = 0x3fbac6f94e351739, maxIterations = 128,
       cRe = 0xbfe4f4cd9cd664fc, cIm = 0xbfdca73929ed3954\<rparr>,
      \<lparr>zoom = 0xbff0000000000000, moveX = 0xbff0000000000000, moveY = 0xbff0000000000000, maxIterations = 0,
       cRe = 0xbff0000000000000, cIm = 0xbff0000000000000\<rparr>]"

text \<open>An entry in the file; \<open>pad\<close> is what the compiler leaves behind the \<open>unsigned int\<close>.\<close>

definition param_bytes :: "byte list \<Rightarrow> fractalParams \<Rightarrow> byte list" where
  "param_bytes pad p = le_bytes 8 (unat (zoom p)) @ le_bytes 8 (unat (moveX p)) @ le_bytes 8 (unat (moveY p)) @
     uint32_bytes (maxIterations p) @ pad @ le_bytes 8 (unat (cRe p)) @ le_bytes 8 (unat (cIm p))"

definition writer :: "byte list list \<Rightarrow> byte list" where
  "writer pads = concat (map2 param_bytes pads fractal_table)"

section \<open>Loading the table\<close>

definition param_at :: "memory \<Rightarrow> addr \<Rightarrow> fractalParams" where
  "param_at m a = \<lparr>zoom = load64 m a, moveX = load64 m (a + 8), moveY = load64 m (a + 16),
     maxIterations = fst (readUint32 m (a + 24)), cRe = load64 m (a + 32), cIm = load64 m (a + 40)\<rparr>"

text \<open>A double equals -1 exactly when it has the bits of -1.\<close>

definition MINUS_ONE :: u64 where "MINUS_ONE = 0xbff0000000000000"

definition endOfParams :: "fractalParams \<Rightarrow> bool" where
  "endOfParams p \<longleftrightarrow> zoom p = MINUS_ONE \<and> moveX p = MINUS_ONE \<and> moveY p = MINUS_ONE \<and> maxIterations p = 0 \<and>
     cRe p = MINUS_ONE \<and> cIm p = MINUS_ONE"

record fractals =
  screen_width :: int
  screen_height :: int
  params :: addr
  parameters_amount :: nat

definition static_fractals :: fractals where
  "static_fractals = \<lparr>screen_width = 800, screen_height = 600, params = 0, parameters_amount = 0\<rparr>"

partial_function (option) count_params :: "memory \<Rightarrow> addr \<Rightarrow> nat \<Rightarrow> nat option" where
  "count_params m a n =
     (if endOfParams (param_at m (a + PARAMS_SIZE * n)) then Some n else count_params m a (n + 1))"

definition load_fractals :: "memory \<Rightarrow> addr \<Rightarrow> fractals \<Rightarrow> fractals option" where
  "load_fractals m ptr f =
     map_option (\<lambda>n. f\<lparr>params := ptr, parameters_amount := n\<rparr>) (count_params m ptr (parameters_amount f))"

definition fractals_size :: "fractals \<Rightarrow> nat" where "fractals_size f = parameters_amount f"

text \<open>\<open>xres\<close>, \<open>yres\<close>: the resolution of the screen.\<close>

definition set_fractals_resolution :: "int \<Rightarrow> int \<Rightarrow> int \<Rightarrow> int \<Rightarrow> fractals \<Rightarrow> int \<times> fractals" where
  "set_fractals_resolution xres yres w_res h_res f =
     (if w_res < 0 \<or> h_res < 0 \<or> w_res > xres \<or> h_res > yres then (0, f)
      else (1, f\<lparr>screen_width := w_res, screen_height := h_res\<rparr>))"

text \<open>\<open>main\<close> of the userland image up to the call of the shell: memory and the state of the fractals.\<close>

definition user_main :: "addr \<Rightarrow> addr \<Rightarrow> addr \<Rightarrow> int \<Rightarrow> int \<Rightarrow> memory \<Rightarrow> (memory \<times> fractals) option" where
  "user_main bss endOfBinary data xres yres m =
     (let m1 = memset m bss 0 (endOfBinary - bss)
      in map_option (\<lambda>f. (m1, snd (set_fractals_resolution xres yres xres yres f))) (load_fractals m1 data static_fractals))"

section \<open>Drawing\<close>

text \<open>The operations of the arithmetic unit on its numbers \<open>'d\<close>: \<open>lit n d\<close> is the literal \<open>n / d\<close>.\<close>

record 'd arithmetic =
  fadd :: "'d \<Rightarrow> 'd \<Rightarrow> 'd"
  fsub :: "'d \<Rightarrow> 'd \<Rightarrow> 'd"
  fmul :: "'d \<Rightarrow> 'd \<Rightarrow> 'd"
  fdiv :: "'d \<Rightarrow> 'd \<Rightarrow> 'd"
  greater :: "'d \<Rightarrow> 'd \<Rightarrow> bool"
  of_int32 :: "int \<Rightarrow> 'd"
  lit :: "int \<Rightarrow> int \<Rightarrow> 'd"
  of_bits :: "u64 \<Rightarrow> 'd"

text \<open>The inner loop of \<open>drawJuliaFractal\<close>: the final value of \<open>i\<close>.\<close>

fun julia_loop :: "'d arithmetic \<Rightarrow> 'd \<Rightarrow> 'd \<Rightarrow> nat \<Rightarrow> nat \<Rightarrow> 'd \<Rightarrow> 'd \<Rightarrow> nat" where
  "julia_loop A re_c im_c 0 i newRe newIm = i"
| "julia_loop A re_c im_c (Suc n) i oldRe oldIm =
     (let newRe = fadd A (fsub A (fmul A oldRe oldRe) (fmul A oldIm oldIm)) re_c;
          newIm = fadd A (fmul A (fmul A (lit A 2 1) oldRe) oldIm) im_c
      in if greater A (fadd A (fmul A newRe newRe) (fmul A newIm newIm)) (lit A 4 1) then i
         else julia_loop A re_c im_c n (i + 1) newRe newIm)"

definition julia_color :: "nat \<Rightarrow> nat \<Rightarrow> u32" where
  "julia_color i max_i =
     (let (r, g, b) = HsvToRgb (of_nat (i mod 256)) 255 (if i < max_i then 255 else 0)
      in paint_pixel r g b)"

definition julia_point :: "'d arithmetic \<Rightarrow> fractals \<Rightarrow> 'd \<Rightarrow> 'd \<Rightarrow> 'd \<Rightarrow> nat \<Rightarrow> 'd \<Rightarrow> 'd \<Rightarrow> int \<Rightarrow> int \<Rightarrow> nat" where
  "julia_point A f zm mx my max_i re_c im_c x y =
     (let w = screen_width f; h = screen_height f;
          newRe = fadd A (fdiv A (fmul A (lit A 3 2) (of_int32 A (x - w sdiv 2)))
                    (fmul A (fmul A (lit A 1 2) zm) (of_int32 A w))) mx;
          newIm = fadd A (fdiv A (of_int32 A (y - h sdiv 2)) (fmul A (fmul A (lit A 1 2) zm) (of_int32 A h))) my
      in julia_loop A re_c im_c max_i 0 newRe newIm)"

definition drawJuliaFractal :: "'d arithmetic \<Rightarrow> fractals \<Rightarrow> 'd \<Rightarrow> 'd \<Rightarrow> 'd \<Rightarrow> nat \<Rightarrow> 'd \<Rightarrow> 'd \<Rightarrow> (u32 \<times> pixel) list" where
  "drawJuliaFractal A f zm mx my max_i re_c im_c =
     concat (map (\<lambda>y. map (\<lambda>x. (julia_color (julia_point A f zm mx my max_i re_c im_c x y) max_i, (x, y)))
       (map int [0..<nat (screen_width f)])) (map int [0..<nat (screen_height f)]))"

definition draw_fractal :: "'d arithmetic \<Rightarrow> memory \<Rightarrow> int \<Rightarrow> fractals \<Rightarrow> int \<times> (u32 \<times> pixel) list" where
  "draw_fractal A m index f =
     (if index < 0 \<or> index \<ge> int (fractals_size f) then (0, [])
      else let p = param_at m (params f + PARAMS_SIZE * nat index)
           in (1, drawJuliaFractal A f (of_bits A (zoom p)) (of_bits A (moveX p)) (of_bits A (moveY p)) (maxIterations p)
                    (of_bits A (cRe p)) (of_bits A (cIm p))))"

section \<open>What is written is what is loaded\<close>

lemma le_byte: "i < 8 \<Longrightarrow> le_bytes 8 (unat w) ! i = byte_of i w"
proof -
  assume i: "i < 8"
  have "unat (drop_bit (8 * i) w) = drop_bit (8 * i) (unat w)" by (simp only: unat_drop_bit_eq)
  then have "unat w div 256 ^ i = unat (drop_bit (8 * i) w)" by (simp only: drop_bit_eq_div power_mult) simp
  with i show ?thesis by (simp add: le_bytes_def byte_of_def)
qed

lemma load64_bytes: "memory_holds m a (le_bytes 8 (unat w)) \<Longrightarrow> load64 m a = w"
proof -
  assume h: "memory_holds m a (le_bytes 8 (unat w))"
  have "load64 m a = foldr (\<lambda>i v. push_bit 8 v OR ucast (byte_of i w)) [0..<8] 0"
    unfolding load64_def using h by (intro foldr_cong refl) (simp_all add: memory_holds_def le_byte)
  also have "\<dots> = w" using bytes_of_word [of 0 8 w] by (simp add: take_bit_word_eq_self)
  finally show ?thesis .
qed

lemma param_loaded:
  assumes "memory_holds m a (param_bytes pad p)" "length pad = 4" "maxIterations p < 2 ^ 32"
  shows "param_at m a = p"
proof -
  have l: "length (uint32_bytes (maxIterations p)) = 4" by (simp add: uint32_bytes_def)
  have h: "memory_holds m a (le_bytes 8 (unat (zoom p)))" "memory_holds m (a + 8) (le_bytes 8 (unat (moveX p)))"
    "memory_holds m (a + 16) (le_bytes 8 (unat (moveY p)))" "memory_holds m (a + 24) (uint32_bytes (maxIterations p))"
    "memory_holds m (a + 32) (le_bytes 8 (unat (cRe p)))" "memory_holds m (a + 40) (le_bytes 8 (unat (cIm p)))"
    using assms(1,2) l by (simp_all add: param_bytes_def memory_holds_append add.assoc)
  show ?thesis
    by (simp add: param_at_def load64_bytes [OF h(1)] load64_bytes [OF h(2)] load64_bytes [OF h(3)] load64_bytes [OF h(5)]
        load64_bytes [OF h(6)] readUint32_bytes [OF h(4) assms(3)])
qed

lemma length_param_bytes: "length pad = 4 \<Longrightarrow> length (param_bytes pad p) = PARAMS_SIZE"
  by (simp add: param_bytes_def uint32_bytes_def PARAMS_SIZE_def)

lemma memory_holds_concat:
  "memory_holds m a (concat xs) \<Longrightarrow> \<forall>x \<in> set xs. length x = n \<Longrightarrow> i < length xs \<Longrightarrow> memory_holds m (a + n * i) (xs ! i)"
proof (induction xs arbitrary: a i)
  case (Cons x xs)
  then have h: "memory_holds m a x" "memory_holds m (a + n) (concat xs)" by (simp_all add: memory_holds_append)
  show ?case
  proof (cases i)
    case 0
    with h show ?thesis by simp
  next
    case (Suc j)
    with Cons.IH [OF h(2), of j] Cons.prems show ?thesis by (simp add: add.assoc)
  qed
qed simp

lemma table_length: "length fractal_table = 7" "\<forall>p \<in> set fractal_table. maxIterations p < 2 ^ 32"
  by (simp_all add: fractal_table_def)

lemma table_loaded:
  assumes "memory_holds m a (writer pads)" "length pads = 7" "\<forall>pad \<in> set pads. length pad = 4" "i < 7"
  shows "param_at m (a + PARAMS_SIZE * i) = fractal_table ! i"
proof -
  let ?xs = "map2 param_bytes pads fractal_table"
  have "\<forall>x \<in> set ?xs. length x = PARAMS_SIZE"
    using assms(3) by (auto simp: length_param_bytes dest: set_zip_leftD)
  moreover have "length ?xs = 7" using assms(2) table_length(1) by simp
  ultimately have "memory_holds m (a + PARAMS_SIZE * i) (?xs ! i)"
    using memory_holds_concat [of m a ?xs PARAMS_SIZE i] assms(1,4) by (simp add: writer_def)
  moreover have "?xs ! i = param_bytes (pads ! i) (fractal_table ! i)" using assms(2,4) table_length(1) by simp
  moreover have "length (pads ! i) = 4" using assms(2-4) by (metis nth_mem)
  ultimately show ?thesis using assms(4) table_length by (intro param_loaded) simp_all
qed

lemma table_end: "i < 7 \<Longrightarrow> endOfParams (fractal_table ! i) \<longleftrightarrow> i = 6"
proof -
  assume "i < 7"
  then have "i \<in> {0, 1, 2, 3, 4, 5, 6}" by auto
  then show ?thesis by (auto simp: fractal_table_def endOfParams_def MINUS_ONE_def)
qed

lemma count_table:
  assumes "\<And>i. i < 7 \<Longrightarrow> param_at m (a + PARAMS_SIZE * i) = fractal_table ! i" "n \<le> 6"
  shows "count_params m a n = Some 6"
  using assms(2)
proof (induction "6 - n" arbitrary: n)
  case 0
  then show ?case using assms(1) [of 6] table_end [of 6] by (simp add: count_params.simps)
next
  case (Suc k)
  then have "\<not> endOfParams (param_at m (a + PARAMS_SIZE * n))" using assms(1) [of n] table_end [of n] by simp
  moreover have "count_params m a (n + 1) = Some 6" using Suc.hyps(1) [of "n + 1"] Suc.hyps(2) by simp
  ultimately show ?case by (subst count_params.simps) simp
qed

text \<open>
  C37. With the file of the data module in memory, the start of the userland image finds the six
  fractals the tool wrote, each with exactly its parameters, and sets the resolution of the screen.
\<close>

theorem fractal_table_roundtrip:
  assumes "memory_holds m data (writer pads)" "length pads = 7" "\<forall>pad \<in> set pads. length pad = 4"
    and "bss \<le> endOfBinary" "endOfBinary \<le> data" "0 \<le> xres" "0 \<le> yres"
  shows "\<exists>m' f. user_main bss endOfBinary data xres yres m = Some (m', f) \<and> fractals_size f = 6 \<and> params f = data \<and>
    screen_width f = xres \<and> screen_height f = yres \<and>
    (\<forall>i < 6. param_at m' (params f + PARAMS_SIZE * i) = fractal_table ! i)"
proof -
  let ?m = "memset m bss 0 (endOfBinary - bss)"
  have "?m (data + i) = m (data + i)" for i using assms(4,5) by (simp add: memset_def memset_loop_eq)
  then have "memory_holds ?m data (writer pads)" using assms(1) by (simp add: memory_holds_def)
  then have t: "param_at ?m (data + PARAMS_SIZE * i) = fractal_table ! i" if "i < 7" for i
    using table_loaded [OF _ assms(2,3) that] by blast
  then have "count_params ?m data 0 = Some 6" by (intro count_table) simp_all
  then have "load_fractals ?m data static_fractals = Some (static_fractals\<lparr>params := data, parameters_amount := 6\<rparr>)"
    by (simp add: load_fractals_def static_fractals_def)
  with assms(6,7) t show ?thesis
    by (auto simp: user_main_def Let_def set_fractals_resolution_def fractals_size_def)
qed

theorem fractal_table_roundtrip_witness:
  "\<exists>m' f. user_main 0x450000 0x460000 0x500000 1024 768
      (\<lambda>a. if 0x500000 \<le> a \<and> a < 0x500000 + length (writer (replicate 7 (replicate 4 0)))
           then writer (replicate 7 (replicate 4 0)) ! (a - 0x500000) else 0) = Some (m', f) \<and>
    fractals_size f = 6 \<and> screen_width f = 1024"
proof -
  have "memory_holds (\<lambda>a. if 0x500000 \<le> a \<and> a < 0x500000 + length w then w ! (a - 0x500000) else 0) 0x500000 w" for w
    by (simp add: memory_holds_def)
  from fractal_table_roundtrip [OF this, of "replicate 7 (replicate 4 0)" "0x450000" "0x460000" 1024 768] show ?thesis
    by auto
qed

section \<open>The drawing\<close>

lemma paint_pixel_zero: "paint_pixel r g b = 0 \<longleftrightarrow> r = 0 \<and> g = 0 \<and> b = 0"
proof
  assume "paint_pixel r g b = 0"
  then have "unpack_color 0 = (if sint g < 0 \<or> g = 0 \<and> sint b < 0 then r - 1 else r, if sint b < 0 then g - 1 else g, b)"
    using packed_color [of r g b] by simp
  then show "r = 0 \<and> g = 0 \<and> b = 0" by (auto simp: unpack_color_def split: if_splits)
qed (simp add: paint_pixel_def)

lemma escaped_not_black: "(let (r, g, b) = HsvToRgb h 255 255 in paint_pixel r g b) \<noteq> 0"
  by (simp add: HsvToRgb_def Let_def paint_pixel_zero)

lemma inside_black: "(let (r, g, b) = HsvToRgb h 255 0 in paint_pixel r g b) = 0"
  by (simp add: HsvToRgb_def Let_def paint_pixel_zero)

lemma julia_color_black: "i \<le> max_i \<Longrightarrow> julia_color i max_i = 0 \<longleftrightarrow> i = max_i"
  using escaped_not_black [of "of_nat (i mod 256)"] inside_black [of "of_nat (i mod 256)"]
  by (auto simp: julia_color_def)

lemma julia_loop_le: "julia_loop A re_c im_c n i newRe newIm \<le> i + n"
proof (induction n arbitrary: i newRe newIm)
  case (Suc n)
  show ?case using Suc.IH [of "i + 1"] by (simp add: Let_def)
qed simp

text \<open>The pixels of the screen, row by row.\<close>

definition screen_pixels :: "fractals \<Rightarrow> pixel list" where
  "screen_pixels f = concat (map (\<lambda>y. map (\<lambda>x. (x, y)) (map int [0..<nat (screen_width f)])) (map int [0..<nat (screen_height f)]))"

lemma distinct_rows: "distinct xs \<Longrightarrow> distinct ys \<Longrightarrow> distinct (concat (map (\<lambda>y. map (\<lambda>x. (x, y)) xs) ys))"
  by (induction ys) (auto simp: distinct_map inj_on_def)

lemma screen_pixels_facts: "distinct (screen_pixels f)" "length (screen_pixels f) = nat (screen_width f) * nat (screen_height f)"
  unfolding screen_pixels_def
  by (rule distinct_rows) (simp_all add: distinct_map length_concat sum_list_triv comp_def)

lemma drawn_pixels: "map snd (drawJuliaFractal A f zm mx my max_i re_c im_c) = screen_pixels f"
  by (simp add: drawJuliaFractal_def screen_pixels_def map_concat comp_def)

lemma drawn_colors:
  "(c, (x, y)) \<in> set (drawJuliaFractal A f zm mx my max_i re_c im_c) \<Longrightarrow>
   c = 0 \<longleftrightarrow> julia_point A f zm mx my max_i re_c im_c x y = max_i"
proof -
  assume "(c, (x, y)) \<in> set (drawJuliaFractal A f zm mx my max_i re_c im_c)"
  then have "c = julia_color (julia_point A f zm mx my max_i re_c im_c x y) max_i" by (auto simp: drawJuliaFractal_def)
  moreover have "julia_point A f zm mx my max_i re_c im_c x y \<le> max_i"
    using julia_loop_le [of A re_c im_c max_i 0] by (simp add: julia_point_def Let_def)
  ultimately show ?thesis using julia_color_black by simp
qed

text \<open>
  Whatever the arithmetic unit computes: drawing one of the fractals paints every pixel of the screen
  exactly once, row by row, and a pixel is black exactly when its point has not escaped after the last
  iteration of the loop.
\<close>

theorem draw_fractal_paints_screen:
  assumes "0 \<le> index" "index < int (fractals_size f)" "p = param_at m (params f + PARAMS_SIZE * nat index)"
  shows "fst (draw_fractal A m index f) = 1 \<and> map snd (snd (draw_fractal A m index f)) = screen_pixels f \<and>
    distinct (screen_pixels f) \<and> length (screen_pixels f) = nat (screen_width f) * nat (screen_height f) \<and>
    (\<forall>(c, (x, y)) \<in> set (snd (draw_fractal A m index f)).
       c = 0 \<longleftrightarrow> julia_point A f (of_bits A (zoom p)) (of_bits A (moveX p)) (of_bits A (moveY p)) (maxIterations p)
         (of_bits A (cRe p)) (of_bits A (cIm p)) x y = maxIterations p)"
proof -
  have d: "draw_fractal A m index f = (1, drawJuliaFractal A f (of_bits A (zoom p)) (of_bits A (moveX p)) (of_bits A (moveY p))
      (maxIterations p) (of_bits A (cRe p)) (of_bits A (cIm p)))"
    using assms by (simp add: draw_fractal_def Let_def)
  show ?thesis unfolding d using drawn_colors screen_pixels_facts by (fastforce simp: drawn_pixels)
qed

text \<open>An arithmetic of whole numbers, for a screen of two by one pixels.\<close>

definition whole_arithmetic :: "int arithmetic" where
  "whole_arithmetic = \<lparr>fadd = (+), fsub = (-), fmul = (*), fdiv = (div), greater = (>), of_int32 = (\<lambda>n. n),
     lit = (\<lambda>n d. n div d), of_bits = (\<lambda>w. 1)\<rparr>"

theorem draw_fractal_paints_screen_witness:
  "map snd (snd (draw_fractal whole_arithmetic (\<lambda>a. 0) 0
      \<lparr>screen_width = 2, screen_height = 1, params = 0x500000, parameters_amount = 6\<rparr>)) = [(0, 0), (1, 0)]"
proof -
  let ?f = "\<lparr>screen_width = 2, screen_height = 1, params = 0x500000, parameters_amount = 6\<rparr>"
  have "map snd (snd (draw_fractal whole_arithmetic (\<lambda>a. 0) 0 ?f)) = screen_pixels ?f"
    using draw_fractal_paints_screen [of 0 ?f, OF _ _ refl, of whole_arithmetic "\<lambda>a. 0"] by (simp add: fractals_size_def)
  also have "\<dots> = [(0, 0), (1, 0)]" by (simp add: screen_pixels_def upt_rec numeral_2_eq_2)
  finally show ?thesis .
qed

end
