(* ===== verification/RoundTable.thy ===== *)
theory RoundTable
  imports UserReports Fractals Complex_Main
begin

text \<open>
  \<open>math.c\<close> and the graphical half of \<open>philosophersGUI.c\<close>. The floating-point operations are an argument,
  as in \<open>Fractals\<close>; \<open>real_fpu\<close> is the instance without rounding, on the real numbers. Loops whose
  bound is a floating-point number are partial functions.
\<close>

section \<open>Functions\<close>

text \<open>The comparison \<open><=\<close> (not the negation of \<open>>\<close> where there is no number) and the conversion to \<open>int\<close>.\<close>

record 'd fpu = "'d arithmetic" +
  at_most :: "'d \<Rightarrow> 'd \<Rightarrow> bool"
  trunc :: "'d \<Rightarrow> int"

partial_function (option) sqrt_loop :: "'f fpu \<Rightarrow> 'f \<Rightarrow> 'f \<Rightarrow> 'f \<Rightarrow> int option" where
  "sqrt_loop F n x y =
     (if greater F (fsub F x y) (lit F 1 1000000)
      then (let x = fdiv F (fadd F x y) (of_int32 F 2) in sqrt_loop F n x (fdiv F n x))
      else Some (trunc F x))"

text \<open>\<open>F\<close> are the operations on \<open>float\<close>.\<close>

definition sqrt_u :: "'f fpu \<Rightarrow> 'f \<Rightarrow> int option" where
  "sqrt_u F n = sqrt_loop F n n (of_int32 F 1)"

partial_function (option) pow_loop :: "'d fpu \<Rightarrow> 'd \<Rightarrow> 'd \<Rightarrow> int \<Rightarrow> 'd \<Rightarrow> 'd option" where
  "pow_loop A a b i c = (if greater A b (of_int32 A i) then pow_loop A a b (i + 1) (fmul A c a) else Some c)"

definition pow_u :: "'d fpu \<Rightarrow> 'd \<Rightarrow> 'd \<Rightarrow> 'd option" where
  "pow_u A a b = pow_loop A a b 0 (of_int32 A 1)"

partial_function (option) fact_loop :: "'d fpu \<Rightarrow> 'd \<Rightarrow> int \<Rightarrow> 'd \<Rightarrow> 'd option" where
  "fact_loop A x i ret = (if at_most A (of_int32 A i) x then fact_loop A x (i + 1) (fmul A ret (of_int32 A i)) else Some ret)"

definition fact_u :: "'d fpu \<Rightarrow> 'd \<Rightarrow> 'd option" where
  "fact_u A x = fact_loop A x 1 (of_int32 A 1)"

function series_loop :: "'d fpu \<Rightarrow> 'd \<Rightarrow> int \<Rightarrow> 'd \<Rightarrow> 'd \<Rightarrow> 'd option" where
  "series_loop A x i y s =
     (if i \<le> 100
      then Option.bind (pow_u A x (of_int32 A i)) (\<lambda>p. Option.bind (fact_u A (of_int32 A i)) (\<lambda>f.
             series_loop A x (i + 2) (fadd A y (fmul A s (fdiv A p f))) (fmul A s (of_int32 A (-1)))))
      else Some y)"
  by pat_completeness auto
termination
  by (relation "measure (\<lambda>(A, x, i, y, s). nat (101 - i))") auto

declare series_loop.simps [simp del]

definition sin_u :: "'d fpu \<Rightarrow> 'd \<Rightarrow> 'd option" where
  "sin_u A x = series_loop A x 3 x (of_int32 A (-1))"

definition cos_u :: "'d fpu \<Rightarrow> 'd \<Rightarrow> 'd option" where
  "cos_u A x = series_loop A x 2 (of_int32 A 1) (of_int32 A (-1))"

definition tan_u :: "'d fpu \<Rightarrow> 'd \<Rightarrow> 'd option" where
  "tan_u A x = Option.bind (sin_u A x) (\<lambda>s. map_option (fdiv A s) (cos_u A x))"

section \<open>The table\<close>

definition TABLE_X_POS :: int where "TABLE_X_POS = 600"
definition TABLE_Y_POS :: int where "TABLE_Y_POS = 350"
definition TABLE_RADIUS :: int where "TABLE_RADIUS = 100"

definition two_PI :: "'d fpu \<Rightarrow> 'd" where
  "two_PI A = fmul A (of_int32 A 2) (lit A 314159265359 100000000000)"

record gui =
  prevPhilosopherCount :: int
  painted :: "(u32 \<times> pixel) list"
  console :: stdio

text \<open>\<open>for (i = x - offset * 2 - radius; i <= x + offset * 2 + radius; i++)\<close>: a column of black for each \<open>i\<close>.\<close>

partial_function (option) clean_loop :: "'d fpu \<Rightarrow> int \<Rightarrow> 'd \<Rightarrow> int \<Rightarrow> (u32 \<times> pixel) list option" where
  "clean_loop A max_y_res limit i =
     (if at_most A (of_int32 A i) limit
      then Option.bind (clean_loop A max_y_res limit (i + 1)) (\<lambda>ps. Some (map (\<lambda>j. (0, (i, j))) [0..max_y_res] @ ps))
      else Some [])"

definition cleanTable :: "'d fpu \<Rightarrow> int \<Rightarrow> int \<Rightarrow> int \<Rightarrow> 'd \<Rightarrow> (u32 \<times> pixel) list option" where
  "cleanTable A max_y_res x radius offset =
     (let twice = fmul A offset (of_int32 A 2)
      in clean_loop A max_y_res (fadd A (fadd A (of_int32 A x) twice) (of_int32 A radius))
           (trunc A (fsub A (fsub A (of_int32 A x) twice) (of_int32 A radius))))"

definition table_radius :: "'d fpu \<Rightarrow> nat \<Rightarrow> 'd" where
  "table_radius A n = fmul A (of_int32 A TABLE_RADIUS) (fadd A (of_int32 A 1) (fmul A (of_int32 A (int n)) (lit A 1 10)))"

definition dish_radius :: "'d fpu \<Rightarrow> nat \<Rightarrow> 'd" where
  "dish_radius A n = fmul A (fdiv A (fmul A (two_PI A) (table_radius A n)) (of_int32 A (int n))) (lit A 4 10)"

definition state_color :: "philo_state \<Rightarrow> u32" where
  "state_color x = (case get_state_color x of (r, g, b) \<Rightarrow> paint_pixel (word_of_int r) (word_of_int g) (word_of_int b))"

definition dish :: "'d fpu \<Rightarrow> nat \<Rightarrow> nat \<Rightarrow> pixel list option" where
  "dish A n i =
     (let angle = fdiv A (fmul A (two_PI A) (of_int32 A (int i))) (of_int32 A (int n))
      in Option.bind (cos_u A angle) (\<lambda>co. Option.bind (sin_u A angle) (\<lambda>si.
           draw_filledCircle2 (trunc A (fadd A (fmul A (table_radius A n) co) (of_int32 A TABLE_X_POS)))
             (trunc A (fadd A (fmul A (table_radius A n) si) (of_int32 A TABLE_Y_POS))) (trunc A (dish_radius A n)))))"

fun dishes_loop :: "'d fpu \<Rightarrow> nat \<Rightarrow> nat \<Rightarrow> philosopher_data list \<Rightarrow> gui \<Rightarrow> gui option" where
  "dishes_loop A n i [] g = Some g"
| "dishes_loop A n i (d # ds) g =
     Option.bind (dish A n i) (\<lambda>ps. dishes_loop A n (i + 1) ds (g\<lparr>painted := painted g @ map (Pair (state_color (p_state d))) ps\<rparr>))"

definition renderGraphics :: "'d fpu \<Rightarrow> int \<Rightarrow> philosopher_data list \<Rightarrow> gui \<Rightarrow> gui option" where
  "renderGraphics A max_y_res philos g =
     (let n = length philos
      in if n = 0 then map_option (\<lambda>i. g\<lparr>console := i\<rparr>) (say (''There are no philosophers left'' @ newline) [] (console g))
         else Option.bind
           (if prevPhilosopherCount g \<noteq> int n
            then map_option (\<lambda>ps. g\<lparr>painted := painted g @ ps\<rparr>)
                   (cleanTable A max_y_res TABLE_X_POS (trunc A (table_radius A n)) (dish_radius A n))
            else Some g)
           (\<lambda>g. dishes_loop A n 0 philos (g\<lparr>prevPhilosopherCount := int n\<rparr>)))"

section \<open>The functions return\<close>

text \<open>What the loops ask of the operations: small integers are numbers, and compare as integers do.\<close>

definition counts_exactly :: "'d fpu \<Rightarrow> bool" where
  "counts_exactly A \<longleftrightarrow> (\<forall>i \<in> {0..101}. \<forall>j \<in> {0..101}. (greater A (of_int32 A j) (of_int32 A i) \<longleftrightarrow> i < j) \<and>
     (at_most A (of_int32 A i) (of_int32 A j) \<longleftrightarrow> i \<le> j))"

lemma pow_run:
  assumes "counts_exactly A" "n \<le> 100"
  shows "0 \<le> i \<Longrightarrow> i \<le> n \<Longrightarrow> pow_loop A a (of_int32 A n) i c = Some (((\<lambda>c. fmul A c a) ^^ nat (n - i)) c)"
proof (induction "nat (n - i)" arbitrary: i c)
  case 0
  then show ?case using assms by (subst pow_loop.simps) (simp add: counts_exactly_def)
next
  case (Suc k)
  have "greater A (of_int32 A n) (of_int32 A i)" using Suc.prems Suc.hyps(2) assms by (simp add: counts_exactly_def)
  then have "pow_loop A a (of_int32 A n) i c = pow_loop A a (of_int32 A n) (i + 1) (fmul A c a)"
    by (subst pow_loop.simps) simp
  moreover have k: "k = nat (n - (i + 1))" "i + 1 \<le> n" using Suc.hyps(2) by simp_all
  moreover have "pow_loop A a (of_int32 A n) (i + 1) (fmul A c a) = Some (((\<lambda>c. fmul A c a) ^^ nat (n - (i + 1))) (fmul A c a))"
    using Suc.hyps(1) [OF k(1), of "fmul A c a"] Suc.prems k(2) by simp
  ultimately show ?case
    unfolding Suc.hyps(2) [symmetric] funpow_Suc_right comp_apply by simp
qed

lemma fact_run:
  assumes "counts_exactly A" "0 \<le> n" "n \<le> 100"
  shows "1 \<le> i \<Longrightarrow> i \<le> n + 1 \<Longrightarrow>
    fact_loop A (of_int32 A n) i r = Some (foldl (\<lambda>r k. fmul A r (of_int32 A k)) r [i..n])"
proof (induction "nat (n + 1 - i)" arbitrary: i r)
  case 0
  then show ?case using assms by (subst fact_loop.simps) (simp add: counts_exactly_def)
next
  case (Suc k)
  have le: "i \<le> n" using Suc.hyps(2) by simp
  then have "at_most A (of_int32 A i) (of_int32 A n)" using Suc.prems assms by (simp add: counts_exactly_def)
  then have "fact_loop A (of_int32 A n) i r = fact_loop A (of_int32 A n) (i + 1) (fmul A r (of_int32 A i))"
    by (subst fact_loop.simps) simp
  then show ?case
    using Suc.hyps(1) [of "i + 1" "fmul A r (of_int32 A i)"] Suc.prems Suc.hyps(2) le by (simp add: upto_rec1)
qed

lemma series_returns: "counts_exactly A \<Longrightarrow> 0 \<le> i \<Longrightarrow> \<exists>z. series_loop A x i y s = Some z"
proof (induction A x i y s rule: series_loop.induct)
  case (1 A x i y s)
  show ?case
  proof (cases "i \<le> 100")
    case True
    obtain p f where pf: "pow_u A x (of_int32 A i) = Some p" "fact_u A (of_int32 A i) = Some f"
      using pow_run [OF 1(2) True, of 0] fact_run [OF 1(2) 1(3) True, of 1] 1(3) by (simp add: pow_u_def fact_u_def)
    show ?thesis using 1(1) [OF True, of p f] 1(2,3) pf True by (subst series_loop.simps) simp
  qed (subst series_loop.simps, simp)
qed

lemma sin_cos_return:
  assumes "counts_exactly A"
  obtains s c where "sin_u A x = Some s" "cos_u A x = Some c"
  using series_returns [OF assms, of 3 x x] series_returns [OF assms, of 2 x "of_int32 A 1"]
  unfolding sin_u_def cos_u_def by (metis zero_le_numeral)

section \<open>Without rounding\<close>

definition real_fpu :: "real fpu" where
  "real_fpu = \<lparr>fadd = (+), fsub = (-), fmul = (*), fdiv = (/), greater = (>), of_int32 = real_of_int,
     lit = (\<lambda>n d. real_of_int n / real_of_int d), of_bits = (\<lambda>w. 0), at_most = (\<le>),
     trunc = (\<lambda>x. if 0 \<le> x then \<lfloor>x\<rfloor> else \<lceil>x\<rceil>)\<rparr>"

lemma real_fpu_counts: "counts_exactly real_fpu"
  by (simp add: counts_exactly_def real_fpu_def)

lemma real_pow: "n \<le> 100 \<Longrightarrow> pow_u real_fpu x (of_int32 real_fpu (int n)) = Some (x ^ n)"
proof -
  assume n: "n \<le> 100"
  have "((\<lambda>c. c * x) ^^ k) c = c * x ^ k" for k c by (induction k) simp_all
  then show ?thesis using pow_run [OF real_fpu_counts, of "int n" 0 x 1] n by (simp add: pow_u_def) (simp add: real_fpu_def)
qed

lemma real_fact: "n \<le> 100 \<Longrightarrow> fact_u real_fpu (of_int32 real_fpu (int n)) = Some (fact n)"
proof -
  assume n: "n \<le> 100"
  have "foldl (\<lambda>r k. r * real_of_int k) r [1..int m] = r * fact m" for r :: real and m
    by (induction m) (simp_all add: upto_rec2 add.commute)
  then show ?thesis using fact_run [OF real_fpu_counts, of "int n" 1 1] n by (simp add: fact_u_def) (simp add: real_fpu_def)
qed

lemma real_series:
  "m + 2 * k = 102 \<or> m + 2 * k = 101 \<Longrightarrow> series_loop real_fpu x (int m) y s =
     Some (y + (\<Sum>j<k. s * (-1) ^ j * (x ^ (m + 2 * j) / fact (m + 2 * j))))"
proof (induction k arbitrary: m y s)
  case 0
  then show ?case by (subst series_loop.simps) auto
next
  case (Suc k)
  have m: "m \<le> 100" and IH: "m + 2 + 2 * k = 102 \<or> m + 2 + 2 * k = 101" using Suc.prems by auto
  have r: "fadd real_fpu = (+)" "fmul real_fpu = (*)" "fdiv real_fpu = (/)" "of_int32 real_fpu (-1) = -1" by (simp_all add: real_fpu_def)
  have "series_loop real_fpu x (int m) y s = series_loop real_fpu x (int (m + 2)) (y + s * (x ^ m / fact m)) (- s)"
    using m by (subst series_loop.simps) (simp add: real_pow real_fact r algebra_simps)
  also have "\<dots> = Some (y + s * (x ^ m / fact m) + (\<Sum>j<k. - s * (-1) ^ j * (x ^ (m + 2 + 2 * j) / fact (m + 2 + 2 * j))))"
    by (rule Suc.IH [OF IH])
  finally have run: "series_loop real_fpu x (int m) y s =
      Some (y + s * (x ^ m / fact m) + (\<Sum>j<k. - s * (-1) ^ j * (x ^ (m + 2 + 2 * j) / fact (m + 2 + 2 * j))))" .
  have "s * (x ^ m / fact m) + (\<Sum>j<k. - s * (-1) ^ j * (x ^ (m + 2 + 2 * j) / fact (m + 2 + 2 * j))) =
      (\<Sum>j<Suc k. s * (-1) ^ j * (x ^ (m + 2 * j) / fact (m + 2 * j)))"
    unfolding sum.lessThan_Suc_shift by (simp add: algebra_simps)
  then show ?case unfolding run by (simp only: add.assoc)
qed

lemma sin_terms: "sin_u real_fpu x = Some (\<Sum>m<101. sin_coeff m * x ^ m)"
proof -
  have "(\<Sum>m<101. sin_coeff m * x ^ m) = (\<Sum>m<2 * 50. sin_coeff m * x ^ m)"
    using sum.lessThan_Suc [of "\<lambda>m. sin_coeff m * x ^ m" 100] by (simp add: sin_coeff_def)
  also have "\<dots> = (\<Sum>m<2 * 50. if even m then (\<lambda>_. 0) m else (\<lambda>m. (-1) ^ ((m - 1) div 2) / fact m * x ^ m) m)"
    by (intro sum.cong) (simp_all add: sin_coeff_def)
  also have "\<dots> = (\<Sum>j<50. (-1) ^ j * (x ^ (2 * j + 1) / fact (2 * j + 1)))"
    unfolding sum_split_even_odd by simp
  also have "\<dots> = x + (\<Sum>j<49. - 1 * (-1) ^ j * (x ^ (3 + 2 * j) / fact (3 + 2 * j)))"
  proof -
    have "(50 :: nat) = Suc 49" by simp
    then show ?thesis unfolding \<open>(50 :: nat) = Suc 49\<close> sum.lessThan_Suc_shift by (simp add: numeral_3_eq_3)
  qed
  finally show ?thesis
    using real_series [of 3 49 x x "-1"] by (simp add: sin_u_def) (simp add: real_fpu_def)
qed

lemma cos_terms: "cos_u real_fpu x = Some (\<Sum>m<101. cos_coeff m * x ^ m)"
proof -
  have "(\<Sum>m<101. cos_coeff m * x ^ m) = (\<Sum>m<2 * 51. cos_coeff m * x ^ m)"
    using sum.lessThan_Suc [of "\<lambda>m. cos_coeff m * x ^ m" 101] by (simp add: cos_coeff_def)
  also have "\<dots> = (\<Sum>m<2 * 51. if even m then (\<lambda>m. (-1) ^ (m div 2) / fact m * x ^ m) m else (\<lambda>_. 0) m)"
    by (intro sum.cong) (simp_all add: cos_coeff_def)
  also have "\<dots> = (\<Sum>j<51. (-1) ^ j * (x ^ (2 * j) / fact (2 * j)))"
    unfolding sum_split_even_odd by simp
  also have "\<dots> = 1 + (\<Sum>j<50. - 1 * (-1) ^ j * (x ^ (2 + 2 * j) / fact (2 + 2 * j)))"
  proof -
    have "(51 :: nat) = Suc 50" by simp
    then show ?thesis unfolding \<open>(51 :: nat) = Suc 50\<close> sum.lessThan_Suc_shift by simp
  qed
  finally show ?thesis
    using real_series [of 2 50 x 1 "-1"] by (simp add: cos_u_def) (simp add: real_fpu_def)
qed

text \<open>
  C40. \<open>sin\<close> and \<open>cos\<close> return, and apart from the rounding of the operations they are as good as their
  hundred terms: with exact operations the result is within \<open>\<bar>x\<bar>^101 / 101!\<close> of the sine and the cosine.
\<close>

theorem sin_cos_accuracy:
  "\<exists>s c. sin_u real_fpu x = Some s \<and> cos_u real_fpu x = Some c \<and>
     \<bar>sin x - s\<bar> \<le> \<bar>x\<bar> ^ 101 / fact 101 \<and> \<bar>cos x - c\<bar> \<le> \<bar>x\<bar> ^ 101 / fact 101"
proof -
  have "\<bar>sin x - (\<Sum>m<101. sin_coeff m * x ^ m)\<bar> \<le> \<bar>x\<bar> ^ 101 / fact 101"
    using Maclaurin_sin_bound [of x 101] by (simp only: divide_inverse mult.commute)
  moreover have "\<bar>cos x - (\<Sum>m<101. cos_coeff m * x ^ m)\<bar> \<le> \<bar>x\<bar> ^ 101 / fact 101"
  proof -
    obtain u where "cos x - (\<Sum>m<101. cos_coeff m * x ^ m) = cos u / fact 101 * x ^ 101"
      using Maclaurin_cos_expansion [of x 101] by (metis add_diff_cancel_left')
    then have "\<bar>cos x - (\<Sum>m<101. cos_coeff m * x ^ m)\<bar> = \<bar>cos u\<bar> * (\<bar>x\<bar> ^ 101 / fact 101)"
      by (simp only: abs_mult abs_divide power_abs abs_of_pos [OF fact_gt_zero]) (simp only: times_divide_eq_left times_divide_eq_right)
    also have "\<dots> \<le> 1 * (\<bar>x\<bar> ^ 101 / fact 101)"
      by (intro mult_right_mono) simp_all
    finally show ?thesis by simp
  qed
  ultimately show ?thesis using sin_terms [of x] cos_terms [of x] by blast
qed

section \<open>The picture\<close>

lemma append_drawings_returns: "list_all (\<lambda>d. \<exists>ps. d = Some ps) ds \<Longrightarrow> \<exists>ps. append_drawings ds = Some ps"
proof -
  assume d: "list_all (\<lambda>d. \<exists>ps. d = Some ps) ds"
  have "\<exists>ps. fold (\<lambda>d acc. Option.bind acc (\<lambda>ps. map_option (\<lambda>qs. ps @ qs) d)) ds (Some acc) = Some ps" for acc
    using d by (induction ds arbitrary: acc) auto
  then show ?thesis by (simp add: append_drawings_def)
qed

lemma draw_line_returns: "\<exists>ps. draw_line x0 y0 x1 y1 = Some ps"
  using draw_line_path by blast

lemma filled2_returns: "\<exists>ps. filled2_loop x0 y0 x y err = Some ps"
proof (induction x0 y0 x y err rule: filled2_loop.induct)
  case (1 x0 y0 x y err)
  show ?case
  proof (cases "x \<ge> y")
    case True
    obtain x' y' err' where c: "circle_step x y err = (x', y', err')" by (cases "circle_step x y err") auto
    have "\<exists>ps. filled2_loop x0 y0 x' y' err' = Some ps" using 1 [OF True c [symmetric]] by simp
    then show ?thesis
      using True c draw_line_returns by (subst filled2_loop.simps) (simp add: append_drawings_returns)
  next
    case False
    then show ?thesis by (subst filled2_loop.simps) simp
  qed
qed

lemma dish_returns:
  assumes "counts_exactly A"
  shows "\<exists>ps. dish A n i = Some ps"
proof -
  obtain s c where "sin_u A (fdiv A (fmul A (two_PI A) (of_int32 A (int i))) (of_int32 A (int n))) = Some s"
      "cos_u A (fdiv A (fmul A (two_PI A) (of_int32 A (int i))) (of_int32 A (int n))) = Some c"
    by (rule sin_cos_return [OF assms])
  then show ?thesis by (simp add: dish_def draw_filledCircle2_def filled2_returns)
qed

text \<open>A picture: for each dish its colour and its pixels.\<close>

definition picture_pixels :: "(u32 \<times> pixel list) list \<Rightarrow> (u32 \<times> pixel) list" where
  "picture_pixels ds = concat (map (\<lambda>(c, ps). map (Pair c) ps) ds)"

lemma dishes_run:
  assumes "counts_exactly A"
  shows "\<exists>ds. dishes_loop A n i philos g = Some (g\<lparr>painted := painted g @ picture_pixels ds\<rparr>) \<and>
    map fst ds = map (\<lambda>d. state_color (p_state d)) philos"
proof (induction philos arbitrary: i g)
  case Nil
  then show ?case by (intro exI [of _ "[]"]) (simp add: picture_pixels_def)
next
  case (Cons d philos)
  obtain ps where ps: "dish A n i = Some ps" using dish_returns [OF assms] by blast
  let ?c = "state_color (p_state d)"
  obtain ds where ds: "dishes_loop A n (i + 1) philos (g\<lparr>painted := painted g @ map (Pair ?c) ps\<rparr>) =
      Some (g\<lparr>painted := (painted g @ map (Pair ?c) ps) @ picture_pixels ds\<rparr>)"
      "map fst ds = map (\<lambda>d. state_color (p_state d)) philos"
    using Cons.IH [of "i + 1" "g\<lparr>painted := painted g @ map (Pair ?c) ps\<rparr>"] by auto
  then show ?case
    using ps by (intro exI [of _ "(?c, ps) # ds"]) (simp add: picture_pixels_def)
qed

definition RED :: u32 where "RED = state_color EATING"

lemma red_is_eating: "state_color x = RED \<longleftrightarrow> x = EATING"
  by (cases x) (simp_all add: RED_def state_color_def get_state_color_def paint_pixel_int)


definition demo_table :: "philosopher_data list" where
  "demo_table = map (\<lambda>x. \<lparr>p_state = x, mut = [], p_pid = 0, p_die = 0, cond_die = []\<rparr>) [EATING, HUNGRY, THINKING]"


end
