(* ===== verification/Shell.thy ===== *)
theory Shell
  imports Stdio CStrings MemoryAllocator
begin

text \<open>
  The shell of \<open>Userland/SampleCodeModule\<close>: \<open>shell.c\<close> takes a command line apart, \<open>execute\<close> of
  \<open>commands.c\<close> looks the command up and \<open>executer.c\<close> hands its arguments to a new process.
\<close>

section \<open>Taking a line apart\<close>

definition MAX_CMD_SIZE :: nat where "MAX_CMD_SIZE = 256"

definition extract_cmd_name :: "byte list \<Rightarrow> byte list" where
  "extract_cmd_name str = takeWhile (\<lambda>c. c \<noteq> 0 \<and> c \<noteq> 32) str"

text \<open>
  \<open>check_foreground\<close> on the line from index \<open>start\<close> on: the changed line, and whether the command
  runs in the foreground. With nothing from \<open>start\<close> on it looks at the bytes before it.
\<close>

definition check_foreground :: "byte list \<Rightarrow> nat \<Rightarrow> (byte list \<times> bool) option" where
  "check_foreground buf start =
     (let len = length (cstr (drop start buf));
          back = (\<lambda>k. if start + len < k then None else peek_at buf (start + len - k))
      in Option.bind (back 1) (\<lambda>c.
         if c \<noteq> 38 then Some (buf, True)
         else if len = 1 then Some (buf[start := 0], False)
         else Option.bind (back 2) (\<lambda>d.
                if d = 32 then Some (buf[start + len - 2 := 0], False) else Some (buf, True))))"

text \<open>The name of the command, its arguments as one string, and the foreground flag.\<close>

definition parse_command :: "byte list \<Rightarrow> (byte list \<times> byte list \<times> bool) option" where
  "parse_command buf =
     (let cmd_name = extract_cmd_name buf; name_len = length cmd_name
      in Option.bind (check_foreground buf name_len) (\<lambda>(buf, fg).
         Option.bind (peek_at buf name_len) (\<lambda>c.
           Some (cmd_name, drop (name_len + (if c \<noteq> 0 then 1 else 0)) buf, fg))))"

section \<open>The arguments of a new process\<close>

definition MAX_ARGS :: nat where "MAX_ARGS = 32"

text \<open>
  The loop of \<open>build_arguments\<close> from index \<open>j\<close> of the argument string on: what is stored at
  \<open>arg_strings\<close>, and the pointers into it, as offsets.
\<close>

fun arguments_loop :: "byte list \<Rightarrow> nat \<Rightarrow> nat \<Rightarrow> byte list \<Rightarrow> nat list \<Rightarrow> (byte list \<times> nat list) option" where
  "arguments_loop [] j ptr strs ptrs = None"
| "arguments_loop (c # arg) j ptr strs ptrs =
     (if c = 0 then Some (strs @ [0], ptrs @ [ptr])
      else if c = 32 then arguments_loop arg (j + 1) (j + 1) (strs @ [0]) (ptrs @ [ptr])
      else arguments_loop arg (j + 1) ptr (strs @ [c]) ptrs)"

definition build_arguments :: "byte list \<Rightarrow> (byte list \<times> nat list) option" where
  "build_arguments arg =
     Option.bind (peek_at arg 0) (\<lambda>c. if c = 0 then Some ([], []) else arguments_loop arg 0 0 [] [])"

text \<open>
  The page \<open>execp\<close> passes on: the function, the pointers behind it and, behind 32 pointers, the
  strings. No bound is checked: with more than 30 arguments the terminating null pointer would
  land on the strings, and long strings would leave the page (\<open>None\<close>).
\<close>

record 'f exec_page =
  entry_point :: 'f
  arg_pointers :: "addr list"
  arg_strings :: "byte list"

definition execp :: "'f \<Rightarrow> byte list \<Rightarrow> addr \<Rightarrow> 'f exec_page option" where
  "execp function_ptr arg memory_at =
     Option.bind (build_arguments arg) (\<lambda>(strs, ptrs).
       if length ptrs + 2 \<le> MAX_ARGS \<and> MAX_ARGS * 8 + length strs \<le> PAGE_SIZE
       then Some \<lparr>entry_point = function_ptr, arg_pointers = map (\<lambda>p. memory_at + MAX_ARGS * 8 + p) ptrs, arg_strings = strs\<rparr>
       else None)"

definition execpn :: "'f \<Rightarrow> addr \<Rightarrow> 'f exec_page option" where
  "execpn function_ptr memory_at = execp function_ptr [0] memory_at"

text \<open>
  \<open>executer\<close>, in the new process, copies the page to one of its own and calls the function with
  \<open>argc\<close> and the pointers of the copy, which still point into the page of \<open>execp\<close>.
\<close>

definition executer :: "'f exec_page \<Rightarrow> 'f \<times> int \<times> addr list" where
  "executer params = (entry_point params, int (length (arg_pointers params)), arg_pointers params)"

text \<open>The string an argument is, while the page at \<open>memory_at\<close> holds the strings \<open>strs\<close>.\<close>

definition argument :: "addr \<Rightarrow> byte list \<Rightarrow> addr \<Rightarrow> byte list" where
  "argument memory_at strs p = cstr (drop (p - (memory_at + MAX_ARGS * 8)) strs)"

section \<open>Commands\<close>

definition VALID :: int where "VALID = 1"
definition UNSUPPORTED :: int where "UNSUPPORTED = 0"
definition INVALID_ARGS :: int where "INVALID_ARGS = -1"

text \<open>The names of the commands and of the functions that run them.\<close>

definition commands :: "(string \<times> string) list" where
  "commands =
     [(''help'', ''help''), (''set_GMT'', ''set_GMT''), (''fractals'', ''fractals''), (''time'', ''getTime''),
      (''clear'', ''clear''), (''echo'', ''echo''), (''char_color'', ''change_char_color''),
      (''bg_color'', ''change_bg_color''), (''test'', ''test''), (''philo'', ''philosophersProblemText''),
      (''philogui'', ''philosophersProblemGUI''), (''prodcon'', ''producerConsumer''),
      (''prodcon2'', ''producerConsumer2''), (''write'', ''write_test''), (''read'', ''read_test''),
      (''test2'', ''testFifos''), (''kill'', ''kill_command''), (''print'', ''print_process''), (''ps'', ''ps''),
      (''fg'', ''set_fg''), (''ipcs'', ''print_ipcs''), (''shell'', ''shell'')]"

text \<open>
  A process started by the shell: the function, the string of its arguments, its name, and
  whether it gets the foreground.
\<close>

record launch =
  launch_function :: string
  launch_args :: "byte list"
  launch_name :: "byte list"
  launch_fg :: bool

definition execute :: "byte list \<Rightarrow> byte list \<Rightarrow> bool \<Rightarrow> int \<times> launch list" where
  "execute nm args fg =
     (let found = filter (\<lambda>(n, f). strcmp_u nm (cstring n) = Some 0) commands
      in (if found = [] then UNSUPPORTED else VALID,
          map (\<lambda>(n, f). \<lparr>launch_function = f, launch_args = args, launch_name = nm, launch_fg = fg\<rparr>) found))"

definition handle_validity :: "int \<Rightarrow> stdio \<Rightarrow> (nat \<times> stdio) option" where
  "handle_validity valid s =
     (if valid = UNSUPPORTED then printf (cstring ''%s'') [Str_arg (cstring (''Unsupported Command'' @ [CHR 0x0A]))] s
      else if valid = INVALID_ARGS then printf (cstring ''%s'') [Str_arg (cstring (''Invalid Arguments'' @ [CHR 0x0A]))] s
      else Some (0, s))"

text \<open>One turn of the loop of \<open>shell\<close>.\<close>

definition shell_turn :: "stdio \<Rightarrow> (launch list \<times> stdio) option" where
  "shell_turn s =
     Option.bind (printf (cstring ''> '') [] s) (\<lambda>(_, s).
     Option.bind (readline_no_spaces MAX_CMD_SIZE s) (\<lambda>(str, s).
       if str = [] \<or> hd str = 0 then Some ([], s)
       else Option.bind (parse_command (str @ [0])) (\<lambda>(cmd_name, args, fg).
            let (valid, ls) = execute (cmd_name @ [0]) args fg
            in map_option (\<lambda>(_, s). (ls, s)) (handle_validity valid s))))"

section \<open>Facts\<close>

definition good_word :: "byte list \<Rightarrow> bool" where
  "good_word w \<longleftrightarrow> w \<noteq> [] \<and> 0 \<notin> set w \<and> 32 \<notin> set w"

subsection \<open>Arguments\<close>

text \<open>Where the strings of the arguments come to lie, from offset \<open>k\<close> on.\<close>

fun offsets :: "nat \<Rightarrow> byte list list \<Rightarrow> nat list" where
  "offsets k [] = []"
| "offsets k (w # ws) = k # offsets (k + length w + 1) ws"

definition layout :: "byte list list \<Rightarrow> byte list" where
  "layout ws = concat (map (\<lambda>w. w @ [0]) ws)"

lemma length_offsets [simp]: "length (offsets k ws) = length ws"
  by (induction ws arbitrary: k) auto

lemma arguments_word:
  "0 \<notin> set w \<Longrightarrow> 32 \<notin> set w \<Longrightarrow>
     arguments_loop (w @ arg) j ptr strs ptrs = arguments_loop arg (j + length w) ptr (strs @ w) ptrs"
  by (induction w arbitrary: j strs) auto

lemma arguments_words:
  "\<forall>v \<in> set (w # ws). good_word v \<Longrightarrow>
     arguments_loop (join_words (w # ws) @ 0 # r) (length strs) (length strs) strs ptrs =
       Some (strs @ layout (w # ws), ptrs @ offsets (length strs) (w # ws))"
proof (induction ws arbitrary: w strs ptrs)
  case Nil
  then show ?case by (simp add: arguments_word good_word_def layout_def)
next
  case (Cons v ws)
  have "arguments_loop (join_words (w # v # ws) @ 0 # r) (length strs) (length strs) strs ptrs =
      arguments_loop (join_words (v # ws) @ 0 # r) (length (strs @ w @ [0])) (length (strs @ w @ [0])) (strs @ w @ [0])
        (ptrs @ [length strs])"
    using Cons.prems by (simp add: arguments_word good_word_def)
  then show ?case using Cons.IH [of v "strs @ w @ [0]" "ptrs @ [length strs]"] Cons.prems by (simp add: layout_def)
qed

lemma layout_strings:
  "\<forall>v \<in> set ws. good_word v \<Longrightarrow> map (\<lambda>p. cstr (drop p (pre @ layout ws))) (offsets (length pre) ws) = ws"
proof (induction ws arbitrary: pre)
  case (Cons w ws)
  have "pre @ layout (w # ws) = (pre @ w @ [0]) @ layout ws" by (simp add: layout_def)
  then show ?case using Cons.IH [of "pre @ w @ [0]"] Cons.prems by (simp add: layout_def good_word_def)
qed simp

lemma join_words_Cons: "join_words (w # ws) = w @ (if ws = [] then [] else 32 # join_words ws)"
  by (cases ws) auto

lemma join_words_NUL: "\<forall>w \<in> set ws. good_word w \<Longrightarrow> 0 \<notin> set (join_words ws)"
  by (induction ws) (auto simp: join_words_Cons good_word_def simp del: join_words.simps(2,3))

lemma build_words:
  assumes "\<forall>w \<in> set ws. good_word w" "terminated args" "cstr args = join_words ws"
  shows "build_arguments args = Some (layout ws, offsets 0 ws)"
proof -
  obtain r where r: "args = join_words ws @ 0 # r" using cstr_split [OF assms(2)] assms(3) by auto
  show ?thesis
  proof (cases ws)
    case Nil
    then show ?thesis using r by (simp add: build_arguments_def peek_at_def layout_def)
  next
    case (Cons w us)
    then have "w \<noteq> []" "hd w \<noteq> 0" using assms(1) by (auto simp: good_word_def) (metis hd_in_set)
    then have "args ! 0 \<noteq> 0" "args \<noteq> []" using r Cons by (auto simp: join_words_Cons hd_conv_nth nth_append)
    then show ?thesis
      using arguments_words [of w us r "[]" "[]"] assms(1) r Cons by (simp add: build_arguments_def peek_at_def)
  qed
qed

subsection \<open>Command lines\<close>

lemma extract_name: "good_word w \<Longrightarrow> c = 0 \<or> c = 32 \<Longrightarrow> extract_cmd_name (w @ c # r) = w"
  by (auto simp: extract_cmd_name_def good_word_def takeWhile_tail)

lemma peek_middle: "k = length p \<Longrightarrow> peek_at (p @ c # q) k = Some c"
  by (simp add: peek_at_def)

lemma check_last:
  assumes "buf = p @ c # 0 # r" "start \<le> Suc (length p)" "cstr (drop start buf) = drop start (p @ [c])" "c \<noteq> 38"
  shows "check_foreground buf start = Some (buf, True)"
proof -
  define n where "n = length (cstr (drop start buf))"
  have n: "start + n = Suc (length p)" using assms(2,3) by (simp add: n_def)
  moreover have "peek_at buf (length p) = Some c" using assms(1) by (simp add: peek_middle)
  ultimately show ?thesis using assms(4) unfolding check_foreground_def n_def [symmetric] Let_def by auto
qed

lemma check_last_two:
  assumes "buf = p @ d # 38 # 0 # r" "start \<le> length p + 2" "cstr (drop start buf) = drop start (p @ [d, 38])"
    "start \<noteq> Suc (length p)"
  shows "check_foreground buf start = Some (if d = 32 then (p @ 0 # 38 # 0 # r, False) else (buf, True))"
proof -
  define n where "n = length (cstr (drop start buf))"
  have n: "start + n = Suc (Suc (length p))" using assms(2,3) by (simp add: n_def)
  have "peek_at buf (Suc (length p)) = Some 38" "peek_at buf (length p) = Some d"
    using assms(1) by (simp_all add: peek_at_def nth_append)
  moreover have "n \<noteq> 1" using n assms(4) by simp
  moreover have "buf[length p := 0] = p @ 0 # 38 # 0 # r" using assms(1) by simp
  ultimately show ?thesis using n unfolding check_foreground_def n_def [symmetric] Let_def by (auto simp: numeral_2_eq_2)
qed

lemma parse_alone:
  assumes "good_word w" "w \<noteq> [38]"
  shows "parse_command (w @ 0 # r) = Some (w, 0 # r, True)"
proof -
  obtain v c where w: "w = v @ [c]" using assms(1) by (cases w rule: rev_cases) (auto simp: good_word_def)
  have "check_foreground (w @ 0 # r) (length w) = Some (w @ 0 # r, True)"
  proof (cases "c = 38")
    case False
    then show ?thesis by (intro check_last [of _ v c r]) (simp_all add: w)
  next
    case True
    then obtain u d where v: "v = u @ [d]" using assms(2) w by (cases v rule: rev_cases) auto
    then have "d \<noteq> 32" using assms(1) w by (auto simp: good_word_def)
    then show ?thesis using True check_last_two [of "w @ 0 # r" u d r "length w"] by (simp add: w v)
  qed
  then show ?thesis using extract_name [OF assms(1), of 0 r] by (simp add: parse_command_def peek_middle Let_def)
qed

text \<open>A blank and \<open>&\<close> at the end are taken off and put the command in the background.\<close>

lemma parse_background:
  assumes "good_word w" "0 \<notin> set x"
  shows "parse_command (w @ 32 # x @ 32 # 38 # 0 # r) = Some (w, x @ 0 # 38 # 0 # r, False)"
    "parse_command (w @ 32 # 38 # 0 # r) = Some (w, 0 # 38 # 0 # r, False)"
proof -
  have "cstr (x @ 32 # 38 # 0 # r) = x @ [32, 38]" using cstr_append_NUL [of "x @ [32, 38]" r] assms(2) by simp
  then have "check_foreground (w @ 32 # x @ 32 # 38 # 0 # r) (length w) = Some (w @ 32 # x @ 0 # 38 # 0 # r, False)"
    using check_last_two [of "w @ 32 # x @ 32 # 38 # 0 # r" "w @ 32 # x" 32 r "length w"] assms(2) by simp
  then show "parse_command (w @ 32 # x @ 32 # 38 # 0 # r) = Some (w, x @ 0 # 38 # 0 # r, False)"
    using extract_name [OF assms(1), of 32 "x @ 32 # 38 # 0 # r"]
    by (simp add: parse_command_def peek_middle Let_def)
  have "check_foreground (w @ 32 # 38 # 0 # r) (length w) = Some (w @ 0 # 38 # 0 # r, False)"
    using check_last_two [of "w @ 32 # 38 # 0 # r" w 32 r "length w"] by simp
  then show "parse_command (w @ 32 # 38 # 0 # r) = Some (w, 0 # 38 # 0 # r, False)"
    using extract_name [OF assms(1), of 32 "38 # 0 # r"] by (simp add: parse_command_def peek_middle Let_def)
qed

lemma parse_foreground:
  assumes "good_word w" "x = y @ [c]" "0 \<notin> set x" "c \<noteq> 38 \<or> (y \<noteq> [] \<and> last y \<noteq> 32)"
  shows "parse_command (w @ 32 # x @ 0 # r) = Some (w, x @ 0 # r, True)"
proof -
  have cs: "cstr (x @ 0 # r) = x" using cstr_append_NUL [OF assms(3)] by simp
  have "check_foreground (w @ 32 # x @ 0 # r) (length w) = Some (w @ 32 # x @ 0 # r, True)"
  proof (cases "c = 38")
    case False
    then show ?thesis using assms(2) cs by (intro check_last [of _ "w @ 32 # y" c r]) simp_all
  next
    case True
    then obtain z d where "y = z @ [d]" "d \<noteq> 32" using assms(4) by (cases y rule: rev_cases) auto
    then show ?thesis using True assms(2) cs check_last_two [of "w @ 32 # x @ 0 # r" "w @ 32 # z" d r "length w"] by simp
  qed
  then show ?thesis using extract_name [OF assms(1), of 32 "x @ 0 # r"] by (simp add: parse_command_def peek_middle Let_def)
qed

lemma join_words_snoc: "join_words (us @ [v]) = (if us = [] then [] else join_words us @ [32]) @ v"
  by (induction us) (auto simp: join_words_Cons simp del: join_words.simps(2,3))

lemma parse_words:
  assumes "\<forall>v \<in> set (w # ws). good_word v" "w \<noteq> [38]" "bg = (ws \<noteq> [] \<and> last ws = [38])"
  shows "\<exists>args. parse_command (join_words (w # ws) @ 0 # r) = Some (w, args, \<not> bg) \<and> terminated args \<and>
    cstr args = join_words (if bg then butlast ws else ws)"
proof (cases ws rule: rev_cases)
  case Nil
  then show ?thesis using assms parse_alone [of w r] by simp
next
  case (snoc us v)
  have j: "join_words (w # ws) = w @ 32 # join_words ws" using snoc by (simp add: join_words_Cons)
  have nz: "0 \<notin> set (join_words ws)" "0 \<notin> set (join_words us)" using assms(1) snoc by (auto intro!: join_words_NUL)
  have w: "good_word w" "good_word v" using assms(1) snoc by auto
  show ?thesis
  proof (cases "v = [38]")
    case True
    then have bg: "bg" "butlast ws = us" using assms(3) snoc by auto
    show ?thesis
    proof (cases "us = []")
      case True
      then have "join_words (w # ws) @ 0 # r = w @ 32 # 38 # 0 # r" using j snoc \<open>v = [38]\<close> by simp
      then show ?thesis using parse_background(2) [OF w(1), of "[]" r] bg True by simp
    next
      case False
      then have "join_words (w # ws) @ 0 # r = w @ 32 # join_words us @ 32 # 38 # 0 # r"
        using j snoc \<open>v = [38]\<close> join_words_snoc [of us v] by simp
      then show ?thesis using parse_background(1) [OF w(1) nz(2), of r] bg nz(2) by simp
    qed
  next
    case False
    then have bg: "\<not> bg" using assms(3) snoc by auto
    obtain u c where v: "v = u @ [c]" using w(2) by (cases v rule: rev_cases) (auto simp: good_word_def)
    define y where "y = (if us = [] then [] else join_words us @ [32]) @ u"
    have x: "join_words ws = y @ [c]" using snoc v join_words_snoc [of us v] by (simp add: y_def)
    have "c \<noteq> 38 \<or> (y \<noteq> [] \<and> last y \<noteq> 32)"
    proof (cases "u = []")
      case True
      then show ?thesis using False v by simp
    next
      case False
      then have "last u \<in> set v" using v by simp
      then have "last u \<noteq> 32" using w(2) by (auto simp: good_word_def)
      then show ?thesis using False by (simp add: y_def)
    qed
    then have "parse_command (w @ 32 # join_words ws @ 0 # r) = Some (w, join_words ws @ 0 # r, True)"
      by (rule parse_foreground [OF w(1) x nz(1)])
    then show ?thesis using j bg nz(1) by simp
  qed
qed



text \<open>The line \<open>&\<close> alone makes \<open>check_foreground\<close> read the byte in front of the line.\<close>

lemma lone_ampersand: "parse_command (38 # 0 # r) = None"
proof -
  have "extract_cmd_name (38 # 0 # r) = [38]" by (simp add: extract_cmd_name_def)
  then show ?thesis by (simp add: parse_command_def check_foreground_def peek_at_def)
qed

text \<open>The pointers a process gets as \<open>argv\<close> lie in the page that \<open>execp\<close> frees after its \<open>yield\<close>.\<close>

lemma arguments_loop_bound:
  "arguments_loop arg j ptr strs ptrs = Some (s, ps) \<Longrightarrow> length strs = j \<Longrightarrow> ptr \<le> j \<Longrightarrow> list_all (\<lambda>p. p \<le> j) ptrs \<Longrightarrow>
     list_all (\<lambda>p. p < length s) ps"
proof (induction arg j ptr strs ptrs rule: arguments_loop.induct)
  case (2 c arg j ptr strs ptrs)
  have "list_all (\<lambda>p. p \<le> Suc j) ptrs" using 2(6) by (auto simp: list_all_iff intro: le_SucI)
  then show ?case using 2 by (auto split: if_splits simp: less_Suc_eq_le)
qed simp

lemma argv_in_freed_page:
  assumes "execp f args base = Some pg"
  shows "set (arg_pointers pg) \<subseteq> {base..<base + PAGE_SIZE}"
proof -
  obtain s ps where s: "build_arguments args = Some (s, ps)" "MAX_ARGS * 8 + length s \<le> PAGE_SIZE"
      "arg_pointers pg = map (\<lambda>p. base + MAX_ARGS * 8 + p) ps"
    using assms by (auto simp: execp_def split: Option.bind_splits if_splits)
  have "\<forall>p \<in> set ps. p < length s"
    using s(1) arguments_loop_bound [of args 0 0 "[]" "[]" s ps]
    by (auto simp: build_arguments_def list_all_iff split: Option.bind_splits if_splits)
  then show ?thesis using s(2,3) by fastforce
qed

end
