(* ===== verification/ProducerConsumer.thy ===== *)
theory ProducerConsumer
  imports CircularBuffer MemoryAllocator "HOL-Library.Multiset"
begin

text \<open>
  The two producer and consumer programs of \<open>Userland/SampleCodeModule\<close>: \<open>producerConsumer2.c\<close>
  shares an array under a mutex and a condition variable, \<open>producerConsumer.c\<close> sends items and
  empty slots through two fifos. As with the philosophers a step is a stretch of code of one
  process between two synchronisations; \<open>None\<close> is an access outside a buffer. The items
  \<open>rand_int\<close> draws are labels of the steps.
\<close>

section \<open>A shared array\<close>

text \<open>
  A worker has not started, is at \<open>mutex_lock\<close>, inside, in \<open>cond_wait\<close> or asleep after its turn;
  the producer carries the product it has drawn.
\<close>

datatype worker = Starting | At_lock int | Inside int | In_wait int | Resting | Killed

datatype role = Producer | Consumer | Control

text \<open>The control process reads commands, is at the lock of \<open>pause\<close>, or has ended the problem.\<close>

datatype control = Reading | At_pause | Ended

record pc2 =
  items :: "int list"
  fill_index :: nat
  buffer_size :: nat
  owner :: "role option"
  sleepers :: "role list"
  producer_at :: worker
  consumer_at :: worker
  control_at :: control
  is_pausing :: bool
  producerSleep :: int
  consumerSleep :: int
  produced :: "int list"
  consumed :: "int list"

text \<open>\<open>malloc\<close> hands out one page, whatever it is asked for.\<close>

definition start_producer_consumer_problem2 :: "nat \<Rightarrow> pc2" where
  "start_producer_consumer_problem2 buf_size =
     \<lparr>items = replicate (PAGE_SIZE div 4) 0, fill_index = 0, buffer_size = buf_size, owner = None, sleepers = [],
      producer_at = Starting, consumer_at = Starting, control_at = Reading, is_pausing = False,
      producerSleep = 4, consumerSleep = 7, produced = [], consumed = []\<rparr>"

definition wake_one :: "pc2 \<Rightarrow> pc2" where
  "wake_one s = s\<lparr>sleepers := tl (sleepers s)\<rparr>"

definition producer2 :: "int \<Rightarrow> pc2 \<Rightarrow> pc2 option" where
  "producer2 product s =
     (if fill_index s = buffer_size s
      then Some (s\<lparr>sleepers := sleepers s @ [Producer], owner := None, producer_at := In_wait product\<rparr>)
      else map_option
             (\<lambda>b. let s = wake_one (s\<lparr>items := b, fill_index := fill_index s + 1, produced := produced s @ [product]\<rparr>)
                  in s\<lparr>owner := None, producer_at := Resting\<rparr>)
             (poke_at (items s) (fill_index s) product))"

definition consumer2 :: "pc2 \<Rightarrow> pc2 option" where
  "consumer2 s =
     (if fill_index s = 0
      then Some (s\<lparr>sleepers := sleepers s @ [Consumer], owner := None, consumer_at := In_wait 0\<rparr>)
      else map_option
             (\<lambda>product. let s = wake_one (s\<lparr>fill_index := fill_index s - 1, consumed := consumed s @ [product]\<rparr>)
                  in s\<lparr>owner := None, consumer_at := Resting\<rparr>)
             (peek_at (items s) (fill_index s - 1)))"

definition pause2 :: "pc2 \<Rightarrow> pc2" where
  "pause2 s = s\<lparr>is_pausing := True, control_at := At_pause\<rparr>"

definition unpause2 :: "pc2 \<Rightarrow> pc2" where
  "unpause2 s = s\<lparr>is_pausing := False, owner := None\<rparr>"

definition control_speed2 :: "char \<Rightarrow> pc2 \<Rightarrow> pc2" where
  "control_speed2 c s =
     (if c = CHR ''p'' then (if is_pausing s then unpause2 s else pause2 s)
      else if c = CHR ''a'' then s\<lparr>producerSleep := producerSleep s + 1\<rparr>
      else if c = CHR ''s'' then s\<lparr>producerSleep := (if producerSleep s > 0 then producerSleep s - 1 else 0)\<rparr>
      else if c = CHR ''z'' then s\<lparr>consumerSleep := consumerSleep s + 1\<rparr>
      else if c = CHR ''x'' then s\<lparr>consumerSleep := (if consumerSleep s > 0 then consumerSleep s - 1 else 0)\<rparr>
      else if c = CHR ''q'' then s\<lparr>control_at := Ended, producer_at := Killed, consumer_at := Killed\<rparr>
      else s)"

text \<open>
  \<open>Draw v\<close>: the producer goes round its loop with product \<open>v\<close>; \<open>Round\<close>: the consumer does;
  \<open>Acquire r\<close>: a process at a lock, or woken in \<open>cond_wait\<close>, gets the mutex; \<open>Run r\<close>: it runs
  the code behind it; \<open>Key c\<close>: a command.
\<close>

datatype pc2_action = Draw int | Round | Acquire role | Run role | Key char

definition wants_lock :: "role \<Rightarrow> pc2 \<Rightarrow> bool" where
  "wants_lock r s =
     (case r of
        Producer \<Rightarrow> (case producer_at s of At_lock v \<Rightarrow> True | In_wait v \<Rightarrow> Producer \<notin> set (sleepers s) | _ \<Rightarrow> False)
      | Consumer \<Rightarrow> (case consumer_at s of At_lock v \<Rightarrow> True | In_wait v \<Rightarrow> Consumer \<notin> set (sleepers s) | _ \<Rightarrow> False)
      | Control \<Rightarrow> control_at s = At_pause)"

definition enter_section :: "role \<Rightarrow> pc2 \<Rightarrow> pc2" where
  "enter_section r s =
     (let s = s\<lparr>owner := Some r\<rparr>
      in case r of
           Producer \<Rightarrow> (case producer_at s of At_lock v \<Rightarrow> s\<lparr>producer_at := Inside v\<rparr> | In_wait v \<Rightarrow> s\<lparr>producer_at := Inside v\<rparr> | _ \<Rightarrow> s)
         | Consumer \<Rightarrow> s\<lparr>consumer_at := Inside 0\<rparr>
         | Control \<Rightarrow> s\<lparr>control_at := Reading\<rparr>)"

text \<open>\<open>None\<close>: the step is not enabled; \<open>Some None\<close>: it accesses memory outside the array.\<close>

fun pc2_step :: "pc2_action \<Rightarrow> pc2 \<Rightarrow> pc2 option option" where
  "pc2_step (Draw v) s =
     (if producer_at s = Starting \<or> producer_at s = Resting then Some (Some (s\<lparr>producer_at := At_lock v\<rparr>)) else None)"
| "pc2_step Round s =
     (if consumer_at s = Starting \<or> consumer_at s = Resting then Some (Some (s\<lparr>consumer_at := At_lock 0\<rparr>)) else None)"
| "pc2_step (Acquire r) s =
     (if owner s = None \<and> wants_lock r s then Some (Some (enter_section r s)) else None)"
| "pc2_step (Run Producer) s = (case producer_at s of Inside v \<Rightarrow> Some (producer2 v s) | _ \<Rightarrow> None)"
| "pc2_step (Run Consumer) s = (case consumer_at s of Inside v \<Rightarrow> Some (consumer2 s) | _ \<Rightarrow> None)"
| "pc2_step (Run Control) s = None"
| "pc2_step (Key c) s = (if control_at s = Reading then Some (Some (control_speed2 c s)) else None)"

fun pc2_run :: "pc2_action list \<Rightarrow> pc2 \<Rightarrow> pc2 option option" where
  "pc2_run [] s = Some (Some s)"
| "pc2_run (a # as) s = (case pc2_step a s of None \<Rightarrow> None | Some None \<Rightarrow> Some None | Some (Some t) \<Rightarrow> pc2_run as t)"

inductive pc2_reach :: "nat \<Rightarrow> pc2 \<Rightarrow> bool" for n where
  start: "pc2_reach n (start_producer_consumer_problem2 n)"
| step: "pc2_reach n s \<Longrightarrow> pc2_step a s = Some (Some t) \<Longrightarrow> pc2_reach n t"

subsection \<open>The invariant\<close>

definition pc2_inv :: "nat \<Rightarrow> pc2 \<Rightarrow> bool" where
  "pc2_inv n s \<longleftrightarrow> buffer_size s = n \<and> length (items s) = 1024 \<and> fill_index s \<le> n \<and>
     mset (produced s) = mset (consumed s) + mset (take (fill_index s) (items s)) \<and>
     distinct (sleepers s) \<and> set (sleepers s) \<subseteq> {Producer, Consumer} \<and>
     (Producer \<in> set (sleepers s) \<longrightarrow> fill_index s = n \<and> (\<exists>v. producer_at s = In_wait v) \<or> control_at s = Ended) \<and>
     (Consumer \<in> set (sleepers s) \<longrightarrow> fill_index s = 0 \<and> (\<exists>v. consumer_at s = In_wait v) \<or> control_at s = Ended) \<and>
     (producer_at s = Killed \<longleftrightarrow> control_at s = Ended) \<and> (consumer_at s = Killed \<longleftrightarrow> control_at s = Ended)"

lemma take_poke: "i < length xs \<Longrightarrow> take (Suc i) (xs[i := v]) = take i xs @ [v]"
  by (simp add: take_Suc_conv_app_nth)

lemma sleepers_cases:
  assumes "distinct q" "set q \<subseteq> {Producer, Consumer}"
  shows "Producer \<notin> set q \<Longrightarrow> q = [] \<or> q = [Consumer]" "Consumer \<notin> set q \<Longrightarrow> q = [] \<or> q = [Producer]"
  using assms by (cases q; cases "tl q"; auto)+

lemma producer2_inv:
  assumes inv: "pc2_inv n s" and at: "producer_at s = Inside v" and t: "producer2 v s = Some t"
  shows "pc2_inv n t"
proof -
  have notin: "Producer \<notin> set (sleepers s)" using inv at by (auto simp: pc2_inv_def)
  then have q: "sleepers s = [] \<or> sleepers s = [Consumer]" using inv by (intro sleepers_cases) (auto simp: pc2_inv_def)
  show ?thesis
  proof (cases "fill_index s = buffer_size s")
    case True
    then show ?thesis using t inv at notin by (auto simp: producer2_def pc2_inv_def)
  next
    case False
    then have "fill_index s < length (items s)" "t = s\<lparr>items := (items s)[fill_index s := v], fill_index := Suc (fill_index s),
        produced := produced s @ [v], sleepers := [], owner := None, producer_at := Resting\<rparr>"
      using t q by (auto simp: producer2_def wake_one_def poke_at_def Let_def split: if_splits)
    then show ?thesis using inv at False unfolding pc2_inv_def
      by (simp add: take_poke del: take_Suc take_update_cancel)
  qed
qed

lemma take_pop: "0 < i \<Longrightarrow> i \<le> length xs \<Longrightarrow> mset (take i xs) = mset (take (i - 1) xs) + {#xs ! (i - 1)#}"
  by (cases i) (simp_all add: take_Suc_conv_app_nth)

lemma consumer2_inv:
  assumes inv: "pc2_inv n s" and at: "consumer_at s = Inside v" and t: "consumer2 s = Some t"
  shows "pc2_inv n t"
proof -
  have notin: "Consumer \<notin> set (sleepers s)" using inv at by (auto simp: pc2_inv_def)
  then have q: "sleepers s = [] \<or> sleepers s = [Producer]" using inv by (intro sleepers_cases) (auto simp: pc2_inv_def)
  show ?thesis
  proof (cases "fill_index s = 0")
    case True
    then show ?thesis using t inv at notin by (auto simp: consumer2_def pc2_inv_def)
  next
    case False
    then have "fill_index s - 1 < length (items s)" using t by (auto simp: consumer2_def peek_at_def split: if_splits)
    then have "mset (take (fill_index s) (items s)) = mset (take (fill_index s - 1) (items s)) + {#items s ! (fill_index s - 1)#}"
      using False by (intro take_pop) auto
    moreover have "t = s\<lparr>fill_index := fill_index s - 1, consumed := consumed s @ [items s ! (fill_index s - 1)], sleepers := [],
        owner := None, consumer_at := Resting\<rparr>"
      using t q False by (auto simp: consumer2_def wake_one_def peek_at_def Let_def split: if_splits)
    moreover have "fill_index s - 1 \<le> n" using inv by (auto simp: pc2_inv_def)
    ultimately show ?thesis using inv at False unfolding pc2_inv_def by simp
  qed
qed

lemma pc2_inv_update [simp]:
  "pc2_inv n (s\<lparr>producerSleep := k\<rparr>) = pc2_inv n s" "pc2_inv n (s\<lparr>consumerSleep := k\<rparr>) = pc2_inv n s"
  "pc2_inv n (s\<lparr>owner := r\<rparr>) = pc2_inv n s" "pc2_inv n (s\<lparr>is_pausing := b\<rparr>) = pc2_inv n s"
  by (simp_all add: pc2_inv_def)

lemma pc2_inv_control:
  assumes "pc2_inv n s"
  shows "control_at s \<noteq> Ended \<Longrightarrow> c \<noteq> Ended \<Longrightarrow> pc2_inv n (s\<lparr>control_at := c\<rparr>)"
    "pc2_inv n (s\<lparr>control_at := Ended, producer_at := Killed, consumer_at := Killed\<rparr>)"
  using assms unfolding pc2_inv_def by simp_all

lemma pc2_inv_move:
  assumes "pc2_inv n s"
  shows "Producer \<notin> set (sleepers s) \<Longrightarrow> producer_at s \<noteq> Killed \<Longrightarrow> p \<noteq> Killed \<Longrightarrow> pc2_inv n (s\<lparr>producer_at := p\<rparr>)"
    "Consumer \<notin> set (sleepers s) \<Longrightarrow> consumer_at s \<noteq> Killed \<Longrightarrow> p \<noteq> Killed \<Longrightarrow> pc2_inv n (s\<lparr>consumer_at := p\<rparr>)"
  using assms unfolding pc2_inv_def by simp_all

lemma awake:
  assumes "pc2_inv n s"
  shows "producer_at s \<noteq> Killed \<Longrightarrow> (\<forall>v. producer_at s \<noteq> In_wait v) \<Longrightarrow> Producer \<notin> set (sleepers s)"
    "consumer_at s \<noteq> Killed \<Longrightarrow> (\<forall>v. consumer_at s \<noteq> In_wait v) \<Longrightarrow> Consumer \<notin> set (sleepers s)"
  using assms by (auto simp: pc2_inv_def)

lemma pc2_step_inv:
  assumes inv: "pc2_inv n s" and step: "pc2_step a s = Some (Some t)"
  shows "pc2_inv n t"
proof (cases a)
  case (Run r)
  then show ?thesis using inv step
    by (cases r) (auto split: worker.splits intro: producer2_inv consumer2_inv)
next
  case (Acquire r)
  then have t: "t = enter_section r s" "wants_lock r s" using step by (auto split: if_splits)
  show ?thesis
  proof (cases r)
    case Producer
    then show ?thesis using t inv awake [OF inv]
      by (auto simp: enter_section_def wants_lock_def Let_def intro!: pc2_inv_move(1) split: worker.splits)
  next
    case Consumer
    then show ?thesis using t inv awake [OF inv]
      by (auto simp: enter_section_def wants_lock_def Let_def intro!: pc2_inv_move(2) split: worker.splits)
  next
    case Control
    then show ?thesis using t inv by (simp add: enter_section_def wants_lock_def pc2_inv_control(1))
  qed
next
  case (Key c)
  then have "t = control_speed2 c s" "control_at s = Reading" using step by (auto split: if_splits)
  then show ?thesis using inv
    by (simp add: control_speed2_def pause2_def unpause2_def pc2_inv_control)
next
  case (Draw v)
  then have "t = s\<lparr>producer_at := At_lock v\<rparr>" "producer_at s = Starting \<or> producer_at s = Resting"
    using step by (auto split: if_splits)
  then show ?thesis using inv awake(1) [OF inv] by (auto intro!: pc2_inv_move)
next
  case Round
  then have "t = s\<lparr>consumer_at := At_lock 0\<rparr>" "consumer_at s = Starting \<or> consumer_at s = Resting"
    using step by (auto split: if_splits)
  then show ?thesis using inv awake(2) [OF inv] by (auto intro!: pc2_inv_move)
qed

lemma pc2_reach_inv: "pc2_reach n s \<Longrightarrow> pc2_inv n s"
proof (induction rule: pc2_reach.induct)
  case start
  have "PAGE_SIZE div 4 = 1024" by (simp add: PAGE_SIZE_def)
  then have "length (items (start_producer_consumer_problem2 n)) = 1024"
    by (simp only: start_producer_consumer_problem2_def pc2.simps length_replicate)
  moreover have "buffer_size (start_producer_consumer_problem2 n) = n" "fill_index (start_producer_consumer_problem2 n) = 0"
    "produced (start_producer_consumer_problem2 n) = []" "consumed (start_producer_consumer_problem2 n) = []"
    "sleepers (start_producer_consumer_problem2 n) = []" "producer_at (start_producer_consumer_problem2 n) = Starting"
    "consumer_at (start_producer_consumer_problem2 n) = Starting" "control_at (start_producer_consumer_problem2 n) = Reading"
    by (simp_all add: start_producer_consumer_problem2_def)
  ultimately show ?case unfolding pc2_inv_def by simp
next
  case (step s a t)
  show ?case by (rule pc2_step_inv [OF step.IH step.hyps(2)])
qed

text \<open>
  C23. With at most 1,024 slots the shared array is safe and nothing gets lost: no step of the
  producer or the consumer touches memory outside it, everything produced has been consumed or is
  among the first \<open>index\<close> entries, and the two never sleep on the condition at the same time.
\<close>

theorem shared_buffer_safe:
  assumes "pc2_reach n s" "0 < n" "n \<le> 1024"
  shows "pc2_step a s \<noteq> Some None \<and>
    mset (produced s) = mset (consumed s) + mset (take (fill_index s) (items s)) \<and> fill_index s \<le> n \<and>
    (control_at s = Ended \<or> \<not> {Producer, Consumer} \<subseteq> set (sleepers s))"
proof -
  have inv: "pc2_inv n s" by (rule pc2_reach_inv [OF assms(1)])
  have "producer2 v s \<noteq> None" "consumer2 s \<noteq> None" for v
    using inv assms(3) by (auto simp: producer2_def consumer2_def pc2_inv_def poke_at_def peek_at_def)
  then have "pc2_step a s \<noteq> Some None"
    by (cases "(a, s)" rule: pc2_step.cases) (auto split: worker.splits)
  then show ?thesis using inv assms(2) by (auto simp: pc2_inv_def)
qed

lemma pc2_run_reach: "pc2_run as s = Some (Some t) \<Longrightarrow> pc2_reach n s \<Longrightarrow> pc2_reach n t"
  by (induction "as" arbitrary: s) (auto split: option.splits intro: pc2_reach.step)

definition one_turn :: "int \<Rightarrow> pc2_action list" where
  "one_turn v = [Draw v, Acquire Producer, Run Producer]"

lemma produce_one:
  assumes "fill_index s = k" "k < 1024" "k < n" "pc2_inv n s" "pc2_reach n s" "owner s = None" "sleepers s = []"
    "producer_at s = Starting \<or> producer_at s = Resting"
  shows "\<exists>t. pc2_run (one_turn v) s = Some (Some t) \<and> pc2_reach n t \<and> fill_index t = Suc k \<and> owner t = None \<and>
    sleepers t = [] \<and> producer_at t = Resting \<and> produced t = produced s @ [v] \<and> consumed t = consumed s"
proof -
  have "\<exists>t. pc2_run (one_turn v) s = Some (Some t) \<and> fill_index t = Suc k \<and> owner t = None \<and>
    sleepers t = [] \<and> producer_at t = Resting \<and> produced t = produced s @ [v] \<and> consumed t = consumed s"
    using assms by (auto simp: one_turn_def wants_lock_def enter_section_def producer2_def wake_one_def poke_at_def pc2_inv_def Let_def)
  then show ?thesis using pc2_run_reach assms(5) by blast
qed

lemma start_fields:
  "fill_index (start_producer_consumer_problem2 n) = 0" "owner (start_producer_consumer_problem2 n) = None"
  "sleepers (start_producer_consumer_problem2 n) = []" "producer_at (start_producer_consumer_problem2 n) = Starting"
  "produced (start_producer_consumer_problem2 n) = []" "consumed (start_producer_consumer_problem2 n) = []"
  by (simp_all add: start_producer_consumer_problem2_def)

lemma produce_many:
  "k \<le> 1024 \<Longrightarrow> k \<le> n \<Longrightarrow> \<exists>s. pc2_reach n s \<and> fill_index s = k \<and> owner s = None \<and> sleepers s = [] \<and>
     (producer_at s = Starting \<or> producer_at s = Resting) \<and> length (produced s) = k \<and> consumed s = []"
proof (induction k)
  case 0
  then show ?case using pc2_reach.start [of n] start_fields by (intro exI [of _ "start_producer_consumer_problem2 n"]) simp
next
  case (Suc k)
  then obtain s where s: "pc2_reach n s" "fill_index s = k" "owner s = None" "sleepers s = []"
      "producer_at s = Starting \<or> producer_at s = Resting" "length (produced s) = k" "consumed s = []" by auto
  from produce_one [OF s(2) _ _ pc2_reach_inv [OF s(1)] s(1,3-5), of 0] Suc.prems
  obtain t where "pc2_reach n t" "fill_index t = Suc k" "owner t = None" "sleepers t = []" "producer_at t = Resting"
      "produced t = produced s @ [0]" "consumed t = consumed s" by auto
  then show ?case using s by (intro exI [of _ t]) simp
qed

theorem shared_buffer_safe_witness:
  "\<exists>s. fill_index s = 2 \<and> pc2_step (Run Consumer) s \<noteq> Some None \<and>
     mset (produced s) = mset (consumed s) + mset (take 2 (items s)) \<and> length (produced s) = 2"
proof -
  obtain s where s: "pc2_reach 3 s" "fill_index s = 2" "length (produced s) = 2" using produce_many [of 2 3] by auto
  then show ?thesis using shared_buffer_safe [OF s(1), of "Run Consumer"] by (intro exI [of _ s]) simp
qed

text \<open>
  With more slots the array overruns its page: \<open>malloc\<close> gives one page of 1,024 numbers for
  any size, and the producer, once 1,024 items lie there, writes the next one behind it.
\<close>

theorem shared_buffer_overruns:
  assumes "1024 < n"
  shows "\<exists>s v. pc2_reach n s \<and> length (produced s) = 1024 \<and> pc2_step (Run Producer) s = Some None"
proof -
  obtain s where s: "pc2_reach n s" "fill_index s = 1024" "owner s = None"
      "producer_at s = Starting \<or> producer_at s = Resting" "length (produced s) = 1024"
    using produce_many [of 1024 n] assms by auto
  have inv: "length (items s) = 1024" "buffer_size s = n" using pc2_reach_inv [OF s(1)] by (auto simp: pc2_inv_def)
  obtain t where t: "pc2_run [Draw 0, Acquire Producer] s = Some (Some t)" "producer_at t = Inside 0"
      "fill_index t = 1024" "items t = items s" "buffer_size t = n" "produced t = produced s"
    using s(3,4) inv(2) s(2) by (auto simp: wants_lock_def enter_section_def)
  have "pc2_step (Run Producer) t = Some None"
    using t inv assms by (simp add: producer2_def poke_at_def)
  moreover have "pc2_reach n t" using pc2_run_reach [OF t(1) s(1)] .
  ultimately show ?thesis using t(6) s(5) by auto
qed

theorem shared_buffer_overruns_witness:
  "\<exists>s. pc2_reach 2000 s \<and> length (produced s) = 1024 \<and> pc2_step (Run Producer) s = Some None"
  using shared_buffer_overruns [of 2000] by simp

section \<open>Two fifos\<close>

text \<open>
  \<open>producerConsumer.c\<close>: one fifo carries a byte per empty slot, the other the items of four bytes.
  A fifo of the kernel holds \<open>BUF_SIZE\<close> bytes, and a write that does not fit overruns its ring
  buffer (\<open>None\<close>); a read of an empty fifo waits. The first argument of a process is the item in
  its hands.
\<close>

record pc1 =
  empty_slots :: nat
  full_items :: "int list"
  making :: "int option"
  using_up :: "int option"
  made :: "int list"
  used :: "int list"

text \<open>
  One command of the fifo version on the two sleep times, the producer's and the consumer's;
  \<open>None\<close>: the problem is ended.
\<close>

definition control_speed1 :: "char \<Rightarrow> int \<times> int \<Rightarrow> (int \<times> int) option" where
  "control_speed1 c speeds =
     (case speeds of (p, q) \<Rightarrow>
        if c = CHR ''a'' then Some (p + 1, q)
        else if c = CHR ''s'' then Some (if p > 0 then p - 1 else 0, q)
        else if c = CHR ''z'' then Some (p, q + 1)
        else if c = CHR ''x'' then Some (p, if q > 0 then q - 1 else 0)
        else if c = CHR ''q'' then None
        else Some (p, q))"

lemma speeds_nonneg: "control_speed1 c (p, q) = Some (p', q') \<Longrightarrow> 0 \<le> p \<Longrightarrow> 0 \<le> q \<Longrightarrow> 0 \<le> p' \<and> 0 \<le> q'"
  by (auto simp: control_speed1_def split: if_splits)

definition fifo_room :: "nat \<Rightarrow> bool" where "fifo_room n \<longleftrightarrow> int n \<le> BUF_SIZE"

definition start_producer_consumer_problem :: "nat \<Rightarrow> pc1 option" where
  "start_producer_consumer_problem buf_size =
     (if fifo_room buf_size
      then Some \<lparr>empty_slots = buf_size, full_items = [], making = None, using_up = None, made = [], used = []\<rparr>
      else None)"

text \<open>The producer: from \<open>read (empty_fd, ...)\<close> on with the item it draws, and from its sleep on.\<close>

definition producer_read :: "int \<Rightarrow> pc1 \<Rightarrow> pc1" where
  "producer_read item s = s\<lparr>empty_slots := empty_slots s - 1, making := Some item, made := made s @ [item]\<rparr>"

definition producer_write :: "int \<Rightarrow> pc1 \<Rightarrow> pc1 option" where
  "producer_write item s =
     (if fifo_room (4 * length (full_items s) + 4) then Some (s\<lparr>full_items := full_items s @ [item], making := None\<rparr>)
      else None)"

definition consumer_read :: "pc1 \<Rightarrow> pc1" where
  "consumer_read s =
     s\<lparr>full_items := tl (full_items s), using_up := Some (hd (full_items s)), used := used s @ [hd (full_items s)]\<rparr>"

definition consumer_write :: "pc1 \<Rightarrow> pc1 option" where
  "consumer_write s =
     (if fifo_room (empty_slots s + 1) then Some (s\<lparr>empty_slots := empty_slots s + 1, using_up := None\<rparr>) else None)"

datatype pc1_action = Make int | Put | Take | Free

fun pc1_step :: "pc1_action \<Rightarrow> pc1 \<Rightarrow> pc1 option option" where
  "pc1_step (Make v) s = (if making s = None \<and> empty_slots s > 0 then Some (Some (producer_read v s)) else None)"
| "pc1_step Put s = (case making s of None \<Rightarrow> None | Some v \<Rightarrow> Some (producer_write v s))"
| "pc1_step Take s = (if using_up s = None \<and> full_items s \<noteq> [] then Some (Some (consumer_read s)) else None)"
| "pc1_step Free s = (case using_up s of None \<Rightarrow> None | Some v \<Rightarrow> Some (consumer_write s))"

inductive pc1_reach :: "nat \<Rightarrow> pc1 \<Rightarrow> bool" for n where
  start: "start_producer_consumer_problem n = Some s \<Longrightarrow> pc1_reach n s"
| step: "pc1_reach n s \<Longrightarrow> pc1_step a s = Some (Some t) \<Longrightarrow> pc1_reach n t"

definition held :: "int option \<Rightarrow> int list" where "held x = (case x of None \<Rightarrow> [] | Some v \<Rightarrow> [v])"

lemma held_simps [simp]: "held None = []" "held (Some v) = [v]"
  by (simp_all add: held_def)

definition pc1_inv :: "nat \<Rightarrow> pc1 \<Rightarrow> bool" where
  "pc1_inv n s \<longleftrightarrow> made s = used s @ full_items s @ held (making s) \<and>
     empty_slots s + length (full_items s) + length (held (making s)) + length (held (using_up s)) = n"

lemma pc1_reach_inv: "pc1_reach n s \<Longrightarrow> pc1_inv n s"
proof (induction rule: pc1_reach.induct)
  case (start s)
  then show ?case by (auto simp: start_producer_consumer_problem_def pc1_inv_def split: if_splits)
next
  case (step s a t)
  then show ?case
    by (cases a) (auto simp: pc1_inv_def producer_read_def producer_write_def consumer_read_def consumer_write_def
        split: if_splits option.splits)
qed



end
