(* ===== verification/Commands.thy ===== *)
theory Commands
  imports UserSyscalls UserReports Shell ProducerConsumer Fractals
begin

text \<open>
  \<open>Userland/SampleCodeModule\<close>: the commands of \<open>commands.c\<close>, with \<open>time.c\<close> and \<open>random.c\<close>. A command
  is a program: it prints through \<open>stdio.c\<close>, keeps its own static variables, and enters the kernel
  through the functions of \<open>syscalls.c\<close>.
\<close>

section \<open>Programs\<close>

text \<open>
  The static variables of the user image, \<open>stdio.c\<close>'s included. A program runs over them and the
  kernel; its faults are those of the kernel and undefined accesses of its own.
\<close>

record app =
  io :: stdio
  GMT :: int
  rand_next :: u64
  test_num :: u32

type_synonym 'a program = "app \<Rightarrow> ('a \<times> app) kop"

definition ureturn :: "'a \<Rightarrow> 'a program" where "ureturn a = (\<lambda>s. kreturn (a, s))"
definition ubind :: "'a program \<Rightarrow> ('a \<Rightarrow> 'b program) \<Rightarrow> 'b program" where
  "ubind m f = (\<lambda>s. kbind (m s) (\<lambda>(a, s). f a s))"
definition ucall :: "'a kop \<Rightarrow> 'a program" where "ucall k = (\<lambda>s. kbind k (\<lambda>a. kreturn (a, s)))"
definition uget :: "(app \<Rightarrow> 'a) \<Rightarrow> 'a program" where "uget f = (\<lambda>s. kreturn (f s, s))"
definition uset :: "(app \<Rightarrow> app) \<Rightarrow> unit program" where "uset f = (\<lambda>s. kreturn ((), f s))"
definition udefined :: "'a option \<Rightarrow> 'a program" where
  "udefined x = (case x of None \<Rightarrow> (\<lambda>s. kfault Bad_pointer) | Some a \<Rightarrow> ureturn a)"
definition uprint :: "string \<Rightarrow> fmt_arg list \<Rightarrow> unit program" where
  "uprint format vals = ubind (uget (\<lambda>s. say format vals (io s))) (\<lambda>r. ubind (udefined r) (\<lambda>i. uset (io_update (\<lambda>_. i))))"

primrec useq :: "unit program list \<Rightarrow> 'a program \<Rightarrow> 'a program" where
  "useq [] m = m"
| "useq (x # xs) m = ubind x (\<lambda>_. useq xs m)"

primrec ufor :: "'b list \<Rightarrow> ('b \<Rightarrow> unit program) \<Rightarrow> unit program" where
  "ufor [] f = ureturn ()"
| "ufor (x # xs) f = ubind (f x) (\<lambda>_. ufor xs f)"

text \<open>\<open>argv [i]\<close>; behind the last argument it is \<open>NULL\<close>, which no function can read.\<close>

type_synonym argv = "byte list list"

definition arg :: "argv \<Rightarrow> nat \<Rightarrow> byte list program" where "arg argv i = udefined (peek_at argv i)"

section \<open>Time and chance\<close>

definition MIN_GMT :: int where "MIN_GMT = -12"
definition MAX_GMT :: int where "MAX_GMT = 14"
definition DEFAULT_GMT :: int where "DEFAULT_GMT = -3"

definition setGMT :: "int \<Rightarrow> int program" where
  "setGMT gmt = (if gmt \<ge> MIN_GMT \<and> gmt \<le> MAX_GMT then ubind (uset (GMT_update (\<lambda>_. gmt))) (\<lambda>_. ureturn 1) else ureturn 0)"

definition getGMT :: "int program" where "getGMT = uget GMT"
definition seconds :: "kernel \<Rightarrow> int program" where "seconds k = ucall (time_u k 0)"
definition minutes :: "kernel \<Rightarrow> int program" where "minutes k = ucall (time_u k 1)"

definition hour :: "kernel \<Rightarrow> int program" where
  "hour k = ubind (ucall (time_u k 2)) (\<lambda>t. ubind (uget GMT) (\<lambda>g.
     let h = t + g in ureturn (if h \<ge> 0 \<and> h \<le> 23 then h else if h < 0 then h + 24 else h - 24)))"

definition sleep_program :: "kernel \<Rightarrow> nat \<Rightarrow> unit program" where
  "sleep_program k milliseconds = ubind (ucall (wait_u k milliseconds)) (\<lambda>_. ureturn ())"

definition rand_int :: "u64 \<Rightarrow> int \<times> u64" where
  "rand_int seed = (let seed = seed * 1103515245 + 12345 in (uint (ucast (seed div 65536) :: u32) mod 32768, seed))"

definition rand_int_range :: "int \<Rightarrow> int \<Rightarrow> u64 \<Rightarrow> int \<times> u64" where
  "rand_int_range low upper seed =
     (if upper \<le> low then (-1, seed)
      else let r = swrap32 (upper - low); (n, seed) = rand_int seed in (n smod r + low, seed))"

definition srand :: "u32 \<Rightarrow> u64" where "srand seed = ucast seed"

section \<open>Arguments\<close>

fun isnum_loop :: "byte list \<Rightarrow> bool option" where
  "isnum_loop [] = None"
| "isnum_loop (c # str) =
     (if c = 0 \<or> c = 32 then Some True else if \<not> isdigit (sint c) then Some False else isnum_loop str)"

definition isnum :: "byte list \<Rightarrow> bool option" where
  "isnum str =
     (case str of [] \<Rightarrow> None
      | c # rest \<Rightarrow>
          if \<not> isdigit (sint c) \<and> c \<noteq> 45 then Some False
          else if c = 45
            then (case rest of [] \<Rightarrow> None | d # _ \<Rightarrow> if \<not> isdigit (sint d) then Some False else isnum_loop rest)
            else isnum_loop str)"

definition number_arg :: "argv \<Rightarrow> nat \<Rightarrow> int program" where
  "number_arg argv i = ubind (arg argv i) (\<lambda>a. ubind (udefined (atoi a)) (\<lambda>v. ureturn (sint v)))"

definition isnum_arg :: "argv \<Rightarrow> nat \<Rightarrow> bool program" where
  "isnum_arg argv i = ubind (arg argv i) (\<lambda>a. udefined (isnum a))"

section \<open>Commands\<close>

definition printWithTimeFormat :: "nat \<Rightarrow> unit program" where
  "printWithTimeFormat n =
     ubind (if n < 10 then uprint ''0'' [] else ureturn ()) (\<lambda>_. uprint ''%d'' [Int_arg (of_nat n)])"

definition getTime :: "kernel \<Rightarrow> int program" where
  "getTime k =
     ubind (hour k) (\<lambda>h. ubind (minutes k) (\<lambda>m. ubind (seconds k) (\<lambda>s.
       useq [uprint ''Current time: '' [], printWithTimeFormat (nat (h mod 2 ^ 32)), uprint '':'' [],
             printWithTimeFormat (nat (m mod 2 ^ 32)), uprint '':'' [], printWithTimeFormat (nat (s mod 2 ^ 32)),
             uprint newline []] (ureturn VALID))))"

definition set_GMT :: "kernel \<Rightarrow> argv \<Rightarrow> int program" where
  "set_GMT k argv =
     (if length argv \<noteq> 1 then ureturn INVALID_ARGS
      else ubind (isnum_arg argv 0) (\<lambda>num.
        if \<not> num then ureturn INVALID_ARGS
        else ubind (number_arg argv 0) (\<lambda>g. ubind (setGMT g) (\<lambda>valid.
          if valid = 0 then ureturn INVALID_ARGS else ubind (getTime k) (\<lambda>_. ureturn VALID)))))"

definition echo :: "argv \<Rightarrow> int program" where
  "echo argv =
     useq [ufor argv (\<lambda>a. uprint ''%s '' [Str_arg a]), uset (io_update (putchar 10))] (ureturn VALID)"

definition clear :: "kernel \<Rightarrow> int program" where
  "clear k =
     ubind (ucall (text_rows_u k)) (\<lambda>rows.
       useq [ufor [0..<nat (2 * rows)] (\<lambda>_. uset (io_update (putchar 10))), uset (io_update (putchar 13))] (ureturn VALID))"

text \<open>The number of a fractal to draw; \<open>amount\<close> is the length of the table in the data page.\<close>

definition fractals_index :: "kernel \<Rightarrow> int \<Rightarrow> argv \<Rightarrow> (int option) program" where
  "fractals_index k amount argv =
     (if length argv > 1
      then ubind (uprint (''Usage: fractals [fractal_num]'' @ newline) []) (\<lambda>_. ureturn None)
      else
        ubind (if argv = [] then ubind (seconds k) (\<lambda>s. udefined (if amount = 0 then None else Some (s smod amount)))
               else ubind (isnum_arg argv 0) (\<lambda>num. if num then ubind (number_arg argv 0) (\<lambda>n. ureturn (n - 1)) else ureturn (-1)))
          (\<lambda>index.
            if index < 0 \<or> index \<ge> amount
            then ubind (uprint (''Fractal number must be between 1 and %d'' @ newline) [Int_arg (word_of_int amount)])
                   (\<lambda>_. ureturn None)
            else ureturn (Some index)))"

text \<open>Every pixel of the drawing is one system call.\<close>

definition paint_pixels :: "kernel \<Rightarrow> (u32 \<times> pixel) list \<Rightarrow> unit program" where
  "paint_pixels k ps = ufor ps (\<lambda>(c, (x, y)). ubind (ucall (paint_u k (sint c) x y)) (\<lambda>_. ureturn ()))"

definition fractals_command :: "'d arithmetic \<Rightarrow> kernel \<Rightarrow> fractals \<Rightarrow> argv \<Rightarrow> int program" where
  "fractals_command A k f argv =
     ubind (fractals_index k (int (fractals_size f)) argv) (\<lambda>i.
       case i of
         None \<Rightarrow> ureturn INVALID_ARGS
       | Some index \<Rightarrow>
           ubind (ucall (kgets (\<lambda>s. snd (draw_fractal A (umem s) index f)))) (\<lambda>ps.
             useq [paint_pixels k ps] (ureturn VALID)))"

text \<open>The two colour commands go on after an error in their arguments.\<close>

definition color_args :: "string \<Rightarrow> argv \<Rightarrow> (int \<times> int \<times> int) program" where
  "color_args usage argv =
     ubind (if length argv \<noteq> 3 then uprint usage [] else ureturn ()) (\<lambda>_.
     ubind (isnum_arg argv 0) (\<lambda>r.
     ubind (if \<not> r then ureturn False else isnum_arg argv 1) (\<lambda>g.
     ubind (if \<not> g then ureturn False else isnum_arg argv 2) (\<lambda>all.
     ubind (if \<not> all then uprint (''The colors must be integers'' @ newline) [] else ureturn ()) (\<lambda>_.
     ubind (number_arg argv 0) (\<lambda>red. ubind (number_arg argv 1) (\<lambda>green. ubind (number_arg argv 2) (\<lambda>blue.
       ureturn (red, green, blue)))))))))"

definition change_char_color :: "kernel \<Rightarrow> argv \<Rightarrow> int program" where
  "change_char_color k argv =
     ubind (color_args ''Usage char_color [r,g,b]'' argv) (\<lambda>(red, green, blue).
     ubind (ucall (set_char_color_u k (ret64 red) (ret64 green) (ret64 blue))) (\<lambda>valid.
       ureturn (if valid = 0 then INVALID_ARGS else VALID)))"

definition change_bg_color :: "kernel \<Rightarrow> argv \<Rightarrow> int program" where
  "change_bg_color k argv =
     ubind (color_args ''Usage bg_color [r,g,b]'' argv) (\<lambda>(red, green, blue).
     ubind (ucall (set_bg_color_u k (ret64 red) (ret64 green) (ret64 blue))) (\<lambda>valid.
       if valid \<noteq> 0 then ubind (clear k) (\<lambda>_. ureturn VALID) else ureturn INVALID_ARGS))"

text \<open>The three demonstrations: the result and the problem started, when there is one.\<close>

definition count_arg :: "string \<Rightarrow> int \<Rightarrow> argv \<Rightarrow> (int option) program" where
  "count_arg message usual argv =
     ubind (isnum_arg argv 0) (\<lambda>num.
     ubind (if num then number_arg argv 0 else ureturn usual) (\<lambda>p.
       if p < 1 then ubind (uprint message []) (\<lambda>_. ureturn None) else ureturn (Some p)))"

definition philosophersProblem :: "bool \<Rightarrow> argv \<Rightarrow> (int \<times> philo_world option) program" where
  "philosophersProblem graphic argv =
     ubind (count_arg (''At least one philosopher'' @ newline) 5 argv) (\<lambda>p.
       ureturn (case p of None \<Rightarrow> (INVALID_ARGS, None) | Some p \<Rightarrow> (VALID, Some (start_philosophers_problem graphic p))))"

definition producerConsumer :: "argv \<Rightarrow> (int \<times> pc1 option) program" where
  "producerConsumer argv =
     ubind (count_arg (''Buffer has to have at least one slot'' @ newline) 50 argv) (\<lambda>b.
       case b of None \<Rightarrow> ureturn (INVALID_ARGS, None)
       | Some b \<Rightarrow> ubind (udefined (start_producer_consumer_problem (nat b))) (\<lambda>w. ureturn (VALID, Some w)))"

definition producerConsumer2 :: "argv \<Rightarrow> (int \<times> pc2 option) program" where
  "producerConsumer2 argv =
     ubind (count_arg (''Buffer has to have at least one slot'' @ newline) 50 argv) (\<lambda>b.
       ureturn (case b of None \<Rightarrow> (INVALID_ARGS, None)
                | Some b \<Rightarrow> (VALID, Some (start_producer_consumer_problem2 (nat b)))))"

section \<open>Commands on processes\<close>

definition kill_command :: "kernel \<Rightarrow> argv \<Rightarrow> int program" where
  "kill_command k argv =
     ubind (number_arg argv 0) (\<lambda>i.
     ubind (if i \<noteq> 0 then ucall (kill_u k (ret64 i)) else ureturn 0) (\<lambda>valid.
     ubind (if valid \<noteq> 0 then uprint (''Killed process with PID %d'' @ newline) [Int_arg (word_of_int i)] else ureturn ()) (\<lambda>_.
       ureturn (if valid \<noteq> 0 then VALID else INVALID_ARGS))))"

definition set_fg :: "kernel \<Rightarrow> argv \<Rightarrow> int program" where
  "set_fg k argv =
     (if length argv \<noteq> 1 then ubind (uprint (''Usage: set_fg [PID]'' @ newline) []) (\<lambda>_. ureturn INVALID_ARGS)
      else ubind (isnum_arg argv 0) (\<lambda>num.
        if \<not> num then ubind (uprint (''Argument must be a integer PID'' @ newline) []) (\<lambda>_. ureturn INVALID_ARGS)
        else ubind (number_arg argv 0) (\<lambda>i.
             ubind (ucall (yield_u k)) (\<lambda>_.
             ubind (ucall (set_foreground_u k (ret64 i))) (\<lambda>valid.
             ubind (if valid = 0 then uprint (''Invalid pid'' @ newline) [] else ureturn ()) (\<lambda>_.
               ureturn (if valid \<noteq> 0 then VALID else INVALID_ARGS)))))))"

text \<open>\<open>nm\<close> is the address of the literal \<open>test_mutex\<close> in the image.\<close>

definition test_command :: "kernel \<Rightarrow> addr \<Rightarrow> int program" where
  "test_command k nm =
     ubind (uget test_num) (\<lambda>tn.
     ubind (uset (test_num_update (\<lambda>n. n + 1))) (\<lambda>_.
     ubind (ucall (mutex_open_u k nm)) (\<lambda>m_key.
     ubind (ucall (mutex_lock_u k m_key)) (\<lambda>_.
     useq [uprint (''Tengo el lock. Soy %d'' @ newline) [Int_arg tn], sleep_program k 3000,
           uprint (''Soltando lock. Soy %d'' @ newline) [Int_arg tn]]
       (ubind (ucall (mutex_unlock_u k m_key)) (\<lambda>_. ureturn VALID))))))"

text \<open>\<open>pi\<close> and \<open>pids\<close> are the addresses of the local variables.\<close>

definition print_single_process :: "kernel \<Rightarrow> addr \<Rightarrow> int \<Rightarrow> unit program" where
  "print_single_process k pi i =
     ubind (ucall (get_process_info_u k (ret64 i) pi)) (\<lambda>found.
       if found \<noteq> 0
       then ubind (ucall (kgets (\<lambda>s. read_process_info (umem s) pi))) (\<lambda>p.
            ubind (udefined (process_string p)) (\<lambda>str. uprint (''%s'' @ newline) [Str_arg (str @ [0])]))
       else ureturn ())"

definition print_process :: "kernel \<Rightarrow> addr \<Rightarrow> argv \<Rightarrow> int program" where
  "print_process k pi argv =
     (if length argv < 1
      then ubind (uprint (''Usage: print_process [PID1, PID2, ...]'' @ newline) []) (\<lambda>_. ureturn INVALID_ARGS)
      else useq [ufor [0..<length argv] (\<lambda>i. ubind (number_arg argv i) (print_single_process k pi))] (ureturn VALID))"

text \<open>The numbers of an \<open>int\<close> array up to the entry \<open>-1\<close>; the array has \<open>MAX_PROCESSES\<close> entries.\<close>

definition read_int :: "memory \<Rightarrow> addr \<Rightarrow> int" where
  "read_int m a = swrap32 (\<Sum>i < 4. uint (m (a + i)) * 256 ^ i)"

definition read_pids :: "memory \<Rightarrow> addr \<Rightarrow> int list option" where
  "read_pids m a =
     (let vs = map (\<lambda>i. read_int m (a + 4 * i)) [0..<MAX_PROCESSES]
      in if -1 \<in> set vs then Some (takeWhile (\<lambda>v. v \<noteq> -1) vs) else None)"

definition ps :: "kernel \<Rightarrow> addr \<Rightarrow> addr \<Rightarrow> int program" where
  "ps k pi pids =
     ubind (ucall (get_current_pids_u k pids)) (\<lambda>_.
     ubind (ucall (kgets (\<lambda>s. read_pids (umem s) pids))) (\<lambda>r.
     ubind (udefined r) (\<lambda>vs. useq [ufor vs (print_single_process k pi)] (ureturn VALID))))"

text \<open>\<open>print_ipcs\<close> prints the tables the kernel reports; their arrays are local variables.\<close>

definition print_ipcs :: "int program" where
  "print_ipcs =
     ubind (ucall get_conds_info) (\<lambda>cs. ubind (ucall get_mutexes_info) (\<lambda>ms. ubind (ucall get_fifos_info) (\<lambda>fs.
     ubind (uget (\<lambda>s. print_ipc_info cs ms fs (io s))) (\<lambda>r. ubind (udefined r) (\<lambda>i.
       useq [uset (io_update (\<lambda>_. i))] (ureturn VALID))))))"

section \<open>Facts\<close>

lemmas program_simps = ureturn_def ubind_def ucall_def uget_def uset_def udefined_def arg_def

lemma ureturn_run [simp]: "ureturn a s = kreturn (a, s)" by (simp add: ureturn_def)

subsection \<open>Pixels\<close>

text \<open>The screen after a list of pixels, each filled as \<open>sys_paint\<close> does.\<close>

definition filled :: "(u32 \<times> pixel) list \<Rightarrow> video \<Rightarrow> video" where
  "filled pxs v = foldl (\<lambda>v (c, (x, y)). case unpack_color c of (r, g, b) \<Rightarrow> fst (fill r g b (swrap32 x) (swrap32 y) v)) v pxs"

lemma paint_pixels_run:
  "paint_pixels k pxs s t = Ret ((), s) (t\<lparr>screen := filled pxs (screen t)\<rparr>)"
proof (induction pxs arbitrary: t)
  case Nil
  then show ?case by (simp add: paint_pixels_def filled_def kreturn_def)
next
  case (Cons p pxs)
  obtain c x y where p: "p = (c, (x, y))" by (cases p) auto
  obtain r g b where u: "unpack_color c = (r, g, b)" by (cases "unpack_color c") auto
  have "paint_pixels k (p # pxs) s t =
      paint_pixels k pxs s (t\<lparr>screen := fst (fill r g b (swrap32 x) (swrap32 y) (screen t))\<rparr>)"
    by (simp add: paint_pixels_def p u program_simps paint_reaches_fill split: prod.splits)
  then show ?case by (simp add: Cons.IH filled_def p u)
qed

lemma in_screen_draws: "draws v v' \<Longrightarrow> in_screen v' = in_screen v"
  by (simp add: in_screen_def draws_fields)

lemma filled_Cons:
  "filled ((c, (x, y)) # pxs) v = filled pxs (case unpack_color c of (r, g, b) \<Rightarrow> fst (fill r g b (swrap32 x) (swrap32 y) v))"
  by (simp add: filled_def split: prod.splits)

lemma in_screen_coordinates:
  "in_screen v (x, y) \<Longrightarrow> x_res v < 2 ^ 31 \<Longrightarrow> y_res v < 2 ^ 31 \<Longrightarrow> swrap32 x = x \<and> swrap32 y = y"
  by (simp add: in_screen_def swrap32_small)

lemma filled_pixels:
  assumes "x_res v < 2 ^ 31" "y_res v < 2 ^ 31" "\<forall>q \<in> set pxs. in_screen v (snd q)"
  shows "draws v (filled pxs v) \<and>
    (in_screen v (x, y) \<longrightarrow> (x, y) \<notin> snd ` set pxs \<longrightarrow> pixel_color x y (filled pxs v) = pixel_color x y v) \<and>
    (distinct (map snd pxs) \<longrightarrow> (c, (x, y)) \<in> set pxs \<longrightarrow> pixel_color x y (filled pxs v) = unpack_color c)"
  using assms
proof (induction pxs arbitrary: v)
  case Nil
  then show ?case by (simp add: filled_def)
next
  case (Cons q pxs)
  obtain d i j where q: "q = (d, (i, j))" by (cases q) auto
  obtain r g b where u: "unpack_color d = (r, g, b)" by (cases "unpack_color d") auto
  define w where "w = fst (fill r g b i j v)"
  have i: "in_screen v (i, j)" using Cons.prems q by simp
  then have e: "filled (q # pxs) v = filled pxs w"
    using in_screen_coordinates [OF i] Cons.prems by (simp add: q filled_Cons u w_def)
  have d: "draws v w" unfolding w_def using i by (intro fill_draws) (simp_all add: in_screen_def)
  note s = in_screen_draws [OF d]
  have IH: "draws w (filled pxs w) \<and>
    (in_screen w (x, y) \<longrightarrow> (x, y) \<notin> snd ` set pxs \<longrightarrow> pixel_color x y (filled pxs w) = pixel_color x y w) \<and>
    (distinct (map snd pxs) \<longrightarrow> (c, (x, y)) \<in> set pxs \<longrightarrow> pixel_color x y (filled pxs w) = unpack_color c)"
    using Cons.prems by (intro Cons.IH) (simp_all add: draws_fields [OF d] s)
  have same: "pixel_color i j w = (r, g, b)" unfolding w_def by (rule pixel_fill_same [OF i])
  have other: "in_screen v (x, y) \<Longrightarrow> (x, y) \<noteq> (i, j) \<Longrightarrow> pixel_color x y w = pixel_color x y v"
    unfolding w_def by (rule pixel_fill_other [OF _ i])
  show ?case
    unfolding e using IH draws_trans [OF d] same other i by (auto simp: q u s)
qed

subsection \<open>Output\<close>

definition out_io :: "byte list \<Rightarrow> stdio \<Rightarrow> stdio" where
  "out_io bs i = i\<lparr>written := written i @ map (Pair 0) bs\<rparr>"

lemma out_io_simps [simp]: "out_io [] i = i" "out_io b (out_io a i) = out_io (a @ b) i"
  by (simp_all add: out_io_def)

lemma fold_fputchar: "fold (fputchar 0) bs i = out_io bs i"
  by (induction bs arbitrary: i) (simp_all add: fputchar_def out_io_def)

definition shows_text :: "string \<Rightarrow> fmt_arg list \<Rightarrow> byte list \<Rightarrow> bool" where
  "shows_text format vals out \<longleftrightarrow> (\<exists>n. fprintformat (cstring format) vals = Some (out, n))"

lemma uprint_run:
  assumes "shows_text format vals out"
  shows "uprint format vals s t = Ret ((), s\<lparr>io := out_io out (io s)\<rparr>) t"
  using assms by (auto simp: shows_text_def uprint_def program_simps say_def printf_def fprintf_def fold_fputchar kreturn_def)

text \<open>A literal without a conversion is shown as it is; a conversion shows its number.\<close>

lemma shows_plain: "list_all (\<lambda>c. of_nat (of_char c) \<noteq> (37 :: byte) \<and> of_nat (of_char c) \<noteq> (0 :: byte)) w \<Longrightarrow> shows_text w [] (bytes w)"
proof (induction w)
  case (Cons c w)
  then obtain n where "fprintformat (cstring w) [] = Some (bytes w, n)" by (auto simp: shows_text_def)
  with Cons.prems show ?case by (simp add: shows_text_def cstring_def bytes_def then_print_def)
qed (simp add: shows_text_def cstring_def bytes_def)

lemma shows_prefix:
  assumes "list_all (\<lambda>c. of_nat (of_char c) \<noteq> (37 :: byte) \<and> of_nat (of_char c) \<noteq> (0 :: byte)) w" "shows_text f vals out"
  shows "shows_text (w @ f) vals (bytes w @ out)"
  using assms
proof (induction w)
  case (Cons c w)
  then obtain n where "fprintformat (cstring (w @ f)) vals = Some (bytes w @ out, n)" by (auto simp: shows_text_def)
  with Cons.prems show ?case by (simp add: shows_text_def cstring_def bytes_def then_print_def)
qed (simp add: bytes_def)

lemma shows_number:
  assumes "shows_text f vals out" "n < 2 ^ 31"
  shows "shows_text (''%d'' @ f) (Int_arg (of_nat n) # vals) (number_text 10 n @ out)"
proof -
  have "printi (of_nat n) = Some (number_text 10 n, length (number_text 10 n))"
    using number_text(1,2) [of 10 n] assms(2) by (simp add: printi_def prints_def)
  with assms(1) show ?thesis by (auto simp: shows_text_def cstring_def bytes_def then_print_def)
qed

lemma shows_string:
  assumes "shows_text f vals out" "terminated a"
  shows "shows_text (''%s'' @ f) (Str_arg a # vals) (cstr a @ out)"
  using assms by (auto simp: shows_text_def cstring_def bytes_def then_print_def prints_def)

subsection \<open>The clock\<close>

definition two_digits :: "nat \<Rightarrow> byte list" where
  "two_digits n = [of_nat (48 + n div 10), of_nat (48 + n mod 10)]"

lemma two_digits_text:
  assumes "n < 60"
  shows "(if n < 10 then bytes ''0'' else []) @ number_text 10 n = two_digits n"
proof -
  have "list_all (\<lambda>n. (if n < 10 then bytes ''0'' else []) @ number_text 10 n = two_digits n) [0..<60]" by code_simp
  then show ?thesis using assms by (simp add: list_all_iff del: upt_rec_numeral)
qed

lemma shows_literals:
  "shows_text ''0'' [] (bytes ''0'')" "shows_text '':'' [] (bytes '':'')" "shows_text newline [] (bytes newline)"
  "shows_text ''Current time: '' [] (bytes ''Current time: '')"
  by (rule shows_plain, simp add: newline_def)+

lemma time_format_run:
  assumes "n < 60"
  shows "printWithTimeFormat n s t = Ret ((), s\<lparr>io := out_io (two_digits n) (io s)\<rparr>) t"
proof -
  have "shows_text ''%d'' [Int_arg (of_nat n)] (number_text 10 n)"
    using shows_number [of "[]" "[]" "[]" n] shows_plain [of "[]"] assms by (simp add: bytes_def)
  note d = uprint_run [OF this] uprint_run [OF shows_literals(1)]
  show ?thesis
    using two_digits_text [OF assms] by (cases "n < 10") (simp_all add: printWithTimeFormat_def ubind_def d)
qed

lemma to_int_nat: "n < 2 ^ 31 \<Longrightarrow> to_int n = int n"
  by (simp add: to_int_def swrap32_small)

lemma time_run:
  assumes "i \<le> 2" "rtc i < 2 ^ 31"
  shows "time_u (tries, rtc) (int i) t = Ret (int (rtc i)) t"
  using assms by (simp add: time_u_def trap_simps sys_time_wr_def sys_time_def as_int_def ret64_def to_int_nat)

definition local_hour :: "int \<Rightarrow> int \<Rightarrow> nat" where "local_hour g h = nat ((h + g) mod 24)"

lemma hour_run:
  assumes "rtc 2 < 24" "MIN_GMT \<le> GMT s" "GMT s \<le> MAX_GMT"
  shows "hour (tries, rtc) s t = Ret (int (local_hour (GMT s) (int (rtc 2))), s) t"
proof -
  let ?h = "int (rtc 2) + GMT s"
  have "?h mod 24 = (if 0 \<le> ?h \<and> ?h \<le> 23 then ?h else if ?h < 0 then ?h + 24 else ?h - 24)"
    using assms by (auto simp: MIN_GMT_def MAX_GMT_def intro: int_mod_pos_eq [of _ _ "-1"] int_mod_pos_eq [of _ _ 1])
  then show ?thesis
    using time_run [of 2 rtc tries t] assms by (simp add: MIN_GMT_def MAX_GMT_def hour_def ubind_def ucall_def uget_def local_hour_def Let_def)
qed

lemma getTime_run:
  assumes "rtc 0 < 60" "rtc 1 < 60" "rtc 2 < 24" "MIN_GMT \<le> GMT s" "GMT s \<le> MAX_GMT"
  shows "getTime (tries, rtc) s t = Ret (VALID, s\<lparr>io := out_io
    (bytes ''Current time: '' @ two_digits (local_hour (GMT s) (int (rtc 2))) @ bytes '':'' @ two_digits (rtc 1) @ bytes '':'' @
     two_digits (rtc 0) @ bytes newline) (io s)\<rparr>) t"
proof -
  have h: "local_hour (GMT s) (int (rtc 2)) < 60" using pos_mod_bound [of 24 "int (rtc 2) + GMT s"] by (simp add: local_hour_def)
  have m: "nat (int n mod 2 ^ 32) = n" if "n < 60" for n :: nat using that by simp
  note clock = time_run [of 1 rtc tries] time_run [of 0 rtc tries] hour_run [where rtc = rtc and s = s, OF assms(3-5)]
  show ?thesis
    using clock assms(1,2) m [OF h] m [OF assms(1)] m [OF assms(2)]
    by (simp add: getTime_def ubind_def minutes_def seconds_def ucall_def time_format_run h uprint_run [OF shows_literals(2)]
        uprint_run [OF shows_literals(3)] uprint_run [OF shows_literals(4)])
qed

lemma all_digits_simps: "all_digits []" "all_digits (c # v) \<longleftrightarrow> isdigit (sint c) \<and> all_digits v"
  by (simp_all add: all_digits_def)

lemma isnum_loop_text: "0 \<notin> set w \<Longrightarrow> 32 \<notin> set w \<Longrightarrow> isnum_loop (w @ 0 # r) = Some (all_digits w)"
  by (induction w) (auto simp: all_digits_simps)

text \<open>What \<open>isnum\<close> accepts: digits, behind at most one minus sign.\<close>

lemma isnum_text:
  assumes "0 \<notin> set w" "32 \<notin> set w"
  shows "isnum (w @ 0 # r) =
    Some (case w of [] \<Rightarrow> False | c # v \<Rightarrow> if c = 45 then v \<noteq> [] \<and> all_digits v else all_digits w)"
proof (cases w)
  case Nil
  then show ?thesis by (simp add: isnum_def ctype_defs)
next
  case (Cons c v)
  then have l: "isnum_loop (v @ 0 # r) = Some (all_digits v)" "isnum_loop (w @ 0 # r) = Some (all_digits w)"
    using assms isnum_loop_text [of v r] isnum_loop_text [OF assms, of r] by simp_all
  show ?thesis
    using l Cons by (cases v) (auto simp: isnum_def all_digits_simps, auto simp: ctype_defs)
qed

text \<open>The text of a number is one argument, accepted, and read back.\<close>

definition text_of :: "int \<Rightarrow> byte list" where
  "text_of g = (case itoa (word_of_int g) 10 of None \<Rightarrow> [] | Some (a, n) \<Rightarrow> a)"

lemma number_args:
  assumes "c_int g" "g \<noteq> - (2 ^ 31)"
  shows "isnum (text_of g) = Some True" "atoi (text_of g) = Some (word_of_int g)" "sint (word_of_int g :: u32) = g"
proof -
  show g: "sint (word_of_int g :: u32) = g"
    using assms(1) by (simp add: c_int_def signed_of_int signed_take_bit_int_eq_self)
  have "word_of_int g \<noteq> (0x80000000 :: u32)"
  proof
    assume "word_of_int g = (0x80000000 :: u32)"
    then have "sint (word_of_int g :: u32) = sint (0x80000000 :: u32)" by simp
    then show False using g assms(2) by simp
  qed
  then obtain sgn ds where t: "itoa (word_of_int g) 10 = Some ((sgn @ rev ds) @ [0], length (sgn @ rev ds))"
      "sgn = (if sint (word_of_int g :: u32) < 0 then [45] else [])" "all_digits ds" "ds \<noteq> []"
      "\<And>rest. atoi ((sgn @ rev ds) @ 0 # rest) = Some (word_of_int g)" by (rule itoa_text) blast
  have d: "isdigit (sint c)" if "c \<in> set ds" for c using t(3) that by (auto simp: all_digits_def)
  have w: "0 \<notin> set (sgn @ rev ds)" "32 \<notin> set (sgn @ rev ds)" using d [of 0] d [of 32] t(2) by (auto simp: ctype_defs)
  have "all_digits (rev ds)" using t(3) by (simp add: all_digits_def)
  moreover have "\<not> all_digits (45 # v)" for v by (simp add: all_digits_def ctype_defs)
  ultimately have "isnum ((sgn @ rev ds) @ [0]) = Some True"
    unfolding isnum_text [OF w] using t(2,4) by (auto split: list.splits)
  then show "isnum (text_of g) = Some True" using t(1) by (simp add: text_of_def)
  show "atoi (text_of g) = Some (word_of_int g)" using t(1) t(5) [of "[]"] by (simp add: text_of_def)
qed

text \<open>
  \<open>set_GMT\<close> sets the clock to a zone: given the text of a number it takes it exactly when it is
  between -12 and 14, and then prints the time of day there, the hour taken round the day and every
  number with two digits; any other number changes nothing and prints nothing.
\<close>

theorem set_GMT_changes_zone:
  assumes "rtc 0 < 60" "rtc 1 < 60" "rtc 2 < 24" "c_int g" "g \<noteq> - (2 ^ 31)"
  shows "set_GMT (tries, rtc) [text_of g] s t =
    (if MIN_GMT \<le> g \<and> g \<le> MAX_GMT
     then Ret (VALID, s\<lparr>GMT := g, io := out_io
       (bytes ''Current time: '' @ two_digits (local_hour g (int (rtc 2))) @ bytes '':'' @ two_digits (rtc 1) @ bytes '':'' @
        two_digits (rtc 0) @ bytes newline) (io s)\<rparr>) t
     else Ret (INVALID_ARGS, s) t)"
  using number_args [OF assms(4,5)] getTime_run [OF assms(1-3), of "s\<lparr>GMT := g\<rparr>" tries t]
  by (simp add: set_GMT_def isnum_arg_def number_arg_def setGMT_def program_simps peek_at_def)

text \<open>
  C38. \<open>fractals n\<close> draws the \<open>n\<close>-th entry of the table in memory on the screen: every pixel up to the
  resolution of the fractals ends with the colour of its point, and nothing outside the screen changes. Any
  other number draws nothing and prints the range that is accepted.
\<close>

theorem fractals_command_draws:
  assumes "c_int g" "g \<noteq> - (2 ^ 31)" "fractals_size f < 2 ^ 31" "x_res (screen t) < 2 ^ 31" "y_res (screen t) < 2 ^ 31"
    and "screen_width f \<le> x_res (screen t)" "screen_height f \<le> y_res (screen t)"
    and "p = param_at (umem t) (params f + PARAMS_SIZE * nat (g - 1))"
  shows "if 1 \<le> g \<and> g \<le> int (fractals_size f)
    then \<exists>v. fractals_command A k f [text_of g] s t = Ret (VALID, s) (t\<lparr>screen := v\<rparr>) \<and> draws (screen t) v \<and>
      (\<forall>x y. (x, y) \<in> set (screen_pixels f) \<longrightarrow> pixel_color x y v = unpack_color (julia_color
        (julia_point A f (of_bits A (zoom p)) (of_bits A (moveX p)) (of_bits A (moveY p)) (maxIterations p)
          (of_bits A (cRe p)) (of_bits A (cIm p)) x y) (maxIterations p)))
    else fractals_command A k f [text_of g] s t = Ret (INVALID_ARGS, s\<lparr>io := out_io
      (bytes ''Fractal number must be between 1 and '' @ number_text 10 (fractals_size f) @ bytes newline) (io s)\<rparr>) t"
proof -
  let ?n = "fractals_size f" and ?range = "''Fractal number must be between 1 and %d'' @ newline"
  have a: "isnum (text_of g) = Some True" "atoi (text_of g) = Some (word_of_int g)" "sint (word_of_int g :: u32) = g"
    using number_args [OF assms(1,2)] by blast+
  have "shows_text ?range [Int_arg (of_nat ?n)] (bytes ''Fractal number must be between 1 and '' @ number_text 10 ?n @ bytes newline)"
    using shows_prefix [OF _ shows_number [OF shows_literals(3) assms(3)], of "''Fractal number must be between 1 and ''"] by simp
  note shown = uprint_run [OF this]
  have index: "fractals_index k (int ?n) [text_of g] s t =
      (if 1 \<le> g \<and> g \<le> int ?n then Ret (Some (g - 1), s) t
       else Ret (None, s\<lparr>io := out_io (bytes ''Fractal number must be between 1 and '' @ number_text 10 ?n @ bytes newline) (io s)\<rparr>) t)"
    using shown by (simp add: fractals_index_def isnum_arg_def number_arg_def program_simps peek_at_def a)
  show ?thesis
  proof (cases "1 \<le> g \<and> g \<le> int ?n")
    case True
    define pxs where "pxs = snd (draw_fractal A (umem t) (g - 1) f)"
    have pxs: "pxs = drawJuliaFractal A f (of_bits A (zoom p)) (of_bits A (moveX p)) (of_bits A (moveY p)) (maxIterations p)
        (of_bits A (cRe p)) (of_bits A (cIm p))"
      using True assms(8) by (simp add: pxs_def draw_fractal_def Let_def)
    have run: "fractals_command A k f [text_of g] s t = Ret (VALID, s) (t\<lparr>screen := filled pxs (screen t)\<rparr>)"
      using index True by (simp add: fractals_command_def program_simps useq_def paint_pixels_run pxs_def [symmetric])
    have inside: "\<forall>q \<in> set pxs. in_screen (screen t) (snd q)"
      using assms(6,7) by (auto simp: pxs drawJuliaFractal_def in_screen_def)
    note fp = filled_pixels [OF assms(4,5) inside]
    have "(julia_color (julia_point A f (of_bits A (zoom p)) (of_bits A (moveX p)) (of_bits A (moveY p)) (maxIterations p)
        (of_bits A (cRe p)) (of_bits A (cIm p)) x y) (maxIterations p), (x, y)) \<in> set pxs"
      if "(x, y) \<in> set (screen_pixels f)" for x y
      using that by (auto simp: pxs drawJuliaFractal_def screen_pixels_def)
    moreover have "distinct (map snd pxs)" unfolding pxs drawn_pixels by (rule screen_pixels_facts(1))
    ultimately show ?thesis using True run fp by auto
  next
    case False
    then have "fractals_index k (int ?n) [text_of g] s t = Ret (None, s\<lparr>io := out_io
        (bytes ''Fractal number must be between 1 and '' @ number_text 10 ?n @ bytes newline) (io s)\<rparr>) t"
      using index by (simp only: if_False)
    then show ?thesis unfolding if_not_P [OF False] by (simp add: fractals_command_def program_simps)
  qed
qed

definition demo_app :: app where
  "demo_app = \<lparr>io = static_stdio [], GMT = DEFAULT_GMT, rand_next = 1, test_num = 0\<rparr>"

theorem fractals_command_draws_witness:
  "\<exists>v. fractals_command whole_arithmetic (9, \<lambda>_. 0) (static_fractals\<lparr>screen_width := 2, screen_height := 1, parameters_amount := 6\<rparr>)
       [text_of 1] demo_app (sched_demo\<lparr>screen := video_demo, umem := \<lambda>a. 0\<rparr>) =
     Ret (VALID, demo_app) (sched_demo\<lparr>screen := v, umem := \<lambda>a. 0\<rparr>) \<and> pixel_color 1 0 v = (0, 0, 0)"
proof -
  let ?f = "static_fractals\<lparr>screen_width := 2, screen_height := 1, parameters_amount := 6\<rparr>"
  let ?t = "sched_demo\<lparr>screen := video_demo, umem := \<lambda>a. 0\<rparr>"
  have c: "c_int 1" by (simp add: c_int_def)
  let ?p = "param_at (\<lambda>a. 0) (params ?f + PARAMS_SIZE * nat (1 - 1))"
  have z: "maxIterations ?p = 0" by (simp add: param_at_def readUint32_def)
  have px: "(1, 0) \<in> set (screen_pixels ?f)" by (simp add: screen_pixels_def upt_rec numeral_2_eq_2)
  have "julia_color 0 0 = 0" using julia_color_black [of 0 0] by simp
  then have black: "unpack_color (julia_color (julia_point whole_arithmetic ?f a b c 0 d e x y) 0) = (0, 0, 0)" for a b c d e x y
    by (simp add: julia_point_def unpack_color_def)
  have "\<exists>v. fractals_command whole_arithmetic (9, \<lambda>_. 0) ?f [text_of 1] demo_app ?t = Ret (VALID, demo_app) (?t\<lparr>screen := v\<rparr>) \<and>
      (\<forall>x y. (x, y) \<in> set (screen_pixels ?f) \<longrightarrow> pixel_color x y v = (0, 0, 0))"
    using fractals_command_draws [OF c, of ?f ?t ?p, of whole_arithmetic "(9, \<lambda>_. 0)" demo_app] z black
    by (auto simp: fractals_size_def static_fractals_def video_demo_def static_video_def)
  then obtain v where "fractals_command whole_arithmetic (9, \<lambda>_. 0) ?f [text_of 1] demo_app ?t = Ret (VALID, demo_app) (?t\<lparr>screen := v\<rparr>)"
      "pixel_color 1 0 v = (0, 0, 0)" using px by blast
  then show ?thesis by (intro exI [of _ v]) simp
qed

theorem set_GMT_changes_zone_witness:
  "\<exists>s'. set_GMT (9, \<lambda>i. [7, 30, 23] ! i) [text_of 5] demo_app sched_demo = Ret (VALID, s') sched_demo \<and>
     GMT s' = 5 \<and> map snd (written (io s')) = bytes (''Current time: 04:30:07'' @ newline)"
proof -
  have c: "c_int 5" by (simp add: c_int_def)
  show ?thesis
    using set_GMT_changes_zone [OF _ _ _ c, of "\<lambda>i. [7, 30, 23] ! i" 9 demo_app sched_demo]
    by (simp add: MIN_GMT_def MAX_GMT_def demo_app_def out_io_def static_stdio_def two_digits_def local_hour_def bytes_def
        newline_def comp_def numeral_2_eq_2)
qed

subsection \<open>Random numbers\<close>

lemma rand_int_bounds: "0 \<le> fst (rand_int seed)" "fst (rand_int seed) < 32768"
  by (simp_all add: rand_int_def Let_def)

lemma rand_int_range_bounds:
  assumes "low < upper" "upper - low < 2 ^ 31"
  shows "low \<le> fst (rand_int_range low upper seed)" "fst (rand_int_range low upper seed) < upper"
proof -
  obtain n seed' where r: "rand_int seed = (n, seed')" by fastforce
  then have n: "0 \<le> n" using rand_int_bounds [of seed] by simp
  have w: "swrap32 (upper - low) = upper - low" using assms by (simp add: swrap32_small)
  have "n smod (upper - low) = n mod (upper - low)" by (rule sdiv_pos) (use n assms(1) in auto)
  then have v: "fst (rand_int_range low upper seed) = n mod (upper - low) + low"
    using assms(1) r w by (simp add: rand_int_range_def Let_def)
  have q: "0 \<le> n mod (upper - low)" "n mod (upper - low) < upper - low" using assms(1) by simp_all
  show "low \<le> fst (rand_int_range low upper seed)" "fst (rand_int_range low upper seed) < upper"
    unfolding v using q by linarith+
qed

subsection \<open>Killing\<close>

lemma ret64_int: "0 \<le> i \<Longrightarrow> c_int i \<Longrightarrow> ret64 i = nat i"
  by (simp add: ret64_def c_int_def)

lemma ret64_negative: "i < 0 \<Longrightarrow> c_int i \<Longrightarrow> MAX_PROCESSES \<le> ret64 i"
proof -
  assume i: "i < 0" "c_int i"
  then have "i mod 2 ^ 64 = i + 2 ^ 64" by (intro int_mod_pos_eq [of _ _ "-1"]) (auto simp: c_int_def)
  then show ?thesis using i by (simp add: ret64_def c_int_def MAX_PROCESSES_def)
qed

text \<open>
  C31. \<open>kill\<close> on the command line marks exactly the process whose pid is typed: through the text of the
  number, the trap and the process table, the process with that pid is marked for deletion and the
  success is printed; for a pid that names no live process, for init and the shell, and for a
  negative one, nothing is changed, nothing printed and the arguments are reported as invalid.
\<close>

theorem kill_command_kills:
  assumes "kernel_good t" "\<forall>j < MAX_PROCESSES. process_table t ! j \<noteq> NULL \<longrightarrow> pid (the (procs t (process_table t ! j))) = j"
    and "c_int i" "i \<noteq> - (2 ^ 31)"
  defines "p \<equiv> process_table t ! nat i"
  shows "kill_command k [text_of i] s t =
    (if 2 \<le> i \<and> i < int MAX_PROCESSES \<and> p \<noteq> NULL \<and> \<not> is_dead t p
     then Ret (VALID, s\<lparr>io := out_io (bytes ''Killed process with PID '' @ number_text 10 (nat i) @ bytes newline) (io s)\<rparr>)
       (put_proc p ((the (procs t p))\<lparr>st := DELETE\<rparr>) t)
     else Ret (INVALID_ARGS, s) t)"
proof -
  note a = number_args [OF assms(3,4)]
  have arg: "number_arg [text_of i] 0 s t = Ret (i, s) t"
    using a by (simp add: number_arg_def program_simps peek_at_def)
  let ?live = "2 \<le> ret64 i \<and> ret64 i < MAX_PROCESSES \<and> process_table t ! ret64 i \<noteq> NULL \<and> \<not> is_dead t (process_table t ! ret64 i)"
  let ?t = "if ?live then put_proc (process_table t ! ret64 i) ((the (procs t (process_table t ! ret64 i)))\<lparr>st := DELETE\<rparr>) t else t"
  have kill: "kill_u k (ret64 i) t = Ret (if ?live then 1 else 0) ?t"
    using kill_marks_only_target [OF assms(1,2), of "fst k" "snd k" "ret64 i" 0 0]
    by (cases ?live) (simp_all add: kill_u_def int80h_def as_int_def to_int_def swrap32_def)
  have same: "?live \<longleftrightarrow> 2 \<le> i \<and> i < int MAX_PROCESSES \<and> p \<noteq> NULL \<and> \<not> is_dead t p"
    using ret64_int [OF _ assms(3)] ret64_negative [OF _ assms(3)] by (cases "0 \<le> i") (auto simp: p_def nat_less_iff)
  show ?thesis
  proof (cases ?live)
    case True
    then have i: "2 \<le> i" "i < int MAX_PROCESSES" "ret64 i = nat i" using same ret64_int [OF _ assms(3)] by auto
    have "shows_text (''Killed process with PID '' @ ''%d'' @ newline) [Int_arg (of_nat (nat i))]
        (bytes ''Killed process with PID '' @ number_text 10 (nat i) @ bytes newline)"
      using i(2) by (intro shows_prefix shows_number shows_literals) (simp_all add: MAX_PROCESSES_def)
    from uprint_run [OF this]
    have "uprint (''Killed process with PID %d'' @ newline) [Int_arg (word_of_int i)] s u =
        Ret ((), s\<lparr>io := out_io (bytes ''Killed process with PID '' @ number_text 10 (nat i) @ bytes newline) (io s)\<rparr>) u" for u
      using i(1) by simp
    then show ?thesis
      using True kill arg same i by (simp add: kill_command_def ubind_def ucall_def p_def)
  next
    case False
    have "i = 0 \<or> i \<noteq> 0" by simp
    then show ?thesis
      using False kill arg same by (auto simp: kill_command_def ubind_def ucall_def)
  qed
qed

theorem kill_command_kills_witness:
  "kill_command (9, \<lambda>_. 0) [text_of 4] demo_app sched_demo =
     Ret (VALID, demo_app\<lparr>io := out_io (bytes ''Killed process with PID 4'' @ bytes newline) (io demo_app)\<rparr>)
       (put_proc 0x508000 ((demo_process 4 DELETE)\<lparr>rsp := 77\<rparr>) sched_demo) \<and>
   kill_command (9, \<lambda>_. 0) [text_of (-4)] demo_app sched_demo = Ret (INVALID_ARGS, demo_app) sched_demo"
proof -
  have c: "c_int 4" "c_int (-4)" "(4 :: int) \<noteq> - (2 ^ 31)" "(-4 :: int) \<noteq> - (2 ^ 31)" by (simp_all add: c_int_def)
  have e: "process_table sched_demo ! 4 = 0x508000" by (simp add: sched_demo_fields)
  have d: "\<not> is_dead sched_demo 0x508000" "procs sched_demo 0x508000 = Some ((demo_process 4 READY)\<lparr>rsp := 77\<rparr>)"
    by (simp_all add: is_dead_def is_delete_process_def sched_demo_fields demo_process_def)
  have n: "number_text 10 4 = bytes ''4''" by code_simp
  show ?thesis
    using kill_command_kills [OF sched_demo_good sched_demo_table c(1,3), of "(9, \<lambda>_. 0)" demo_app]
      kill_command_kills [OF sched_demo_good sched_demo_table c(2,4), of "(9, \<lambda>_. 0)" demo_app] e d n
    by (simp add: MAX_PROCESSES_def demo_process_def bytes_def)
qed

subsection \<open>Reporting\<close>

text \<open>What the kernel reports of process \<open>p\<close> with descriptor \<open>d\<close>.\<close>

definition report_of :: "kstate \<Rightarrow> addr \<Rightarrow> process \<Rightarrow> process_info" where
  "report_of t p d =
     \<lparr>is_foreground = (if foreground t = p then 1 else 0),
      pi_st = (if p = node_p (the (sched_nodes t (current t))) then 0 else if is_blocked_process d then 2 else 1),
      pi_pid = pid d, pi_ppid = ppid d, pi_name = cstr (name d), stack_address = stack_page d,
      mem_pages = data_pages_process d\<rparr>"

lemma get_process_info_run:
  assumes "sched_nodes t (current t) = Some c" "p \<noteq> NULL" "procs t p = Some d"
  shows "get_process_info p t = Ret (report_of t p d) t"
proof -
  have q: "quantum_update ((\<lambda>q. q - 1) \<circ> (\<lambda>q. q + 1)) c = c" by (cases c) simp
  have "(sched_nodes t)(current t \<mapsto> c) = sched_nodes t" using assms(1) by (rule map_upd_triv)
  then show ?thesis
    using assms by (simp add: q get_process_info_def assign_quantum_def unassign_quantum_def report_of_def status_code_def)
qed

lemma process_info_by_pid_run:
  assumes "table_ok t" "sched_nodes t (current t) = Some c"
  shows "get_process_info_by_pid a i t =
    (let p = process_table t ! i
     in if i < MAX_PROCESSES \<and> p \<noteq> NULL \<and> \<not> is_dead t p
        then Ret 1 (t\<lparr>umem := stored_info a (report_of t p (the (procs t p))) (umem t)\<rparr>) else Ret 0 t)"
proof (cases "i < MAX_PROCESSES \<and> process_table t ! i \<noteq> NULL \<and> \<not> is_dead t (process_table t ! i)")
  case True
  then obtain d where "procs t (process_table t ! i) = Some d" using table_entry_live [OF assms(1)] by blast
  then show ?thesis
    using True get_process_by_pid_run [OF assms(1), of i] get_process_info_run [OF assms(2)]
    by (simp add: get_process_info_by_pid_def write_process_info_run)
next
  case False
  then show ?thesis using get_process_by_pid_run [OF assms(1), of i] by (auto simp: get_process_info_by_pid_def Let_def)
qed

text \<open>
  C30. \<open>print\<close> and \<open>ps\<close> report a process truly: the descriptor goes through the kernel's copy, the record in
  user memory and the line in the program's buffer, and what is printed is its pid, name, parent,
  place, state, stack and pages, in this order; nothing but the program's record changes in the
  kernel. A line of 256 characters or more overruns the buffer, and for a pid that names no live
  process nothing is printed.
\<close>

theorem print_single_process_reports:
  assumes "table_ok t" "sched_nodes t (current t) = Some c" "i < MAX_PROCESSES"
  defines "p \<equiv> process_table t ! i"
  defines "live \<equiv> p \<noteq> NULL \<and> \<not> is_dead t p" and "d \<equiv> the (procs t p)"
  assumes "live \<Longrightarrow> data_pages_ok d \<and> length (filter (\<lambda>a. a \<noteq> NULL) (data_page d)) \<le> 63 \<and> length (cstr (name d)) \<le> 63 \<and>
    stack_page d < 2 ^ 31 \<and> (\<forall>a \<in> set (data_page d). a < 2 ^ 31)"
  defines "text \<equiv> process_line (report_of t p d) (filter (\<lambda>a. a \<noteq> NULL) (data_page d))"
  shows "print_single_process k pi (int i) s t =
    (if \<not> live then Ret ((), s) t
     else if length text < 256
       then Ret ((), s\<lparr>io := out_io (text @ bytes newline) (io s)\<rparr>) (t\<lparr>umem := stored_info pi (report_of t p d) (umem t)\<rparr>)
       else Fault Bad_pointer)"
proof -
  have r: "ret64 (int i) = i" using assms(3) by (simp add: ret64_def MAX_PROCESSES_def)
  have call: "get_process_info_u k (ret64 (int i)) pi t =
      (if live then Ret 1 (t\<lparr>umem := stored_info pi (report_of t p d) (umem t)\<rparr>) else Ret 0 t)"
  proof -
    have "get_process_info_u k (ret64 (int i)) pi = int_result (get_process_info_by_pid pi i)"
      by (simp add: r get_process_info_u_def trap_simps sys_process_info_wr_def sys_process_info_def as_int_kret)
    then show ?thesis
      using process_info_by_pid_run [OF assms(1,2), of pi i] assms(3)
      by (simp add: int_result_def swrap32_small Let_def p_def d_def live_def)
  qed
  show ?thesis
  proof (cases live)
    case False
    then show ?thesis using call by (simp add: print_single_process_def ubind_def ucall_def)
  next
    case True
    obtain e where "procs t p = Some e" using table_entry_live [OF assms(1,3)] True by (auto simp: live_def p_def)
    then have "pid d < MAX_PROCESSES" "ppid d < MAX_PROCESSES" using assms(1) by (auto simp: table_ok_def d_def)
    then have ids: "pid d < 128" "ppid d < 128" by (simp_all add: MAX_PROCESSES_def)
    let ?pages = "filter (\<lambda>a. a \<noteq> NULL) (data_page d)" and ?info = "report_of t p d"
    have ok: "data_pages_ok d" "length ?pages \<le> 63" "length (cstr (name d)) \<le> 63" "stack_page d < 2 ^ 31"
        "\<forall>a \<in> set ?pages. 0 < a \<and> a < 2 ^ 31"
      using assms(7) True by auto
    have pages: "mem_pages ?info = ?pages @ [NULL]" using data_pages_listed [OF ok(1)] by (simp add: report_of_def)
    have st: "pi_st ?info \<in> {0, 1, 2}" by (simp add: report_of_def)
    have small: "\<forall>a \<in> set (?pages @ [NULL]). a < 2 ^ 64" "\<forall>a \<in> set ?pages. a < 2 ^ 31"
      using ok(5) by (auto intro: less_trans [of _ "2 ^ 31"])
    have fields: "is_foreground ?info \<in> {0, 1}" "pi_pid ?info = pid d" "pi_ppid ?info = ppid d" "pi_name ?info = cstr (name d)"
        "stack_address ?info = stack_page d"
      by (simp_all add: report_of_def)
    have "info_fits ?info"
      unfolding info_fits_def pages fields(2-5) using ids ok(2-4) st fields(1) small(1) by (intro conjI) simp_all
    then obtain rest where m: "read_process_info (stored_info pi ?info (umem t)) pi = ?info\<lparr>mem_pages := ?pages @ NULL # rest\<rparr>"
      using read_stored_info [of ?info pi "umem t"] pages by auto
    let ?read = "?info\<lparr>mem_pages := ?pages @ NULL # rest\<rparr>"
    have "process_string ?read =
        (if length (process_line ?read ?pages) < 256 then Some (process_line ?read ?pages) else None)"
      by (rule process_string_exact) (use ids ok(4,5) st fields in simp_all)
    moreover have "process_line ?read ?pages = text" by (simp add: process_line_def text_def)
    ultimately have string: "process_string ?read = (if length text < 256 then Some text else None)" by simp
    have "0 \<notin> set text"
      unfolding text_def by (rule line_no_NUL) (use ids ok(4) st fields small(2) in simp_all)
    then have "shows_text (''%s'' @ newline) [Str_arg (text @ [0])] (text @ bytes newline)"
      using shows_string [OF shows_literals(3), of "text @ [0]"] by simp
    from uprint_run [OF this] show ?thesis
      using True call m string
      by (simp add: print_single_process_def ubind_def ucall_def udefined_def)
  qed
qed

theorem print_single_process_reports_witness:
  "\<exists>s' t'. print_single_process (9, \<lambda>_. 0) 0x600000 4 demo_app sched_demo = Ret ((), s') t' \<and>
     map snd (written (io s')) = bytes (''4  PPID 0 background READY Stack Address:  701004 '' @ newline)"
proof -
  let ?c = "\<lparr>quantum = 1, node_p = 0x501000, node_next = 0x504000\<rparr>" and ?d = "(demo_process 4 READY)\<lparr>rsp := 77\<rparr>"
  have t: "table_ok sched_demo" using sched_demo_good by (simp add: kernel_good_def)
  have c: "sched_nodes sched_demo (current sched_demo) = Some ?c" by (simp add: sched_demo_fields)
  have p: "process_table sched_demo ! 4 = 0x508000" "procs sched_demo 0x508000 = Some ?d" by (simp_all add: sched_demo_fields)
  have live: "\<not> is_dead sched_demo 0x508000" by (simp add: is_dead_def is_delete_process_def p(2) demo_process_def)
  have fg: "foreground sched_demo = NULL" by (simp add: sched_demo_def demo_state_def static_kstate_def)
  have n: "number_text 10 4 = bytes ''4''" "number_text 10 0 = bytes ''0''" by code_simp+
  have h: "number_text 16 0x701004 = bytes ''701004''" unfolding number_text_def of_nat_numeral by code_simp
  have d: "data_pages_ok ?d" "name ?d = replicate 64 0" "data_page ?d = replicate 64 0" "stack_page ?d = 0x701004"
    by (simp_all add: demo_process_def data_pages_ok_def MAX_DATA_PAGES_def filter_replicate)
  have ln: "process_line (report_of sched_demo 0x508000 ?d) [] =
      bytes ''4  PPID 0 background READY Stack Address:  701004 ''"
    by (simp add: process_line_def report_of_def sched_demo_fields fg d n h state_def is_blocked_process_def
        demo_process_def bytes_def cstr_def)
  show ?thesis
    using print_single_process_reports [OF t c, where i = "4" and k = "(9, \<lambda>_. 0)" and pi = "0x600000" and s = demo_app] p live d ln
    by (simp add: MAX_PROCESSES_def filter_replicate cstr_def out_io_def demo_app_def static_stdio_def comp_def bytes_def)
qed

end
