(* ===== verification/TestCommands.thy ===== *)
theory TestCommands
  imports Commands
begin

text \<open>
  The commands of \<open>commands.c\<close> that explain and try out the system: \<open>help\<close>, \<open>write_test\<close>, \<open>read_test\<close> and
  \<open>testFifos\<close> with its two processes, and the instructions of the demonstrations. Addresses of literals, of
  local variables and of arguments are parameters.
\<close>

section \<open>Texts\<close>

text \<open>Lines without a conversion, each printed on its own.\<close>

definition print_lines :: "string list \<Rightarrow> unit program" where
  "print_lines ls = ufor ls (\<lambda>l. uprint l [])"

definition help_command :: "int \<Rightarrow> int program" where
  "help_command amount = useq
     [print_lines
        [''HELP FUNCTION -- shows the principal User Commands and its description'' @ newline @ newline,
         '' echo [args...]'',
         ''    Write arguments to the standard output. Display the args, separated by a single space character'' @ newline,
         ''                   and followed by a newline, on the standard output.'' @ newline,
         '' clear                Clear the terminal screen.'' @ newline,
         '' time                 Display the current time on the standard output using 24hr format [hh:mm:ss]'' @ newline,
         '' set_GMT [GMT]        Set new Greenwich Mean Time. Displays new current time afterwards'' @ newline,
         '' fractals [*option]   Display a new fractal drawing on the standard output.'' @ newline],
      uprint (''                      If a specific fractal is desired, a number from 1 to %d may be sent as parameter.'' @ newline)
        [Int_arg (word_of_int amount)],
      print_lines
        [''                      If no parameter is sent a random fractal will be drawed.'' @ newline,
         '' char_color [r,g,b]   Changes character color.'' @ newline,
         '' bg_color   [r,g,b]   Changes background color. Clears screen.'' @ newline,
         '' prodcon    [size]    Commences producer consumer problem resolved with fifos.'' @ newline,
         '' prodcon2   [size]    Commences producer consumer problem resolved with variable conditions.'' @ newline],
      uprint ('' philo      [N]       Commences philosophers problem with N philosophers. Max %d.'' @ newline)
        [Int_arg (of_nat MAX_PHILOSOPHERS)],
      print_lines
        ['' philogui   [N]       Commences philosophers problem with graphics.'' @ newline,
         '' shell                User shell.'' @ newline,
         '' fg         [PID]     Gives foreground to process.'' @ newline]]
     (ureturn VALID)"

definition print_colors_instructions :: "unit program" where
  "print_colors_instructions = print_lines
     [''What do the colours mean?'' @ newline, ''Red - EATING'' @ newline, ''Yellow - HUNGRY'' @ newline,
      ''Blue - THINKING'' @ newline, ''Grey - About to be removed'' @ newline]"

definition print_command_list :: "unit program" where
  "print_command_list = useq
     [print_lines
        [newline @ ''Commands'' @ newline,
         ''h     Prints this help.'' @ newline,
         ''w     Adds a philosopher.'' @ newline,
         ''s     Removes a philosopher.'' @ newline,
         ''e     Removes all philosophers instantly. Terminates philosophers problem.'' @ newline,
         ''q     Removes philosophers one by one. Terminates philosophers problem.'' @ newline,
         ''p     Toggles pause. Philosophers may not be modified during pause.'' @ newline,
         ''g     Toggles graphic and text mode.'' @ newline]]
     (uset (io_update (putchar 10)))"

text \<open>The texts of the two programs with a producer and a consumer.\<close>

definition prodcon_command_list :: "unit program" where
  "prodcon_command_list = useq
     [print_lines
        [newline @ ''Commands'' @ newline,
         ''h   Prints this help.'' @ newline,
         ''a   Increases producer sleep.'' @ newline,
         ''s   Decreases producer sleep.'' @ newline,
         ''z   Increases consumer sleep.'' @ newline,
         ''x   Decreases consumer sleep.'' @ newline,
         ''q   Ends producer consumer problem.'' @ newline]]
     (uset (io_update (putchar 10)))"

definition prodcon2_command_list :: "unit program" where
  "prodcon2_command_list = useq
     [print_lines
        [newline @ ''Commands'' @ newline,
         ''h   Prints this help.'' @ newline,
         ''p   Toggles pause.'' @ newline,
         ''a   Increases producer sleep.'' @ newline,
         ''s   Decreases producer sleep.'' @ newline,
         ''z   Increases consumer sleep.'' @ newline,
         ''x   Decreases consumer sleep.'' @ newline,
         ''q   Ends producer consumer problem.'' @ newline]]
     (uset (io_update (putchar 10)))"

definition print_speeds :: "int \<Rightarrow> int \<Rightarrow> unit program" where
  "print_speeds p c = useq
     [uprint (''Producer sleep: %d'' @ newline) [Int_arg (word_of_int p)]]
     (uprint (''Consumer sleep: %d'' @ newline) [Int_arg (word_of_int c)])"

section \<open>Trying out a fifo\<close>

text \<open>\<open>arg_at i\<close> is the pointer \<open>argv [i]\<close>, \<open>space\<close> the address of the literal with a blank.\<close>

definition write_test :: "kernel \<Rightarrow> addr \<Rightarrow> addr \<Rightarrow> (nat \<Rightarrow> addr) \<Rightarrow> argv \<Rightarrow> int program" where
  "write_test k nm space arg_at argv =
     ubind (ucall (fifo_open_u k nm)) (\<lambda>fds.
     useq [uprint (''Escribiendo a fifo con fds %d'' @ newline) [Int_arg (word_of_int fds)],
           ufor [0..<length argv] (\<lambda>i.
             ubind (arg argv i) (\<lambda>a. ubind (udefined (str_len a)) (\<lambda>len.
             ubind (ucall (write_u k (ret64 fds) (arg_at i) len)) (\<lambda>_.
             ubind (ucall (write_u k (ret64 fds) space 1)) (\<lambda>_. ureturn ())))))]
       (ureturn VALID))"

text \<open>\<open>buf\<close> is the address of \<open>char buffer[5]\<close>; \<open>buffer[n]\<close> is outside of it when the read fails.\<close>

definition read_test :: "kernel \<Rightarrow> addr \<Rightarrow> addr \<Rightarrow> int program" where
  "read_test k nm buf =
     ubind (ucall (fifo_open_u k nm)) (\<lambda>fds.
     ubind (uprint (''Leyendo de fifo con fds %d'' @ newline) [Int_arg (word_of_int fds)]) (\<lambda>_.
     ubind (ucall (read_u k (ret64 fds) buf 4)) (\<lambda>n.
     ubind (udefined (if 0 \<le> n \<and> n < 5 then Some (nat n) else None)) (\<lambda>n.
     ubind (ucall (write_user (buf + n) [0])) (\<lambda>_.
     ubind (ucall (kgets (\<lambda>s. memory_bytes (umem s) buf 5))) (\<lambda>str.
     useq [uprint (''Lei %s'' @ newline) [Str_arg str]] (ureturn VALID)))))))"

text \<open>
  \<open>execpn\<close> as calls: the page of arguments has the function and a null pointer. \<open>start\<close> is the address of
  \<open>executer\<close>.
\<close>

definition execpn_u :: "kernel \<Rightarrow> u64 \<Rightarrow> addr \<Rightarrow> addr \<Rightarrow> int program" where
  "execpn_u k function_ptr start nm =
     ubind (ucall (malloc k 0x1000)) (\<lambda>memory_page.
     ubind (ucall (kmodify (umem_update (\<lambda>m. store_words m memory_page [function_ptr, 0])))) (\<lambda>_.
     ubind (ucall (exec_u k start memory_page nm)) (\<lambda>pid_new.
     ubind (ucall (yield_u k)) (\<lambda>_.
     ubind (ucall (free k memory_page)) (\<lambda>_. ureturn pid_new)))))"

definition testFifos :: "kernel \<Rightarrow> u64 \<Rightarrow> u64 \<Rightarrow> addr \<Rightarrow> addr \<Rightarrow> addr \<Rightarrow> int program" where
  "testFifos k read_ptr write_ptr start read_nm write_nm =
     ubind (execpn_u k read_ptr start read_nm) (\<lambda>_.
     ubind (ucall (yield_u k)) (\<lambda>_.
     ubind (execpn_u k write_ptr start write_nm) (\<lambda>_. ureturn VALID)))"

text \<open>
  The two processes never return: \<open>rounds\<close> is the number of turns of the endless loop that are
  looked at, \<open>c\<close> the address of the variable.
\<close>

definition processWrite :: "nat \<Rightarrow> kernel \<Rightarrow> addr \<Rightarrow> addr \<Rightarrow> unit program" where
  "processWrite rounds k nm c =
     ubind (ucall (fifo_open_u k nm)) (\<lambda>fd.
     ubind (ucall (write_user c (bytes ''A''))) (\<lambda>_.
     ufor [0..<rounds] (\<lambda>_.
       useq [uprint (''Trying to write'' @ newline) [], sleep_program k 5000,
             ubind (ucall (write_u k (ret64 fd) c 1)) (\<lambda>_. ureturn ())]
         (uprint (''WROTE'' @ newline) []))))"

definition processRead :: "nat \<Rightarrow> kernel \<Rightarrow> addr \<Rightarrow> addr \<Rightarrow> unit program" where
  "processRead rounds k nm c =
     ubind (ucall (fifo_open_u k nm)) (\<lambda>fd.
     ufor [0..<rounds] (\<lambda>_.
       useq [sleep_program k 1000, uprint (''Trying to read'' @ newline) [],
             ubind (ucall (read_u k (ret64 fd) c 1)) (\<lambda>_. ureturn ())]
         (ubind (ucall (kgets (\<lambda>s. umem s c))) (\<lambda>b.
            uprint (''READ %c ASCII %d'' @ newline) [Int_arg (scast b), Int_arg (scast b)]))))"

section \<open>Facts\<close>

lemma print_lines_run:
  assumes "list_all (list_all (\<lambda>c. of_nat (of_char c) \<noteq> (37 :: byte) \<and> of_nat (of_char c) \<noteq> (0 :: byte))) ls"
  shows "print_lines ls s t = Ret ((), s\<lparr>io := out_io (bytes (concat ls)) (io s)\<rparr>) t"
  using assms
proof (induction ls arbitrary: s)
  case Nil
  then show ?case by (simp add: print_lines_def kreturn_def bytes_def)
next
  case (Cons l ls)
  then have "uprint l [] s t = Ret ((), s\<lparr>io := out_io (bytes l) (io s)\<rparr>) t"
    by (intro uprint_run shows_plain) simp
  with Cons show ?case
    by (simp add: print_lines_def ubind_def bytes_def)
qed

text \<open>The speeds come out as decimal numbers.\<close>

lemma print_speeds_shown:
  assumes "p < 2 ^ 31" "c < 2 ^ 31"
  shows "print_speeds (int p) (int c) x t = Ret ((), x\<lparr>io := out_io (bytes ''Consumer sleep: '' @ number_text 10 c @ bytes newline)
      (out_io (bytes ''Producer sleep: '' @ number_text 10 p @ bytes newline) (io x))\<rparr>) t"
proof -
  have "shows_text (''Producer sleep: %d'' @ newline) [Int_arg (word_of_int (int p))]
      (bytes ''Producer sleep: '' @ number_text 10 p @ bytes newline)"
    using shows_prefix [OF _ shows_number [OF shows_literals(3) assms(1)], of "''Producer sleep: ''"] by simp
  moreover have "shows_text (''Consumer sleep: %d'' @ newline) [Int_arg (word_of_int (int c))]
      (bytes ''Consumer sleep: '' @ number_text 10 c @ bytes newline)"
    using shows_prefix [OF _ shows_number [OF shows_literals(3) assms(2)], of "''Consumer sleep: ''"] by simp
  ultimately show ?thesis by (simp add: print_speeds_def program_simps uprint_run)
qed

text \<open>A read that fails makes \<open>read_test\<close> write outside its buffer.\<close>

lemma read_test_outside:
  assumes "fifo_open_u k nm t = Ret fds t1" "c_int fds" "0 \<le> fds" "read_u k (ret64 fds) buf 4 t1 = Ret (-1) t2"
  shows "read_test k nm buf s t = Fault Bad_pointer"
proof -
  obtain n where n: "fds = int n" using assms(3) by (rule nonneg_int_cases)
  then have "n < 2 ^ 31" using assms(2) by (simp add: c_int_def)
  then have "shows_text (''Leyendo de fifo con fds %d'' @ newline) [Int_arg (word_of_int fds)]
      (bytes ''Leyendo de fifo con fds '' @ number_text 10 n @ bytes newline)"
    using shows_prefix [OF _ shows_number [OF shows_literals(3)], of "''Leyendo de fifo con fds ''" n] n by simp
  from uprint_run [OF this] show ?thesis
    using assms(1,4) by (simp add: read_test_def program_simps kfault_def)
qed

end
