(* ===== verification/UserLib.thy ===== *)
theory UserLib
  imports CLib
begin

text \<open>
  The userland has its own copy of the library: \<open>SampleCodeModule/ctype.c\<close>, and \<open>memset\<close>, \<open>memcpy\<close>, \<open>itoa\<close>
  and \<open>atoi\<close> of \<open>stdlib.c\<close>. They are translated from there, and shown to compute what the kernel's
  functions compute (\<open>user_copies\<close>); the theories of the userland use the names without suffix.
  For the string functions this does not hold (\<open>strncmp_kernel_userland\<close> in \<open>CStrings\<close>).
\<close>

section \<open>Character classes\<close>

definition isdigit_u :: "int \<Rightarrow> bool" where
  "isdigit_u c \<longleftrightarrow> c \<ge> 48 \<and> c \<le> 57"

definition islower_u :: "int \<Rightarrow> bool" where
  "islower_u c \<longleftrightarrow> c \<ge> 97 \<and> c \<le> 122"

definition isupper_u :: "int \<Rightarrow> bool" where
  "isupper_u c \<longleftrightarrow> c \<ge> 65 \<and> c \<le> 90"

definition isalpha_u :: "int \<Rightarrow> bool" where
  "isalpha_u c \<longleftrightarrow> islower_u c \<or> isupper_u c"

definition isalnum_u :: "int \<Rightarrow> bool" where
  "isalnum_u c \<longleftrightarrow> isalpha_u c \<or> isdigit_u c"

definition isblank_u :: "int \<Rightarrow> bool" where
  "isblank_u c \<longleftrightarrow> c = 9 \<or> c = 32"

definition isprint_u :: "int \<Rightarrow> bool" where
  "isprint_u c \<longleftrightarrow> c > 0x1F \<and> c \<noteq> 0x7F"

definition iscntrl_u :: "int \<Rightarrow> bool" where
  "iscntrl_u c \<longleftrightarrow> \<not> isprint_u c"

definition isgraph_u :: "int \<Rightarrow> bool" where
  "isgraph_u c \<longleftrightarrow> isprint_u c \<and> c \<noteq> 32"

definition ispunct_u :: "int \<Rightarrow> bool" where
  "ispunct_u c \<longleftrightarrow> isgraph_u c \<and> \<not> isalnum_u c"

definition isspace_u :: "int \<Rightarrow> bool" where
  "isspace_u c \<longleftrightarrow> isblank_u c \<or> c = 11 \<or> c = 12 \<or> c = 13 \<or> c = 10"

definition isxdigit_u :: "int \<Rightarrow> bool" where
  "isxdigit_u c \<longleftrightarrow> isdigit_u c \<or> (c \<ge> 97 \<and> c \<le> 102) \<or> (c \<ge> 65 \<and> c \<le> 70)"

lemmas user_ctype_defs = isdigit_u_def islower_u_def isupper_u_def isalpha_u_def isalnum_u_def isblank_u_def
  isprint_u_def iscntrl_u_def isgraph_u_def ispunct_u_def isspace_u_def isxdigit_u_def

named_theorems user_copies \<open>the functions of the userland are those of the kernel\<close>

lemma ctype_copies [user_copies]:
  "isdigit_u = isdigit" "islower_u = islower" "isupper_u = isupper" "isalpha_u = isalpha" "isalnum_u = isalnum"
  "isblank_u = isblank" "isprint_u = isprint" "iscntrl_u = iscntrl" "isgraph_u = isgraph" "ispunct_u = ispunct"
  "isspace_u = isspace" "isxdigit_u = isxdigit"
  by (simp_all add: fun_eq_iff user_ctype_defs ctype_defs)

section \<open>Memory blocks\<close>

primrec memset_u_loop :: "memory \<Rightarrow> addr \<Rightarrow> byte \<Rightarrow> nat \<Rightarrow> memory" where
  "memset_u_loop m dst chr 0 = m"
| "memset_u_loop m dst chr (Suc n) = memset_u_loop (m(dst + n := chr)) dst chr n"

definition memset_u :: "memory \<Rightarrow> addr \<Rightarrow> int \<Rightarrow> nat \<Rightarrow> memory" where
  "memset_u m destination c len = memset_u_loop m destination (word_of_int c) len"

text \<open>The loops run over an index here; the kernel's definitions move the pointers.\<close>

definition memcpy_u :: "memory \<Rightarrow> addr \<Rightarrow> addr \<Rightarrow> nat \<Rightarrow> memory" where
  "memcpy_u m destination src len =
     (if destination mod 4 = 0 \<and> src mod 4 = 0 \<and> len mod 4 = 0
      then fold (\<lambda>i m. store32 m (destination + 4 * i) (load32 m (src + 4 * i))) [0..<len div 4] m
      else fold (\<lambda>i m. m(destination + i := m (src + i))) [0..<len] m)"

lemma fold_index: "fold f [0..<Suc n] x = fold (\<lambda>i. f (Suc i)) [0..<n] (f 0 x)"
  by (simp add: upt_conv_Cons map_Suc_upt [symmetric] fold_map comp_def del: upt_Suc)

lemma copy_loops_indexed:
  "fold (\<lambda>i m. store32 m (d + 4 * i) (load32 m (s + 4 * i))) [0..<k] m = copy_words k d s m"
  "fold (\<lambda>i m. m(d + i := m (s + i))) [0..<k] m = copy_bytes k d s m"
proof (induction k arbitrary: d s m)
  case (Suc k)
  { case 1 show ?case using Suc(1) [of "d + 4" "s + 4"] by (simp only: fold_index) (simp add: algebra_simps) }
  { case 2 show ?case using Suc(2) [of "d + 1" "s + 1"] by (simp only: fold_index copy_bytes.simps add_0_right add_Suc_right add_Suc One_nat_def) }
qed simp_all

lemma memory_copies [user_copies]: "memset_u = memset" "memcpy_u = memcpy"
proof -
  have "memset_u_loop m dst chr n = memset_loop m dst chr n" for m dst chr n
    by (induction n arbitrary: m) simp_all
  then show "memset_u = memset" by (simp add: fun_eq_iff memset_u_def memset_def)
  show "memcpy_u = memcpy" by (simp add: fun_eq_iff memcpy_u_def memcpy_def copy_loops_indexed)
qed

section \<open>Numbers and text\<close>

text \<open>The digits of \<open>itoa\<close> from the least significant on, then reversed in place.\<close>

partial_function (option) itoa_u_digits :: "int \<Rightarrow> int \<Rightarrow> byte list \<Rightarrow> byte list option" where
  "itoa_u_digits base v p =
     (if base = 0 then None
      else let remainder = v smod base;
               p = p @ [word_of_int (if remainder < 10 then remainder + 48 else remainder + 65 - 10)]
           in if v sdiv base = 0 then Some p else itoa_u_digits base (v sdiv base) p)"

declare itoa_u_digits.simps [code]

definition itoa_u :: "u32 \<Rightarrow> int \<Rightarrow> (byte list \<times> nat) option" where
  "itoa_u v base =
     (let neg = (sint v < 0 \<and> base = 10); v1 = (if neg then - v else v)
      in Option.bind (itoa_u_digits base (sint v1) []) (\<lambda>ds.
           Some ((if neg then [45] else []) @ swap_loop ds 0 (length ds - 1) @ [0],
                 (if neg then 1 else 0) + length ds)))"

fun skip_spaces_u :: "byte list \<Rightarrow> byte list option" where
  "skip_spaces_u [] = None"
| "skip_spaces_u (c # s) = (if isspace_u (sint c) then skip_spaces_u s else Some (c # s))"

fun atoi_u_digits :: "byte list \<Rightarrow> u32 \<Rightarrow> u32 option" where
  "atoi_u_digits [] num = None"
| "atoi_u_digits (c # s) num =
     (if c \<noteq> 0 \<and> isdigit_u (sint c) then atoi_u_digits s (num * 10 + scast c - 48) else Some num)"

definition atoi_u :: "byte list \<Rightarrow> u32 option" where
  "atoi_u str =
     (case skip_spaces_u str of
        None \<Rightarrow> None
      | Some [] \<Rightarrow> None
      | Some (c # s) \<Rightarrow>
          let (str, sign) = (if c = 45 then (s, -1) else if c = 43 then (s, 1) else (c # s, 1))
          in map_option (\<lambda>num. num * sign) (atoi_u_digits str 0))"

text \<open>
  The loop of the userland adds its digits at the end, the kernel's definition puts them in front of
  the rest. They agree where they return, and neither returns where the other does not.
\<close>

lemma user_digits_of_kernel:
  assumes "itoa_digits base v = Some ds"
  shows "itoa_u_digits base v p = Some (p @ ds)"
proof -
  have "\<forall>p. itoa_u_digits base v p = Some (p @ ds)"
  proof (rule itoa_digits.raw_induct [OF _ assms, of "\<lambda>base v ds. \<forall>p. itoa_u_digits base v p = Some (p @ ds)"])
    fix rec base v ds
    assume "\<And>base v ds. rec base v = Some ds \<Longrightarrow> \<forall>p. itoa_u_digits base v p = Some (p @ ds)"
      and "(if base = 0 then None
            else if v sdiv base = 0 then Some [digit_char (v smod base)]
            else Option.bind (rec base (v sdiv base)) (\<lambda>ds. Some (digit_char (v smod base) # ds))) = Some ds"
    then show "\<forall>p. itoa_u_digits base v p = Some (p @ ds)"
      by (subst itoa_u_digits.simps) (auto simp: Let_def digit_char_def split: if_splits bind_splits)
  qed
  then show ?thesis by blast
qed

lemma kernel_digits_of_user:
  assumes "itoa_u_digits base v p = Some r"
  shows "\<exists>ds. itoa_digits base v = Some ds"
proof (rule itoa_u_digits.raw_induct [OF _ assms, of "\<lambda>base v p r. \<exists>ds. itoa_digits base v = Some ds"])
  fix rec base v p r
  assume "\<And>base v p r. rec base v p = Some r \<Longrightarrow> \<exists>ds. itoa_digits base v = Some ds"
    and "(if base = 0 then None
          else let remainder = v smod base;
                   p = p @ [word_of_int (if remainder < 10 then remainder + 48 else remainder + 65 - 10)]
               in if v sdiv base = 0 then Some p else rec base (v sdiv base) p) = Some r"
  then show "\<exists>ds. itoa_digits base v = Some ds"
    by (subst itoa_digits.simps) (fastforce simp: Let_def split: if_splits)
qed

lemma digits_copy: "itoa_u_digits base v [] = itoa_digits base v"
proof (cases "itoa_digits base v")
  case None
  then show ?thesis using kernel_digits_of_user [of base v "[]"] by (cases "itoa_u_digits base v []") auto
next
  case (Some ds)
  then show ?thesis using user_digits_of_kernel [of base v ds "[]"] by simp
qed

lemma number_copies [user_copies]: "itoa_u = itoa" "atoi_u = atoi"
proof -
  show "itoa_u = itoa"
    by (simp add: fun_eq_iff itoa_u_def itoa_def digits_copy Let_def map_option_case split: option.splits)
  have "skip_spaces_u s = skip_spaces s" for s by (induction s) (simp_all add: ctype_copies)
  moreover have "atoi_u_digits s n = atoi_digits s n" for s n by (induction s arbitrary: n) (simp_all add: ctype_copies)
  ultimately show "atoi_u = atoi"
    by (simp add: fun_eq_iff atoi_u_def atoi_def Let_def split: option.splits list.splits)
qed

text \<open>In a base other than ten a negative number has negative remainders: -1 is printed as a slash.\<close>

lemma negative_hexadecimal: "itoa_u (-1) 16 = Some ([47, 0], 1)"
  unfolding itoa_u_def by (subst itoa_u_digits.simps) (simp add: swap_loop.simps sdiv_pos Let_def)

end
