(* ===== verification/Spec2Isabelle.thy ===== *)
theory Spec2Isabelle
  imports MutexContract Boot BmfsTool ContextSwitch RoundTable TestCommands UserLib
begin

text \<open>
  nanOS is a teaching kernel for 64-bit PCs (\<open>src/nanOS/Kernel\<close>) with a userland image
  (\<open>src/nanOS/Userland/SampleCodeModule\<close>: library, shell, commands and demonstrations), a data module
  (\<open>SampleDataModule\<close>), the tool that packs all into one file (\<open>src/nanOS/Toolchain/ModulePacker\<close>) and
  the tool that builds the disk image with its file system (\<open>src/nanOS/Bootloader/BMFS\<close>). This
  development models the C code of all of them, with the assembly that enters and leaves it, and proves
  what makes its parts correct.

  \<^bold>\<open>How the program works.\<close> The packed image is loaded by Pure64; \<open>kernel.c\<close> copies the modules to
  their addresses (\<open>moduleLoader.c\<close>), builds the page stacks (\<open>memoryAllocator.c\<close>), the process
  table and the tables of mutexes, conditions and fifos, installs the interrupt gates and
  starts \<open>init\<close>, which starts the shell. From then on the kernel runs only inside interrupts: the
  timer wakes sleepers and switches to the next process of a ring (\<open>processManager.c\<close>), the keyboard
  stores scancodes, and \<open>int 80h\<close> enters the table of system calls. A process blocks by marking its
  descriptor, being queued on a mutex, condition, fifo or the timer's list, and yielding. Queues take
  their nodes from the page allocator, and the allocator locks itself with a mutex, whose queue needs
  pages: \<open>kernelMutex.c\<close>, \<open>queueADT.c\<close> and \<open>memoryAllocator.c\<close> are mutually recursive.

  \<^bold>\<open>Conventions.\<close> \<open>Prelude\<close> fixes the C types (bytes, 32- and 64-bit words, addresses; an \<open>int\<close> is an
  integer whose wrap is written where it can happen), buffers whose reads and writes outside
  their bounds are \<open>None\<close>, and the collections \<open>kernel_simps\<close> and \<open>kernel_invs\<close>. Functions of the model
  carry the names of the C functions; a suffix tells copies apart: \<open>_u\<close> is userland, \<open>_n\<close> counts a
  loop or a depth down, \<open>_with\<close> takes the callee that ties the recursion. Undefined behaviour and
  reads outside an object are faults, never a made-up value.

  \<^bold>\<open>Kernel state and runs\<close> (\<open>KState\<close>). The record \<open>kstate\<close> holds the static variables of every
  kernel file and the objects they point to: processes, ring nodes and read requests are maps from
  addresses, user memory is \<open>umem\<close>. Interrupt gates clear the interrupt flag, so kernel code is not
  interrupted: an operation is a state transformer whose run returns (\<open>Ret\<close>), suspends in the yield
  interrupt and can be resumed in any state (\<open>Yld\<close>), leaves for another process by switching stacks
  (\<open>Leave\<close>), or faults. The one place that opens interrupts, \<open>_sti\<close> in \<open>sys_read\<close>, is a suspension of the
  run as well; an argument bounds the turns of its loop.

  \<^bold>\<open>The library of the kernel.\<close>
  \<^item> \<open>CType\<close>, \<open>CStrings\<close>, \<open>CLib\<close>: \<open>ctype.c\<close>, \<open>strings.c\<close>, \<open>lib.c\<close> and \<open>uintToBase\<close>. The two loops of
    \<open>memcpy\<close> compute the same copy, \<open>atoi\<close> undoes \<open>itoa\<close>, the comparisons of kernel and userland differ by
    one byte. \<open>UserLib\<close>: the copies of the userland, equal to the kernel's.
  \<^item> \<open>MemoryAllocator\<close>: \<open>memoryAllocator.c\<close> without its locks. Both page stacks interpret the
    locale \<open>page_pool\<close>, in which the ownership invariant is proved over all histories of requests:
    no page is handed out twice.
  \<^item> \<open>QueueADT\<close>: \<open>queueADT.c\<close>, \<open>intLinkedlistADT.c\<close>. The linked queue interprets \<open>fifo_queue\<close>, whose
    operations act on the sequence of pages and elements.
  \<^item> \<open>CircularBuffer\<close>: the ring of \<open>fifo.c\<close> interprets \<open>byte_stream\<close>: what is read is what was accepted.
  \<^item> \<open>Process\<close>: \<open>process.c\<close>, the descriptor with its data pages, descriptors and first stack frame,
    which the scheduler's \<open>iretq\<close> resumes at the entry point with the argument in \<open>rdi\<close>.

  \<^bold>\<open>Blocking objects and scheduling.\<close>
  \<^item> \<open>KernelMutex\<close>: \<open>kernelMutex.c\<close> with the locked allocator. \<open>KernelQueue\<close>: the locale
    \<open>page_allocator\<close>, interpreted by the allocator at its full depth and at each smaller depth, and
    \<open>state_queue\<close>, which extends it with a queue kept in the kernel state; mutexes, conditions and
    fifos interpret it. \<open>MutexContract\<close>: an abstract mutex (held, who waits), the refinement of \<open>mutex_lock\<close>
    and \<open>mutex_unlock\<close>, and mutual exclusion over every history (\<open>mutex_reach\<close>).
  \<^item> \<open>CondVar\<close>, \<open>Fifo\<close>: \<open>condVariable.c\<close>, \<open>fifo.c\<close>. No wake-up is lost between queueing and release; a
    broadcast wakes everybody; a write serves the waiting readers in order.
  \<^item> \<open>ProcessManager\<close>, \<open>Scheduler\<close>, \<open>Creation\<close>, \<open>Timer\<close>: \<open>processManager.c\<close>, the process table of
    \<open>process.c\<close>, \<open>timer.c\<close>. The ring of nodes is kept by every operation (\<open>sched_ok\<close>), a switch goes to the
    first process that can run and frees the killed ones it passes, and each switch brings
    any other runnable process strictly closer.

  \<^bold>\<open>Devices and calls.\<close>
  \<^item> \<open>Video\<close>, \<open>Font\<close>, \<open>Console\<close>, \<open>Keyboard\<close>: \<open>videoDriver.c\<close>, the whole bitmap of \<open>font.c\<close>,
    \<open>naiveConsole.c\<close>, \<open>keyboardDriver.c\<close>. The frame buffer is a region of memory, its base and the size of the
    screen are what the boot loader left. Printing stays on the screen; keys come out in order.
  \<^item> \<open>SystemCalls\<close>: the dispatch table and every call and wrapper of \<open>systemCalls.c\<close>, on 64-bit
    registers, with \<open>process_info.c\<close>. \<open>UserSyscalls\<close>: the stubs of \<open>syscalls.c\<close> through \<open>int80h\<close>; a call
    of the user function is the kernel operation of its name.
  \<^item> \<open>ModuleImage\<close>, \<open>Idt\<close>, \<open>Boot\<close>: the packer's \<open>main.c\<close>, \<open>moduleLoader.c\<close>, \<open>idtLoader.c\<close>, \<open>handlers.c\<close>,
    \<open>kernel.c\<close>, \<open>init.c\<close>. What is packed is what is loaded.
  \<^item> \<open>ContextSwitch\<close>: \<open>interrupts.asm\<close> and \<open>int80h.asm\<close> on a processor with registers and a stack in
    memory, around the C handlers. A process that is preempted goes on with the registers it had, once
    the scheduler chooses it again; a system call passes its arguments and its result.

  \<^bold>\<open>Userland.\<close>
  \<^item> \<open>Stdio\<close>, \<open>Shell\<close>: \<open>stdio.c\<close>, \<open>shell.c\<close>, \<open>executer.c\<close>. A line typed reaches the program as its words.
  \<^item> \<open>UserReports\<close>, \<open>Commands\<close>: \<open>process_info.c\<close>, \<open>ipc_info.c\<close>, the commands of \<open>commands.c\<close>, \<open>time.c\<close>,
    \<open>random.c\<close>, as programs over the stubs and the kernel: \<open>kill\<close> kills the process named, \<open>ps\<close> prints
    what the kernel knows. \<open>TestCommands\<close>: the help texts and the commands that try out the terminal and
    the fifos.
  \<^item> \<open>Philosophers\<close>, \<open>ProducerConsumer\<close>: \<open>philo.c\<close>, \<open>producerConsumer.c\<close>, \<open>producerConsumer2.c\<close> as step
    relations of processes, one step between two synchronisations, over what the mutexes, conditions
    and fifos of the kernel promise; invariants hold in every reachable state.
  \<^item> \<open>Graphics\<close>: the integer algorithms of \<open>graphics.c\<close>, \<open>paint.c\<close> and the colours of \<open>fractals.c\<close>.
  \<^item> \<open>Fractals\<close>: \<open>writer.c\<close>, which writes the table of fractals, the userland's \<open>main\<close>, which finds it in
    memory, and the drawing in \<open>fractals.c\<close>. The operations on floating-point numbers are an argument
    (the record \<open>arithmetic\<close>), the constants of the table are bit patterns. The table read is the
    table written, and the command paints each point of the fractal chosen.
  \<^item> \<open>RoundTable\<close>: \<open>math.c\<close> and the table of \<open>philosophersGUI.c\<close>, over the same kind of argument (\<open>fpu\<close>),
    with its instance \<open>real_fpu\<close> on the real numbers. Without rounding the series are sine and
    cosine up to a bound, and in every reachable state no fork is drawn as held by two philosophers.

  \<^bold>\<open>The disk image.\<close> \<open>Bmfs\<close> has the directory of the image as 64 entries, and the operations of \<open>bmfs.c\<close>
  on it; \<open>BmfsTool\<close> has \<open>initialize\<close> and the command line. The image and the local files are byte lists,
  what the host can refuse is an argument. \<open>BmfsFiles\<close> proves that a good directory keeps its files
  apart and their contents, for histories in which a file is created only while the directory has an
  entry left and either an area is free or no entry is deleted, and shows what happens otherwise.

  \<^bold>\<open>Bounds.\<close> \<open>QUEUE_BOUND\<close> is 256: a queue and the ring hold a page for each node and the pool has 255,
  so a loop that follows one ends before; properties ask for fewer nodes than the bound where the pool
  is not mentioned. \<open>CALL_DEPTH\<close> is 64: with a free page the recursion between allocator and mutex is one
  call deep, and with none it has no end (\<open>page_exhaustion_overflows\<close>), for any bound. \<open>LOCK_TRIES\<close> is
  256: \<open>lock_array\<close> yields in a loop while another process is inside; every state in which
  interrupts are off has the array unlocked, and then one try is enough. Loops over C integers
  (\<open>itoa_digits\<close>, \<open>uint_digits\<close>, \<open>line_loop\<close>, the ellipses) are partial functions in \<open>option\<close>, and the
  properties about them prove that they return.

  \<^bold>\<open>Not modelled.\<close> Port accesses (\<open>keyboard.asm\<close>, \<open>rtc.asm\<close>) and the processor's vendor string
  (\<open>libasm.asm\<close>): what they return is an argument. The instructions of \<open>interrupts.asm\<close> and \<open>int80h.asm\<close> are
  modelled, those of the exchange that takes a lock (\<open>test_lock.asm\<close>) by their effect, in the
  definitions that use it; \<open>loader.asm\<close>, which calls \<open>main\<close> on the boot stack, by where \<open>Boot\<close> starts. Local
  variables that C functions keep on the stack are not part of memory. Of the progress display of
  \<open>initialize\<close> only the last line is there. Floating-point numbers are arguments: no rounding is
  proved. The output of \<open>main\<close> behind the start of \<open>init\<close> is never reached and has no
  definition. Pure64, which starts the machine, is a program of another project.
\<close>

end
